(* ===== verification/Prelude.thy ===== *)
theory Prelude
  imports Main "HOL-Library.Word"
begin

text \<open>
  Shared vocabulary of the development: machine integers, the result type of
  kernel code, its sequencing operator and Hoare-style predicates over
  results, and the generic facts on lists and words that the component
  theories use.
\<close>

section \<open>Machine integers\<close>

type_synonym byte = "8 word"
type_synonym u16 = "16 word"
type_synonym u32 = "32 word"
type_synonym u64 = "64 word"

section \<open>Results of kernel code\<close>

text \<open>
  A kernel function either returns a value and a new state, or control does
  not come back to the caller: the kernel panicked, it followed a null pointer or
  left an array (what happens then is undefined), the hart spins on a lock
  another hart holds, the calling process gave up the processor, or the bound
  that a recursion is given was used up. The state
  at that point is kept.
\<close>

datatype halt = Panic string | Fault string | Spin | Asleep | Switched | OutOfFuel

datatype ('a, 's) res = Ret 'a 's | Halt halt 's

primrec andthen :: "('a, 's) res \<Rightarrow> ('a \<Rightarrow> 's \<Rightarrow> ('b, 's) res) \<Rightarrow> ('b, 's) res" where
  "andthen (Ret a s) k = k a s"
| "andthen (Halt h s) k = Halt h s"

text \<open>The state of a result, returned or not.\<close>

primrec final :: "('a, 's) res \<Rightarrow> 's" where
  "final (Ret a s) = s"
| "final (Halt h s) = s"

text \<open>
  \<open>yields\<close> is total correctness: the code returns and the result
  satisfies the postcondition. \<open>ensures\<close> is partial: if the code
  returns, the postcondition holds.
\<close>

primrec yields :: "('a, 's) res \<Rightarrow> ('a \<Rightarrow> 's \<Rightarrow> bool) \<Rightarrow> bool" where
  "yields (Ret a s) Q = Q a s"
| "yields (Halt h s) Q = False"

primrec ensures :: "('a, 's) res \<Rightarrow> ('a \<Rightarrow> 's \<Rightarrow> bool) \<Rightarrow> bool" where
  "ensures (Ret a s) Q = Q a s"
| "ensures (Halt h s) Q = True"

section \<open>Sequencing\<close>

named_theorems res_simps \<open>rewriting of results and their predicates\<close>

lemma andthen_assoc [simp]:
  "andthen (andthen r f) g = andthen r (\<lambda>a s. andthen (f a s) g)"
  by (cases r) simp_all

lemma andthen_eq_Ret [res_simps]:
  "andthen r k = Ret b t \<longleftrightarrow> (\<exists>a s. r = Ret a s \<and> k a s = Ret b t)"
  by (cases r) simp_all

lemma andthen_cong [fundef_cong]:
  assumes "r = r'" and "\<And>a s. r' = Ret a s \<Longrightarrow> k a s = k' a s"
  shows "andthen r k = andthen r' k'"
  using assms by (cases r') simp_all

lemma yields_andthen [res_simps]:
  "yields (andthen r k) Q \<longleftrightarrow> yields r (\<lambda>a s. yields (k a s) Q)"
  by (cases r) simp_all

lemma ensures_andthen [res_simps]:
  "ensures (andthen r k) Q \<longleftrightarrow> ensures r (\<lambda>a s. ensures (k a s) Q)"
  by (cases r) simp_all

lemma yieldsE:
  assumes "yields r Q"
  obtains a s where "r = Ret a s" and "Q a s"
  using assms by (cases r) auto

lemma yields_mono: "yields r P \<Longrightarrow> (\<And>a s. P a s \<Longrightarrow> Q a s) \<Longrightarrow> yields r Q"
  by (cases r) simp_all

lemma ensures_mono: "ensures r P \<Longrightarrow> (\<And>a s. P a s \<Longrightarrow> Q a s) \<Longrightarrow> ensures r Q"
  by (cases r) simp_all

lemma ensuresD: "ensures r Q \<Longrightarrow> r = Ret a s \<Longrightarrow> Q a s"
  by simp

lemma yields_ensures: "yields r Q \<Longrightarrow> ensures r Q"
  by (cases r) simp_all

lemma ensuresI: "(\<And>a s. r = Ret a s \<Longrightarrow> Q a s) \<Longrightarrow> ensures r Q"
  by (cases r) simp_all

lemma ensures_seq:
  assumes "ensures r P" and "\<And>a s. P a s \<Longrightarrow> ensures (k a s) Q"
  shows "ensures (andthen r k) Q"
  using assms by (cases r) simp_all

lemma yields_seq:
  assumes "yields r P" and "\<And>a s. P a s \<Longrightarrow> yields (k a s) Q"
  shows "yields (andthen r k) Q"
  using assms by (cases r) simp_all

section \<open>Generic facts\<close>

lemma all_less_Suc_shift: "(\<forall>i<Suc n. P i) \<longleftrightarrow> P 0 \<and> (\<forall>i<n. P (Suc i))"
  using less_Suc_eq_0_disj by auto

lemma unat_u64_less: "unat (x :: u64) < 2 ^ 64"
  by (rule order_less_le_trans [OF unsigned_less]) simp

lemma unat_u32_less: "unat (x :: u32) < 2 ^ 32"
  by (rule order_less_le_trans [OF unsigned_less]) simp

lemma unat_ucast_32_64 [simp]: "unat (ucast (x :: u32) :: u64) = unat x"
  by (simp add: unsigned_ucast_eq take_bit_nat_eq_self order_less_trans [OF unat_u32_less])

lemma unat_eq_of_nat: "n < 2 ^ 64 \<Longrightarrow> unat (w :: u64) = n \<longleftrightarrow> w = of_nat n"
  by (auto simp: unat_of_nat)

lemma unat_diff_add_of_nat [simp]: "k < 2 ^ 64 \<Longrightarrow> unat (a + of_nat k - a :: u64) = k"
  by (simp add: unat_of_nat)

lemma unat_diff_lt_Suc:
  assumes "n < 2 ^ 64"
  shows "unat (b - p :: u64) < Suc n \<longleftrightarrow> unat (b - p) < n \<or> b = p + of_nat n"
  using unat_eq_of_nat [OF assms, of "b - p"] by (auto simp: less_Suc_eq diff_eq_eq add.commute)

lemma bit_small:
  assumes "unat (f :: u64) < 2 ^ k" "k \<le> n"
  shows "\<not> bit f n"
proof -
  have "unat f < 2 ^ n"
    using assms by (meson order_less_le_trans one_le_numeral power_increasing)
  then have "\<not> bit (unat f) n" by (simp add: bit_iff_odd)
  then show ?thesis using bit_imp_le_length [of f n] by (auto simp: bit_unsigned_iff)
qed

end
