(* ===== verification/Riscv.thy ===== *)
theory Riscv
  imports Prelude
begin

text \<open>
  The address arithmetic of \<^verbatim>\<open>kernel/riscv.h\<close> and the memory layout of
  \<^verbatim>\<open>kernel/memlayout.h\<close>: page rounding, the fields of a page-table entry,
  the three page-table indices of a virtual address, and the addresses the
  kernel assigns to RAM, kernel stacks, trapframe and trampoline. Each macro is
  one definition; flags and addresses are 64-bit words.
\<close>

unbundle bit_operations_syntax

section \<open>riscv.h\<close>

definition PGSIZE :: u64 where [simp]: "PGSIZE = 4096"

definition PGROUNDUP :: "u64 \<Rightarrow> u64" where
  "PGROUNDUP sz = (sz + PGSIZE - 1) AND NOT (PGSIZE - 1)"

definition PGROUNDDOWN :: "u64 \<Rightarrow> u64" where
  "PGROUNDDOWN a = a AND NOT (PGSIZE - 1)"

definition PTE_V :: u64 where "PTE_V = 1"

definition PTE_R :: u64 where "PTE_R = 2"

definition PTE_W :: u64 where "PTE_W = 4"

definition PTE_X :: u64 where "PTE_X = 8"

definition PTE_U :: u64 where "PTE_U = 16"

definition PA2PTE :: "u64 \<Rightarrow> u64" where
  "PA2PTE pa = push_bit 10 (drop_bit 12 pa)"

definition PTE2PA :: "u64 \<Rightarrow> u64" where
  "PTE2PA pte = push_bit 12 (drop_bit 10 pte)"

definition PTE_FLAGS :: "u64 \<Rightarrow> u64" where
  "PTE_FLAGS pte = pte AND 0x3FF"

definition PXSHIFT :: "nat \<Rightarrow> nat" where
  "PXSHIFT level = 12 + 9 * level"

definition PX :: "nat \<Rightarrow> u64 \<Rightarrow> u64" where
  "PX level va = drop_bit (PXSHIFT level) va AND 0x1FF"

definition MAXVA :: u64 where
  "MAXVA = push_bit (9 + 9 + 9 + 12 - 1) 1"

section \<open>memlayout.h\<close>

definition UART0 :: u64 where "UART0 = 0x10000000"

definition VIRTIO0 :: u64 where "VIRTIO0 = 0x10001000"

definition PLIC :: u64 where "PLIC = 0x0c000000"

definition KERNBASE :: u64 where "KERNBASE = 0x80000000"

definition PHYSTOP :: u64 where "PHYSTOP = KERNBASE + 128 * 1024 * 1024"

definition TRAMPOLINE :: u64 where "TRAMPOLINE = MAXVA - PGSIZE"

definition KSTACK :: "nat \<Rightarrow> u64" where
  "KSTACK p = TRAMPOLINE - of_nat ((p + 1) * 2) * PGSIZE"

definition TRAPFRAME :: u64 where "TRAPFRAME = TRAMPOLINE - PGSIZE"

text \<open>Page alignment, the test \<open>pa % PGSIZE == 0\<close> of the allocator.\<close>

definition aligned :: "u64 \<Rightarrow> bool" where
  "aligned a \<longleftrightarrow> a mod PGSIZE = 0"

section \<open>Rounding and alignment\<close>

lemma and_not_mask12: "(a :: u64) AND - 4096 = a - a mod 4096"
proof -
  have m: "(- 4096 :: u64) = NOT (mask 12)" by (simp add: mask_eq_exp_minus_1)
  have "a AND NOT (mask 12) = push_bit 12 (drop_bit 12 a)"
    by (rule bit_eqI) (auto simp: bit_and_iff bit_not_iff bit_mask_iff bit_push_bit_iff bit_drop_bit_eq)
  also have "\<dots> = a div 4096 * 4096"
    by (simp add: push_bit_eq_mult drop_bit_eq_div)
  also have "\<dots> = a - a mod 4096"
    by (simp add: minus_mod_eq_div_mult)
  finally show ?thesis by (simp only: m)
qed

lemma PGROUNDDOWN_alt: "PGROUNDDOWN a = a - a mod 4096"
  by (simp add: PGROUNDDOWN_def and_not_mask12)

lemma unat_PGROUNDDOWN: "unat (PGROUNDDOWN a) = unat a - unat a mod 4096"
  by (simp add: PGROUNDDOWN_alt unat_sub word_le_nat_alt unat_mod)

lemma aligned_iff: "aligned a \<longleftrightarrow> 4096 dvd unat a"
  by (simp add: aligned_def word_eq_iff_unsigned  unat_mod unsigned_eq_0_iff dvd_eq_mod_eq_0 flip: unat_eq_0)

lemma aligned_bits: "aligned a \<longleftrightarrow> (\<forall>n<12. \<not> bit a n)"
proof -
  have "a mod 4096 = take_bit 12 a" by (simp add: take_bit_eq_mod)
  then show ?thesis
    by (auto simp: aligned_def bit_eq_iff bit_take_bit_iff)
qed

lemma unat_page_offset: "aligned p \<Longrightarrow> unat i < 4096 \<Longrightarrow> unat (p + i) = unat p + unat i"
proof -
  assume "aligned p" "unat i < 4096"
  then obtain k where k: "unat p = 4096 * k" by (auto simp: aligned_iff)
  have "unat p < 2 ^ 64" using unsigned_less [of p] by simp
  then have "k < 2 ^ 52" using k by simp
  then have "unat p + unat i < 2 ^ 64" using k \<open>unat i < 4096\<close> by simp
  then show ?thesis by (simp add: unat_word_ariths)
qed

lemma page_offset_eq_iff:
  assumes "aligned p" "aligned q" "unat i < 4096" "unat j < 4096"
  shows "p + i = q + j \<longleftrightarrow> p = q \<and> i = j"
proof
  assume eq: "p + i = q + j"
  have *: "unat p + unat i = unat q + unat j"
    using arg_cong [OF eq, of unat] assms by (simp add: unat_page_offset)
  from assms(1,2) obtain k l where kl: "unat p = 4096 * k" "unat q = 4096 * l"
    unfolding aligned_iff dvd_def by blast
  have "k = l"
    using arg_cong [OF *, of "\<lambda>x. x div 4096"] assms(3,4) by (simp add: kl)
  with * kl show "p = q \<and> i = j"
    by (simp add: word_unat_eq_iff)
qed simp

lemma bit_PGROUNDDOWN: "bit (PGROUNDDOWN a) n \<longleftrightarrow> 12 \<le> n \<and> bit a n"
proof -
  have m: "(- 4096 :: u64) = NOT (mask 12)" by (simp add: mask_eq_exp_minus_1)
  show ?thesis by (auto simp: PGROUNDDOWN_def m bit_and_iff bit_not_iff bit_mask_iff dest: bit_imp_le_length)
qed

section \<open>Page-table entries\<close>

lemma and_PTE_V: "x AND PTE_V = 0 \<longleftrightarrow> \<not> bit x 0"
  using bit_iff_and_push_bit_not_eq_0 [of x 0] by (simp add: PTE_V_def)

lemma and_PTE_U: "x AND PTE_U = 0 \<longleftrightarrow> \<not> bit x 4"
  using bit_iff_and_push_bit_not_eq_0 [of x 4] by (simp add: PTE_U_def)

lemma mask9: "(0x1FF :: u64) = mask 9" "(0x3FF :: u64) = mask 10"
  by (simp_all add: mask_eq_exp_minus_1)

lemma PTE2PA_PA2PTE:
  assumes "aligned pa" "f < 1024"
  shows "PTE2PA (PA2PTE pa OR f) = pa"
proof (rule bit_word_eqI)
  fix n assume "n < LENGTH(64)"
  have "\<not> bit f m" if "10 \<le> m" for m
    using bit_small [of f 10 m] assms(2) that by (simp add: word_less_nat_alt)
  then show "bit (PTE2PA (PA2PTE pa OR f)) n = bit pa n"
    using assms(1) \<open>n < LENGTH(64)\<close>
    by (cases "12 \<le> n") (auto simp: PTE2PA_def PA2PTE_def bit_push_bit_iff bit_drop_bit_eq bit_or_iff aligned_bits not_less)
qed

lemma PTE_FLAGS_PA2PTE:
  assumes "f < 1024"
  shows "PTE_FLAGS (PA2PTE pa OR f) = f"
proof (rule bit_word_eqI)
  fix n assume "n < LENGTH(64)"
  have "\<not> bit f m" if "10 \<le> m" for m
    using bit_small [of f 10 m] assms that by (simp add: word_less_nat_alt)
  then show "bit (PTE_FLAGS (PA2PTE pa OR f)) n = bit f n"
    using \<open>n < LENGTH(64)\<close>
    by (cases "n < 10") (auto simp: PTE_FLAGS_def PA2PTE_def bit_push_bit_iff bit_drop_bit_eq bit_or_iff mask9 bit_and_iff bit_mask_iff not_less)
qed

lemma or_small:
  assumes "a < 1024" "b < 1024"
  shows "a OR b < (1024 :: u64)"
proof -
  have t: "take_bit 10 x = x" if "x < 1024" for x :: u64
    using that by (simp add: take_bit_eq_mod word_unat_eq_iff unat_mod word_less_nat_alt)
  have "take_bit 10 (a OR b) = a OR b" using t assms by (simp add: take_bit_or)
  then have "a OR b = (a OR b) mod 1024" by (simp add: take_bit_eq_mod)
  also have "\<dots> < 1024" by (simp add: word_less_nat_alt unat_mod)
  finally show ?thesis .
qed
lemma bit_PA2PTE_or: "i < 10 \<Longrightarrow> bit (PA2PTE q OR f) i = bit f i"
  by (auto simp: PA2PTE_def bit_or_iff bit_push_bit_iff)

section \<open>Indices of a virtual address\<close>

lemma bit_PX: "bit (PX l va) n \<longleftrightarrow> n < 9 \<and> bit va (12 + 9 * l + n)"
  by (auto simp: PX_def PXSHIFT_def mask9 bit_and_iff bit_mask_iff bit_drop_bit_eq)

lemma PX_less: "unat (PX l va) < 512"
proof -
  have "PX l va = take_bit 9 (drop_bit (12 + 9 * l) va)"
    by (simp only: PX_def PXSHIFT_def mask9 take_bit_eq_mask)
  then show ?thesis by (simp add: take_bit_eq_mod unat_mod)
qed

lemma MAXVA_bits: "va < MAXVA \<Longrightarrow> 38 \<le> n \<Longrightarrow> \<not> bit va n"
  using bit_small [of va 38 n] by (simp add: MAXVA_def word_less_nat_alt)

lemma PX_inj:
  assumes "va < MAXVA" "va' < MAXVA"
  shows "(\<forall>l\<le>2. PX l va = PX l va') \<longleftrightarrow> PGROUNDDOWN va = PGROUNDDOWN va'"
proof
  assume px: "\<forall>l\<le>2. PX l va = PX l va'"
  show "PGROUNDDOWN va = PGROUNDDOWN va'"
  proof (rule bit_word_eqI)
    fix n assume "n < LENGTH(64)"
    show "bit (PGROUNDDOWN va) n = bit (PGROUNDDOWN va') n"
    proof (cases "12 \<le> n \<and> n < 38")
      case True
      define l where "l = (n - 12) div 9"
      have "n = 12 + 9 * l + (n - 12) mod 9"
        using True mult_div_mod_eq [of 9 "n - 12"] by (simp add: l_def)
      moreover have "l \<le> 2" using True unfolding l_def by linarith
      ultimately show ?thesis
        using px bit_PX [of l va "(n - 12) mod 9"] bit_PX [of l va' "(n - 12) mod 9"]
        by (auto simp: bit_PGROUNDDOWN)
    next
      case False
      then show ?thesis using assms MAXVA_bits by (auto simp: bit_PGROUNDDOWN)
    qed
  qed
next
  assume eq: "PGROUNDDOWN va = PGROUNDDOWN va'"
  have "bit va n = bit va' n" if "12 \<le> n" for n
    using that eq bit_PGROUNDDOWN by metis
  then show "\<forall>l\<le>2. PX l va = PX l va'"
    by (auto intro!: bit_word_eqI simp: bit_PX)
qed

end
