(* ===== verification/CString.thy ===== *)
theory CString
  imports Riscv
begin

text \<open>
  Byte-addressed memory with little-endian words, and the routines of
  \<^verbatim>\<open>kernel/string.c\<close>. Routines that write through two pointers that may
  overlap (\<open>memset\<close>, \<open>memmove\<close>) work on the whole memory; routines over
  separate character arrays take a C pointer as the function from offsets to
  bytes that reading through it gives.
\<close>

section \<open>Memory\<close>

type_synonym mem = "u64 \<Rightarrow> byte"

type_synonym cptr = "nat \<Rightarrow> byte"

primrec load_le :: "nat \<Rightarrow> mem \<Rightarrow> u64 \<Rightarrow> 'a::len word" where
  "load_le 0 m a = 0"
| "load_le (Suc n) m a = ucast (m a) OR push_bit 8 (load_le n m (a + 1))"

definition store_le :: "nat \<Rightarrow> mem \<Rightarrow> u64 \<Rightarrow> 'a::len word \<Rightarrow> mem" where
  "store_le n m a v = (\<lambda>b. if unat (b - a) < n then ucast (drop_bit (8 * unat (b - a)) v) else m b)"

definition load64 :: "mem \<Rightarrow> u64 \<Rightarrow> u64" where
  "load64 m a = load_le 8 m a"

definition store64 :: "mem \<Rightarrow> u64 \<Rightarrow> u64 \<Rightarrow> mem" where
  "store64 m a v = store_le 8 m a v"

section \<open>string.c\<close>

definition memset :: "mem \<Rightarrow> u64 \<Rightarrow> u32 \<Rightarrow> u32 \<Rightarrow> mem" where
  "memset m dst c n = fold (\<lambda>i m. m(dst + of_nat i := ucast c)) [0..<unat n] m"

fun memcmp :: "cptr \<Rightarrow> cptr \<Rightarrow> nat \<Rightarrow> int" where
  "memcmp s1 s2 0 = 0"
| "memcmp s1 s2 (Suc n) =
     (if s1 0 \<noteq> s2 0 then uint (s1 0) - uint (s2 0)
      else memcmp (\<lambda>i. s1 (Suc i)) (\<lambda>i. s2 (Suc i)) n)"

primrec copy_up :: "nat \<Rightarrow> u64 \<Rightarrow> u64 \<Rightarrow> mem \<Rightarrow> mem" where
  "copy_up 0 d s m = m"
| "copy_up (Suc n) d s m = copy_up n (d + 1) (s + 1) (m(d := m s))"

primrec copy_down :: "nat \<Rightarrow> u64 \<Rightarrow> u64 \<Rightarrow> mem \<Rightarrow> mem" where
  "copy_down 0 d s m = m"
| "copy_down (Suc n) d s m = copy_down n (d - 1) (s - 1) (m(d - 1 := m (s - 1)))"

definition memmove :: "mem \<Rightarrow> u64 \<Rightarrow> u64 \<Rightarrow> u32 \<Rightarrow> mem" where
  "memmove m dst src n =
     (if n = 0 then m
      else if src < dst \<and> src + ucast n > dst
        then copy_down (unat n) (dst + ucast n) (src + ucast n) m
        else copy_up (unat n) dst src m)"

fun strncmp :: "cptr \<Rightarrow> cptr \<Rightarrow> nat \<Rightarrow> int" where
  "strncmp p q 0 = 0"
| "strncmp p q (Suc n) =
     (if p 0 \<noteq> 0 \<and> p 0 = q 0 then strncmp (\<lambda>i. p (Suc i)) (\<lambda>i. q (Suc i)) n
      else uint (p 0) - uint (q 0))"

primrec zero_at :: "nat \<Rightarrow> nat \<Rightarrow> cptr \<Rightarrow> cptr" where
  "zero_at 0 i s = s"
| "zero_at (Suc n) i s = zero_at n (Suc i) (s(i := 0))"

primrec strncpy_at :: "nat \<Rightarrow> nat \<Rightarrow> cptr \<Rightarrow> cptr \<Rightarrow> cptr" where
  "strncpy_at 0 i s t = s"
| "strncpy_at (Suc n) i s t =
     (if t i \<noteq> 0 then strncpy_at n (Suc i) (s(i := t i)) t
      else zero_at n (Suc i) (s(i := t i)))"

definition strncpy :: "cptr \<Rightarrow> cptr \<Rightarrow> nat \<Rightarrow> cptr" where
  "strncpy s t n = strncpy_at n 0 s t"

primrec safestrcpy_at :: "nat \<Rightarrow> nat \<Rightarrow> cptr \<Rightarrow> cptr \<Rightarrow> cptr" where
  "safestrcpy_at 0 i s t = s(i := 0)"
| "safestrcpy_at (Suc n) i s t =
     (if t i \<noteq> 0 then safestrcpy_at n (Suc i) (s(i := t i)) t
      else s(i := t i, Suc i := 0))"

definition safestrcpy :: "cptr \<Rightarrow> cptr \<Rightarrow> nat \<Rightarrow> cptr" where
  "safestrcpy s t n = (case n of 0 \<Rightarrow> s | Suc m \<Rightarrow> safestrcpy_at m 0 s t)"

partial_function (option) strlen_at :: "nat \<Rightarrow> cptr \<Rightarrow> nat option" where
  "strlen_at n s = (if s n = 0 then Some n else strlen_at (Suc n) s)"

definition strlen :: "cptr \<Rightarrow> nat option" where
  "strlen s = strlen_at 0 s"

section \<open>Closed forms\<close>

text \<open>What a fill and a copy of \<open>n\<close> bytes leave in memory.\<close>

definition fill :: "mem \<Rightarrow> u64 \<Rightarrow> nat \<Rightarrow> byte \<Rightarrow> mem" where
  "fill m p n c = (\<lambda>b. if unat (b - p) < n then c else m b)"

definition blit :: "mem \<Rightarrow> u64 \<Rightarrow> u64 \<Rightarrow> nat \<Rightarrow> mem" where
  "blit m d s n = (\<lambda>b. if unat (b - d) < n then m (s + (b - d)) else m b)"

section \<open>Words in memory\<close>

lemma bit_load_le:
  "bit (load_le n m a :: 'a::len word) i \<longleftrightarrow>
     i < LENGTH('a) \<and> i < 8 * n \<and> bit (m (a + of_nat (i div 8))) (i mod 8)"
proof (induction n arbitrary: a i)
  case 0
  then show ?case by simp
next
  case (Suc n)
  show ?case
  proof (cases "i < 8")
    case True
    then show ?thesis by (auto simp: bit_or_iff bit_push_bit_iff bit_ucast_iff)
  next
    case False
    then have "\<not> bit (m a) i" by (auto dest: bit_imp_le_length)
    have "i div 8 = Suc ((i - 8) div 8)" "(i - 8) mod 8 = i mod 8"
      using False by (simp_all add: le_div_geq le_mod_geq)
    moreover have "a + 1 + word_of_nat ((i - 8) div 8) = a + word_of_nat (Suc ((i - 8) div 8))"
      by simp
    ultimately show ?thesis
      using False \<open>\<not> bit (m a) i\<close> by (auto simp: bit_or_iff bit_push_bit_iff bit_ucast_iff Suc add.assoc)
  qed
qed

lemma load_le_cong:
  assumes "\<And>k. k < n \<Longrightarrow> m (a + of_nat k) = m' (a + of_nat k)"
  shows "load_le n m a = (load_le n m' a :: 'a::len word)"
proof (rule bit_word_eqI)
  fix i
  show "bit (load_le n m a :: 'a word) i = bit (load_le n m' a :: 'a word) i"
    using assms [of "i div 8"] by (auto simp: bit_load_le)
qed

lemma load_store_le_same:
  assumes "8 * n = LENGTH('a)" "n < 2 ^ 64"
  shows "load_le n (store_le n m a v) a = (v :: 'a::len word)"
proof (rule bit_word_eqI)
  fix i assume "i < LENGTH('a)"
  then have "i div 8 < n" "i div 8 < 2 ^ 64" using assms by auto
  moreover from this have "unat (of_nat (i div 8) :: u64) = i div 8"
    by (simp add: unat_of_nat)
  moreover have "i mod 8 < LENGTH(8)" by simp
  ultimately show "bit (load_le n (store_le n m a v) a :: 'a word) i = bit v i"
    using assms \<open>i < LENGTH('a)\<close>
    by (simp add: bit_load_le store_le_def bit_ucast_iff bit_drop_bit_eq add.commute)
qed

lemma load64_store64_same [simp]: "load64 (store64 m a v) a = v"
  by (simp add: load64_def store64_def load_store_le_same)

section \<open>Fills and copies\<close>

lemma memset_fold:
  "n \<le> 2 ^ 64 \<Longrightarrow> fold (\<lambda>i m. m(dst + of_nat i := c)) [0..<n] m = fill m dst n c"
proof (induction n)
  case 0
  then show ?case by (simp add: fill_def)
next
  case (Suc n)
  then show ?case
    by (auto simp: fill_def unat_diff_lt_Suc fun_eq_iff)
qed

lemma memset_eq_fill: "memset m dst c n = fill m dst (unat n) (ucast c)"
  using unat_u32_less [of n] by (simp add: memset_def memset_fold)


lemma copy_up_snoc:
  "copy_up (Suc n) d s m = (let m' = copy_up n d s m in m'(d + of_nat n := m' (s + of_nat n)))"
proof (induction n arbitrary: d s m)
  case 0
  then show ?case by (simp add: Let_def)
next
  case (Suc n)
  have "copy_up (Suc (Suc n)) d s m = copy_up (Suc n) (d + 1) (s + 1) (m(d := m s))"
    by simp
  also have "\<dots> = (let m' = copy_up (Suc n) d s m in m'(d + of_nat (Suc n) := m' (s + of_nat (Suc n))))"
    by (subst Suc.IH) (simp add: Let_def add.assoc)
  finally show ?case .
qed

lemma unat_diff_no_wrap:
  assumes "unat d \<le> unat s" "unat s + n < 2 ^ 64"
  shows "unat (s + of_nat n - d :: u64) = unat s + n - unat d"
proof -
  have "unat (s + of_nat n) = unat s + n"
    using assms by (simp add: unat_word_ariths unat_of_nat)
  then show ?thesis using assms by (simp add: unat_sub word_le_nat_alt)
qed

lemma unat_diff_wrap:
  assumes "unat s + n < unat d"
  shows "unat (s + of_nat n - d :: u64) = 2 ^ 64 + unat s + n - unat d"
proof -
  have "unat d < 2 ^ 64" by (rule unat_u64_less)
  then have "unat (s + of_nat n) = unat s + n"
    using assms by (simp add: unat_word_ariths unat_of_nat)
  then show ?thesis using assms by (simp add: unat_sub_if_size word_size)
qed

lemma copy_up_eq:
  assumes "unat d + n \<le> 2 ^ 64" "unat s + n \<le> 2 ^ 64" "d \<le> s \<or> unat s + n \<le> unat d"
  shows "copy_up n d s m = blit m d s n"
  using assms
proof (induction n)
  case 0
  then show ?case by (simp add: blit_def)
next
  case (Suc n)
  have "\<not> unat (s + of_nat n - d) < n"
  proof (cases "d \<le> s")
    case True
    then show ?thesis using Suc.prems unat_diff_no_wrap [of d s n] by (simp add: word_le_nat_alt)
  next
    case False
    then show ?thesis using Suc.prems unat_diff_wrap [of s n d] by simp
  qed
  moreover have "copy_up n d s m = blit m d s n" using Suc by auto
  ultimately show ?case
    using Suc.prems by (subst copy_up_snoc) (auto simp: blit_def unat_diff_lt_Suc fun_eq_iff)
qed

lemma copy_down_eq:
  assumes "unat d + n \<le> 2 ^ 64" "s < d"
  shows "copy_down n (d + of_nat n) (s + of_nat n) m = blit m d s n"
  using assms
proof (induction n arbitrary: m)
  case 0
  then show ?case by (simp add: blit_def)
next
  case (Suc n)
  have "s + k \<noteq> d + of_nat n" if "unat k < n" for k
  proof -
    have "unat (s + k) = unat s + unat k" "unat (d + of_nat n) = unat d + n"
      using Suc.prems that by (simp_all add: unat_word_ariths unat_of_nat word_less_nat_alt)
    then show ?thesis using that Suc.prems by (auto simp: word_less_nat_alt)
  qed
  moreover have "copy_down (Suc n) (d + of_nat (Suc n)) (s + of_nat (Suc n)) m =
      copy_down n (d + of_nat n) (s + of_nat n) (m(d + of_nat n := m (s + of_nat n)))"
    by (simp add: algebra_simps)
  moreover have "\<dots> = blit (m(d + of_nat n := m (s + of_nat n))) d s n"
    using Suc by auto
  ultimately show ?case
    using Suc.prems by (auto simp: blit_def unat_diff_lt_Suc fun_eq_iff)
qed

lemma memmove_blit:
  assumes "unat dst + unat n \<le> 2 ^ 64" "unat src + unat n < 2 ^ 64"
  shows "memmove m dst src n = blit m dst src (unat n)"
proof -
  have n: "ucast n = (of_nat (unat n) :: u64)" by simp
  show ?thesis
  proof (cases "src < dst \<and> src + ucast n > dst")
    case True
    then show ?thesis
      using assms copy_down_eq [of dst "unat n" src m]
      by (auto simp: memmove_def n simp del: of_nat_unat)
  next
    case False
    then have "dst \<le> src \<or> unat src + unat n \<le> unat dst"
      using assms
      by (auto simp: word_less_nat_alt word_le_nat_alt unat_word_ariths not_less)
    then show ?thesis using assms copy_up_eq [of dst "unat n" src m] False
      by (auto simp: memmove_def blit_def)
  qed
qed

text \<open>
  C22. \<open>memmove\<close> copies the bytes that the source range had before the call, for every
  overlap of the two ranges, and changes no other byte, as long as neither range
  wraps around the address space.
\<close>

theorem memmove_eq_blit:
  assumes "unat dst + unat n \<le> 2 ^ 64" "unat src + unat n < 2 ^ 64"
  shows "memmove m dst src n = blit m dst src (unat n)"
  using assms by (rule memmove_blit)

theorem memmove_eq_blit_witness:
  "memmove (\<lambda>a. ucast a) 0x1002 0x1000 4 0x1004 = 2 \<and> memmove (\<lambda>a. ucast a) 0x1002 0x1000 4 0x1006 = 6"
  using memmove_eq_blit [of "0x1002" 4 "0x1000" "\<lambda>a. ucast a"] by (simp add: blit_def)

lemma strncmp_eq_0_iff:
  "strncmp p q n = 0 \<longleftrightarrow> (\<forall>i<n. (\<forall>j<i. p j \<noteq> 0) \<longrightarrow> p i = q i)"
proof (induction p q n rule: strncmp.induct)
  case (1 p q)
  then show ?case by simp
next
  case (2 p q n)
  then show ?case
    by (cases "p 0 \<noteq> 0 \<and> p 0 = q 0") (simp_all add: all_less_Suc_shift, auto simp: word_uint_eq_iff)
qed

lemma zero_at_apply: "zero_at n i s j = (if i \<le> j \<and> j < i + n then 0 else s j)"
  by (induction n arbitrary: i s) auto

lemma strncpy_at_below: "j < i \<Longrightarrow> strncpy_at n i s t j = s j"
  by (induction n arbitrary: i s) (auto simp: zero_at_apply)

lemma strncpy_at_apply:
  "strncpy_at n i s t j =
     (if i \<le> j \<and> j < i + n then if \<forall>k\<in>{i..<j}. t k \<noteq> 0 then t j else 0 else s j)"
proof (induction n arbitrary: i s)
  case 0
  then show ?case by auto
next
  case (Suc n)
  consider "j < i" | "j = i" | "i < j" by linarith
  then show ?case
  proof cases
    case 2
    then show ?thesis by (simp add: zero_at_apply strncpy_at_below)
  next
    case 3
    then have "{i..<j} = insert i {Suc i..<j}" by auto
    with 3 Suc show ?thesis by (simp add: zero_at_apply)
  qed (simp_all add: Suc zero_at_apply)
qed

text \<open>
  C38. \<open>strncpy\<close> writes exactly the first \<open>n\<close> bytes of the destination: the source string
  up to its first zero byte, and zeros from there on.
\<close>

theorem strncpy_apply:
  "strncpy s t n j = (if j < n then if \<forall>k<j. t k \<noteq> 0 then t j else 0 else s j)"
  by (auto simp: strncpy_def strncpy_at_apply)

theorem strncpy_apply_witness:
  "strncpy (\<lambda>_. 7) ((\<lambda>_. 9)(1 := 0)) 3 0 = 9 \<and> strncpy (\<lambda>_. 7) ((\<lambda>_. 9)(1 := 0)) 3 2 = 0"
  by (auto simp: strncpy_apply intro: exI [of _ 1])

lemma safestrcpy_at_frame: "j < i \<or> i + n < j \<Longrightarrow> safestrcpy_at n i s t j = s j"
  by (induction n arbitrary: i s) auto

lemma safestrcpy_at_string:
  "\<exists>k\<ge>i. k \<le> i + n \<and> safestrcpy_at n i s t k = 0
     \<and> (\<forall>j. i \<le> j \<and> j < k \<longrightarrow> safestrcpy_at n i s t j = t j \<and> t j \<noteq> 0)
     \<and> (t k = 0 \<or> k = i + n)"
proof (induction n arbitrary: i s)
  case 0
  then show ?case by auto
next
  case (Suc n)
  show ?case
  proof (cases "t i = 0")
    case True
    then show ?thesis by (intro exI [of _ i]) auto
  next
    case False
    define u where "u = s(i := t i)"
    obtain k where k: "Suc i \<le> k" "k \<le> Suc i + n" "safestrcpy_at n (Suc i) u t k = 0"
      "\<forall>j. Suc i \<le> j \<and> j < k \<longrightarrow> safestrcpy_at n (Suc i) u t j = t j \<and> t j \<noteq> 0"
      "t k = 0 \<or> k = Suc i + n"
      using Suc [of "Suc i" u] by blast
    have "safestrcpy_at n (Suc i) u t i = t i"
      by (simp add: safestrcpy_at_frame u_def)
    then have "safestrcpy_at n (Suc i) u t j = t j \<and> t j \<noteq> 0" if "i \<le> j" "j < k" for j
      using that k(4) False by (cases "j = i") auto
    then show ?thesis using k False by (intro exI [of _ k]) (auto simp flip: u_def)
  qed
qed

text \<open>
  C23. \<open>safestrcpy\<close> with a positive size always leaves a zero-terminated string: there is
  a position below \<open>n\<close> holding zero, before it the source string is copied without a
  zero, and it is cut only where the source ends or the space does.
\<close>

theorem safestrcpy_terminates_string:
  assumes "0 < n"
  shows "\<exists>k<n. safestrcpy s t n k = 0 \<and> (\<forall>j<k. safestrcpy s t n j = t j \<and> t j \<noteq> 0)
           \<and> (t k = 0 \<or> k = n - 1)"
proof -
  obtain m where "n = Suc m" using assms by (cases n) auto
  then show ?thesis using safestrcpy_at_string [of 0 m s t] by (auto simp: safestrcpy_def less_Suc_eq_le)
qed

theorem safestrcpy_terminates_string_witness:
  "\<exists>k<3. safestrcpy (\<lambda>_. 7) (\<lambda>_. 9) 3 k = 0"
  using safestrcpy_terminates_string [OF zero_less_numeral, where s = "\<lambda>_. 7" and t = "\<lambda>_. 9"] by blast

lemma strlen_at_Some: 
  assumes "s k = 0" "\<And>j. n \<le> j \<Longrightarrow> j < k \<Longrightarrow> s j \<noteq> 0" "n \<le> k"
  shows "strlen_at n s = Some k"
  using assms(3,2)
proof (induction "k - n" arbitrary: n)
  case 0
  then show ?case using assms(1) by (subst strlen_at.simps) simp
next
  case (Suc d)
  then have "strlen_at (Suc n) s = Some k" by simp
  moreover have "s n \<noteq> 0" using Suc by auto
  ultimately show ?case by (subst strlen_at.simps) simp
qed

end
