(* ===== verification/Pages.thy ===== *)
theory Pages
  imports CString
begin

text \<open>
  Byte memory seen as 4096-byte pages: which bytes a page holds, what a store
  inside one page leaves alone, and the 512 eight-byte entries of a page.
  The allocator threads its free list through such entries and the page
  tables are made of them.
\<close>

section \<open>Pages and the bytes in them\<close>

definition in_page :: "u64 \<Rightarrow> u64 \<Rightarrow> bool" where
  "in_page p b \<longleftrightarrow> unat (b - p) < 4096"

definition agree_off :: "u64 \<Rightarrow> mem \<Rightarrow> mem \<Rightarrow> bool" where
  "agree_off p m m' \<longleftrightarrow> (\<forall>b. \<not> in_page p b \<longrightarrow> m' b = m b)"

lemma in_page_disjoint:
  assumes "aligned p" "aligned q" "in_page p b" "in_page q b"
  shows "p = q"
  using page_offset_eq_iff [OF assms(1,2), of "b - p" "b - q"] assms(3,4)
  by (simp add: in_page_def)

lemma unat_entry: "unat (i :: u64) < 512 \<Longrightarrow> unat (8 * i) = 8 * unat i"
  by (simp add: unat_word_ariths)

lemma in_page_entry:
  assumes "unat i < 512" "k < 8"
  shows "in_page p (p + 8 * i + of_nat k)"
proof -
  have "unat (8 * i + of_nat k :: u64) = 8 * unat i + k"
    using assms by (simp add: unat_word_ariths unat_entry unat_of_nat)
  then show ?thesis using assms by (simp add: in_page_def add.assoc)
qed

lemma in_page_offset: "k < 4096 \<Longrightarrow> in_page p (p + of_nat k)"
  by (simp add: in_page_def unat_of_nat)

lemma load64_agree_off:
  assumes "agree_off p m m'" "aligned p" "aligned q" "p \<noteq> q" "unat i < 512"
  shows "load64 m' (q + 8 * i) = load64 m (q + 8 * i)"
  unfolding load64_def
proof (rule load_le_cong)
  fix k :: nat assume "k < 8"
  then have "in_page q (q + 8 * i + of_nat k)" using assms(5) by (rule in_page_entry [rotated])
  then show "m' (q + 8 * i + of_nat k) = m (q + 8 * i + of_nat k)"
    using assms in_page_disjoint by (auto simp: agree_off_def)
qed

lemma agree_off_fill: "n \<le> 4096 \<Longrightarrow> agree_off p m (fill m p n c)"
  by (simp add: agree_off_def fill_def in_page_def)

lemma agree_off_trans: "agree_off p m m' \<Longrightarrow> agree_off p m' m'' \<Longrightarrow> agree_off p m m''"
  by (simp add: agree_off_def)

lemma agree_off_refl [simp]: "agree_off p m m"
  by (simp add: agree_off_def)

lemma agree_off_store64:
  assumes "unat i < 512"
  shows "agree_off p m (store64 m (p + 8 * i) v)"
  unfolding agree_off_def
proof (intro allI impI)
  fix b assume out: "\<not> in_page p b"
  have "\<not> unat (b - (p + 8 * i)) < 8"
  proof
    assume lt: "unat (b - (p + 8 * i)) < 8"
    have "b = p + 8 * i + of_nat (unat (b - (p + 8 * i)))" by simp
    then have "in_page p b" using in_page_entry [OF assms lt, of p] by metis
    with out show False by simp
  qed
  then show "store64 m (p + 8 * i) v b = m b"
    by (simp add: store64_def store_le_def)
qed

lemma load64_store64_entry:
  assumes "unat i < 512" "unat j < 512" "i \<noteq> j"
  shows "load64 (store64 m (p + 8 * i) v) (p + 8 * j) = load64 m (p + 8 * j)"
  unfolding load64_def
proof (rule load_le_cong)
  fix k :: nat assume k: "k < 8"
  have "\<not> unat (8 * j + of_nat k - 8 * i) < 8"
  proof
    define d where "d = 8 * j + of_nat k - 8 * i"
    assume "unat (8 * j + of_nat k - 8 * i) < 8"
    then have d: "unat d < 8" by (simp add: d_def)
    have "8 * j + of_nat k = 8 * i + d" by (simp add: d_def)
    then have "unat (8 * j + of_nat k) = unat (8 * i + d)" by simp
    moreover have "unat (8 * j + of_nat k :: u64) = 8 * unat j + k" "unat (8 * i + d) = 8 * unat i + unat d"
      using assms k d by (simp_all add: unat_word_ariths unat_entry unat_of_nat)
    ultimately have "8 * unat j + k = 8 * unat i + unat d" by simp
    then have "unat j = unat i" using k d by linarith
    with assms show False by (simp add: word_unat_eq_iff)
  qed
  moreover have "p + 8 * j + of_nat k - (p + 8 * i) = 8 * j + of_nat k - 8 * i" by simp
  ultimately have "\<not> unat (p + 8 * j + of_nat k - (p + 8 * i)) < 8" by (simp only: not_False_eq_True)
  then show "store64 m (p + 8 * i) v (p + 8 * j + of_nat k) = m (p + 8 * j + of_nat k)"
    by (simp only: store64_def store_le_def if_False)
qed

lemma load64_fill_zero:
  assumes "unat i < 512"
  shows "load64 (fill m p 4096 0) (p + 8 * i) = 0"
proof -
  have "load_le 8 (fill m p 4096 0) (p + 8 * i) = (load_le 8 (\<lambda>_. 0) (p + 8 * i) :: u64)"
    using in_page_entry [OF assms, of _ p] by (intro load_le_cong) (simp add: fill_def in_page_def)
  also have "\<dots> = 0"
    by (rule bit_word_eqI) (simp add: bit_load_le)
  finally show ?thesis by (simp add: load64_def)
qed

lemma aligned_gap:
  assumes "aligned p" "aligned q" "unat p < unat q"
  shows "unat p + 4096 \<le> unat q"
proof -
  obtain k l where *: "unat p = 4096 * k" "unat q = 4096 * l"
    using assms(1,2) unfolding aligned_iff dvd_def by blast
  then have "k + 1 \<le> l" using assms(3) by simp
  then have "4096 * (k + 1) \<le> 4096 * l" by (rule mult_le_mono2)
  then show ?thesis using * by simp
qed

lemma aligned_PGROUNDDOWN [simp]: "aligned (PGROUNDDOWN a)"
  unfolding aligned_iff unat_PGROUNDDOWN minus_mod_eq_mult_div by simp

lemma PGROUNDUP_DOWN: "PGROUNDUP a = PGROUNDDOWN (a + 4095)"
proof -
  have "a + PGSIZE - 1 = a + 4095" by (simp add: algebra_simps)
  then show ?thesis unfolding PGROUNDUP_def PGROUNDDOWN_def by (rule arg_cong)
qed

lemma aligned_PGROUNDUP [simp]: "aligned (PGROUNDUP a)"
  by (simp add: PGROUNDUP_DOWN)

lemma PGROUNDUP_bounds:
  assumes "unat a + 4095 < 2 ^ 64"
  shows "unat a \<le> unat (PGROUNDUP a)" "unat (PGROUNDUP a) < unat a + 4096"
proof -
  have "unat (a + 4095) = unat a + 4095" using assms by (simp add: unat_word_ariths)
  then have u: "unat (PGROUNDUP a) = unat a + 4095 - (unat a + 4095) mod 4096"
    by (simp add: PGROUNDUP_DOWN unat_PGROUNDDOWN)
  have "(unat a + 4095) mod 4096 < 4096" by simp
  with u show "unat a \<le> unat (PGROUNDUP a)" "unat (PGROUNDUP a) < unat a + 4096" by linarith+
qed

lemma PGROUNDUP_le:
  assumes "unat a + 4095 < 2 ^ 64" "aligned q" "unat a \<le> unat q"
  shows "unat (PGROUNDUP a) \<le> unat q"
proof (rule ccontr)
  assume "\<not> unat (PGROUNDUP a) \<le> unat q"
  then have "unat q + 4096 \<le> unat (PGROUNDUP a)" using assms by (intro aligned_gap) auto
  then show False using PGROUNDUP_bounds [OF assms(1)] assms(3) by linarith
qed

end
