(* ===== verification/Spinlock.thy ===== *)
theory Spinlock
  imports Pages
begin

text \<open>
  Harts, interrupt enabling and spin locks: \<^verbatim>\<open>kernel/spinlock.c\<close>, the
  lock and cpu structs of \<^verbatim>\<open>spinlock.h\<close> and \<^verbatim>\<open>proc.h\<close>, and
  \<open>cpuid\<close>, \<open>mycpu\<close>, \<open>myproc\<close> of \<^verbatim>\<open>proc.c\<close>. The hardware state is the
  record \<open>machine\<close>; every kernel state of the development extends \<open>sys\<close>,
  which holds it in the field \<open>hw\<close>. A call runs on the hart \<open>hart\<close>. An
  attempt to take a lock that another hart holds is the result \<open>Halt Spin\<close>;
  the interleaving of several harts at the granularity of the atomic memory
  operations is the step relation \<open>spin_step\<close>.
\<close>

section \<open>State\<close>

text \<open>Sleep locks live in buffers and in in-memory inodes.\<close>

datatype slockid = BufLock nat | InodeLock nat

datatype lockid =
    KmemLock | PidLock | WaitLock | ProcLock nat | TicksLock | BcacheLock | LogLock
  | ItableLock | FtableLock | ConsLock | UartTxLock | PrLock | PipeLock u64 | VdiskLock
  | SleepInner slockid

record spinlock =
  lk_locked :: bool
  lk_name :: string
  lk_cpu :: "nat option"

record cpu =
  c_proc :: "nat option"
  c_noff :: int
  c_intena :: bool

record machine =
  hart :: nat
  sie :: "nat \<Rightarrow> bool"
  cpus :: "nat \<Rightarrow> cpu"
  locks :: "lockid \<Rightarrow> spinlock"

record sys =
  hw :: machine

section \<open>Operations\<close>

definition cpuid :: "machine \<Rightarrow> nat" where
  "cpuid h = hart h"

definition mycpu :: "machine \<Rightarrow> cpu" where
  "mycpu h = cpus h (cpuid h)"

definition upd_mycpu :: "(cpu \<Rightarrow> cpu) \<Rightarrow> machine \<Rightarrow> machine" where
  "upd_mycpu f h = h\<lparr>cpus := (cpus h)(cpuid h := f (mycpu h))\<rparr>"

definition intr_get :: "machine \<Rightarrow> bool" where
  "intr_get h = sie h (hart h)"

definition intr_off :: "machine \<Rightarrow> machine" where
  "intr_off h = h\<lparr>sie := (sie h)(hart h := False)\<rparr>"

definition intr_on :: "machine \<Rightarrow> machine" where
  "intr_on h = h\<lparr>sie := (sie h)(hart h := True)\<rparr>"

definition push_off :: "machine \<Rightarrow> machine" where
  "push_off h =
     (let old = intr_get h;
          h = intr_off h;
          h = (if c_noff (mycpu h) = 0 then upd_mycpu (\<lambda>c. c\<lparr>c_intena := old\<rparr>) h else h)
      in upd_mycpu (\<lambda>c. c\<lparr>c_noff := c_noff c + 1\<rparr>) h)"

definition pop_off :: "machine \<Rightarrow> (unit, machine) res" where
  "pop_off h =
     (if intr_get h then Halt (Panic ''pop_off - interruptible'') h
      else if c_noff (mycpu h) < 1 then Halt (Panic ''pop_off'') h
      else let h = upd_mycpu (\<lambda>c. c\<lparr>c_noff := c_noff c - 1\<rparr>) h
           in if c_noff (mycpu h) = 0 \<and> c_intena (mycpu h) then Ret () (intr_on h)
              else Ret () h)"

definition init_spinlock :: "string \<Rightarrow> spinlock" where
  "init_spinlock name = \<lparr>lk_locked = False, lk_name = name, lk_cpu = None\<rparr>"

text \<open>The atomic swap: the old value of \<open>locked\<close>, and the lock with it set.\<close>

definition test_and_set :: "spinlock \<Rightarrow> bool \<times> spinlock" where
  "test_and_set lk = (lk_locked lk, lk\<lparr>lk_locked := True\<rparr>)"

definition holding_by :: "nat \<Rightarrow> spinlock \<Rightarrow> bool" where
  "holding_by c lk \<longleftrightarrow> lk_locked lk \<and> lk_cpu lk = Some c"

definition holding_m :: "lockid \<Rightarrow> machine \<Rightarrow> bool" where
  "holding_m l h = holding_by (cpuid h) (locks h l)"

definition acquire_m :: "lockid \<Rightarrow> machine \<Rightarrow> (unit, machine) res" where
  "acquire_m l h =
     (let h = push_off h
      in if holding_m l h then Halt (Panic ''acquire'') h
         else let (old, lk) = test_and_set (locks h l);
                  h = h\<lparr>locks := (locks h)(l := lk)\<rparr>
              in if old then Halt Spin h
                 else Ret () (h\<lparr>locks := (locks h)(l := (locks h l)\<lparr>lk_cpu := Some (cpuid h)\<rparr>)\<rparr>))"

definition release_m :: "lockid \<Rightarrow> machine \<Rightarrow> (unit, machine) res" where
  "release_m l h =
     (if \<not> holding_m l h then Halt (Panic ''release'') h
      else let h = h\<lparr>locks := (locks h)(l := (locks h l)\<lparr>lk_cpu := None\<rparr>)\<rparr>;
               h = h\<lparr>locks := (locks h)(l := (locks h l)\<lparr>lk_locked := False\<rparr>)\<rparr>
           in pop_off h)"

definition myproc_m :: "machine \<Rightarrow> (nat option, machine) res" where
  "myproc_m h =
     (let h = push_off h; p = c_proc (mycpu h)
      in andthen (pop_off h) (\<lambda>_ h. Ret p h))"

text \<open>The same operations on a kernel state.\<close>

primrec on_hw :: "('a, machine) res \<Rightarrow> 'b sys_scheme \<Rightarrow> ('a, 'b sys_scheme) res" where
  "on_hw (Ret a h) s = Ret a (s\<lparr>hw := h\<rparr>)"
| "on_hw (Halt e h) s = Halt e (s\<lparr>hw := h\<rparr>)"

definition acquire :: "lockid \<Rightarrow> 'b sys_scheme \<Rightarrow> (unit, 'b sys_scheme) res" where
  "acquire l s = on_hw (acquire_m l (hw s)) s"

definition release :: "lockid \<Rightarrow> 'b sys_scheme \<Rightarrow> (unit, 'b sys_scheme) res" where
  "release l s = on_hw (release_m l (hw s)) s"

definition holding :: "lockid \<Rightarrow> 'b sys_scheme \<Rightarrow> bool" where
  "holding l s = holding_m l (hw s)"

definition initlock :: "lockid \<Rightarrow> string \<Rightarrow> 'b sys_scheme \<Rightarrow> 'b sys_scheme" where
  "initlock l name s = s\<lparr>hw := (hw s)\<lparr>locks := (locks (hw s))(l := init_spinlock name)\<rparr>\<rparr>"

definition myproc :: "'b sys_scheme \<Rightarrow> (nat option, 'b sys_scheme) res" where
  "myproc s = on_hw (myproc_m (hw s)) s"

section \<open>Well-formed hardware states and the effect of a critical section\<close>

text \<open>Between operations interrupts are off whenever the nesting depth is positive.\<close>

definition hw_ok :: "machine \<Rightarrow> bool" where
  "hw_ok h \<longleftrightarrow> 0 \<le> c_noff (mycpu h) \<and> (0 < c_noff (mycpu h) \<longrightarrow> \<not> intr_get h)"

definition lock_free :: "lockid \<Rightarrow> machine \<Rightarrow> bool" where
  "lock_free l h \<longleftrightarrow> \<not> lk_locked (locks h l) \<and> lk_cpu (locks h l) = None"

text \<open>The state after \<open>acquire\<close> of a free lock, and after a matching
  pair of \<open>acquire\<close> and \<open>release\<close>: only \<open>intena\<close> may have been refreshed.\<close>

definition acq :: "lockid \<Rightarrow> machine \<Rightarrow> machine" where
  "acq l h =
     (push_off h)\<lparr>locks := (locks h)(l := (locks h l)\<lparr>lk_locked := True, lk_cpu := Some (hart h)\<rparr>)\<rparr>"

definition settle :: "machine \<Rightarrow> machine" where
  "settle h = (if c_noff (mycpu h) = 0 then upd_mycpu (\<lambda>c. c\<lparr>c_intena := intr_get h\<rparr>) h else h)"

section \<open>A balanced sequence of interrupt operations\<close>

datatype irqop = Push | Pop

fun run_irq :: "irqop list \<Rightarrow> machine \<Rightarrow> (unit, machine) res" where
  "run_irq [] h = Ret () h"
| "run_irq (Push # ops) h = run_irq ops (push_off h)"
| "run_irq (Pop # ops) h = andthen (pop_off h) (\<lambda>_ h. run_irq ops h)"

fun nest_ok :: "nat \<Rightarrow> irqop list \<Rightarrow> nat option" where
  "nest_ok d [] = Some d"
| "nest_ok d (Push # ops) = nest_ok (Suc d) ops"
| "nest_ok d (Pop # ops) = (case d of 0 \<Rightarrow> None | Suc d' \<Rightarrow> nest_ok d' ops)"

section \<open>Several harts\<close>

text \<open>
  Where a hart is with respect to one lock: not using it, about to execute the
  atomic swap of \<open>acquire\<close>, past a successful swap but before it recorded
  itself as the owner, inside the critical section, and past the clearing of
  the owner in \<open>release\<close> but before the final store.
\<close>

datatype phase = Out | Trying | Got | In | Leaving

record spin_sys =
  sp_locks :: "lockid \<Rightarrow> spinlock"
  sp_phase :: "nat \<Rightarrow> lockid \<Rightarrow> phase"

definition set_phase :: "nat \<Rightarrow> lockid \<Rightarrow> phase \<Rightarrow> spin_sys \<Rightarrow> spin_sys" where
  "set_phase c l x s = s\<lparr>sp_phase := (sp_phase s)(c := (sp_phase s c)(l := x))\<rparr>"

definition set_lock :: "lockid \<Rightarrow> spinlock \<Rightarrow> spin_sys \<Rightarrow> spin_sys" where
  "set_lock l lk s = s\<lparr>sp_locks := (sp_locks s)(l := lk)\<rparr>"

inductive spin_step :: "spin_sys \<Rightarrow> spin_sys \<Rightarrow> bool" where
  enter: "sp_phase s c l = Out \<Longrightarrow> \<not> holding_by c (sp_locks s l) \<Longrightarrow>
     spin_step s (set_phase c l Trying s)"
| swap_fail: "sp_phase s c l = Trying \<Longrightarrow> test_and_set (sp_locks s l) = (True, lk) \<Longrightarrow>
     spin_step s (set_lock l lk s)"
| swap_ok: "sp_phase s c l = Trying \<Longrightarrow> test_and_set (sp_locks s l) = (False, lk) \<Longrightarrow>
     spin_step s (set_phase c l Got (set_lock l lk s))"
| record_owner: "sp_phase s c l = Got \<Longrightarrow>
     spin_step s (set_phase c l In (set_lock l ((sp_locks s l)\<lparr>lk_cpu := Some c\<rparr>) s))"
| clear_owner: "sp_phase s c l = In \<Longrightarrow> holding_by c (sp_locks s l) \<Longrightarrow>
     spin_step s (set_phase c l Leaving (set_lock l ((sp_locks s l)\<lparr>lk_cpu := None\<rparr>) s))"
| store_zero: "sp_phase s c l = Leaving \<Longrightarrow>
     spin_step s (set_phase c l Out (set_lock l ((sp_locks s l)\<lparr>lk_locked := False\<rparr>) s))"

definition spin_init :: spin_sys where
  "spin_init = \<lparr>sp_locks = (\<lambda>_. init_spinlock []), sp_phase = (\<lambda>_ _. Out)\<rparr>"

inductive spin_reach :: "spin_sys \<Rightarrow> bool" where
  start: "spin_reach spin_init"
| step: "spin_reach s \<Longrightarrow> spin_step s t \<Longrightarrow> spin_reach t"

definition owns :: "spin_sys \<Rightarrow> nat \<Rightarrow> lockid \<Rightarrow> bool" where
  "owns s c l \<longleftrightarrow> sp_phase s c l \<in> {Got, In, Leaving}"

text \<open>The lock word and the owner field agree with one owning hart, or with none.\<close>

definition lock_agrees :: "spinlock \<Rightarrow> (nat \<Rightarrow> phase) \<Rightarrow> nat option \<Rightarrow> bool" where
  "lock_agrees lk ph own \<longleftrightarrow>
     (lk_locked lk \<longleftrightarrow> own \<noteq> None)
     \<and> (\<forall>c. ph c \<in> {Got, In, Leaving} \<longleftrightarrow> own = Some c)
     \<and> (\<forall>c. lk_cpu lk = Some c \<longleftrightarrow> ph c = In)"

definition spin_inv :: "spin_sys \<Rightarrow> bool" where
  "spin_inv s \<longleftrightarrow> (\<forall>l. \<exists>own. lock_agrees (sp_locks s l) (\<lambda>c. sp_phase s c l) own)"

text \<open>Hart 0 inside the critical section of one lock.\<close>

definition spin_demo :: spin_sys where
  "spin_demo = set_phase 0 KmemLock In (set_lock KmemLock \<lparr>lk_locked = True, lk_name = [], lk_cpu = Some 0\<rparr>
     (set_phase 0 KmemLock Got (set_lock KmemLock \<lparr>lk_locked = True, lk_name = [], lk_cpu = None\<rparr>
       (set_phase 0 KmemLock Trying spin_init))))"

text \<open>The hardware at reset, used to exhibit states.\<close>

definition boot_machine :: machine where
  "boot_machine = \<lparr>hart = 0, sie = (\<lambda>_. False),
     cpus = (\<lambda>_. \<lparr>c_proc = None, c_noff = 0, c_intena = False\<rparr>), locks = (\<lambda>_. init_spinlock [])\<rparr>"

section \<open>Lemmas\<close>

named_theorems hw_simps \<open>effect of lock operations on the hardware state\<close>

lemmas hw_defs = mycpu_def cpuid_def upd_mycpu_def intr_get_def intr_off_def intr_on_def

lemma acquire_m_free [hw_simps]: "lock_free l h \<Longrightarrow> acquire_m l h = Ret () (acq l h)"
  by (simp add: acquire_m_def acq_def lock_free_def holding_m_def holding_by_def test_and_set_def
     push_off_def hw_defs Let_def)

lemma release_m_acq [hw_simps]:
  "hw_ok h \<Longrightarrow> lock_free l h \<Longrightarrow> release_m l (acq l h) = Ret () (settle h)"
  by (cases h) (auto simp: release_m_def acq_def lock_free_def holding_m_def holding_by_def
    pop_off_def settle_def push_off_def hw_defs Let_def hw_ok_def fun_eq_iff)

lemma acq_acq_swap: "l \<noteq> l' \<Longrightarrow> acq l' (acq l h) = acq l (acq l' h)"
  by (cases h) (auto simp: acq_def push_off_def hw_defs Let_def fun_eq_iff)

lemma hw_ok_acq [hw_simps]: "hw_ok h \<Longrightarrow> hw_ok (acq l h)"
  by (cases h) (auto simp: acq_def push_off_def hw_defs Let_def hw_ok_def)

lemma hw_ok_settle [hw_simps]: "hw_ok (settle h) = hw_ok h"
  by (cases h) (auto simp: settle_def hw_defs hw_ok_def)

lemma lock_free_acq [hw_simps]: "lock_free l' (acq l h) \<longleftrightarrow> l' \<noteq> l \<and> lock_free l' h"
  by (cases h) (auto simp: acq_def push_off_def hw_defs Let_def lock_free_def)

lemma lock_free_settle [hw_simps]: "lock_free l (settle h) = lock_free l h"
  by (cases h) (auto simp: settle_def hw_defs lock_free_def)

lemma settle_acq [hw_simps]: "hw_ok h \<Longrightarrow> settle (acq l h) = acq l h"
  by (cases h) (auto simp: acq_def settle_def push_off_def hw_defs Let_def hw_ok_def)

lemma settle_settle [hw_simps]: "settle (settle h) = settle h"
  by (cases h) (auto simp: settle_def hw_defs)

lemma acq_settle [hw_simps]: "acq l (settle h) = acq l h"
  by (cases h) (auto simp: acq_def settle_def push_off_def hw_defs Let_def fun_eq_iff)

lemma holding_m_acq [hw_simps]: "holding_m l (acq l h)"
  by (cases h) (auto simp: acq_def push_off_def hw_defs Let_def holding_m_def holding_by_def)

lemma hart_hw [hw_simps]: "hart (acq l h) = hart h" "hart (settle h) = hart h"
  by (cases h; auto simp: acq_def settle_def push_off_def hw_defs Let_def)+

lemma c_proc_hw [hw_simps]:
  "c_proc (cpus (acq l h) c) = c_proc (cpus h c)" "c_proc (cpus (settle h) c) = c_proc (cpus h c)"
  by (cases h; auto simp: acq_def settle_def push_off_def hw_defs Let_def)+

lemma intr_get_acq [hw_simps]: "\<not> intr_get (acq l h)"
  by (cases h) (auto simp: acq_def push_off_def hw_defs Let_def)

lemma myproc_m_eq [hw_simps]: "hw_ok h \<Longrightarrow> myproc_m h = Ret (c_proc (mycpu h)) (settle h)"
  by (cases h) (auto simp: myproc_m_def pop_off_def settle_def push_off_def hw_defs Let_def hw_ok_def fun_eq_iff)

lemma acquire_free [hw_simps]: "lock_free l (hw s) \<Longrightarrow> acquire l s = Ret () (s\<lparr>hw := acq l (hw s)\<rparr>)"
  by (simp add: acquire_def hw_simps)

lemma release_held [hw_simps]:
  "hw s = acq l h \<Longrightarrow> hw_ok h \<Longrightarrow> lock_free l h \<Longrightarrow> release l s = Ret () (s\<lparr>hw := settle h\<rparr>)"
  by (simp add: release_def hw_simps)

lemma myproc_eq [hw_simps]: "hw_ok (hw s) \<Longrightarrow> myproc s = Ret (c_proc (mycpu (hw s))) (s\<lparr>hw := settle (hw s)\<rparr>)"
  by (simp add: myproc_def hw_simps)

lemma push_off_props:
  assumes "hw_ok h"
  shows "hw_ok (push_off h)" "c_noff (mycpu (push_off h)) = c_noff (mycpu h) + 1"
    "hart (push_off h) = hart h"
    "c_intena (mycpu (push_off h)) = (if c_noff (mycpu h) = 0 then intr_get h else c_intena (mycpu h))"
  using assms by (cases h; auto simp: push_off_def hw_defs Let_def hw_ok_def)+

lemma run_irq_nested:
  assumes "hw_ok h" "c_noff (mycpu h) = int d" "0 < d \<Longrightarrow> c_intena (mycpu h) = en"
    "d = 0 \<Longrightarrow> intr_get h = en" "nest_ok d ops = Some d'"
  shows "yields (run_irq ops h) (\<lambda>_ h'. c_noff (mycpu h') = int d' \<and> intr_get h' = (d' = 0 \<and> en))"
  using assms
proof (induction ops arbitrary: h d)
  case Nil
  then show ?case by (auto simp: hw_ok_def)
next
  case (Cons x ops)
  show ?case
  proof (cases x)
    case Push
    show ?thesis
      unfolding Push run_irq.simps
      using Cons.prems push_off_props [OF Cons.prems(1)] Push
      by (intro Cons.IH [where d = "Suc d"]) (cases "d = 0"; simp)+
  next
    case Pop
    then obtain e where d: "d = Suc e" and ops: "nest_ok e ops = Some d'"
      using Cons.prems by (auto split: nat.splits)
    define h1 where "h1 = upd_mycpu (\<lambda>c. c\<lparr>c_noff := c_noff c - 1\<rparr>) h"
    define h2 where "h2 = (if e = 0 \<and> en then intr_on h1 else h1)"
    have "pop_off h = Ret () h2"
      using Cons.prems d by (auto simp: pop_off_def hw_ok_def h2_def h1_def hw_defs Let_def)
    moreover have "yields (run_irq ops h2) (\<lambda>_ h'. c_noff (mycpu h') = int d' \<and> intr_get h' = (d' = 0 \<and> en))"
      using Cons.prems d ops
      by (intro Cons.IH [where d = e]) (auto simp: h2_def h1_def hw_defs hw_ok_def)
    ultimately show ?thesis using Pop by simp
  qed
qed

text \<open>
  C21. Nested \<open>push_off\<close> and \<open>pop_off\<close>: started with interrupts not yet pushed off, a
  sequence of calls that never pops below zero runs without panicking; afterwards
  \<open>noff\<close> is the number of unmatched \<open>push_off\<close>s, and interrupts are enabled exactly
  when none is left and they were enabled before the first.
\<close>

theorem irq_nesting:
  assumes "hw_ok h" "c_noff (mycpu h) = 0" "nest_ok 0 ops = Some d"
  shows "yields (run_irq ops h) (\<lambda>_ h'. c_noff (mycpu h') = int d \<and> intr_get h' = (d = 0 \<and> intr_get h))"
  using run_irq_nested [of h 0 "intr_get h" ops d] assms by simp

theorem irq_nesting_witness:
  "yields (run_irq [Push, Push, Pop] boot_machine) (\<lambda>_ h. c_noff (mycpu h) = 1 \<and> \<not> intr_get h)"
  using irq_nesting [of boot_machine "[Push, Push, Pop]" 1]
  by (simp add: hw_ok_def boot_machine_def hw_defs)

lemma spin_inv_init: "spin_inv spin_init"
  by (auto simp: spin_inv_def spin_init_def lock_agrees_def init_spinlock_def)

lemma set_phase_lock_simps [simp]:
  "sp_phase (set_phase c l x s) d k = (if d = c \<and> k = l then x else sp_phase s d k)"
  "sp_phase (set_lock l lk s) = sp_phase s"
  "sp_locks (set_lock l lk s) k = (if k = l then lk else sp_locks s k)"
  "sp_locks (set_phase c l x s) = sp_locks s"
  by (auto simp: set_phase_def set_lock_def)

lemma spin_inv_upd:
  assumes "spin_inv s" "lock_agrees lk (\<lambda>d. if d = c then x else sp_phase s d l) own"
  shows "spin_inv (set_phase c l x (set_lock l lk s))"
  unfolding spin_inv_def
proof
  fix k
  show "\<exists>own. lock_agrees (sp_locks (set_phase c l x (set_lock l lk s)) k)
      (\<lambda>d. sp_phase (set_phase c l x (set_lock l lk s)) d k) own"
    using assms by (cases "k = l") (auto simp: spin_inv_def cong: if_cong)
qed

lemma spin_inv_lock:
  assumes "spin_inv s"
  obtains own where "lock_agrees (sp_locks s l) (\<lambda>c. sp_phase s c l) own"
  using assms by (auto simp: spin_inv_def)

lemma spin_inv_owner:
  assumes "spin_inv s" "sp_phase s c l \<in> {Got, In, Leaving}"
  shows "lock_agrees (sp_locks s l) (\<lambda>c. sp_phase s c l) (Some c)"
    and "d \<noteq> c \<Longrightarrow> sp_phase s d l \<notin> {Got, In, Leaving}"
proof -
  obtain own where own: "lock_agrees (sp_locks s l) (\<lambda>c. sp_phase s c l) own"
    using assms(1) by (rule spin_inv_lock)
  moreover from this assms(2) have "own = Some c" by (auto simp: lock_agrees_def)
  ultimately show "lock_agrees (sp_locks s l) (\<lambda>c. sp_phase s c l) (Some c)" by simp
  then show "d \<noteq> c \<Longrightarrow> sp_phase s d l \<notin> {Got, In, Leaving}" by (auto simp: lock_agrees_def)
qed

lemma spin_inv_step: "spin_step s t \<Longrightarrow> spin_inv s \<Longrightarrow> spin_inv t"
proof (induction rule: spin_step.induct)
  case (enter s c l)
  obtain own where "lock_agrees (sp_locks s l) (\<lambda>c. sp_phase s c l) own"
    using enter.prems by (rule spin_inv_lock)
  with enter have "spin_inv (set_phase c l Trying (set_lock l (sp_locks s l) s))"
    by (intro spin_inv_upd [where own = own]) (auto simp: lock_agrees_def dest!: spec [where x = c])
  then show ?case by (simp add: set_lock_def)
next
  case (swap_fail s c l lk)
  then have "lk = sp_locks s l"
    by (cases "sp_locks s l") (auto simp: test_and_set_def)
  with swap_fail show ?case by (simp add: set_lock_def)
next
  case (swap_ok s c l lk)
  obtain own where "lock_agrees (sp_locks s l) (\<lambda>c. sp_phase s c l) own"
    using swap_ok.prems by (rule spin_inv_lock)
  with swap_ok show ?case
    by (intro spin_inv_upd [where own = "Some c"]) (auto simp: lock_agrees_def test_and_set_def)
next
  case (record_owner s c l)
  with spin_inv_owner [of s c l] show ?case
    by (intro spin_inv_upd [where own = "Some c"]) (auto simp: lock_agrees_def)
next
  case (clear_owner s c l)
  with spin_inv_owner [of s c l] show ?case
    by (intro spin_inv_upd [where own = "Some c"]) (auto simp: lock_agrees_def)
next
  case (store_zero s c l)
  with spin_inv_owner [of s c l] show ?case
    by (intro spin_inv_upd [where own = None]) (auto simp: lock_agrees_def)
qed

lemma spin_reach_inv: "spin_reach s \<Longrightarrow> spin_inv s"
  by (induction rule: spin_reach.induct) (auto intro: spin_inv_init spin_inv_step)

lemma spin_demo_reach: "spin_reach spin_demo"
proof -
  let ?a = "set_phase 0 KmemLock Trying spin_init"
  let ?lk = "\<lparr>lk_locked = True, lk_name = [], lk_cpu = None\<rparr>"
  let ?b = "set_phase 0 KmemLock Got (set_lock KmemLock ?lk ?a)"
  have "spin_step spin_init ?a"
    by (rule spin_step.enter) (simp_all add: spin_init_def holding_by_def init_spinlock_def)
  moreover have "spin_step ?a ?b"
    by (rule spin_step.swap_ok) (simp_all add: spin_init_def test_and_set_def init_spinlock_def)
  moreover have "spin_step ?b spin_demo"
    using spin_step.record_owner [of ?b 0 KmemLock] by (simp add: spin_demo_def)
  ultimately show ?thesis by (blast intro: spin_reach.intros)
qed

text \<open>
  C17. Mutual exclusion of \<open>acquire\<close> and \<open>release\<close>: in every state that any number of
  harts reach by interleaving the atomic swap, the owner store, the owner clear
  and the final store, at most one hart is past the swap of a given lock.
\<close>

theorem spinlock_mutex:
  assumes "spin_reach s" "owns s c l" "owns s d l"
  shows "c = d"
proof -
  obtain own where "lock_agrees (sp_locks s l) (\<lambda>c. sp_phase s c l) own"
    using spin_reach_inv [OF assms(1)] by (auto simp: spin_inv_def)
  with assms(2,3) have "own = Some c" "own = Some d"
    by (auto simp: lock_agrees_def owns_def)
  then show ?thesis by simp
qed

theorem spinlock_mutex_witness: "owns spin_demo 0 KmemLock \<and> (\<forall>d. owns spin_demo d KmemLock = (d = 0))"
proof -
  have "owns spin_demo 0 KmemLock" by (simp add: owns_def spin_demo_def)
  then show ?thesis using spinlock_mutex [OF spin_demo_reach] by blast
qed

text \<open>
  C20. \<open>holding\<close> is exact: in every reachable interleaving the check that a hart makes on
  the lock word and the owner field answers yes precisely when that hart is inside
  the critical section, so \<open>acquire\<close> panics only on a real double acquire and
  \<open>release\<close> only on a lock the hart does not hold.
\<close>

theorem spinlock_holding_exact:
  assumes "spin_reach s"
  shows "holding_by c (sp_locks s l) \<longleftrightarrow> sp_phase s c l = In"
proof -
  obtain own where "lock_agrees (sp_locks s l) (\<lambda>c. sp_phase s c l) own"
    using spin_reach_inv [OF assms] by (auto simp: spin_inv_def)
  then show ?thesis by (auto simp: lock_agrees_def holding_by_def)
qed

theorem spinlock_holding_exact_witness: "holding_by 0 (sp_locks spin_demo KmemLock)"
  using spinlock_holding_exact [OF spin_demo_reach, of 0 KmemLock] by (simp add: spin_demo_def)

end
