(* ===== verification/Kalloc.thy ===== *)
theory Kalloc
  imports Spinlock
begin

text \<open>
  The physical page allocator, \<^verbatim>\<open>kernel/kalloc.c\<close>. The free list is
  threaded through the free pages themselves: \<open>freelist\<close> is the address of the
  first, and the first eight bytes of a free page hold the address of the next.
  \<open>kend\<close> is the linker symbol \<open>end\<close>. The interface the rest of the
  kernel relies on is the locale \<open>page_allocator\<close>.
\<close>

section \<open>State and operations\<close>

record ksys = sys +
  mem :: mem
  freelist :: u64
  kend :: u64

definition kfree :: "u64 \<Rightarrow> 'b ksys_scheme \<Rightarrow> (unit, 'b ksys_scheme) res" where
  "kfree pa s =
     (if pa mod PGSIZE \<noteq> 0 \<or> pa < kend s \<or> PHYSTOP \<le> pa then Halt (Panic ''kfree'') s
      else let s = s\<lparr>mem := memset (mem s) pa 1 4096\<rparr>
           in andthen (acquire KmemLock s) (\<lambda>_ s.
                let s = s\<lparr>mem := store64 (mem s) pa (freelist s)\<rparr>;
                    s = s\<lparr>freelist := pa\<rparr>
                in release KmemLock s))"

definition kalloc :: "'b ksys_scheme \<Rightarrow> (u64, 'b ksys_scheme) res" where
  "kalloc s =
     andthen (acquire KmemLock s) (\<lambda>_ s.
       let r = freelist s;
           s = (if r \<noteq> 0 then s\<lparr>freelist := load64 (mem s) r\<rparr> else s)
       in andthen (release KmemLock s) (\<lambda>_ s.
            let s = (if r \<noteq> 0 then s\<lparr>mem := memset (mem s) r 5 4096\<rparr> else s)
            in Ret r s))"

text \<open>A page \<open>kfree\<close> accepts.\<close>

definition ram_page :: "u64 \<Rightarrow> u64 \<Rightarrow> bool" where
  "ram_page e p \<longleftrightarrow> aligned p \<and> e \<le> p \<and> p < PHYSTOP"

lemma kfree_Ret_page: "kfree p s = Ret a s' \<Longrightarrow> ram_page (kend s) p"
  by (auto simp: kfree_def ram_page_def aligned_def split: if_splits)

lemma ram_page_next: "ram_page e p \<Longrightarrow> unat (p + PGSIZE) = unat p + 4096"
  by (auto simp: ram_page_def PHYSTOP_def KERNBASE_def word_less_nat_alt unat_word_ariths)

text \<open>The loop of \<open>freerange\<close>: it ends because \<open>kfree\<close> panics at \<open>PHYSTOP\<close>.\<close>

function freerange_from :: "u64 \<Rightarrow> u64 \<Rightarrow> 'b ksys_scheme \<Rightarrow> (unit, 'b ksys_scheme) res" where
  "freerange_from p pa_end s =
     (if p + PGSIZE \<le> pa_end
      then andthen (kfree p s) (\<lambda>_ s. freerange_from (p + PGSIZE) pa_end s)
      else Ret () s)"
  by pat_completeness auto
termination
proof (relation "measure (\<lambda>(p, e, s). unat PHYSTOP - unat p)")
  fix p e and s s' :: "'b ksys_scheme" and a
  assume "kfree p s = Ret a s'"
  then have "ram_page (kend s) p" by (rule kfree_Ret_page)
  then show "((p + PGSIZE, e, s'), (p, e, s)) \<in> measure (\<lambda>(p, e, s). unat PHYSTOP - unat p)"
    using ram_page_next [of "kend s" p] by (auto simp: ram_page_def word_less_nat_alt)
qed simp

declare freerange_from.simps [simp del]

definition freerange :: "u64 \<Rightarrow> u64 \<Rightarrow> 'b ksys_scheme \<Rightarrow> (unit, 'b ksys_scheme) res" where
  "freerange pa_start pa_end s = freerange_from (PGROUNDUP pa_start) pa_end s"

definition kinit :: "'b ksys_scheme \<Rightarrow> (unit, 'b ksys_scheme) res" where
  "kinit s = (let s = initlock KmemLock ''kmem'' s in freerange (kend s) PHYSTOP s)"

section \<open>The free list as a list of pages\<close>

primrec free_path :: "mem \<Rightarrow> u64 \<Rightarrow> u64 list \<Rightarrow> bool" where
  "free_path m fl [] \<longleftrightarrow> fl = 0"
| "free_path m fl (p # ps) \<longleftrightarrow> fl = p \<and> free_path m (load64 m p) ps"

text \<open>The free pages are exactly the distinct RAM pages \<open>ps\<close>, in list order.\<close>

definition free_pages :: "'b ksys_scheme \<Rightarrow> u64 list \<Rightarrow> bool" where
  "free_pages s ps \<longleftrightarrow> free_path (mem s) (freelist s) ps \<and> distinct ps
     \<and> (\<forall>p\<in>set ps. ram_page (kend s) p) \<and> 0 < kend s"

definition kmem_ready :: "'b ksys_scheme \<Rightarrow> bool" where
  "kmem_ready s \<longleftrightarrow> hw_ok (hw s) \<and> lock_free KmemLock (hw s)"

text \<open>What an operation that only allocates, frees and writes memory may change.\<close>

definition kframe :: "'b ksys_scheme \<Rightarrow> 'b ksys_scheme \<Rightarrow> bool" where
  "kframe s t \<longleftrightarrow> (\<exists>h f m. t = s\<lparr>hw := h, freelist := f, mem := m\<rparr> \<and> settle h = settle (hw s))"

text \<open>A client that allocates \<open>n\<close> pages in a row.\<close>

primrec alloc_many :: "('s \<Rightarrow> (u64, 's) res) \<Rightarrow> nat \<Rightarrow> 's \<Rightarrow> (u64 list, 's) res" where
  "alloc_many al 0 s = Ret [] s"
| "alloc_many al (Suc n) s = andthen (al s) (\<lambda>p s. andthen (alloc_many al n s) (\<lambda>ps s. Ret (p # ps) s))"

definition boot_ksys :: ksys where
  "boot_ksys = \<lparr>hw = boot_machine, mem = (\<lambda>_. 0), freelist = 0, kend = 0x80022000\<rparr>"

section \<open>Lemmas\<close>

lemma ram_page_nonzero: "ram_page e p \<Longrightarrow> 0 < e \<Longrightarrow> p \<noteq> 0"
  by (auto simp: ram_page_def)

lemma free_path_agree:
  assumes "agree_off q m m'" "aligned q" "q \<notin> set ps" "\<forall>p\<in>set ps. aligned p"
  shows "free_path m' fl ps = free_path m fl ps"
  using assms(3,4)
proof (induction ps arbitrary: fl)
  case (Cons p ps)
  have "load64 m' (p + 8 * 0) = load64 m (p + 8 * 0)"
    using Cons.prems by (intro load64_agree_off [OF assms(1,2)]) auto
  with Cons show ?case by auto
qed simp

lemma kalloc_eq:
  assumes "kmem_ready s"
  shows "kalloc s = Ret (freelist s)
     (if freelist s = 0 then s\<lparr>hw := settle (hw s)\<rparr>
      else s\<lparr>hw := settle (hw s), freelist := load64 (mem s) (freelist s),
             mem := fill (mem s) (freelist s) 4096 5\<rparr>)"
  using assms by (simp add: kalloc_def kmem_ready_def hw_simps Let_def memset_eq_fill)

lemma kfree_eq:
  assumes "kmem_ready s" "ram_page (kend s) p"
  shows "kfree p s = Ret () (s\<lparr>hw := settle (hw s), freelist := p,
           mem := store64 (fill (mem s) p 4096 1) p (freelist s)\<rparr>)"
  using assms by (simp add: kfree_def kmem_ready_def hw_simps Let_def memset_eq_fill ram_page_def aligned_def not_less not_le)

lemma free_path_0: "free_path m 0 ps \<Longrightarrow> \<forall>p\<in>set ps. p \<noteq> 0 \<Longrightarrow> ps = []"
  by (cases ps) auto

lemma free_path_store_head:
  assumes "free_path m fl ps" "aligned p" "p \<notin> set ps" "\<forall>q\<in>set ps. aligned q" "agree_off p m m'"
  shows "free_path (store64 m' p fl) p (p # ps)"
proof -
  have "agree_off p m (store64 m' p fl)"
    using assms(5) agree_off_store64 [of 0 p m' fl] agree_off_trans by fastforce
  then have "free_path (store64 m' p fl) fl ps"
    using free_path_agree [of p m _ ps fl] assms by simp
  then show ?thesis by simp
qed

lemma kmem_ready_upd [simp]:
  "kmem_ready (s\<lparr>mem := m\<rparr>) = kmem_ready s" "kmem_ready (s\<lparr>freelist := fl\<rparr>) = kmem_ready s"
  "kmem_ready (s\<lparr>hw := settle (hw s)\<rparr>) = kmem_ready s"
  by (simp_all add: kmem_ready_def hw_simps)

lemma kalloc_some:
  assumes "kmem_ready s" "free_pages s (p # ps)"
  shows "yields (kalloc s) (\<lambda>r t. r = p \<and> kmem_ready t \<and> free_pages t ps
           \<and> mem t = fill (mem s) p 4096 5 \<and> kend t = kend s)"
proof -
  have "p \<noteq> 0" "aligned p" "\<forall>q\<in>set ps. aligned q" "p \<notin> set ps"
    using assms(2) ram_page_nonzero by (auto simp: free_pages_def ram_page_def)
  moreover from this have "free_path (fill (mem s) p 4096 5) fl ps = free_path (mem s) fl ps" for fl
    by (intro free_path_agree [OF agree_off_fill]) auto
  ultimately show ?thesis
    using assms by (auto simp: kalloc_eq free_pages_def kmem_ready_def hw_simps)
qed

lemma kalloc_none:
  assumes "kmem_ready s" "free_pages s []"
  shows "yields (kalloc s) (\<lambda>r t. r = 0 \<and> kmem_ready t \<and> free_pages t [] \<and> mem t = mem s \<and> kend t = kend s)"
  using assms by (auto simp: kalloc_eq free_pages_def kmem_ready_def hw_simps)

lemma kfree_page:
  assumes "kmem_ready s" "free_pages s ps" "ram_page (kend s) p" "p \<notin> set ps"
  shows "yields (kfree p s) (\<lambda>_ t. kmem_ready t \<and> free_pages t (p # ps)
           \<and> agree_off p (mem s) (mem t) \<and> kend t = kend s)"
proof -
  have al: "aligned p" "\<forall>q\<in>set ps. aligned q" using assms by (auto simp: free_pages_def ram_page_def)
  have "free_path (store64 (fill (mem s) p 4096 1) p (freelist s)) p (p # ps)"
    using assms al by (intro free_path_store_head [OF _ _ _ _ agree_off_fill]) (auto simp: free_pages_def)
  moreover have "agree_off p (mem s) (store64 (fill (mem s) p 4096 1) p (freelist s))"
    using agree_off_store64 [of 0 p "fill (mem s) p 4096 1" "freelist s"]
    by (auto intro: agree_off_trans [OF agree_off_fill])
  ultimately show ?thesis
    using assms by (auto simp: kfree_eq free_pages_def kmem_ready_def hw_simps)
qed

lemma aligned_PHYSTOP: "aligned PHYSTOP" "unat PHYSTOP = 0x88000000"
  by (simp_all add: aligned_def PHYSTOP_def KERNBASE_def)

lemma freerange_from_pages:
  assumes "kmem_ready s" "free_pages s ps" "set ps = {q. ram_page (kend s) q \<and> q < p}"
    "aligned p" "kend s \<le> p" "p \<le> PHYSTOP"
  shows "yields (freerange_from p PHYSTOP s) (\<lambda>_ t. kmem_ready t \<and> kend t = kend s
           \<and> (\<exists>ps. free_pages t ps \<and> set ps = {q. ram_page (kend s) q}))"
  using assms
proof (induction p "PHYSTOP" s arbitrary: ps rule: freerange_from.induct)
  case (1 p s)
  show ?case
  proof (cases "p = PHYSTOP")
    case True
    then have "\<not> p + PGSIZE \<le> PHYSTOP" by (simp add: PHYSTOP_def KERNBASE_def)
    then show ?thesis
      using 1 True by (subst freerange_from.simps) (auto simp: ram_page_def)
  next
    case False
    with 1 have lt: "p < PHYSTOP" by simp
    then have page: "ram_page (kend s) p" using 1 by (simp add: ram_page_def)
    have next_le: "unat p + 4096 \<le> unat PHYSTOP"
      using "1.prems"(4) aligned_PHYSTOP(1) lt by (auto intro: aligned_gap simp: word_less_nat_alt)
    have nxt: "unat (p + PGSIZE) = unat p + 4096" using page by (rule ram_page_next)
    have le: "p + PGSIZE \<le> PHYSTOP" using next_le unfolding word_le_nat_alt nxt .
    have notin: "p \<notin> set ps" using "1.prems" by auto
    obtain t where t: "kfree p s = Ret () t" "kmem_ready t" "free_pages t (p # ps)" "kend t = kend s"
      using kfree_page [OF "1.prems"(1,2) page notin] by (auto elim: yieldsE)
    have below: "q < p + PGSIZE \<longleftrightarrow> q < p \<or> q = p" if "ram_page (kend s) q" for q
      using aligned_gap [of q p] aligned_gap [of p q] that nxt "1.prems"(4)
      by (fastforce simp: word_less_nat_alt word_unat_eq_iff ram_page_def)
    have "yields (freerange_from (p + PGSIZE) PHYSTOP t) (\<lambda>_ u. kmem_ready u \<and> kend u = kend t
           \<and> (\<exists>ps. free_pages u ps \<and> set ps = {q. ram_page (kend t) q}))"
    proof (rule "1.hyps" [OF le t(1), of "p # ps"])
      show "set (p # ps) = {q. ram_page (kend t) q \<and> q < p + PGSIZE}"
        using "1.prems"(3) page below t(4) by auto
      show "aligned (p + PGSIZE)" using "1.prems"(4) nxt by (simp add: aligned_iff)
      show "kend t \<le> p + PGSIZE" using "1.prems"(5) t(4) nxt by (simp add: word_le_nat_alt)
    qed (use t le in auto)
    then show ?thesis using t le by (subst freerange_from.simps) simp
  qed
qed

lemma kframeI: "settle h = settle (hw s) \<Longrightarrow> kframe s (s\<lparr>hw := h, freelist := f, mem := m\<rparr>)"
  unfolding kframe_def by (intro exI conjI) (rule refl)

lemma kframeE:
  assumes "kframe s t"
  obtains h f m where "t = s\<lparr>hw := h, freelist := f, mem := m\<rparr>" "settle h = settle (hw s)"
  using assms unfolding kframe_def by (elim exE conjE)

lemma kframe_refl [simp]: "kframe s s"
  using kframeI [where h = "hw s" and s = s and f = "freelist s" and m = "mem s"] by simp

lemma kframe_trans: "kframe s t \<Longrightarrow> kframe t u \<Longrightarrow> kframe s u"
  by (elim kframeE) (simp add: kframeI)

lemma kframe_sel: "kframe s t \<Longrightarrow> kend t = kend s" "kframe s t \<Longrightarrow> ksys.more t = ksys.more s"
  by (elim kframeE, simp)+

lemma kframe_mem [simp]: "kframe s (t\<lparr>mem := m\<rparr>) \<longleftrightarrow> kframe s t"
proof
  assume "kframe s (t\<lparr>mem := m\<rparr>)"
  then obtain h f m' where *: "t\<lparr>mem := m\<rparr> = s\<lparr>hw := h, freelist := f, mem := m'\<rparr>" "settle h = settle (hw s)"
    by (rule kframeE)
  have "t = (t\<lparr>mem := m\<rparr>)\<lparr>mem := mem t\<rparr>" by simp
  also have "\<dots> = s\<lparr>hw := h, freelist := f, mem := mem t\<rparr>" by (simp only: *) simp
  finally show "kframe s t" using kframeI [OF *(2)] by metis
qed (auto elim!: kframeE simp: kframeI)

lemma kframe_hw_freelist: "settle h = settle (hw s) \<Longrightarrow> kframe s (s\<lparr>hw := h, freelist := f\<rparr>)"
  using kframeI [of h s "mem s" f] by simp

lemma kframe_hw: "settle h = settle (hw s) \<Longrightarrow> kframe s (s\<lparr>hw := h\<rparr>)"
  using kframeI [of h s "mem s" "freelist s"] by simp

lemma kalloc_cases:
  assumes "kmem_ready s" "free_pages s ps"
  obtains (none) t where "kalloc s = Ret 0 t" "ps = []" "kmem_ready t" "free_pages t []"
      "mem t = mem s" "kframe s t"
    | (some) p ps' t where "kalloc s = Ret p t" "p \<noteq> 0" "ps = p # ps'" "kmem_ready t" "free_pages t ps'"
      "mem t = fill (mem s) p 4096 5" "kframe s t"
proof -
  have fr: "kframe s (if freelist s = 0 then s\<lparr>hw := settle (hw s)\<rparr>
      else s\<lparr>hw := settle (hw s), freelist := load64 (mem s) (freelist s), mem := fill (mem s) (freelist s) 4096 5\<rparr>)"
    by (simp add: kframe_hw kframe_hw_freelist hw_simps)
  show thesis
  proof (cases ps)
    case Nil
    then show thesis
      using kalloc_none [OF assms(1)] assms fr none kalloc_eq [OF assms(1)]
      by (auto simp: free_pages_def split: if_splits)
  next
    case (Cons p qs)
    then have "p \<noteq> 0" using assms ram_page_nonzero by (auto simp: free_pages_def)
    then show thesis
      using kalloc_some [OF assms(1), of p qs] assms fr some Cons kalloc_eq [OF assms(1)]
      by (auto simp: free_pages_def split: if_splits)
  qed
qed

lemma kfree_Ret:
  assumes "kmem_ready s" "free_pages s ps" "ram_page (kend s) p" "p \<notin> set ps"
  obtains t where "kfree p s = Ret () t" "kmem_ready t" "free_pages t (p # ps)"
    "agree_off p (mem s) (mem t)" "kframe s t"
proof -
  have "kframe s (s\<lparr>hw := settle (hw s), freelist := p, mem := store64 (fill (mem s) p 4096 1) p (freelist s)\<rparr>)"
    by (simp add: kframe_hw_freelist hw_simps)
  then show thesis
    using kfree_page [OF assms] kfree_eq [OF assms(1,3)] that by simp
qed

section \<open>The allocator interface\<close>

locale page_allocator =
  fixes alloc :: "'s \<Rightarrow> (u64, 's) res"
    and free :: "u64 \<Rightarrow> 's \<Rightarrow> (unit, 's) res"
    and avail :: "'s \<Rightarrow> u64 list \<Rightarrow> bool"
    and legal :: "'s \<Rightarrow> u64 \<Rightarrow> bool"
    and bytes :: "'s \<Rightarrow> mem"
  assumes avail_pages: "avail s ps \<Longrightarrow> distinct ps \<and> (\<forall>p\<in>set ps. legal s p \<and> p \<noteq> 0 \<and> aligned p)"
    and alloc_some: "avail s (p # ps) \<Longrightarrow>
      yields (alloc s) (\<lambda>r t. r = p \<and> avail t ps \<and> legal t = legal s \<and> agree_off p (bytes s) (bytes t))"
    and alloc_none: "avail s [] \<Longrightarrow>
      yields (alloc s) (\<lambda>r t. r = 0 \<and> avail t [] \<and> legal t = legal s \<and> bytes t = bytes s)"
    and free_legal: "avail s ps \<Longrightarrow> legal s p \<Longrightarrow> p \<notin> set ps \<Longrightarrow>
      yields (free p s) (\<lambda>_ t. avail t (p # ps) \<and> legal t = legal s \<and> agree_off p (bytes s) (bytes t))"
begin

lemma alloc_zero_iff:
  assumes "avail s ps"
  shows "yields (alloc s) (\<lambda>r t. r = 0 \<longleftrightarrow> ps = [])"
proof (cases ps)
  case Nil
  then show ?thesis using assms by (intro yields_mono [OF alloc_none]) auto
next
  case (Cons p qs)
  then show ?thesis
    using assms avail_pages [OF assms] by (intro yields_mono [OF alloc_some]) auto
qed

lemma alloc_many_take:
  assumes "avail s ps" "n \<le> length ps"
  shows "yields (alloc_many alloc n s) (\<lambda>qs t. qs = take n ps \<and> avail t (drop n ps) \<and> legal t = legal s)"
  using assms
proof (induction n arbitrary: s ps)
  case (Suc n)
  then obtain p ps' where ps: "ps = p # ps'" by (cases ps) auto
  have "yields (alloc s) (\<lambda>r t. r = p \<and> avail t ps' \<and> legal t = legal s \<and> agree_off p (bytes s) (bytes t))"
    using Suc.prems ps alloc_some by blast
  then show ?case
    unfolding alloc_many.simps
  proof (rule yields_seq, elim conjE)
    fix r t assume t: "r = p" "avail t ps'" "legal t = legal s"
    then have "yields (alloc_many alloc n t) (\<lambda>qs u. qs = take n ps' \<and> avail u (drop n ps') \<and> legal u = legal t)"
      using Suc.prems ps by (intro Suc.IH) auto
    then show "yields (andthen (alloc_many alloc n t) (\<lambda>qs u. Ret (r # qs) u))
        (\<lambda>qs u. qs = take (Suc n) ps \<and> avail u (drop (Suc n) ps) \<and> legal u = legal s)"
      by (rule yields_seq) (simp add: t ps)
  qed
qed simp

lemma alloc_many_distinct:
  assumes "avail s ps" "n \<le> length ps"
  shows "yields (alloc_many alloc n s) (\<lambda>qs t. length qs = n \<and> distinct qs \<and> 0 \<notin> set qs
           \<and> (\<exists>rest. avail t rest \<and> set qs \<inter> set rest = {} \<and> set qs \<union> set rest = set ps))"
proof -
  have d: "distinct ps" "0 \<notin> set ps" using avail_pages [OF assms(1)] by auto
  have "distinct (take n ps @ drop n ps)" "set (take n ps @ drop n ps) = set ps" using d by simp_all
  then have "set (take n ps) \<inter> set (drop n ps) = {}" "set (take n ps) \<union> set (drop n ps) = set ps"
    by (simp_all only: distinct_append set_append)
  then show ?thesis
    using d assms(2) by (intro yields_mono [OF alloc_many_take [OF assms]]) (auto dest: in_set_takeD)
qed

lemma free_alloc:
  assumes "avail s ps" "legal s p" "p \<notin> set ps"
  shows "yields (andthen (free p s) (\<lambda>_. alloc)) (\<lambda>r t. r = p \<and> avail t ps)"
  using free_legal [OF assms] by (rule yields_seq) (elim conjE, rule yields_mono [OF alloc_some], auto)

end

interpretation kmem: page_allocator kalloc kfree
  "\<lambda>s ps. kmem_ready s \<and> free_pages s ps" "\<lambda>s. ram_page (kend s)" mem
proof
  fix s :: "'b ksys_scheme" and ps
  assume "kmem_ready s \<and> free_pages s ps"
  then show "distinct ps \<and> (\<forall>p\<in>set ps. ram_page (kend s) p \<and> p \<noteq> 0 \<and> aligned p)"
    using ram_page_nonzero by (auto simp: free_pages_def ram_page_def)
next
  fix s :: "'b ksys_scheme" and p ps
  assume "kmem_ready s \<and> free_pages s (p # ps)"
  then show "yields (kalloc s) (\<lambda>r t. r = p \<and> (kmem_ready t \<and> free_pages t ps)
      \<and> ram_page (kend t) = ram_page (kend s) \<and> agree_off p (mem s) (mem t))"
    by (auto intro!: yields_mono [OF kalloc_some] agree_off_fill)
next
  fix s :: "'b ksys_scheme"
  assume "kmem_ready s \<and> free_pages s []"
  then show "yields (kalloc s) (\<lambda>r t. r = 0 \<and> (kmem_ready t \<and> free_pages t [])
      \<and> ram_page (kend t) = ram_page (kend s) \<and> mem t = mem s)"
    by (auto intro: yields_mono [OF kalloc_none])
next
  fix s :: "'b ksys_scheme" and ps p
  assume "kmem_ready s \<and> free_pages s ps" "ram_page (kend s) p" "p \<notin> set ps"
  then show "yields (kfree p s) (\<lambda>_ t. (kmem_ready t \<and> free_pages t (p # ps))
      \<and> ram_page (kend t) = ram_page (kend s) \<and> agree_off p (mem s) (mem t))"
    by (auto intro: yields_mono [OF kfree_page])
qed

section \<open>Properties\<close>

lemma load64_zero: "load64 (\<lambda>_. 0) a = 0"
  unfolding load64_def by (rule bit_word_eqI) (simp add: bit_load_le)

text \<open>
  C19. \<open>kalloc\<close> never hands out a page twice: from a well-formed free list, \<open>n\<close> calls in a
  row return \<open>n\<close> distinct non-null pages, and the remaining free list is well-formed
  and is exactly the rest.
\<close>

theorem kalloc_many_distinct:
  assumes "kmem_ready s" "free_pages s ps" "n \<le> length ps"
  shows "yields (alloc_many kalloc n s) (\<lambda>qs t. length qs = n \<and> distinct qs \<and> 0 \<notin> set qs
           \<and> (\<exists>rest. (kmem_ready t \<and> free_pages t rest) \<and> set qs \<inter> set rest = {} \<and> set qs \<union> set rest = set ps))"
  using assms by (intro kmem.alloc_many_distinct) auto

theorem kalloc_many_distinct_witness:
  "yields (alloc_many kalloc 1 (boot_ksys\<lparr>freelist := 0x80030000\<rparr>)) (\<lambda>qs t. length qs = 1)"
proof -
  have "kmem_ready (boot_ksys\<lparr>freelist := 0x80030000\<rparr>)"
    "free_pages (boot_ksys\<lparr>freelist := 0x80030000\<rparr>) [0x80030000]"
    by (simp_all add: kmem_ready_def boot_ksys_def boot_machine_def hw_ok_def hw_defs lock_free_def
       init_spinlock_def free_pages_def load64_zero ram_page_def aligned_def PHYSTOP_def KERNBASE_def)
  from kalloc_many_distinct [OF this, of 1] show ?thesis by (auto intro: yields_mono)
qed

lemma kinit_spec:
  assumes "hw_ok (hw s)" "freelist s = 0" "0 < kend s" "kend s \<le> PHYSTOP"
  shows "yields (kinit s) (\<lambda>_ t. kmem_ready t
           \<and> (\<exists>ps. free_pages t ps \<and> set ps = {q. ram_page (kend s) q}))"
proof -
  define s' where "s' = initlock KmemLock ''kmem'' s"
  have s': "kmem_ready s'" "free_pages s' []" "kend s' = kend s"
    using assms by (auto simp: s'_def kmem_ready_def initlock_def lock_free_def init_spinlock_def
       hw_ok_def hw_defs free_pages_def)
  have small: "unat (kend s) + 4095 < 2 ^ 64" "unat (kend s) \<le> unat PHYSTOP"
    using assms(4) by (simp_all add: word_le_nat_alt aligned_PHYSTOP)
  have up: "kend s \<le> PGROUNDUP (kend s)" "PGROUNDUP (kend s) \<le> PHYSTOP"
    using PGROUNDUP_bounds(1) [OF small(1)] PGROUNDUP_le [OF small(1) aligned_PHYSTOP(1) small(2)]
    by (simp_all add: word_le_nat_alt)
  have "\<not> q < PGROUNDUP (kend s)" if "ram_page (kend s) q" for q
    using PGROUNDUP_le [OF small(1), of q] that by (simp add: ram_page_def word_le_nat_alt word_less_nat_alt not_less)
  then have "set [] = {q. ram_page (kend s') q \<and> q < PGROUNDUP (kend s)}" using s'(3) by auto
  then show ?thesis
    using freerange_from_pages [OF s'(1,2) _ aligned_PGROUNDUP, of "kend s"] up s'(3)
    by (simp add: kinit_def freerange_def flip: s'_def) (erule yields_mono, blast)
qed

text \<open>
  C18. \<open>kinit\<close> returns with a well-formed free list that holds every page between the
  kernel's \<open>end\<close> symbol and \<open>PHYSTOP\<close> exactly once, and nothing else.
\<close>

theorem kinit_frees_all_ram:
  assumes "hw_ok (hw s)" "freelist s = 0" "0 < kend s" "kend s \<le> PHYSTOP"
  shows "yields (kinit s) (\<lambda>_ t. kmem_ready t
           \<and> (\<exists>ps. free_pages t ps \<and> set ps = {q. ram_page (kend s) q}))"
  using assms by (rule kinit_spec)

theorem kinit_frees_all_ram_witness:
  "yields (kinit boot_ksys) (\<lambda>_ t. \<exists>ps. free_pages t ps \<and> 0x80030000 \<in> set ps)"
proof -
  have "yields (kinit boot_ksys) (\<lambda>_ t. kmem_ready t
      \<and> (\<exists>ps. free_pages t ps \<and> set ps = {q. ram_page (kend boot_ksys) q}))"
    by (rule kinit_frees_all_ram)
      (simp_all add: boot_ksys_def boot_machine_def hw_ok_def hw_defs PHYSTOP_def KERNBASE_def)
  then show ?thesis
    by (rule yields_mono) (auto simp: ram_page_def aligned_def boot_ksys_def PHYSTOP_def KERNBASE_def)
qed

end
