(* ===== verification/Vm.thy ===== *)
theory Vm
  imports Kalloc
begin

text \<open>
  Page tables, \<^verbatim>\<open>kernel/vm.c\<close>. Page-table pages are pages of the byte
  memory \<open>mem\<close>; \<open>walk\<close> and its callers load and store their entries there, so
  that aliasing between tables, the free list and user pages is the aliasing
  of the real kernel. Kernel buffers that are not pages (locals and static
  arrays) are byte lists: \<open>copyout\<close> takes the bytes to copy and \<open>copyin\<close>
  returns the bytes copied.
\<close>

section \<open>Walking\<close>

primrec walk_from :: "nat \<Rightarrow> u64 \<Rightarrow> u64 \<Rightarrow> bool \<Rightarrow> 'b ksys_scheme \<Rightarrow> (u64, 'b ksys_scheme) res" where
  "walk_from 0 pt va alloc s = Ret (pt + 8 * PX 0 va) s"
| "walk_from (Suc l) pt va alloc s =
     (let pte = pt + 8 * PX (Suc l) va; e = load64 (mem s) pte
      in if e AND PTE_V \<noteq> 0 then walk_from l (PTE2PA e) va alloc s
         else if \<not> alloc then Ret 0 s
         else andthen (kalloc s) (\<lambda>pt s.
                if pt = 0 then Ret 0 s
                else let s = s\<lparr>mem := memset (mem s) pt 0 4096\<rparr>;
                         s = s\<lparr>mem := store64 (mem s) pte (PA2PTE pt OR PTE_V)\<rparr>
                     in walk_from l pt va alloc s))"

definition walk :: "u64 \<Rightarrow> u64 \<Rightarrow> bool \<Rightarrow> 'b ksys_scheme \<Rightarrow> (u64, 'b ksys_scheme) res" where
  "walk pt va alloc s = (if MAXVA \<le> va then Halt (Panic ''walk'') s else walk_from 2 pt va alloc s)"

definition walkaddr :: "u64 \<Rightarrow> u64 \<Rightarrow> 'b ksys_scheme \<Rightarrow> (u64, 'b ksys_scheme) res" where
  "walkaddr pt va s =
     (if MAXVA \<le> va then Ret 0 s
      else andthen (walk pt va False s) (\<lambda>pte s.
             if pte = 0 then Ret 0 s
             else let e = load64 (mem s) pte
                  in if e AND PTE_V = 0 then Ret 0 s
                     else if e AND PTE_U = 0 then Ret 0 s
                     else Ret (PTE2PA e) s))"

text \<open>A loop that walks at every address ends: \<open>walk\<close> panics at \<open>MAXVA\<close>.\<close>

lemma walk_Ret_less: "walk pt va alloc s = Ret a s' \<Longrightarrow> va < MAXVA"
  by (auto simp: walk_def split: if_splits)

lemma next_page_less: "a < MAXVA \<Longrightarrow> 2 ^ 40 - unat (a + PGSIZE) < 2 ^ 40 - unat a"
  by (simp add: MAXVA_def word_less_nat_alt unat_word_ariths)

section \<open>Mapping and unmapping\<close>

function mappages_from :: "u64 \<Rightarrow> u64 \<Rightarrow> u64 \<Rightarrow> u64 \<Rightarrow> u64 \<Rightarrow> 'b ksys_scheme \<Rightarrow> (int, 'b ksys_scheme) res" where
  "mappages_from pt a lasta pa perm s =
     andthen (walk pt a True s) (\<lambda>pte s.
       if pte = 0 then Ret (- 1) s
       else if load64 (mem s) pte AND PTE_V \<noteq> 0 then Halt (Panic ''mappages: remap'') s
       else let s = s\<lparr>mem := store64 (mem s) pte (PA2PTE pa OR perm OR PTE_V)\<rparr>
            in if a = lasta then Ret 0 s
               else mappages_from pt (a + PGSIZE) lasta (pa + PGSIZE) perm s)"
  by pat_completeness auto
termination
  by (relation "measure (\<lambda>(pt, a, l, pa, perm, s). 2 ^ 40 - unat a)")
    (auto dest!: walk_Ret_less next_page_less)

definition mappages :: "u64 \<Rightarrow> u64 \<Rightarrow> u64 \<Rightarrow> u64 \<Rightarrow> u64 \<Rightarrow> 'b ksys_scheme \<Rightarrow> (int, 'b ksys_scheme) res" where
  "mappages pt va sz pa perm s =
     (if sz = 0 then Halt (Panic ''mappages: size'') s
      else mappages_from pt (PGROUNDDOWN va) (PGROUNDDOWN (va + sz - 1)) pa perm s)"

definition kvmmap :: "u64 \<Rightarrow> u64 \<Rightarrow> u64 \<Rightarrow> u64 \<Rightarrow> u64 \<Rightarrow> 'b ksys_scheme \<Rightarrow> (unit, 'b ksys_scheme) res" where
  "kvmmap kpgtbl va pa sz perm s =
     andthen (mappages kpgtbl va sz pa perm s) (\<lambda>r s.
       if r \<noteq> 0 then Halt (Panic ''kvmmap'') s else Ret () s)"

function uvmunmap_from :: "u64 \<Rightarrow> u64 \<Rightarrow> u64 \<Rightarrow> bool \<Rightarrow> 'b ksys_scheme \<Rightarrow> (unit, 'b ksys_scheme) res" where
  "uvmunmap_from pt a stop do_free s =
     (if a < stop then
        andthen (walk pt a False s) (\<lambda>pte s.
          if pte = 0 then Halt (Panic ''uvmunmap: walk'') s
          else let e = load64 (mem s) pte
               in if e AND PTE_V = 0 then Halt (Panic ''uvmunmap: not mapped'') s
                  else if PTE_FLAGS e = PTE_V then Halt (Panic ''uvmunmap: not a leaf'') s
                  else andthen (if do_free then kfree (PTE2PA e) s else Ret () s) (\<lambda>_ s.
                         let s = s\<lparr>mem := store64 (mem s) pte 0\<rparr>
                         in uvmunmap_from pt (a + PGSIZE) stop do_free s))
      else Ret () s)"
  by pat_completeness auto
termination
  by (relation "measure (\<lambda>(pt, a, stop, f, s). 2 ^ 40 - unat a)")
    (auto dest!: walk_Ret_less next_page_less)

definition uvmunmap :: "u64 \<Rightarrow> u64 \<Rightarrow> u64 \<Rightarrow> bool \<Rightarrow> 'b ksys_scheme \<Rightarrow> (unit, 'b ksys_scheme) res" where
  "uvmunmap pt va npages do_free s =
     (if va mod PGSIZE \<noteq> 0 then Halt (Panic ''uvmunmap: not aligned'') s
      else uvmunmap_from pt va (va + npages * PGSIZE) do_free s)"

section \<open>User address spaces\<close>

definition uvmcreate :: "'b ksys_scheme \<Rightarrow> (u64, 'b ksys_scheme) res" where
  "uvmcreate s =
     andthen (kalloc s) (\<lambda>pt s.
       if pt = 0 then Ret 0 s
       else Ret pt (s\<lparr>mem := memset (mem s) pt 0 4096\<rparr>))"

definition put_bytes :: "mem \<Rightarrow> u64 \<Rightarrow> byte list \<Rightarrow> mem" where
  "put_bytes m a bs = (\<lambda>b. if unat (b - a) < length bs then bs ! unat (b - a) else m b)"

definition get_bytes :: "mem \<Rightarrow> u64 \<Rightarrow> nat \<Rightarrow> byte list" where
  "get_bytes m a n = map (\<lambda>i. m (a + of_nat i)) [0..<n]"

definition uvmfirst :: "u64 \<Rightarrow> byte list \<Rightarrow> 'b ksys_scheme \<Rightarrow> (unit, 'b ksys_scheme) res" where
  "uvmfirst pt src s =
     (if 4096 \<le> length src then Halt (Panic ''uvmfirst: more than a page'') s
      else andthen (kalloc s) (\<lambda>page s.
             let s = s\<lparr>mem := memset (mem s) page 0 4096\<rparr>
             in andthen (mappages pt 0 PGSIZE page (PTE_W OR PTE_R OR PTE_X OR PTE_U) s) (\<lambda>_ s.
                  Ret () (s\<lparr>mem := put_bytes (mem s) page src\<rparr>))))"

definition uvmdealloc :: "u64 \<Rightarrow> u64 \<Rightarrow> u64 \<Rightarrow> 'b ksys_scheme \<Rightarrow> (u64, 'b ksys_scheme) res" where
  "uvmdealloc pt oldsz newsz s =
     (if oldsz \<le> newsz then Ret oldsz s
      else if PGROUNDUP newsz < PGROUNDUP oldsz
        then let npages = scast (ucast ((PGROUNDUP oldsz - PGROUNDUP newsz) div PGSIZE) :: u32)
             in andthen (uvmunmap pt (PGROUNDUP newsz) npages True s) (\<lambda>_ s. Ret newsz s)
        else Ret newsz s)"

lemma PGROUNDDOWN_le: "PGROUNDDOWN a \<le> a"
  by (simp add: word_le_nat_alt unat_PGROUNDDOWN)

lemma mappages_Ret_less: "mappages pt va sz pa perm s = Ret r s' \<Longrightarrow> PGROUNDDOWN va < MAXVA"
  unfolding mappages_def
  by (subst (asm) mappages_from.simps) (auto simp: res_simps split: if_splits dest: walk_Ret_less)

lemma next_page_round: "PGROUNDDOWN a < MAXVA \<Longrightarrow> 2 ^ 40 - unat (a + PGSIZE) < 2 ^ 40 - unat a"
proof -
  assume "PGROUNDDOWN a < MAXVA"
  then have "unat a - unat a mod 4096 < 2 ^ 38"
    by (simp add: MAXVA_def word_less_nat_alt unat_PGROUNDDOWN)
  moreover have "unat a mod 4096 < 4096" by simp
  ultimately have "unat a < 2 ^ 38 + 4096" by linarith
  then show ?thesis by (simp add: unat_word_ariths)
qed

function uvmalloc_from :: "u64 \<Rightarrow> u64 \<Rightarrow> u64 \<Rightarrow> u64 \<Rightarrow> u64 \<Rightarrow> 'b ksys_scheme \<Rightarrow> (u64, 'b ksys_scheme) res" where
  "uvmalloc_from pt a oldsz newsz xperm s =
     (if a < newsz then
        andthen (kalloc s) (\<lambda>page s.
          if page = 0 then andthen (uvmdealloc pt a oldsz s) (\<lambda>_ s. Ret 0 s)
          else let s = s\<lparr>mem := memset (mem s) page 0 4096\<rparr>
               in andthen (mappages pt a PGSIZE page (PTE_R OR PTE_U OR xperm) s) (\<lambda>r s.
                    if r \<noteq> 0 then
                      andthen (kfree page s) (\<lambda>_ s.
                        andthen (uvmdealloc pt a oldsz s) (\<lambda>_ s. Ret 0 s))
                    else uvmalloc_from pt (a + PGSIZE) oldsz newsz xperm s))
      else Ret newsz s)"
  by pat_completeness auto
termination
  by (relation "measure (\<lambda>(pt, a, oldsz, newsz, x, s). 2 ^ 40 - unat a)")
    (auto dest!: mappages_Ret_less next_page_round)

definition uvmalloc :: "u64 \<Rightarrow> u64 \<Rightarrow> u64 \<Rightarrow> u64 \<Rightarrow> 'b ksys_scheme \<Rightarrow> (u64, 'b ksys_scheme) res" where
  "uvmalloc pt oldsz newsz xperm s =
     (if newsz < oldsz then Ret oldsz s
      else let oldsz = PGROUNDUP oldsz in uvmalloc_from pt oldsz oldsz newsz xperm s)"

text \<open>
  \<open>freewalk\<close> recurses through the levels of a table. The first argument bounds
  the depth; three levels is the depth of every Sv39 table.
\<close>

primrec freewalk_entries ::
    "(u64 \<Rightarrow> 'b ksys_scheme \<Rightarrow> (unit, 'b ksys_scheme) res) \<Rightarrow> u64 \<Rightarrow> nat list \<Rightarrow> 'b ksys_scheme \<Rightarrow> (unit, 'b ksys_scheme) res" where
  "freewalk_entries rec pt [] s = Ret () s"
| "freewalk_entries rec pt (i # is) s =
     (let pte = load64 (mem s) (pt + 8 * of_nat i)
      in if pte AND PTE_V \<noteq> 0 \<and> pte AND (PTE_R OR PTE_W OR PTE_X) = 0 then
           andthen (rec (PTE2PA pte) s) (\<lambda>_ s.
             let s = s\<lparr>mem := store64 (mem s) (pt + 8 * of_nat i) 0\<rparr>
             in freewalk_entries rec pt is s)
         else if pte AND PTE_V \<noteq> 0 then Halt (Panic ''freewalk: leaf'') s
         else freewalk_entries rec pt is s)"

primrec freewalk_depth :: "nat \<Rightarrow> u64 \<Rightarrow> 'b ksys_scheme \<Rightarrow> (unit, 'b ksys_scheme) res" where
  "freewalk_depth 0 pt s = Halt OutOfFuel s"
| "freewalk_depth (Suc d) pt s =
     andthen (freewalk_entries (freewalk_depth d) pt [0..<512] s) (\<lambda>_ s. kfree pt s)"

definition freewalk :: "u64 \<Rightarrow> 'b ksys_scheme \<Rightarrow> (unit, 'b ksys_scheme) res" where
  "freewalk pt s = freewalk_depth 3 pt s"

definition uvmfree :: "u64 \<Rightarrow> u64 \<Rightarrow> 'b ksys_scheme \<Rightarrow> (unit, 'b ksys_scheme) res" where
  "uvmfree pt sz s =
     andthen (if 0 < sz then uvmunmap pt 0 (PGROUNDUP sz div PGSIZE) True s else Ret () s)
       (\<lambda>_ s. freewalk pt s)"

text \<open>Copying an address space, and sharing one between threads.\<close>

function uvmcopy_from :: "u64 \<Rightarrow> u64 \<Rightarrow> u64 \<Rightarrow> u64 \<Rightarrow> 'b ksys_scheme \<Rightarrow> (int, 'b ksys_scheme) res" where
  "uvmcopy_from old new i sz s =
     (if i < sz then
        andthen (walk old i False s) (\<lambda>pte s.
          if pte = 0 then Halt (Panic ''uvmcopy: pte should exist'') s
          else let e = load64 (mem s) pte
               in if e AND PTE_V = 0 then Halt (Panic ''uvmcopy: page not present'') s
                  else let pa = PTE2PA e; flags = PTE_FLAGS e
                       in andthen (kalloc s) (\<lambda>page s.
                            if page = 0 then andthen (uvmunmap new 0 (i div PGSIZE) True s) (\<lambda>_ s. Ret (- 1) s)
                            else let s = s\<lparr>mem := memmove (mem s) page pa 4096\<rparr>
                                 in andthen (mappages new i PGSIZE page flags s) (\<lambda>r s.
                                      if r \<noteq> 0 then
                                        andthen (kfree page s) (\<lambda>_ s.
                                          andthen (uvmunmap new 0 (i div PGSIZE) True s) (\<lambda>_ s. Ret (- 1) s))
                                      else uvmcopy_from old new (i + PGSIZE) sz s)))
      else Ret 0 s)"
  by pat_completeness auto
termination
  by (relation "measure (\<lambda>(old, new, i, sz, s). 2 ^ 40 - unat i)")
    (auto dest!: walk_Ret_less next_page_less)

definition uvmcopy :: "u64 \<Rightarrow> u64 \<Rightarrow> u64 \<Rightarrow> 'b ksys_scheme \<Rightarrow> (int, 'b ksys_scheme) res" where
  "uvmcopy old new sz s = uvmcopy_from old new 0 sz s"

function copytable_from :: "u64 \<Rightarrow> u64 \<Rightarrow> u64 \<Rightarrow> u64 \<Rightarrow> 'b ksys_scheme \<Rightarrow> (int, 'b ksys_scheme) res" where
  "copytable_from old new i sz s =
     (if i < sz then
        andthen (walk old i False s) (\<lambda>pte s.
          if pte = 0 then Halt (Panic ''copytable: pte should exist'') s
          else let e = load64 (mem s) pte
               in if e AND PTE_V = 0 then copytable_from old new (i + PGSIZE) sz s
                  else let pa = PTE2PA e; flags = PTE_FLAGS e
                       in andthen (mappages new i PGSIZE pa flags s) (\<lambda>r s.
                            if r \<noteq> 0 then andthen (uvmunmap new 0 (i div PGSIZE) True s) (\<lambda>_ s. Ret (- 1) s)
                            else copytable_from old new (i + PGSIZE) sz s))
      else Ret 0 s)"
  by pat_completeness auto
termination
  by (relation "measure (\<lambda>(old, new, i, sz, s). 2 ^ 40 - unat i)")
    (auto dest!: walk_Ret_less next_page_less)

definition copytable :: "u64 \<Rightarrow> u64 \<Rightarrow> u64 \<Rightarrow> 'b ksys_scheme \<Rightarrow> (int, 'b ksys_scheme) res" where
  "copytable old new sz s = copytable_from old new 0 sz s"

definition uvmclear :: "u64 \<Rightarrow> u64 \<Rightarrow> 'b ksys_scheme \<Rightarrow> (unit, 'b ksys_scheme) res" where
  "uvmclear pt va s =
     andthen (walk pt va False s) (\<lambda>pte s.
       if pte = 0 then Halt (Panic ''uvmclear'') s
       else Ret () (s\<lparr>mem := store64 (mem s) pte (load64 (mem s) pte AND NOT PTE_U)\<rparr>))"

section \<open>Copying between user and kernel\<close>

lemma page_rest_pos: "0 < 4096 - unat (a - PGROUNDDOWN a)"
proof -
  have "unat (a - PGROUNDDOWN a) = unat a mod 4096"
    using PGROUNDDOWN_le [of a] by (simp add: unat_sub unat_PGROUNDDOWN)
  then show ?thesis by simp
qed

text \<open>The number of bytes copied in one round: to the end of the page or of the buffer.\<close>

definition chunk :: "u64 \<Rightarrow> nat \<Rightarrow> nat" where
  "chunk va len = min (4096 - unat (va - PGROUNDDOWN va)) len"

lemma chunk_pos: "0 < len \<Longrightarrow> 0 < chunk va len"
  using page_rest_pos [of va] by (simp add: chunk_def)

lemma chunk_shrink: "len - chunk va len < len \<longleftrightarrow> 0 < len"
  using chunk_pos [of len va] by auto

lemma chunk_le: "chunk va len \<le> len"
  by (simp add: chunk_def)

function copyout :: "u64 \<Rightarrow> u64 \<Rightarrow> byte list \<Rightarrow> 'b ksys_scheme \<Rightarrow> (int, 'b ksys_scheme) res" where
  "copyout pt dstva src s =
     (if src = [] then Ret 0 s
      else let va0 = PGROUNDDOWN dstva
           in andthen (walkaddr pt va0 s) (\<lambda>pa0 s.
                if pa0 = 0 then Ret (- 1) s
                else let n = chunk dstva (length src);
                         s = s\<lparr>mem := put_bytes (mem s) (pa0 + (dstva - va0)) (take n src)\<rparr>
                     in copyout pt (va0 + PGSIZE) (drop n src) s))"
  by pat_completeness auto
termination
  by (relation "measure (\<lambda>(pt, va, src, s). length src)") (auto simp: chunk_shrink)

text \<open>The result of \<open>copyin\<close> and \<open>copyinstr\<close> is paired with the bytes stored in the kernel buffer.\<close>

function copyin :: "u64 \<Rightarrow> u64 \<Rightarrow> nat \<Rightarrow> 'b ksys_scheme \<Rightarrow> (int \<times> byte list, 'b ksys_scheme) res" where
  "copyin pt srcva len s =
     (if len = 0 then Ret (0, []) s
      else let va0 = PGROUNDDOWN srcva
           in andthen (walkaddr pt va0 s) (\<lambda>pa0 s.
                if pa0 = 0 then Ret (- 1, []) s
                else let n = chunk srcva len;
                         bs = get_bytes (mem s) (pa0 + (srcva - va0)) n
                     in andthen (copyin pt (va0 + PGSIZE) (len - n) s) (\<lambda>(r, rest) s. Ret (r, bs @ rest) s)))"
  by pat_completeness auto
termination
  by (relation "measure (\<lambda>(pt, va, len, s). len)") (auto simp: chunk_shrink)

primrec copy_str :: "mem \<Rightarrow> u64 \<Rightarrow> nat \<Rightarrow> bool \<times> byte list" where
  "copy_str m p 0 = (False, [])"
| "copy_str m p (Suc n) =
     (if m p = 0 then (True, [0])
      else let (got_null, bs) = copy_str m (p + 1) n in (got_null, m p # bs))"

function copyinstr :: "u64 \<Rightarrow> u64 \<Rightarrow> nat \<Rightarrow> 'b ksys_scheme \<Rightarrow> (int \<times> byte list, 'b ksys_scheme) res" where
  "copyinstr pt srcva mx s =
     (if mx = 0 then Ret (- 1, []) s
      else let va0 = PGROUNDDOWN srcva
           in andthen (walkaddr pt va0 s) (\<lambda>pa0 s.
                if pa0 = 0 then Ret (- 1, []) s
                else let n = chunk srcva mx;
                         (got_null, bs) = copy_str (mem s) (pa0 + (srcva - va0)) n
                     in if got_null then Ret (0, bs) s
                        else andthen (copyinstr pt (va0 + PGSIZE) (mx - n) s)
                               (\<lambda>(r, rest) s. Ret (r, bs @ rest) s)))"
  by pat_completeness auto
termination
  by (relation "measure (\<lambda>(pt, va, mx, s). mx)") (auto simp: chunk_shrink)

declare mappages_from.simps [simp del] uvmunmap_from.simps [simp del] uvmalloc_from.simps [simp del]
  uvmcopy_from.simps [simp del] copytable_from.simps [simp del] copyout.simps [simp del]
  copyin.simps [simp del] copyinstr.simps [simp del]

section \<open>The kernel page table\<close>

definition NPROC :: nat where "NPROC = 64"

primrec proc_mapstacks_from :: "nat list \<Rightarrow> u64 \<Rightarrow> 'b ksys_scheme \<Rightarrow> (unit, 'b ksys_scheme) res" where
  "proc_mapstacks_from [] kpgtbl s = Ret () s"
| "proc_mapstacks_from (p # ps) kpgtbl s =
     andthen (kalloc s) (\<lambda>pa s.
       if pa = 0 then Halt (Panic ''kalloc'') s
       else andthen (kvmmap kpgtbl (KSTACK p) pa PGSIZE (PTE_R OR PTE_W) s) (\<lambda>_ s.
              proc_mapstacks_from ps kpgtbl s))"

definition proc_mapstacks :: "u64 \<Rightarrow> 'b ksys_scheme \<Rightarrow> (unit, 'b ksys_scheme) res" where
  "proc_mapstacks kpgtbl s = proc_mapstacks_from [0..<NPROC] kpgtbl s"

text \<open>\<open>etext\<close> and \<open>trampoline\<close> are the linker symbols.\<close>

definition kvmmake :: "u64 \<Rightarrow> u64 \<Rightarrow> 'b ksys_scheme \<Rightarrow> (u64, 'b ksys_scheme) res" where
  "kvmmake etext trampoline s =
     andthen (kalloc s) (\<lambda>kpgtbl s.
       let s = s\<lparr>mem := memset (mem s) kpgtbl 0 4096\<rparr>
       in andthen (kvmmap kpgtbl UART0 UART0 PGSIZE (PTE_R OR PTE_W) s) (\<lambda>_ s.
          andthen (kvmmap kpgtbl VIRTIO0 VIRTIO0 PGSIZE (PTE_R OR PTE_W) s) (\<lambda>_ s.
          andthen (kvmmap kpgtbl PLIC PLIC 0x400000 (PTE_R OR PTE_W) s) (\<lambda>_ s.
          andthen (kvmmap kpgtbl KERNBASE KERNBASE (etext - KERNBASE) (PTE_R OR PTE_X) s) (\<lambda>_ s.
          andthen (kvmmap kpgtbl etext etext (PHYSTOP - etext) (PTE_R OR PTE_W) s) (\<lambda>_ s.
          andthen (kvmmap kpgtbl TRAMPOLINE trampoline PGSIZE (PTE_R OR PTE_X) s) (\<lambda>_ s.
          andthen (proc_mapstacks kpgtbl s) (\<lambda>_ s.
            Ret kpgtbl s))))))))"

end
