(* ===== verification/Vm_Tree.thy ===== *)
theory Vm_Tree
  imports Vm "HOL-Library.Sublist"
begin

text \<open>
  Page tables as trees. \<open>node m pt p\<close> is the page-table page that the
  index path \<open>p\<close> leads to from the root \<open>pt\<close>; \<open>pt_wf\<close> says that distinct
  paths lead to distinct pages, \<open>tables\<close> is the set of those pages, and \<open>pmap\<close>
  abstracts a table to the function from virtual page numbers to leaf
  entries. The lemmas give the effect of one leaf store and of one new
  interior table on all of these, and the specification of \<open>walk\<close> in both
  modes.
\<close>

section \<open>The tree of a page table\<close>

definition agree_outside :: "u64 set \<Rightarrow> mem \<Rightarrow> mem \<Rightarrow> bool" where
  "agree_outside S m m' \<longleftrightarrow> (\<forall>b. (\<forall>p\<in>S. \<not> in_page p b) \<longrightarrow> m' b = m b)"

definition entry :: "mem \<Rightarrow> u64 \<Rightarrow> u64 \<Rightarrow> u64" where
  "entry m x i = load64 m (x + 8 * i)"

primrec node :: "mem \<Rightarrow> u64 \<Rightarrow> u64 list \<Rightarrow> u64 option" where
  "node m pt [] = Some pt"
| "node m pt (i # is) = (if bit (entry m pt i) 0 then node m (PTE2PA (entry m pt i)) is else None)"

definition path_ok :: "u64 list \<Rightarrow> bool" where
  "path_ok p \<longleftrightarrow> length p \<le> 2 \<and> (\<forall>i\<in>set p. unat i < 512)"

definition tables :: "mem \<Rightarrow> u64 \<Rightarrow> u64 set" where
  "tables m pt = {x. \<exists>p. path_ok p \<and> node m pt p = Some x}"

definition pt_wf :: "mem \<Rightarrow> u64 \<Rightarrow> bool" where
  "pt_wf m pt \<longleftrightarrow>
     (\<forall>p q x. path_ok p \<longrightarrow> path_ok q \<longrightarrow> node m pt p = Some x \<longrightarrow> node m pt q = Some x \<longrightarrow> p = q)
     \<and> (\<forall>x\<in>tables m pt. aligned x)
     \<and> (\<forall>p i x. path_ok (p @ [i]) \<longrightarrow> node m pt p = Some x \<longrightarrow> bit (entry m x i) 0
          \<longrightarrow> entry m x i AND (PTE_R OR PTE_W OR PTE_X) = 0)"

primrec lpath :: "nat \<Rightarrow> u64 \<Rightarrow> u64 list" where
  "lpath 0 va = []"
| "lpath (Suc l) va = PX (Suc l) va # lpath l va"

definition pte :: "mem \<Rightarrow> u64 \<Rightarrow> u64 \<Rightarrow> u64" where
  "pte m pt va = (case node m pt (lpath 2 va) of None \<Rightarrow> 0 | Some x \<Rightarrow> entry m x (PX 0 va))"

definition vm_ok :: "'b ksys_scheme \<Rightarrow> u64 list \<Rightarrow> u64 \<Rightarrow> bool" where
  "vm_ok s ps pt \<longleftrightarrow> kmem_ready s \<and> free_pages s ps \<and> pt_wf (mem s) pt
     \<and> tables (mem s) pt \<inter> set ps = {} \<and> (\<forall>x\<in>tables (mem s) pt. ram_page (kend s) x)"

definition grow :: "u64 \<Rightarrow> 'b ksys_scheme \<Rightarrow> u64 list \<Rightarrow> 'b ksys_scheme \<Rightarrow> u64 list \<Rightarrow> bool" where
  "grow pt s ps t ps' \<longleftrightarrow> vm_ok t ps' pt \<and> kframe s t
     \<and> (\<exists>us. ps = us @ ps' \<and> tables (mem t) pt = tables (mem s) pt \<union> set us
          \<and> agree_outside (tables (mem s) pt \<union> set us) (mem s) (mem t))"

text \<open>
  The outcome of a walk that may allocate \<open>l\<close> interior tables: on failure a table was
  missing, the free list is exhausted and was shorter than \<open>l\<close>; on success the address of the leaf
  entry is returned. The mapping does not change.
\<close>

definition walk_post :: "nat \<Rightarrow> u64 \<Rightarrow> u64 \<Rightarrow> 'b ksys_scheme \<Rightarrow> u64 list \<Rightarrow> u64 \<Rightarrow> 'b ksys_scheme \<Rightarrow> bool" where
  "walk_post l pt va s ps r t \<longleftrightarrow> (\<exists>ps'. grow pt s ps t ps' \<and> (\<forall>va'. pte (mem t) pt va' = pte (mem s) pt va')
     \<and> (if r = 0 then ps' = [] \<and> length ps < l \<and> node (mem s) pt (lpath 2 va) = None
        else length ps \<le> length ps' + l \<and> (\<exists>y. node (mem t) pt (lpath 2 va) = Some y \<and> r = y + 8 * PX 0 va)))"

text \<open>Virtual page numbers below \<open>MAXVA\<close>, and their addresses.\<close>

definition npages :: nat where "npages = 2 ^ 26"

definition pageva :: "nat \<Rightarrow> u64" where
  "pageva n = of_nat n * 4096"

definition pmap :: "mem \<Rightarrow> u64 \<Rightarrow> nat \<Rightarrow> u64" where
  "pmap m pt n = pte m pt (pageva n)"

section \<open>Lemmas\<close>

lemma agree_outsideI: "agree_off p m m' \<Longrightarrow> p \<in> S \<Longrightarrow> agree_outside S m m'"
  by (auto simp: agree_outside_def agree_off_def)

lemma agree_outside_refl [simp]: "agree_outside S m m"
  by (simp add: agree_outside_def)

lemma agree_outside_trans: "agree_outside S m m' \<Longrightarrow> agree_outside T m' m'' \<Longrightarrow> S \<subseteq> U \<Longrightarrow> T \<subseteq> U \<Longrightarrow> agree_outside U m m''"
  unfolding agree_outside_def by (metis subsetD)

lemma entry_agree:
  assumes "agree_outside S m m'" "x \<notin> S" "aligned x" "\<forall>q\<in>S. aligned q" "unat i < 512"
  shows "entry m' x i = entry m x i"
  unfolding entry_def load64_def
proof (rule load_le_cong)
  fix k :: nat assume "k < 8"
  then have "in_page x (x + 8 * i + of_nat k)" using assms(5) by (rule in_page_entry [rotated])
  then show "m' (x + 8 * i + of_nat k) = m (x + 8 * i + of_nat k)"
    using assms in_page_disjoint [of x _ "x + 8 * i + of_nat k"] by (auto simp: agree_outside_def)
qed

lemma node_append: "node m pt (p @ q) = (case node m pt p of None \<Rightarrow> None | Some x \<Rightarrow> node m x q)"
  by (induction p arbitrary: pt) auto

lemma path_ok_append: "path_ok (p @ q) \<Longrightarrow> path_ok p"
  by (auto simp: path_ok_def)

lemma path_ok_snoc: "path_ok (p @ [i]) \<longleftrightarrow> length p \<le> 1 \<and> path_ok p \<and> unat i < 512"
  by (auto simp: path_ok_def)

lemma path_ok_Nil [simp]: "path_ok []"
  by (simp add: path_ok_def)

lemma tablesI: "path_ok p \<Longrightarrow> node m pt p = Some x \<Longrightarrow> x \<in> tables m pt"
  by (auto simp: tables_def)

lemma root_in_tables [simp]: "pt \<in> tables m pt"
  by (rule tablesI [of "[]"]) simp_all

lemma pt_wf_inj: "pt_wf m pt \<Longrightarrow> path_ok p \<Longrightarrow> path_ok q \<Longrightarrow> node m pt p = Some x \<Longrightarrow> node m pt q = Some x \<Longrightarrow> p = q"
  unfolding pt_wf_def by blast

lemma pt_wf_aligned: "pt_wf m pt \<Longrightarrow> x \<in> tables m pt \<Longrightarrow> aligned x"
  by (simp add: pt_wf_def)

lemma length_lpath [simp]: "length (lpath l va) = l"
  by (induction l) auto

lemma set_lpath: "i \<in> set (lpath l va) \<Longrightarrow> unat i < 512"
  by (induction l) (auto simp: PX_less)

lemma path_ok_lpath [simp]: "l \<le> 2 \<Longrightarrow> path_ok (lpath l va)"
  by (auto simp: path_ok_def set_lpath)

text \<open>A change of one entry of a table moves only the nodes below it.\<close>

lemma node_frame:
  assumes wf: "pt_wf m pt" and p: "path_ok p" "node m pt p = Some x"
    and same: "\<And>y j. y \<in> tables m pt \<Longrightarrow> unat j < 512 \<Longrightarrow> (y, j) \<noteq> (x, i) \<Longrightarrow> entry m' y j = entry m y j"
  shows "path_ok q \<Longrightarrow> \<not> prefix (p @ [i]) q \<Longrightarrow> node m' pt q = node m pt q"
proof (induction q rule: rev_induct)
  case (snoc j r)
  then have r: "path_ok r" "unat j < 512" "node m' pt r = node m pt r"
    by (auto simp: path_ok_snoc)
  show ?case
  proof (cases "node m pt r")
    case (Some y)
    have "(y, j) \<noteq> (x, i)"
      using pt_wf_inj [OF wf p(1) r(1) p(2)] Some snoc.prems by auto
    then have "entry m' y j = entry m y j"
      using r Some by (intro same) (auto intro: tablesI)
    then show ?thesis using Some r by (simp add: node_append)
  qed (use r in \<open>simp add: node_append\<close>)
qed simp

lemma node_same:
  assumes "pt_wf m pt" "\<And>y j. y \<in> tables m pt \<Longrightarrow> unat j < 512 \<Longrightarrow> entry m' y j = entry m y j"
  shows "path_ok q \<Longrightarrow> node m' pt q = node m pt q"
proof (induction q rule: rev_induct)
  case (snoc j r)
  then have "path_ok r" "unat j < 512" "node m' pt r = node m pt r" by (auto simp: path_ok_snoc)
  then show ?case
    using assms(2) tablesI [of r m pt] by (auto simp: node_append split: option.splits)
qed simp

lemma tables_cong: "(\<And>q. path_ok q \<Longrightarrow> node m' pt q = node m pt q) \<Longrightarrow> tables m' pt = tables m pt"
  by (auto simp: tables_def)

lemma pt_wf_pointer:
  "pt_wf m pt \<Longrightarrow> path_ok (p @ [i]) \<Longrightarrow> node m pt p = Some x \<Longrightarrow> bit (entry m x i) 0
     \<Longrightarrow> entry m x i AND (PTE_R OR PTE_W OR PTE_X) = 0"
  unfolding pt_wf_def by blast

lemma pt_wf_cong:
  assumes wf: "pt_wf m pt" and n: "\<And>q. path_ok q \<Longrightarrow> node m' pt q = node m pt q"
    and e: "\<And>p i x. path_ok (p @ [i]) \<Longrightarrow> node m pt p = Some x \<Longrightarrow> entry m' x i = entry m x i"
  shows "pt_wf m' pt"
  unfolding pt_wf_def
proof (intro conjI allI impI)
  fix p i x
  assume p: "path_ok (p @ [i])" "node m' pt p = Some x" and b: "bit (entry m' x i) 0"
  have x: "node m pt p = Some x" using n [of p] p path_ok_append [OF p(1)] by simp
  then show "entry m' x i AND (PTE_R OR PTE_W OR PTE_X) = 0"
    using e [OF p(1) x] b pt_wf_pointer [OF wf p(1) x] by simp
qed (use wf n tables_cong [OF n] in \<open>auto simp: pt_wf_def\<close>)

text \<open>A table is untouched by writes to other pages.\<close>

lemma table_agree:
  assumes "agree_outside S m m'" "pt_wf m pt" "S \<inter> tables m pt = {}" "\<forall>q\<in>S. aligned q"
  shows "tables m' pt = tables m pt" "pt_wf m' pt" "pte m' pt va = pte m pt va"
    "\<And>q. path_ok q \<Longrightarrow> node m' pt q = node m pt q"
proof -
  have e: "entry m' y j = entry m y j" if "y \<in> tables m pt" "unat j < 512" for y j
    using assms that pt_wf_aligned by (intro entry_agree [OF assms(1)]) auto
  show n: "node m' pt q = node m pt q" if "path_ok q" for q
    using assms(2) e that by (rule node_same)
  show "tables m' pt = tables m pt" using n by (rule tables_cong)
  show "pt_wf m' pt"
    using e tablesI by (intro pt_wf_cong [OF assms(2) n]) (auto simp: path_ok_snoc)
  show "pte m' pt va = pte m pt va"
    using n [of "lpath 2 va"] e tablesI [of "lpath 2 va" m pt]
    by (auto simp: pte_def PX_less split: option.splits)
qed

text \<open>Writing a leaf entry.\<close>

lemma entry_store:
  assumes "aligned x" "aligned y" "unat i < 512" "unat j < 512"
  shows "entry (store64 m (x + 8 * i) v) y j = (if y = x \<and> j = i then v else entry m y j)"
proof (cases "y = x")
  case True
  then show ?thesis using load64_store64_entry [of i j m x v] assms by (auto simp: entry_def)
next
  case False
  then show ?thesis
    using load64_agree_off [OF agree_off_store64, of i x y j m v] assms by (simp add: entry_def)
qed

lemma leaf_store:
  fixes v :: u64
  assumes wf: "pt_wf m pt" and y: "node m pt (lpath 2 va) = Some y"
  defines "m' \<equiv> store64 m (y + 8 * PX 0 va) v"
  shows "path_ok q \<Longrightarrow> node m' pt q = node m pt q" "tables m' pt = tables m pt" "pt_wf m' pt"
    "pte m' pt va' = (if \<forall>l\<le>2. PX l va' = PX l va then v else pte m pt va')"
    "agree_outside (tables m pt) m m'"
proof -
  have al: "z \<in> tables m pt \<Longrightarrow> aligned z" for z using wf by (rule pt_wf_aligned)
  have yt: "y \<in> tables m pt" using y by (rule tablesI [rotated]) simp
  have e: "entry m' z j = (if z = y \<and> j = PX 0 va then v else entry m z j)"
    if "z \<in> tables m pt" "unat j < 512" for z j
    unfolding m'_def using that yt al by (intro entry_store) (auto simp: PX_less)
  show n: "node m' pt q = node m pt q" if "path_ok q" for q
  proof (rule node_frame [OF wf _ y, of "PX 0 va"])
    show "\<not> prefix (lpath 2 va @ [PX 0 va]) q"
      using that prefix_length_le [of "lpath 2 va @ [PX 0 va]" q] by (auto simp: path_ok_def)
  qed (use e that in auto)
  show "tables m' pt = tables m pt" using n by (rule tables_cong)
  show "pt_wf m' pt"
  proof (rule pt_wf_cong [OF wf n])
    fix p i x assume p: "path_ok (p @ [i])" "node m pt p = Some x"
    then have "x \<noteq> y" using pt_wf_inj [OF wf _ _ _ y, of p] by (auto simp: path_ok_snoc)
    then show "entry m' x i = entry m x i" using p e tablesI by (auto simp: path_ok_snoc)
  qed
  show "agree_outside (tables m pt) m m'"
    unfolding m'_def using yt by (intro agree_outsideI [OF agree_off_store64]) (auto simp: PX_less)
  have l2: "(\<forall>l\<le>2. PX l va' = PX l va) \<longleftrightarrow> lpath 2 va' = lpath 2 va \<and> PX 0 va' = PX 0 va"
    by (auto simp: numeral_2_eq_2 le_Suc_eq)
  show "pte m' pt va' = (if \<forall>l\<le>2. PX l va' = PX l va then v else pte m pt va')"
  proof (cases "node m pt (lpath 2 va')")
    case None
    then show ?thesis using n [of "lpath 2 va'"] y by (auto simp: pte_def l2)
  next
    case (Some z)
    then have "z = y \<longleftrightarrow> lpath 2 va' = lpath 2 va"
      using pt_wf_inj [OF wf _ _ Some] y by auto
    moreover have "z \<in> tables m pt" using Some by (rule tablesI [rotated]) simp
    ultimately show ?thesis
      using n [of "lpath 2 va'"] Some e [of z "PX 0 va'"] by (auto simp: pte_def l2 PX_less)
  qed
qed

lemma PA2PTE_flags: "(PA2PTE q OR PTE_V) AND (PTE_R OR PTE_W OR PTE_X) = 0"
proof (rule bit_word_eqI)
  fix n assume "n < LENGTH(64)"
  have "(PTE_R OR PTE_W OR PTE_X :: u64) = 14" by (simp add: PTE_R_def PTE_W_def PTE_X_def)
  moreover have "\<not> bit (14 :: u64) n" if "4 \<le> n" using that bit_small [of 14 4 n] by simp
  ultimately show "bit ((PA2PTE q OR PTE_V) AND (PTE_R OR PTE_W OR PTE_X)) n = bit (0 :: u64) n"
    using bit_PA2PTE_or [of n q PTE_V]
    by (cases "n < 4") (auto simp: bit_and_iff PTE_V_def bit_1_iff less_Suc_eq numeral_eq_Suc)
qed

lemma new_table:
  assumes wf: "pt_wf m pt" and p: "path_ok (p @ [i])" "node m pt p = Some x"
    and inv: "\<not> bit (entry m x i) 0" and fresh: "q \<notin> tables m pt" and q: "aligned q"
    and zero: "\<And>j. unat j < 512 \<Longrightarrow> entry m0 q j = 0" and m0: "agree_outside {q} m m0"
  defines "m' \<equiv> store64 m0 (x + 8 * i) (PA2PTE q OR PTE_V)"
  shows "pt_wf m' pt" "tables m' pt = insert q (tables m pt)" "pte m' pt va = pte m pt va"
    "node m' pt (p @ [i]) = Some q"
proof -
  have ok: "path_ok p" "unat i < 512" using p by (auto simp: path_ok_snoc)
  have xt: "x \<in> tables m pt" using ok(1) p(2) by (rule tablesI)
  then have x: "aligned x" "x \<noteq> q" using wf fresh by (auto intro: pt_wf_aligned)
  have e: "entry m' y j = entry m y j" if "y \<in> tables m pt" "unat j < 512" "(y, j) \<noteq> (x, i)" for y j
  proof -
    have "aligned y" "y \<noteq> q" using that wf fresh by (auto intro: pt_wf_aligned)
    then show ?thesis using that x ok q entry_agree [OF m0, of y j] by (auto simp: m'_def entry_store)
  qed
  have eq: "entry m' q j = 0" if "unat j < 512" for j
    using that x ok q zero by (simp add: m'_def entry_store)
  have ex: "entry m' x i = PA2PTE q OR PTE_V" using x ok by (simp add: m'_def entry_store)
  have same: "node m' pt r = node m pt r" if "path_ok r" "\<not> prefix (p @ [i]) r" for r
    using wf ok(1) p(2) e that by (rule node_frame)
  have nx: "node m' pt p = Some x" using same [of p] ok p(2) by auto
  show nq: "node m' pt (p @ [i]) = Some q"
    using nx ex q PTE2PA_PA2PTE [of q PTE_V] by (simp add: node_append PTE_V_def bit_simps)
  have below: "node m' pt ((p @ [i]) @ r) = (if r = [] then Some q else None)" if "path_ok ((p @ [i]) @ r)" for r
    using nq that eq by (cases r) (auto simp: node_append path_ok_def simp del: append_assoc)
  have below0: "node m pt ((p @ [i]) @ r) = None" for r
    using p(2) inv by (simp add: node_append)
  have nodes: "node m' pt r = Some y \<longleftrightarrow> node m pt r = Some y \<or> r = p @ [i] \<and> y = q" if "path_ok r" for r y
  proof (cases "prefix (p @ [i]) r")
    case True
    then obtain r' where "r = (p @ [i]) @ r'" by (auto simp: prefix_def)
    then show ?thesis using below [of r'] below0 [of r'] that by auto
  next
    case False
    then show ?thesis using same that by auto
  qed
  show tabs: "tables m' pt = insert q (tables m pt)"
    using nodes p(1) by (auto simp: tables_def)
  show "pt_wf m' pt"
    unfolding pt_wf_def tabs
  proof (intro conjI allI impI)
    fix p' i' x' assume p': "path_ok (p' @ [i'])" "node m' pt p' = Some x'" and b: "bit (entry m' x' i') 0"
    then have ok': "path_ok p'" "unat i' < 512" by (auto simp: path_ok_snoc)
    show "entry m' x' i' AND (PTE_R OR PTE_W OR PTE_X) = 0"
    proof (cases "node m pt p' = Some x'")
      case True
      then have "x' \<in> tables m pt" using ok'(1) by (auto intro: tablesI)
      then show ?thesis
        using True e [of x' i'] ok' ex b pt_wf_pointer [OF wf p'(1) True] PA2PTE_flags
        by (cases "(x', i') = (x, i)") auto
    next
      case False
      then have "x' = q" using nodes [OF ok'(1)] p' by blast
      then show ?thesis using eq ok'(2) by simp
    qed
  qed (use wf q fresh nodes in \<open>auto simp: pt_wf_def tables_def\<close>)
  show "pte m' pt va = pte m pt va"
  proof (cases "node m pt (lpath 2 va)")
    case (Some z)
    then have "z \<in> tables m pt" by (rule tablesI [rotated]) simp
    moreover have "(z, PX 0 va) \<noteq> (x, i)"
      using pt_wf_inj [OF wf ok(1), of "lpath 2 va"] Some p by (auto simp: path_ok_snoc)
    moreover have "node m' pt (lpath 2 va) = Some z" using nodes [of "lpath 2 va" z] Some by simp
    ultimately show ?thesis using Some e by (simp add: pte_def PX_less)
  next
    case None
    moreover have "z = q" if "node m' pt (lpath 2 va) = Some z" for z
      using nodes [of "lpath 2 va" z] that None by simp
    ultimately show ?thesis using eq by (cases "node m' pt (lpath 2 va)") (auto simp: pte_def PX_less)
  qed
qed

lemma grow_refl: "vm_ok s ps pt \<Longrightarrow> grow pt s ps s ps"
  by (simp add: grow_def)

lemma grow_trans:
  assumes "grow pt s ps t qs" "grow pt t qs u rs"
  shows "grow pt s ps u rs"
proof -
  obtain us vs where us: "ps = us @ qs" "tables (mem t) pt = tables (mem s) pt \<union> set us"
      "agree_outside (tables (mem s) pt \<union> set us) (mem s) (mem t)"
    and vs: "qs = vs @ rs" "tables (mem u) pt = tables (mem t) pt \<union> set vs"
      "agree_outside (tables (mem t) pt \<union> set vs) (mem t) (mem u)"
    using assms unfolding grow_def by blast
  have "agree_outside (tables (mem s) pt \<union> set (us @ vs)) (mem s) (mem u)"
    using us(2) by (intro agree_outside_trans [OF us(3) vs(3)]) auto
  then show ?thesis
    using assms us vs kframe_trans unfolding grow_def
    by (intro conjI exI [of _ "us @ vs"]) (auto intro: kframe_trans)
qed

lemma vm_okD:
  assumes "vm_ok s ps pt"
  shows "kmem_ready s" "free_pages s ps" "pt_wf (mem s) pt" "tables (mem s) pt \<inter> set ps = {}"
    "x \<in> tables (mem s) pt \<Longrightarrow> ram_page (kend s) x" "x \<in> tables (mem s) pt \<Longrightarrow> aligned x"
    "p \<in> set ps \<Longrightarrow> ram_page (kend s) p" "p \<in> set ps \<Longrightarrow> aligned p"
  using assms by (auto simp: vm_ok_def free_pages_def ram_page_def)

lemma free_pages_agree:
  assumes "free_pages s ps" "agree_outside S (mem s) m" "S \<inter> set ps = {}" "\<forall>q\<in>S. aligned q"
  shows "free_pages (s\<lparr>mem := m\<rparr>) ps"
proof -
  have "free_path m fl qs = free_path (mem s) fl qs" if "set qs \<subseteq> set ps" for fl qs
    using that
  proof (induction qs arbitrary: fl)
    case (Cons q qs)
    then have "entry m q 0 = entry (mem s) q 0"
      using assms by (intro entry_agree [OF assms(2)]) (auto simp: free_pages_def ram_page_def)
    with Cons show ?case by (auto simp: entry_def)
  qed simp
  then show ?thesis using assms(1) by (simp add: free_pages_def)
qed

lemma grow_new_table:
  assumes ok: "vm_ok s ps pt" and p: "path_ok (p @ [i])" "node (mem s) pt p = Some x"
    and inv: "\<not> bit (entry (mem s) x i) 0"
    and k: "kalloc s = Ret q t" "q \<noteq> 0"
  defines "u \<equiv> t\<lparr>mem := store64 (memset (mem t) q 0 4096) (x + 8 * i) (PA2PTE q OR PTE_V)\<rparr>"
  shows "\<exists>ps'. grow pt s ps u ps' \<and> length ps = Suc (length ps')" "node (mem u) pt (p @ [i]) = Some q"
    "pte (mem u) pt va = pte (mem s) pt va"
proof -
  note D = vm_okD [OF ok]
  obtain ps' where ps: "ps = q # ps'" and t: "kmem_ready t" "free_pages t ps'" "kend t = kend s"
      "mem t = fill (mem s) q 4096 5" "kframe s t"
    using kalloc_cases [OF D(1,2)] k by (auto simp: kframe_sel)
  have q: "aligned q" "ram_page (kend s) q" "q \<notin> tables (mem s) pt" "q \<notin> set ps'"
    using D ps by (auto simp: free_pages_def)
  have m0: "memset (mem t) q 0 4096 = fill (mem s) q 4096 0"
    using t by (simp add: memset_eq_fill fill_def fun_eq_iff)
  have xt: "x \<in> tables (mem s) pt" using p path_ok_append by (auto intro: tablesI)
  have z: "entry (fill (mem s) q 4096 0) q j = 0" if "unat j < 512" for j
    using that by (simp add: entry_def load64_fill_zero)
  have ag: "agree_outside {q} (mem s) (fill (mem s) q 4096 0)"
    by (intro agree_outsideI [OF agree_off_fill]) auto
  note N = new_table [OF D(3) p inv q(3,1) z ag]
  have mu: "mem u = store64 (fill (mem s) q 4096 0) (x + 8 * i) (PA2PTE q OR PTE_V)"
    using m0 by (simp add: u_def)
  show "node (mem u) pt (p @ [i]) = Some q" "pte (mem u) pt va = pte (mem s) pt va"
    using N by (simp_all add: mu)
  have agu: "agree_outside (tables (mem s) pt \<union> {q}) (mem s) (mem u)" 
    using p xt unfolding mu
    by (intro agree_outside_trans [OF ag agree_outsideI [OF agree_off_store64, of i x "tables (mem s) pt \<union> {q}"]])
       (auto simp: path_ok_snoc)
  have "agree_outside (tables (mem s) pt \<union> {q}) (mem t) (mem u)"
    using agu t(4) by (auto simp: agree_outside_def fill_def in_page_def)
  then have "free_pages (t\<lparr>mem := mem u\<rparr>) ps'"
    using t(2) q D(4,6) ps by (intro free_pages_agree [where S = "tables (mem s) pt \<union> {q}"]) auto
  then have "free_pages u ps'" by (simp add: u_def)
  then have "vm_ok u ps' pt"
    using N D q t ps unfolding vm_ok_def mu by (auto simp: u_def)
  moreover have "kframe s u" using t(5) by (simp add: u_def)
  ultimately have "grow pt s ps u ps'"
    using N agu ps unfolding grow_def mu by auto
  then show "\<exists>ps'. grow pt s ps u ps' \<and> length ps = Suc (length ps')" using ps by auto
qed

lemma valid_iff: "e AND PTE_V \<noteq> 0 \<longleftrightarrow> bit e 0"
  by (simp add: and_PTE_V)

lemma walk_from_lookup:
  "walk_from l x va False s =
     Ret (case node (mem s) x (lpath l va) of None \<Rightarrow> 0 | Some y \<Rightarrow> y + 8 * PX 0 va) s"
  by (induction l arbitrary: x) (auto simp: Let_def and_PTE_V entry_def)

lemma grow_pte:
  assumes "grow pt s ps t ps'"
  shows "vm_ok t ps' pt" "kframe s t"
  using assms by (auto simp: grow_def)


lemma entry_addr_nonzero:
  assumes "aligned x" "x \<noteq> 0" "unat i < 512"
  shows "x + 8 * i \<noteq> 0"
proof -
  have "unat (x + 8 * i) = unat x + unat (8 * i)"
    using assms by (intro unat_page_offset) (simp_all add: unat_entry)
  then show ?thesis using assms(2) by (auto simp flip: unat_eq_0)
qed

lemma vm_ok_nonzero: "vm_ok s ps pt \<Longrightarrow> x \<in> tables (mem s) pt \<Longrightarrow> x \<noteq> 0"
  by (rule ram_page_nonzero [OF vm_okD(5)]) (auto dest: vm_okD(2) simp: free_pages_def)

lemma walk_from_alloc:
  assumes "vm_ok s ps pt" "node (mem s) pt p = Some x" "p @ lpath l va = lpath 2 va"
  shows "yields (walk_from l x va True s) (walk_post l pt va s ps)"
  using assms
proof (induction l arbitrary: s ps p x)
  case 0
  then have x: "node (mem s) pt (lpath 2 va) = Some x" by simp
  then have "x \<in> tables (mem s) pt" by (rule tablesI [rotated]) simp
  then have "x + 8 * PX 0 va \<noteq> 0"
    using vm_ok_nonzero [OF 0(1)] vm_okD(6) [OF 0(1)] by (intro entry_addr_nonzero) (auto simp: PX_less)
  with x show ?case using grow_refl [OF 0(1)] by (auto simp: walk_post_def)
next
  case (Suc l)
  let ?i = "PX (Suc l) va"
  have p: "path_ok (p @ [?i])" and l2: "(p @ [?i]) @ lpath l va = lpath 2 va"
    using Suc.prems(3) path_ok_append [of "p @ [?i]" "lpath l va"] path_ok_lpath [of 2 va] by auto
  show ?case
  proof (cases "bit (entry (mem s) x ?i) 0")
    case True
    then have "node (mem s) pt (p @ [?i]) = Some (PTE2PA (entry (mem s) x ?i))"
      using Suc.prems(2) by (simp add: node_append)
    from Suc.IH [OF Suc.prems(1) this l2] have "yields (walk_from l (PTE2PA (entry (mem s) x ?i)) va True s) (walk_post (Suc l) pt va s ps)"
      by (rule yields_mono) (auto simp: walk_post_def split: if_splits)
    then show ?thesis using True by (simp add: and_PTE_V entry_def Let_def)
  next
    case False
    then have absent: "node (mem s) pt (lpath 2 va) = None"
      unfolding Suc.prems(3) [symmetric] using Suc.prems(2) by (simp add: node_append)
    from vm_okD(1,2) [OF Suc.prems(1)] show ?thesis
    proof (cases rule: kalloc_cases)
      case (none t)
      then have "grow pt s ps t []"
        using Suc.prems(1) by (auto simp: grow_def vm_ok_def kframe_sel)
      then show ?thesis using none False absent by (auto simp: and_PTE_V entry_def Let_def walk_post_def)
    next
      case (some q ps' t)
      define u where "u = t\<lparr>mem := store64 (memset (mem t) q 0 4096) (x + 8 * ?i) (PA2PTE q OR PTE_V)\<rparr>"
      note G = grow_new_table [OF Suc.prems(1) p Suc.prems(2) False some(1,2), folded u_def]
      obtain qs where g: "grow pt s ps u qs" "length ps = Suc (length qs)" using G(1) by blast
      have "yields (walk_from l q va True u) (walk_post l pt va u qs)"
        using Suc.IH [OF grow_pte(1) [OF g(1)] G(2) l2] .
      then have "yields (walk_from l q va True u) (walk_post (Suc l) pt va s ps)"
        by (rule yields_mono) (use grow_trans [OF g(1)] G(3) g(2) absent in \<open>auto simp: walk_post_def split: if_splits\<close>)
      then show ?thesis using some(1,2) False by (simp add: and_PTE_V entry_def Let_def u_def)
    qed
  qed
qed

lemma walk_alloc:
  assumes "vm_ok s ps pt" "va < MAXVA"
  shows "yields (walk pt va True s) (walk_post 2 pt va s ps)"
  using walk_from_alloc [OF assms(1), of "[]" pt 2 va] assms(2) by (simp add: walk_def)

lemma walk_lookup:
  assumes "va < MAXVA"
  shows "walk pt va False s = Ret (case node (mem s) pt (lpath 2 va) of None \<Rightarrow> 0 | Some y \<Rightarrow> y + 8 * PX 0 va) s"
  using assms walk_from_lookup [of 2 pt va s] by (simp add: walk_def)

lemma walk_lookup_mapped:
  assumes "vm_ok s ps pt" "va < MAXVA" "pte (mem s) pt va \<noteq> 0"
  obtains y where "node (mem s) pt (lpath 2 va) = Some y" "y + 8 * PX 0 va \<noteq> 0"
    "walk pt va False s = Ret (y + 8 * PX 0 va) s" "load64 (mem s) (y + 8 * PX 0 va) = pte (mem s) pt va"
proof -
  obtain y where y: "node (mem s) pt (lpath 2 va) = Some y"
    using assms(3) by (auto simp: pte_def split: option.splits)
  then have "y \<in> tables (mem s) pt" by (rule tablesI [rotated]) simp
  then have "y + 8 * PX 0 va \<noteq> 0"
    using vm_ok_nonzero [OF assms(1)] vm_okD(6) [OF assms(1)] by (intro entry_addr_nonzero) (auto simp: PX_less)
  then show thesis using that y walk_lookup [OF assms(2), of pt s] by (simp add: pte_def entry_def)
qed

lemma walkaddr_eq:
  assumes "vm_ok s ps pt"
  shows "walkaddr pt va s = Ret (if va < MAXVA \<and> bit (pte (mem s) pt va) 0 \<and> bit (pte (mem s) pt va) 4
     then PTE2PA (pte (mem s) pt va) else 0) s"
proof (cases "va < MAXVA")
  case True
  show ?thesis
  proof (cases "node (mem s) pt (lpath 2 va)")
    case None
    then show ?thesis using True by (simp add: walkaddr_def walk_lookup pte_def)
  next
    case (Some y)
    then have "y \<in> tables (mem s) pt" by (rule tablesI [rotated]) simp
    then have "y + 8 * PX 0 va \<noteq> 0"
      using vm_ok_nonzero [OF assms(1)] vm_okD(6) [OF assms(1)] by (intro entry_addr_nonzero) (auto simp: PX_less)
    moreover have "\<not> MAXVA \<le> va" using True by simp
    ultimately show ?thesis
      using True Some by (simp add: walkaddr_def walk_lookup pte_def entry_def and_PTE_V and_PTE_U Let_def)
  qed
qed (auto simp: walkaddr_def not_less)

lemma pageva_facts:
  assumes "n < npages"
  shows "unat (pageva n) = n * 4096" "aligned (pageva n)" "pageva n < MAXVA" "PGROUNDDOWN (pageva n) = pageva n"
proof -
  show u: "unat (pageva n) = n * 4096"
    using assms by (simp add: npages_def pageva_def unat_word_ariths unat_of_nat)
  then show "aligned (pageva n)" by (simp add: aligned_iff)
  show "pageva n < MAXVA" using u assms by (simp add: npages_def word_less_nat_alt MAXVA_def)
  show "PGROUNDDOWN (pageva n) = pageva n"
    by (simp add: word_unat_eq_iff unat_PGROUNDDOWN u)
qed

lemma pageva_inj: "n < npages \<Longrightarrow> k < npages \<Longrightarrow> pageva n = pageva k \<longleftrightarrow> n = k"
  using pageva_facts(1) [of n] pageva_facts(1) [of k] by (auto simp: word_unat_eq_iff)

lemma pageva_next: "pageva n + 4096 = pageva (Suc n)"
  by (simp add: pageva_def algebra_simps)

lemma pageva_PX:
  assumes "n < npages" "k < npages"
  shows "(\<forall>l\<le>2. PX l (pageva n) = PX l (pageva k)) \<longleftrightarrow> n = k"
proof -
  have "(\<forall>l\<le>2. PX l (pageva n) = PX l (pageva k)) \<longleftrightarrow> pageva n = pageva k"
    unfolding PX_inj [OF pageva_facts(3) [OF assms(1)] pageva_facts(3) [OF assms(2)]]
      pageva_facts(4) [OF assms(1)] pageva_facts(4) [OF assms(2)] ..
  also have "\<dots> \<longleftrightarrow> n = k"
    unfolding word_unat_eq_iff pageva_facts(1) [OF assms(1)] pageva_facts(1) [OF assms(2)] by simp
  finally show ?thesis .
qed

lemma pte_pmap:
  assumes "va < MAXVA"
  shows "pte m pt va = pmap m pt (unat va div 4096)"
proof -
  have lt: "unat va div 4096 < npages" using assms by (simp add: npages_def word_less_nat_alt MAXVA_def)
  have "PGROUNDDOWN va = pageva (unat va div 4096)"
    using pageva_facts(1) [OF lt] by (simp add: word_unat_eq_iff unat_PGROUNDDOWN minus_mod_eq_div_mult)
  then have "\<forall>l\<le>2. PX l va = PX l (pageva (unat va div 4096))"
    unfolding PX_inj [OF assms pageva_facts(3) [OF lt]] pageva_facts(4) [OF lt] .
  then have "PX 2 va = PX 2 (pageva (unat va div 4096))" "PX 1 va = PX 1 (pageva (unat va div 4096))"
    "PX 0 va = PX 0 (pageva (unat va div 4096))" by simp_all
  then show ?thesis by (simp add: pte_def pmap_def numeral_2_eq_2)
qed

lemma leaf_store_pmap:
  assumes "pt_wf m pt" "node m pt (lpath 2 (pageva n)) = Some y" "n < npages" "k < npages"
  shows "pmap (store64 m (y + 8 * PX 0 (pageva n)) v) pt k = (if k = n then v else pmap m pt k)"
  unfolding pmap_def leaf_store(4) [OF assms(1,2)] pageva_PX [OF assms(4,3)] ..

end
