(* ===== verification/Vm_Map.thy ===== *)
theory Vm_Map
  imports Vm_Tree
begin

text \<open>
  What \<open>mappages\<close>, \<open>uvmunmap\<close>, \<open>uvmalloc\<close> and \<open>uvmdealloc\<close> do to the map from
  virtual page numbers to entries and to the ownership of physical pages: a
  page is on the free list, is a page table, or is mapped, and the operations
  move pages between these without losing one.
\<close>

section \<open>Outcomes and invariants\<close>

text \<open>
  The outcome of mapping \<open>c\<close> pages from page \<open>n\<close> to \<open>pa\<close>: page tables may have
  been added from the free list, the first \<open>d\<close> pages are mapped, and no other
  entry changed. A failure means that the free list is exhausted and was too
  short for two tables per page.
\<close>

definition map_post :: "u64 \<Rightarrow> nat \<Rightarrow> nat \<Rightarrow> u64 \<Rightarrow> u64 \<Rightarrow> 'b ksys_scheme \<Rightarrow> u64 list \<Rightarrow> int \<Rightarrow> 'b ksys_scheme \<Rightarrow> bool" where
  "map_post pt n c pa perm s ps r t \<longleftrightarrow> (\<exists>ps' d. grow pt s ps t ps'
     \<and> (if r = 0 then d = c \<and> length ps \<le> length ps' + 2 * c
        else r = - 1 \<and> d < c \<and> ps' = [] \<and> length ps < 2 * c)
     \<and> (\<forall>k<npages. pmap (mem t) pt k =
          (if n \<le> k \<and> k < n + d then PA2PTE (pa + pageva (k - n)) OR perm OR PTE_V else pmap (mem s) pt k)))"

text \<open>A valid entry that is not a pointer to a table.\<close>

definition leaf :: "u64 \<Rightarrow> bool" where
  "leaf e \<longleftrightarrow> bit e 0 \<and> PTE_FLAGS e \<noteq> PTE_V"

text \<open>
  The user pages with numbers in \<open>N\<close>: mapped by leaf entries to distinct RAM
  pages that are neither free nor page tables.
\<close>

definition user_pages :: "'b ksys_scheme \<Rightarrow> u64 list \<Rightarrow> u64 \<Rightarrow> nat set \<Rightarrow> bool" where
  "user_pages s ps pt N \<longleftrightarrow>
     (\<forall>n\<in>N. n < npages \<and> leaf (pmap (mem s) pt n) \<and> ram_page (kend s) (PTE2PA (pmap (mem s) pt n))
        \<and> PTE2PA (pmap (mem s) pt n) \<notin> set ps \<union> tables (mem s) pt)
     \<and> inj_on (\<lambda>n. PTE2PA (pmap (mem s) pt n)) N"

text \<open>The outcome of unmapping \<open>c\<close> pages from page \<open>n\<close>, freeing them or not.\<close>

definition unmap_post :: "u64 \<Rightarrow> nat \<Rightarrow> nat \<Rightarrow> bool \<Rightarrow> 'b ksys_scheme \<Rightarrow> u64 list \<Rightarrow> 'b ksys_scheme \<Rightarrow> bool" where
  "unmap_post pt n c do_free s ps t \<longleftrightarrow> (let us = (if do_free then rev (map (\<lambda>k. PTE2PA (pmap (mem s) pt k)) [n..<n + c]) else [])
     in vm_ok t (us @ ps) pt \<and> kframe s t \<and> tables (mem t) pt = tables (mem s) pt
        \<and> agree_outside (tables (mem s) pt \<union> set us) (mem s) (mem t)
        \<and> (\<forall>k<npages. pmap (mem t) pt k = (if n \<le> k \<and> k < n + c then 0 else pmap (mem s) pt k)))"

text \<open>The page mapped at a virtual page number.\<close>

definition phys :: "mem \<Rightarrow> u64 \<Rightarrow> nat \<Rightarrow> u64" where
  "phys m pt n = PTE2PA (pmap m pt n)"

text \<open>
  The state reached from \<open>s\<close> with free list \<open>ps\<close> by mapping \<open>c\<close> fresh pages at
  page numbers from \<open>n\<close>, with permissions \<open>perm\<close> and contents \<open>cont\<close>; the pages
  \<open>L\<close> are allocated and not yet mapped. No page is lost: free list, tables, mapped
  pages and \<open>L\<close> together are the free list and the tables of \<open>s\<close>, and memory
  outside of these is untouched. All other entries are those of \<open>s\<close>.
\<close>

definition alloc_inv :: "u64 \<Rightarrow> nat \<Rightarrow> nat \<Rightarrow> (nat \<Rightarrow> u64) \<Rightarrow> (nat \<Rightarrow> u64 \<Rightarrow> byte) \<Rightarrow> 'b ksys_scheme \<Rightarrow> u64 list \<Rightarrow> 'b ksys_scheme \<Rightarrow> u64 list \<Rightarrow> u64 set \<Rightarrow> bool" where
  "alloc_inv pt n c perm cont s ps t qs L \<longleftrightarrow>
     vm_ok t qs pt \<and> kframe s t \<and> user_pages t qs pt {n..<n + c}
     \<and> set qs \<union> tables (mem t) pt \<union> phys (mem t) pt ` {n..<n + c} \<union> L = set ps \<union> tables (mem s) pt
     \<and> L \<inter> (set qs \<union> tables (mem t) pt \<union> phys (mem t) pt ` {n..<n + c}) = {}
     \<and> (\<forall>q\<in>set ps \<union> tables (mem s) pt. ram_page (kend s) q)
     \<and> agree_outside (set ps \<union> tables (mem s) pt) (mem s) (mem t)
     \<and> (\<forall>k<npages. if n \<le> k \<and> k < n + c
          then pmap (mem t) pt k = PA2PTE (phys (mem t) pt k) OR perm k OR PTE_V
               \<and> (\<forall>b. in_page (phys (mem t) pt k) b \<longrightarrow> mem t b = cont k (b - phys (mem t) pt k))
          else pmap (mem t) pt k = pmap (mem s) pt k)"

definition perm_ok :: "u64 \<Rightarrow> bool" where
  "perm_ok perm \<longleftrightarrow> perm < 1024 \<and> perm OR PTE_V \<noteq> PTE_V"

text \<open>The number of pages that a size takes.\<close>

definition pgs :: "u64 \<Rightarrow> nat" where
  "pgs sz = (unat sz + 4095) div 4096"

text \<open>An empty page table and three free pages.\<close>

definition demo_root :: u64 where "demo_root = 0x80030000"
definition demo_vm :: ksys where
  "demo_vm = boot_ksys\<lparr>freelist := 0x80031000,
     mem := store64 (store64 (\<lambda>_. 0) 0x80031000 0x80032000) 0x80032000 0x80033000\<rparr>"

section \<open>Lemmas\<close>

lemma walk_page_alloc:
  assumes "vm_ok s ps pt" "n < npages"
  obtains (none) t where "walk pt (pageva n) True s = Ret 0 t" "grow pt s ps t []"
      "\<And>k. pmap (mem t) pt k = pmap (mem s) pt k" "length ps < 2" "node (mem s) pt (lpath 2 (pageva n)) = None"
  | (some) y t ps' where "walk pt (pageva n) True s = Ret (y + 8 * PX 0 (pageva n)) t" "grow pt s ps t ps'"
      "y + 8 * PX 0 (pageva n) \<noteq> 0" "node (mem t) pt (lpath 2 (pageva n)) = Some y"
      "\<And>k. pmap (mem t) pt k = pmap (mem s) pt k"
      "load64 (mem t) (y + 8 * PX 0 (pageva n)) = pmap (mem s) pt n" "length ps \<le> length ps' + 2"
proof -
  have "yields (walk pt (pageva n) True s) (walk_post 2 pt (pageva n) s ps)"
    using assms pageva_facts(3) by (intro walk_alloc) auto
  then obtain r t where rt: "walk pt (pageva n) True s = Ret r t" "walk_post 2 pt (pageva n) s ps r t"
    by (rule yieldsE)
  then obtain ps' where g: "grow pt s ps t ps'" "\<And>va. pte (mem t) pt va = pte (mem s) pt va"
    "if r = 0 then ps' = [] \<and> length ps < 2 \<and> node (mem s) pt (lpath 2 (pageva n)) = None
     else length ps \<le> length ps' + 2 \<and> (\<exists>y. node (mem t) pt (lpath 2 (pageva n)) = Some y \<and> r = y + 8 * PX 0 (pageva n))"
    unfolding walk_post_def by blast
  show thesis
  proof (cases "r = 0")
    case True
    then show thesis using none rt g by (auto simp: pmap_def)
  next
    case False
    with g obtain y where y: "node (mem t) pt (lpath 2 (pageva n)) = Some y" "r = y + 8 * PX 0 (pageva n)" by auto
    then have "load64 (mem t) r = pmap (mem t) pt n" by (simp add: pmap_def pte_def entry_def)
    then show thesis using some [of y t ps'] rt g False y by (auto simp: pmap_def)
  qed
qed

lemma vm_ok_leaf_store:
  assumes "vm_ok t ps pt" "node (mem t) pt (lpath 2 va) = Some y"
  shows "vm_ok (t\<lparr>mem := store64 (mem t) (y + 8 * PX 0 va) v\<rparr>) ps pt"
proof -
  note L = leaf_store [OF vm_okD(3) [OF assms(1)] assms(2), where v = v]
  have "free_pages (t\<lparr>mem := store64 (mem t) (y + 8 * PX 0 va) v\<rparr>) ps"
    using vm_okD [OF assms(1)] L(5) by (intro free_pages_agree) auto
  then show ?thesis using assms(1) L by (simp add: vm_ok_def)
qed

lemma grow_leaf_store:
  assumes "grow pt s ps t ps'" "node (mem t) pt (lpath 2 va) = Some y"
  shows "grow pt s ps (t\<lparr>mem := store64 (mem t) (y + 8 * PX 0 va) v\<rparr>) ps'"
proof -
  let ?u = "t\<lparr>mem := store64 (mem t) (y + 8 * PX 0 va) v\<rparr>"
  have ok: "vm_ok t ps' pt" using assms(1) by (rule grow_pte)
  note L = leaf_store [OF vm_okD(3) [OF ok] assms(2), where v = v]
  obtain us where us: "ps = us @ ps'" "tables (mem t) pt = tables (mem s) pt \<union> set us"
      "agree_outside (tables (mem s) pt \<union> set us) (mem s) (mem t)"
    using assms(1) by (auto simp: grow_def)
  then have "agree_outside (tables (mem s) pt \<union> set us) (mem s) (mem ?u)"
    using L(5) by (intro agree_outside_trans [OF us(3)]) auto
  then show ?thesis
    using us L(2) vm_ok_leaf_store [OF ok assms(2)] grow_pte(2) [OF assms(1)] by (auto simp: grow_def)
qed


lemma map_page:
  assumes "vm_ok s ps pt" "n < npages" "\<not> bit (pmap (mem s) pt n) 0"
  obtains (none) t where "grow pt s ps t []" "\<And>k. pmap (mem t) pt k = pmap (mem s) pt k" "length ps < 2"
      "\<And>l. mappages_from pt (pageva n) l pa perm s = Ret (- 1) t" "node (mem s) pt (lpath 2 (pageva n)) = None"
  | (some) t ps' where "grow pt s ps t ps'" "length ps \<le> length ps' + 2"
      "\<And>k. k < npages \<Longrightarrow> pmap (mem t) pt k = (if k = n then PA2PTE pa OR perm OR PTE_V else pmap (mem s) pt k)"
      "\<And>l. mappages_from pt (pageva n) l pa perm s =
         (if pageva n = l then Ret 0 t else mappages_from pt (pageva (Suc n)) l (pa + 4096) perm t)"
  using assms(1,2)
proof (cases rule: walk_page_alloc)
  case (none t)
  then have "mappages_from pt (pageva n) l pa perm s = Ret (- 1) t" for l
    by (subst mappages_from.simps) simp
  then show thesis using that(1) none by blast
next
  case (some y t ps')
  let ?u = "t\<lparr>mem := store64 (mem t) (y + 8 * PX 0 (pageva n)) (PA2PTE pa OR perm OR PTE_V)\<rparr>"
  have "pt_wf (mem t) pt" using grow_pte(1) [OF some(2)] by (rule vm_okD)
  from leaf_store_pmap [OF this some(4)] assms(2) some(5)
  have "pmap (mem ?u) pt k = (if k = n then PA2PTE pa OR perm OR PTE_V else pmap (mem s) pt k)" if "k < npages" for k
    using that by simp
  moreover have "mappages_from pt (pageva n) l pa perm s =
         (if pageva n = l then Ret 0 ?u else mappages_from pt (pageva (Suc n)) l (pa + 4096) perm ?u)" for l
    using some assms(3) by (subst mappages_from.simps) (simp add: and_PTE_V pageva_next Let_def)
  ultimately show thesis
    using that(2) [of ?u ps'] grow_leaf_store [OF some(2,4)] some(7) by blast
qed

lemma mappages_from_spec:
  assumes "vm_ok s ps pt" "n + c < npages" "\<forall>k. n \<le> k \<and> k \<le> n + c \<longrightarrow> \<not> bit (pmap (mem s) pt k) 0"
  shows "yields (mappages_from pt (pageva n) (pageva (n + c)) pa perm s) (map_post pt n (Suc c) pa perm s ps)"
  using assms
proof (induction c arbitrary: n pa s ps)
  case 0
  then have "n < npages" "\<not> bit (pmap (mem s) pt n) 0" by auto
  with 0(1) show ?case
  proof (cases rule: map_page [where pa = pa and perm = perm])
    case (some t ps')
    then show ?thesis
      by (auto simp: map_post_def pageva_def intro!: exI [of _ ps'] exI [of _ 1])
  qed (auto simp: map_post_def)
next
  case (Suc c)
  then have "n < npages" "\<not> bit (pmap (mem s) pt n) 0" by auto
  with Suc.prems(1) show ?case
  proof (cases rule: map_page [where pa = pa and perm = perm])
    case (some t ps')
    have ne: "pageva n \<noteq> pageva (n + Suc c)"
      using pageva_inj [of n "n + Suc c"] Suc.prems(2) by simp
    have "yields (mappages_from pt (pageva (Suc n)) (pageva (Suc n + c)) (pa + 4096) perm t)
       (map_post pt (Suc n) (Suc c) (pa + 4096) perm t ps')"
      using Suc.prems some(3) by (intro Suc.IH) (auto intro: grow_pte(1) [OF some(1)])
    moreover have "map_post pt n (Suc (Suc c)) pa perm s ps r u"
      if post: "map_post pt (Suc n) (Suc c) (pa + 4096) perm t ps' r u" for r u
    proof -
      obtain ps'' d where d: "grow pt t ps' u ps''" "if r = 0 then d = Suc c \<and> length ps' \<le> length ps'' + 2 * Suc c
          else r = - 1 \<and> d < Suc c \<and> ps'' = [] \<and> length ps' < 2 * Suc c"
        "\<And>k. k < npages \<Longrightarrow> pmap (mem u) pt k =
          (if Suc n \<le> k \<and> k < Suc n + d then PA2PTE (pa + 4096 + pageva (k - Suc n)) OR perm OR PTE_V else pmap (mem t) pt k)"
        using post unfolding map_post_def by blast
      have "pa + 4096 + pageva (k - Suc n) = pa + pageva (k - n)" if "Suc n \<le> k" for k
        using that pageva_next [of "k - Suc n"] by (simp add: Suc_diff_Suc add.commute add.left_commute)
      then have "pmap (mem u) pt k =
          (if n \<le> k \<and> k < n + Suc d then PA2PTE (pa + pageva (k - n)) OR perm OR PTE_V else pmap (mem s) pt k)"
        if "k < npages" for k
        using d(3) [OF that] some(3) [OF that] by (cases "k = n") (auto simp: pageva_def)
      then show ?thesis
        unfolding map_post_def using grow_trans [OF some(1) d(1)] d(2) some(2)
        by (intro exI [of _ ps''] exI [of _ "Suc d"]) (auto split: if_splits)
    qed
    ultimately show ?thesis using some(4) ne by (auto intro: yields_mono)
  qed (auto simp: map_post_def intro!: exI [of _ "[]"] exI [of _ 0])
qed


lemma leaf_nonzero: "leaf e \<Longrightarrow> e \<noteq> 0"
  by (auto simp: leaf_def)

lemma unmap_page:
  assumes ok: "vm_ok s ps pt" and n: "n < npages" and leaf: "leaf (pmap (mem s) pt n)"
    and page: "do_free \<Longrightarrow> user_pages s ps pt {n}"
  obtains t where "unmap_post pt n 1 do_free s ps t"
    "\<And>l. uvmunmap_from pt (pageva n) l do_free s =
       (if pageva n < l then uvmunmap_from pt (pageva (Suc n)) l do_free t else Ret () s)"
proof -
  let ?pa = "PTE2PA (pmap (mem s) pt n)"
  obtain y where y: "node (mem s) pt (lpath 2 (pageva n)) = Some y" "y + 8 * PX 0 (pageva n) \<noteq> 0"
    "walk pt (pageva n) False s = Ret (y + 8 * PX 0 (pageva n)) s"
    "load64 (mem s) (y + 8 * PX 0 (pageva n)) = pmap (mem s) pt n"
    using walk_lookup_mapped [OF ok pageva_facts(3) [OF n]] leaf_nonzero [OF leaf] unfolding pmap_def by blast
  define us where "us = (if do_free then [?pa] else [])"
  obtain u where u: "(if do_free then kfree ?pa s else Ret () s) = Ret () u" "vm_ok u (us @ ps) pt" "kframe s u"
    "agree_outside (set us) (mem s) (mem u)" "\<forall>q\<in>set us. aligned q \<and> q \<notin> tables (mem s) pt"
  proof (cases do_free)
    case True
    have pa: "ram_page (kend s) ?pa" "?pa \<notin> set ps" "?pa \<notin> tables (mem s) pt" "aligned ?pa"
      using page [OF True] by (auto simp: user_pages_def ram_page_def)
    obtain u where u: "kfree ?pa s = Ret () u" "kmem_ready u" "free_pages u (?pa # ps)"
      "agree_off ?pa (mem s) (mem u)" "kframe s u"
      using kfree_Ret [OF vm_okD(1,2) [OF ok] pa(1,2)] by blast
    have ag: "agree_outside {?pa} (mem s) (mem u)" using u(4) by (rule agree_outsideI) simp
    note T = table_agree [OF ag vm_okD(3) [OF ok]]
    have "vm_ok u (?pa # ps) pt"
      using ok u pa T kframe_sel(1) [OF u(5)] by (auto simp: vm_ok_def)
    then show thesis using that [of u] u ag pa True by (simp add: us_def)
  next
    case False
    then show thesis using that [of s] ok by (simp add: us_def)
  qed
  note T = table_agree [OF u(4) vm_okD(3) [OF ok]]
  have dis: "set us \<inter> tables (mem s) pt = {}" "\<forall>q\<in>set us. aligned q" using u(5) by auto
  have yu: "node (mem u) pt (lpath 2 (pageva n)) = Some y" using T(4) [OF dis] y(1) by simp
  let ?t = "u\<lparr>mem := store64 (mem u) (y + 8 * PX 0 (pageva n)) 0\<rparr>"
  note L = leaf_store [OF vm_okD(3) [OF u(2)] yu, where v = 0]
  have p: "pmap (mem ?t) pt k = (if n \<le> k \<and> k < n + 1 then 0 else pmap (mem s) pt k)" if "k < npages" for k
    using leaf_store_pmap [OF vm_okD(3) [OF u(2)] yu n that, of 0] T(3) [OF dis] by (simp add: pmap_def)
  have "agree_outside (tables (mem s) pt \<union> set us) (mem s) (mem ?t)"
    using L(5) T(1) [OF dis] by (intro agree_outside_trans [OF u(4)]) auto
  then have "unmap_post pt n 1 do_free s ps ?t"
    using vm_ok_leaf_store [OF u(2) yu, of 0] u(3) L(2) T(1) [OF dis] p
    by (cases do_free) (simp_all add: unmap_post_def us_def Let_def)
  moreover have "uvmunmap_from pt (pageva n) l do_free s =
       (if pageva n < l then uvmunmap_from pt (pageva (Suc n)) l do_free ?t else Ret () s)" for l
    using y leaf u(1)
    by (subst uvmunmap_from.simps) (cases do_free; simp add: and_PTE_V leaf_def Let_def pageva_next)
  ultimately show thesis using that by blast
qed

lemma user_pages_subset: "user_pages s ps pt N \<Longrightarrow> M \<subseteq> N \<Longrightarrow> user_pages s ps pt M"
  by (auto simp: user_pages_def intro: inj_on_subset)

lemma unmap_postD:
  assumes "unmap_post pt n c do_free s ps t"
  shows "kframe s t" "tables (mem t) pt = tables (mem s) pt"
    "k < npages \<Longrightarrow> pmap (mem t) pt k = (if n \<le> k \<and> k < n + c then 0 else pmap (mem s) pt k)"
    "do_free \<Longrightarrow> vm_ok t (rev (map (\<lambda>k. PTE2PA (pmap (mem s) pt k)) [n..<n + c]) @ ps) pt"
    "\<not> do_free \<Longrightarrow> vm_ok t ps pt"
  using assms by (auto simp: unmap_post_def Let_def)

lemma user_pages_unmap:
  assumes "unmap_post pt n 1 do_free s ps t" "user_pages s ps pt N" "n \<in> N"
  shows "user_pages t ((if do_free then [PTE2PA (pmap (mem s) pt n)] else []) @ ps) pt (N - {n})"
proof -
  note U = unmap_postD [OF assms(1)]
  have "pmap (mem t) pt k = pmap (mem s) pt k" if "k \<in> N - {n}" for k
    using U(3) [of k] assms(2) that by (auto simp: user_pages_def)
  moreover have "PTE2PA (pmap (mem s) pt k) \<noteq> PTE2PA (pmap (mem s) pt n)" if "k \<in> N - {n}" for k
    using assms(2,3) that by (auto simp: user_pages_def inj_on_def)
  ultimately show ?thesis
    using assms(2) U(2) kframe_sel(1) [OF U(1)] by (auto simp: user_pages_def inj_on_def)
qed

lemma unmap_post_step:
  assumes a: "unmap_post pt n 1 do_free s ps t"
    and b: "unmap_post pt (Suc n) c do_free t ((if do_free then [PTE2PA (pmap (mem s) pt n)] else []) @ ps) u"
    and n: "n + c < npages"
  shows "unmap_post pt n (Suc c) do_free s ps u"
proof -
  note U = unmap_postD [OF a]
  have same: "pmap (mem t) pt k = pmap (mem s) pt k" if "Suc n \<le> k" "k < Suc n + c" for k
    using U(3) [of k] that n by auto
  have l: "map (\<lambda>k. PTE2PA (pmap (mem s) pt k)) [n..<n + Suc c] =
      PTE2PA (pmap (mem s) pt n) # map (\<lambda>k. PTE2PA (pmap (mem t) pt k)) [Suc n..<Suc n + c]"
    using same by (simp add: upt_conv_Cons del: upt_Suc)
  have p: "pmap (mem u) pt k = (if n \<le> k \<and> k < n + Suc c then 0 else pmap (mem s) pt k)" if "k < npages" for k
    using unmap_postD(3) [OF b that] U(3) [OF that] by auto
  have f: "kframe s u" using U(1) unmap_postD(1) [OF b] by (rule kframe_trans)
  have tb: "tables (mem u) pt = tables (mem s) pt" using U(2) unmap_postD(2) [OF b] by simp
  show ?thesis
  proof (cases do_free)
    case True
    have "agree_outside (insert (PTE2PA (pmap (mem s) pt n)) (tables (mem s) pt)) (mem s) (mem t)"
      using a True by (simp add: unmap_post_def)
    moreover have "agree_outside (tables (mem s) pt \<union> (\<lambda>k. PTE2PA (pmap (mem t) pt k)) ` {Suc n..<Suc n + c}) (mem t) (mem u)"
      using b True U(2) by (simp add: unmap_post_def Let_def del: upt_Suc)
    ultimately have "agree_outside (insert (PTE2PA (pmap (mem s) pt n))
        (tables (mem s) pt \<union> (\<lambda>k. PTE2PA (pmap (mem t) pt k)) ` {Suc n..<Suc n + c})) (mem s) (mem u)"
      by (rule agree_outside_trans) auto
    then show ?thesis
      using True unmap_postD(4) [OF b] p f tb l by (simp add: unmap_post_def Let_def del: upt_Suc)
  next
    case False
    have "agree_outside (tables (mem s) pt) (mem s) (mem u)"
      using a b False U(2) by (auto simp: unmap_post_def intro: agree_outside_trans)
    then show ?thesis
      using False unmap_postD(5) [OF b] p f tb by (simp add: unmap_post_def)
  qed
qed

lemma uvmunmap_from_spec:
  assumes "vm_ok s ps pt" "n + c < npages" "\<forall>k\<in>{n..<n + c}. leaf (pmap (mem s) pt k)"
    "do_free \<Longrightarrow> user_pages s ps pt {n..<n + c}"
  shows "yields (uvmunmap_from pt (pageva n) (pageva (n + c)) do_free s) (\<lambda>_. unmap_post pt n c do_free s ps)"
  using assms
proof (induction c arbitrary: n s ps)
  case 0
  then show ?case by (subst uvmunmap_from.simps) (auto simp: unmap_post_def)
next
  case (Suc c)
  have n: "n < npages" and l: "leaf (pmap (mem s) pt n)" using Suc.prems by auto
  have up: "do_free \<Longrightarrow> user_pages s ps pt {n}" using Suc.prems(4) by (auto elim: user_pages_subset)
  obtain t where t: "unmap_post pt n 1 do_free s ps t"
    "\<And>l. uvmunmap_from pt (pageva n) l do_free s =
       (if pageva n < l then uvmunmap_from pt (pageva (Suc n)) l do_free t else Ret () s)"
    using unmap_page [OF Suc.prems(1) n l up] by blast
  let ?qs = "(if do_free then [PTE2PA (pmap (mem s) pt n)] else []) @ ps"
  have lt: "pageva n < pageva (n + Suc c)"
    using pageva_facts(1) [of n] pageva_facts(1) [of "n + Suc c"] Suc.prems(2) n by (simp add: word_less_nat_alt)
  have "yields (uvmunmap_from pt (pageva (Suc n)) (pageva (Suc n + c)) do_free t) (\<lambda>_. unmap_post pt (Suc n) c do_free t ?qs)"
  proof (rule Suc.IH)
    show "vm_ok t ?qs pt" using unmap_postD(4,5) [OF t(1)] by auto
    show "\<forall>k\<in>{Suc n..<Suc n + c}. leaf (pmap (mem t) pt k)"
      using unmap_postD(3) [OF t(1)] Suc.prems(2,3) by auto
    assume "do_free"
    then have "user_pages t ?qs pt ({n..<n + Suc c} - {n})"
      using Suc.prems(4) by (intro user_pages_unmap [OF t(1)]) auto
    then show "user_pages t ?qs pt {Suc n..<Suc n + c}" by (rule user_pages_subset) auto
  qed (use Suc.prems in auto)
  then have "yields (uvmunmap_from pt (pageva (Suc n)) (pageva (n + Suc c)) do_free t) (\<lambda>_. unmap_post pt n (Suc c) do_free s ps)"
    using unmap_post_step [OF t(1)] Suc.prems(2) by (auto elim: yields_mono)
  then show ?case using t(2) lt by simp
qed

lemma vm_ok_write:
  assumes "vm_ok s ps pt" "agree_outside S (mem s) m" "S \<inter> (set ps \<union> tables (mem s) pt) = {}" "\<forall>q\<in>S. aligned q"
  shows "vm_ok (s\<lparr>mem := m\<rparr>) ps pt" "tables m pt = tables (mem s) pt" "pmap m pt k = pmap (mem s) pt k"
proof -
  have "S \<inter> tables (mem s) pt = {}" using assms(3) by auto
  note T = table_agree [OF assms(2) vm_okD(3) [OF assms(1)] this assms(4)]
  have "free_pages (s\<lparr>mem := m\<rparr>) ps"
    using assms by (intro free_pages_agree [OF vm_okD(2)]) auto
  then show "vm_ok (s\<lparr>mem := m\<rparr>) ps pt" "tables m pt = tables (mem s) pt" "pmap m pt k = pmap (mem s) pt k"
    using assms(1,3) T by (auto simp: vm_ok_def pmap_def)
qed

lemma kalloc_none_vm:
  assumes "vm_ok s ps pt" "kalloc s = Ret 0 t"
  shows "ps = []" "vm_ok t [] pt" "mem t = mem s" "kframe s t"
proof -
  have "ps = [] \<and> kmem_ready t \<and> free_pages t [] \<and> mem t = mem s \<and> kframe s t"
    using vm_okD(1,2) [OF assms(1)] by (cases rule: kalloc_cases) (use assms(2) in auto)
  then show "ps = []" "vm_ok t [] pt" "mem t = mem s" "kframe s t"
    using assms(1) by (auto simp: vm_ok_def kframe_sel(1))
qed

lemma kalloc_some_vm:
  assumes "vm_ok s ps pt" "kalloc s = Ret q t" "q \<noteq> 0"
  obtains ps' where "ps = q # ps'" "vm_ok t ps' pt" "kframe s t" "agree_outside {q} (mem s) (mem t)"
    "tables (mem t) pt = tables (mem s) pt" "\<And>k. pmap (mem t) pt k = pmap (mem s) pt k"
    "ram_page (kend s) q" "aligned q" "q \<notin> tables (mem s) pt" "q \<notin> set ps'"
proof -
  note D = vm_okD [OF assms(1)]
  obtain ps' where t: "ps = q # ps'" "kmem_ready t" "free_pages t ps'" "mem t = fill (mem s) q 4096 5" "kframe s t"
    using D(1,2) by (cases rule: kalloc_cases) (use assms(2,3) that in auto)
  have q: "aligned q" "ram_page (kend s) q" "q \<notin> tables (mem s) pt" "q \<notin> set ps'"
    using D t by (auto simp: free_pages_def)
  have ag: "agree_outside {q} (mem s) (mem t)"
    unfolding t(4) by (rule agree_outsideI [OF agree_off_fill]) auto
  note T = table_agree [OF ag D(3)]
  have "vm_ok t ps' pt" using assms(1) t q T kframe_sel(1) [OF t(5)] by (auto simp: vm_ok_def)
  then show thesis using that t q ag T by (auto simp: pmap_def)
qed

lemma kfree_vm:
  assumes "vm_ok s ps pt" "ram_page (kend s) q" "q \<notin> set ps" "q \<notin> tables (mem s) pt"
  obtains t where "kfree q s = Ret () t" "vm_ok t (q # ps) pt" "kframe s t" "agree_outside {q} (mem s) (mem t)"
    "tables (mem t) pt = tables (mem s) pt" "\<And>k. pmap (mem t) pt k = pmap (mem s) pt k"
proof -
  obtain t where t: "kfree q s = Ret () t" "kmem_ready t" "free_pages t (q # ps)"
    "agree_off q (mem s) (mem t)" "kframe s t"
    using kfree_Ret [OF vm_okD(1,2) [OF assms(1)] assms(2,3)] by blast
  have ag: "agree_outside {q} (mem s) (mem t)" using t(4) by (rule agree_outsideI) simp
  have "aligned q" using assms(2) by (simp add: ram_page_def)
  note T = table_agree [OF ag vm_okD(3) [OF assms(1)]]
  have "vm_ok t (q # ps) pt"
    using assms t T \<open>aligned q\<close> kframe_sel(1) [OF t(5)] by (auto simp: vm_ok_def)
  then show thesis using that t ag T assms \<open>aligned q\<close> by (auto simp: pmap_def)
qed

lemma alloc_inv_start: "vm_ok s ps pt \<Longrightarrow> alloc_inv pt n 0 perm cont s ps s ps {}"
  using vm_okD(5,7) by (auto simp: alloc_inv_def user_pages_def)

lemma alloc_invD:
  assumes "alloc_inv pt n c perm cont s ps t qs L"
  shows "vm_ok t qs pt" "kframe s t" "user_pages t qs pt {n..<n + c}"
    "set qs \<union> tables (mem t) pt \<union> phys (mem t) pt ` {n..<n + c} \<union> L = set ps \<union> tables (mem s) pt"
    "L \<inter> (set qs \<union> tables (mem t) pt \<union> phys (mem t) pt ` {n..<n + c}) = {}"
    "q \<in> set ps \<union> tables (mem s) pt \<Longrightarrow> ram_page (kend s) q"
    "agree_outside (set ps \<union> tables (mem s) pt) (mem s) (mem t)"
    "k < npages \<Longrightarrow> n \<le> k \<and> k < n + c \<Longrightarrow> pmap (mem t) pt k = PA2PTE (phys (mem t) pt k) OR perm k OR PTE_V"
    "k < npages \<Longrightarrow> n \<le> k \<and> k < n + c \<Longrightarrow> in_page (phys (mem t) pt k) b \<Longrightarrow> mem t b = cont k (b - phys (mem t) pt k)"
    "k < npages \<Longrightarrow> \<not> (n \<le> k \<and> k < n + c) \<Longrightarrow> pmap (mem t) pt k = pmap (mem s) pt k"
  using assms unfolding alloc_inv_def by (elim conjE, (assumption | simp))+

lemma user_pagesD:
  assumes "user_pages s ps pt N" "k \<in> N"
  shows "k < npages" "leaf (pmap (mem s) pt k)" "ram_page (kend s) (phys (mem s) pt k)"
    "phys (mem s) pt k \<notin> set ps" "phys (mem s) pt k \<notin> tables (mem s) pt"
  using assms by (simp_all add: user_pages_def phys_def)

lemma user_pages_inj: "user_pages s ps pt N \<Longrightarrow> inj_on (phys (mem s) pt) N"
  by (simp add: user_pages_def phys_def [abs_def])

lemma user_pagesI:
  assumes "\<And>k. k \<in> N \<Longrightarrow> k < npages \<and> leaf (pmap (mem s) pt k) \<and> ram_page (kend s) (phys (mem s) pt k)
      \<and> phys (mem s) pt k \<notin> set ps \<union> tables (mem s) pt"
    and "inj_on (phys (mem s) pt) N"
  shows "user_pages s ps pt N"
  using assms by (simp add: user_pages_def phys_def [abs_def])

text \<open>User pages stay user pages under a change of free list and tables that leaves them out.\<close>

lemma user_pages_change:
  assumes up: "user_pages s ps pt N" and e: "kend t = kend s"
    and same: "\<And>k. k \<in> N \<Longrightarrow> pmap (mem t) pt k = pmap (mem s) pt k"
    and dis: "(set qs \<union> tables (mem t) pt) \<inter> phys (mem s) pt ` N = {}"
  shows "user_pages t qs pt N"
proof (rule user_pagesI)
  have ph: "phys (mem t) pt k = phys (mem s) pt k" if "k \<in> N" for k using same [OF that] by (simp add: phys_def)
  show "inj_on (phys (mem t) pt) N"
    using user_pages_inj [OF up] ph by (simp add: inj_on_def)
  fix k assume k: "k \<in> N"
  then have "phys (mem s) pt k \<notin> set qs \<union> tables (mem t) pt" using dis by blast
  then show "k < npages \<and> leaf (pmap (mem t) pt k) \<and> ram_page (kend t) (phys (mem t) pt k)
      \<and> phys (mem t) pt k \<notin> set qs \<union> tables (mem t) pt"
    using user_pagesD [OF up k] same [OF k] ph [OF k] e by simp
qed

lemma agree_outside_page:
  assumes "agree_outside S m m'" "\<forall>q\<in>S. aligned q" "aligned p" "p \<notin> S" "in_page p b"
  shows "m' b = m b"
  using assms in_page_disjoint unfolding agree_outside_def by blast

lemma alloc_inv_change:
  assumes I: "alloc_inv pt n c perm cont s ps t qs L" and ok: "vm_ok u qs' pt" and fr: "kframe t u"
    and same: "\<And>k. k < npages \<Longrightarrow> pmap (mem u) pt k = pmap (mem t) pt k"
    and ag: "agree_outside S (mem t) (mem u)" and S: "S \<subseteq> set qs \<union> tables (mem t) pt \<union> L"
    and eq: "set qs' \<union> tables (mem u) pt \<union> L' = set qs \<union> tables (mem t) pt \<union> L"
    and L': "L' \<inter> (set qs' \<union> tables (mem u) pt) = {}"
  shows "alloc_inv pt n c perm cont s ps u qs' L'"
proof -
  let ?P = "phys (mem t) pt ` {n..<n + c}"
  note D = alloc_invD [OF I]
  note up = user_pagesD [OF D(3)]
  have ph: "phys (mem u) pt k = phys (mem t) pt k" if "k \<in> {n..<n + c}" for k
    using same [OF up(1) [OF that]] by (simp add: phys_def)
  then have P: "phys (mem u) pt ` {n..<n + c} = ?P" by (rule image_cong [OF refl])
  have dis: "(set qs \<union> tables (mem t) pt \<union> L) \<inter> ?P = {}" using D(5) up(4,5) by blast
  have SA: "S \<subseteq> set ps \<union> tables (mem s) pt" using S D(4) by blast
  then have al: "\<forall>q\<in>S. aligned q" using D(6) by (auto simp: ram_page_def)
  have keep: "mem u b = mem t b" if "in_page (phys (mem t) pt k) b" "k \<in> {n..<n + c}" for k b
  proof (rule agree_outside_page [OF ag al _ _ that(1)])
    show "aligned (phys (mem t) pt k)" using up(3) [OF that(2)] by (simp add: ram_page_def)
    show "phys (mem t) pt k \<notin> S" using dis S that(2) by blast
  qed
  have "user_pages u qs' pt {n..<n + c}"
    using kframe_sel(1) [OF fr] same up(1) dis eq by (intro user_pages_change [OF D(3)]) blast+
  moreover have "agree_outside (set ps \<union> tables (mem s) pt) (mem s) (mem u)"
    using SA by (intro agree_outside_trans [OF D(7) ag]) auto
  moreover have "set qs' \<union> tables (mem u) pt \<union> ?P \<union> L' = set ps \<union> tables (mem s) pt"
    using D(4) eq by blast
  moreover have "L' \<inter> (set qs' \<union> tables (mem u) pt \<union> ?P) = {}" using L' dis eq by blast
  moreover have "kframe s u" using D(2) fr by (rule kframe_trans)
  moreover have "if n \<le> k \<and> k < n + c
          then pmap (mem u) pt k = PA2PTE (phys (mem u) pt k) OR perm k OR PTE_V
               \<and> (\<forall>b. in_page (phys (mem u) pt k) b \<longrightarrow> mem u b = cont k (b - phys (mem u) pt k))
          else pmap (mem u) pt k = pmap (mem s) pt k" if "k < npages" for k
    using D(8-10) [OF that] same [OF that] ph [of k] keep [of k] by simp
  ultimately show ?thesis
    unfolding alloc_inv_def P using ok D(6) by blast
qed

lemma alloc_inv_kalloc:
  assumes I: "alloc_inv pt n c perm cont s ps t qs {}" and k: "kalloc t = Ret q u" "q \<noteq> 0"
  obtains qs' where "alloc_inv pt n c perm cont s ps u qs' {q}" "qs = q # qs'" "agree_outside {q} (mem t) (mem u)"
proof -
  obtain qs' where u: "qs = q # qs'" "vm_ok u qs' pt" "kframe t u" "agree_outside {q} (mem t) (mem u)"
    "tables (mem u) pt = tables (mem t) pt" "\<And>k. pmap (mem u) pt k = pmap (mem t) pt k"
    "ram_page (kend t) q" "aligned q" "q \<notin> tables (mem t) pt" "q \<notin> set qs'"
    using kalloc_some_vm [OF alloc_invD(1) [OF I] k] by blast
  have "alloc_inv pt n c perm cont s ps u qs' {q}"
    by (rule alloc_inv_change [OF I u(2,3) u(6) u(4)]) (use u in auto)
  then show thesis using that u by blast
qed

lemma alloc_inv_write:
  assumes I: "alloc_inv pt n c perm cont s ps t qs {q}" and ag: "agree_outside {q} (mem t) m"
  shows "alloc_inv pt n c perm cont s ps (t\<lparr>mem := m\<rparr>) qs {q}"
proof -
  note D = alloc_invD [OF I]
  have "q \<in> set ps \<union> tables (mem s) pt" using D(4) by blast
  then have "aligned q" using D(6) [of q] by (simp add: ram_page_def)
  have "{q} \<inter> (set qs \<union> tables (mem t) pt) = {}" using D(5) by blast
  note W = vm_ok_write [OF D(1) ag this]
  show ?thesis
    by (rule alloc_inv_change [OF I _ _ _ _ , where S = "{q}"]) (use W D(5) ag \<open>aligned q\<close> in auto)
qed

lemma alloc_inv_kalloc_none:
  assumes I: "alloc_inv pt n c perm cont s ps t qs {}" and k: "kalloc t = Ret 0 u"
  shows "alloc_inv pt n c perm cont s ps u [] {}"
proof -
  note K = kalloc_none_vm [OF alloc_invD(1) [OF I] k]
  show ?thesis by (rule alloc_inv_change [OF I K(2), where S = "{}"]) (use K in auto)
qed

lemma grow_tables:
  assumes "grow pt s ps t ps'"
  shows "set ps' \<union> tables (mem t) pt = set ps \<union> tables (mem s) pt"
    "agree_outside (set ps \<union> tables (mem s) pt) (mem s) (mem t)" "set ps' \<subseteq> set ps"
proof -
  obtain us where us: "ps = us @ ps'" "tables (mem t) pt = tables (mem s) pt \<union> set us"
      "agree_outside (tables (mem s) pt \<union> set us) (mem s) (mem t)"
    using assms by (auto simp: grow_def)
  then show "set ps' \<union> tables (mem t) pt = set ps \<union> tables (mem s) pt" "set ps' \<subseteq> set ps" by auto
  show "agree_outside (set ps \<union> tables (mem s) pt) (mem s) (mem t)"
    using us(1) by (intro agree_outside_trans [OF us(3) agree_outside_refl [of "{}"]]) auto
qed

lemma alloc_inv_grow:
  assumes I: "alloc_inv pt n c perm cont s ps t qs L" and g: "grow pt t qs u qs'"
    and same: "\<And>k. k < npages \<Longrightarrow> pmap (mem u) pt k = pmap (mem t) pt k"
  shows "alloc_inv pt n c perm cont s ps u qs' L"
proof (rule alloc_inv_change [OF I grow_pte [OF g] same grow_tables(2) [OF g]])
  show "set qs' \<union> tables (mem u) pt \<union> L = set qs \<union> tables (mem t) pt \<union> L" using grow_tables(1) [OF g] by blast
  show "L \<inter> (set qs' \<union> tables (mem u) pt) = {}" using grow_tables(1) [OF g] alloc_invD(5) [OF I] by blast
qed auto

lemma alloc_inv_kfree:
  assumes I: "alloc_inv pt n c perm cont s ps t qs {q}"
  obtains u where "kfree q t = Ret () u" "alloc_inv pt n c perm cont s ps u (q # qs) {}"
proof -
  note D = alloc_invD [OF I]
  have "q \<in> set ps \<union> tables (mem s) pt" using D(4) by blast
  then have q: "ram_page (kend t) q" "q \<notin> set qs" "q \<notin> tables (mem t) pt"
    using D(6) [of q] kframe_sel(1) [OF D(2)] D(5) by auto
  obtain u where u: "kfree q t = Ret () u" "vm_ok u (q # qs) pt" "kframe t u" "agree_outside {q} (mem t) (mem u)"
    "tables (mem u) pt = tables (mem t) pt" "\<And>k. pmap (mem u) pt k = pmap (mem t) pt k"
    using kfree_vm [OF D(1) q] by blast
  have "alloc_inv pt n c perm cont s ps u (q # qs) {}"
    by (rule alloc_inv_change [OF I u(2,3) u(6) u(4)]) (use u(5) in auto)
  then show thesis using that u(1) by blast
qed

lemma perm_ok_entry:
  assumes "perm_ok perm" "aligned q"
  shows "PTE2PA (PA2PTE q OR perm OR PTE_V) = q" "leaf (PA2PTE q OR perm OR PTE_V)"
    "bit (PA2PTE q OR perm OR PTE_V) 4 = bit perm 4"
proof -
  have lt: "perm OR PTE_V < 1024"
    using assms(1) by (intro or_small) (auto simp: perm_ok_def PTE_V_def)
  then show "PTE2PA (PA2PTE q OR perm OR PTE_V) = q"
    using PTE2PA_PA2PTE [OF assms(2), of "perm OR PTE_V"] by (simp add: or.assoc)
  have "PTE_FLAGS (PA2PTE q OR perm OR PTE_V) = perm OR PTE_V"
    using PTE_FLAGS_PA2PTE [OF lt, of q] by (simp add: or.assoc)
  then show "leaf (PA2PTE q OR perm OR PTE_V)"
    using assms(1) by (simp add: leaf_def perm_ok_def bit_simps PTE_V_def)
  show "bit (PA2PTE q OR perm OR PTE_V) 4 = bit perm 4"
    by (simp add: or.assoc bit_PA2PTE_or del: bit_or_iff) (simp add: bit_or_iff PTE_V_def bit_1_iff)
qed

lemma alloc_inv_map:
  assumes I: "alloc_inv pt n c perm cont s ps t qs {q}" and g: "grow pt t qs u qs'" and lt: "n + c < npages"
    and pm: "\<And>k. k < npages \<Longrightarrow> pmap (mem u) pt k = (if k = n + c then PA2PTE q OR perm k OR PTE_V else pmap (mem t) pt k)"
    and zero: "\<And>b. in_page q b \<Longrightarrow> mem t b = cont (n + c) (b - q)" and perm: "perm_ok (perm (n + c))"
  shows "alloc_inv pt n (Suc c) perm cont s ps u qs' {}"
proof -
  let ?N = "{n..<n + c}"
  note D = alloc_invD [OF I] and G = grow_tables [OF g]
  note up = user_pagesD [OF D(3)]
  have "q \<in> set ps \<union> tables (mem s) pt" using D(4) by blast
  then have q: "ram_page (kend u) q" "aligned q" and qd: "q \<notin> set qs \<union> tables (mem t) pt" "q \<notin> phys (mem t) pt ` ?N"
    using D(6) [of q] kframe_sel(1) [OF D(2)] kframe_sel(1) [OF grow_pte(2) [OF g]] D(5) by (auto simp: ram_page_def)
  have phq: "phys (mem u) pt (n + c) = q" using pm [OF lt] perm_ok_entry [OF perm q(2)] by (simp add: phys_def)
  have ph: "phys (mem u) pt k = phys (mem t) pt k" if "k \<in> ?N" for k
    using pm [OF up(1) [OF that]] that by (simp add: phys_def)
  have P: "phys (mem u) pt ` {n..<n + Suc c} = insert q (phys (mem t) pt ` ?N)"
    using ph phq by (simp add: atLeastLessThanSuc image_insert)
  have dis: "(set qs' \<union> tables (mem u) pt) \<inter> phys (mem t) pt ` ?N = {}" using G(1) up(4,5) by blast
  have upN: "user_pages u qs' pt ?N"
    using pm up(1) dis kframe_sel(1) [OF grow_pte(2) [OF g]] by (intro user_pages_change [OF D(3)]) auto
  have ups: "user_pages u qs' pt {n..<n + Suc c}"
  proof (rule user_pagesI)
    have "inj_on (phys (mem u) pt) (insert (n + c) ?N)"
      using user_pages_inj [OF upN] ph phq qd(2) by auto
    then show "inj_on (phys (mem u) pt) {n..<n + Suc c}" by (simp add: atLeastLessThanSuc)
    fix k assume "k \<in> {n..<n + Suc c}"
    then consider "k \<in> ?N" | "k = n + c" by force
    then show "k < npages \<and> leaf (pmap (mem u) pt k) \<and> ram_page (kend u) (phys (mem u) pt k)
        \<and> phys (mem u) pt k \<notin> set qs' \<union> tables (mem u) pt"
    proof cases
      case 1
      then show ?thesis using user_pagesD [OF upN] by blast
    next
      case 2
      then show ?thesis using lt pm [OF lt] perm_ok_entry [OF perm q(2)] q phq qd G(1) by auto
    qed
  qed
  have al: "\<forall>x\<in>set qs \<union> tables (mem t) pt. aligned x" using D(4,6) by (auto simp: ram_page_def)
  have keep: "mem u b = mem t b" if "in_page p b" "aligned p" "p \<notin> set qs \<union> tables (mem t) pt" for p b
    using agree_outside_page [OF G(2) al that(2,3,1)] .
  have "if n \<le> k \<and> k < n + Suc c
          then pmap (mem u) pt k = PA2PTE (phys (mem u) pt k) OR perm k OR PTE_V
               \<and> (\<forall>b. in_page (phys (mem u) pt k) b \<longrightarrow> mem u b = cont k (b - phys (mem u) pt k))
          else pmap (mem u) pt k = pmap (mem s) pt k" if "k < npages" for k
  proof (cases "k = n + c")
    case True
    then show ?thesis using pm [OF that] phq keep [of q] zero q qd by auto
  next
    case False
    have "mem u b = cont k (b - phys (mem t) pt k)" if "k \<in> ?N" "in_page (phys (mem t) pt k) b" for b
      using keep [OF that(2)] up(3-5) [OF that(1)] D(9) [OF \<open>k < npages\<close> _ that(2)] that(1) by (simp add: ram_page_def)
    then show ?thesis using False pm [OF that] D(8,10) [OF that] ph [of k] by auto
  qed
  moreover have "agree_outside (set ps \<union> tables (mem s) pt) (mem s) (mem u)"
    using D(4) by (intro agree_outside_trans [OF D(7) G(2)]) auto
  moreover have "set qs' \<union> tables (mem u) pt \<union> phys (mem u) pt ` {n..<n + Suc c} \<union> {} = set ps \<union> tables (mem s) pt"
    using D(4) G(1) unfolding P by blast
  moreover have "kframe s u" using D(2) grow_pte(2) [OF g] by (rule kframe_trans)
  ultimately show ?thesis
    unfolding alloc_inv_def using ups grow_pte(1) [OF g] D(6) by blast
qed

lemma PGROUNDUP_pageva:
  assumes "unat sz + 4095 < 2 ^ 38"
  shows "PGROUNDUP sz = pageva (pgs sz)" "pgs sz < npages"
proof -
  show lt: "pgs sz < npages" using assms by (simp add: pgs_def npages_def)
  have "unat (sz + 4095) = unat sz + 4095" using assms by (simp add: unat_word_ariths)
  then show "PGROUNDUP sz = pageva (pgs sz)"
    using pageva_facts(1) [OF lt]
    by (simp add: word_unat_eq_iff PGROUNDUP_DOWN unat_PGROUNDDOWN minus_mod_eq_div_mult pgs_def)
qed

lemma pageva_less: "n < npages \<Longrightarrow> k < npages \<Longrightarrow> pageva n < pageva k \<longleftrightarrow> n < k"
  by (simp add: word_less_nat_alt pageva_facts)

lemma pageva_le: "n < npages \<Longrightarrow> k < npages \<Longrightarrow> pageva n \<le> pageva k \<longleftrightarrow> n \<le> k"
  by (simp add: word_le_nat_alt pageva_facts)

lemma pageva_add: "pageva n + of_nat c * 4096 = pageva (n + c)"
  by (simp add: pageva_def algebra_simps)

lemma PGROUNDUP_page: "n < npages \<Longrightarrow> PGROUNDUP (pageva n) = pageva n"
  using PGROUNDUP_pageva [of "pageva n"] pageva_facts(1) [of n] by (simp add: pgs_def npages_def)

lemma uvmunmap_spec:
  assumes "vm_ok s ps pt" "n + c < npages" "\<forall>k\<in>{n..<n + c}. leaf (pmap (mem s) pt k)"
    "do_free \<Longrightarrow> user_pages s ps pt {n..<n + c}"
  shows "yields (uvmunmap pt (pageva n) (of_nat c) do_free s) (\<lambda>_. unmap_post pt n c do_free s ps)"
proof -
  have "pageva n mod PGSIZE = 0" using pageva_facts(2) [of n] assms(2) by (simp add: aligned_def)
  then show ?thesis
    using uvmunmap_from_spec [OF assms] pageva_add [of n c] by (simp add: uvmunmap_def)
qed

lemma scast_ucast_small:
  fixes w :: u64
  assumes "unat w < 2 ^ 31"
  shows "scast (ucast w :: u32) = w"
proof (rule bit_word_eqI)
  fix n assume "n < LENGTH(64)"
  have "\<not> bit w k" if "31 \<le> k" for k using bit_small [OF assms that] .
  then show "bit (scast (ucast w :: u32) :: u64) n = bit w n"
    using \<open>n < LENGTH(64)\<close> by (cases "n < 31") (auto simp: bit_signed_iff bit_unsigned_iff min_def not_less)
qed

lemma unmap_post_none: "vm_ok s ps pt \<Longrightarrow> unmap_post pt n 0 True s ps s"
  by (auto simp: unmap_post_def)

lemma uvmdealloc_pages:
  assumes "vm_ok s ps pt" "n + c < npages" "user_pages s ps pt {n..<n + c}"
    "PGROUNDUP oldsz = pageva (n + c)" "PGROUNDUP newsz = pageva n" "newsz \<le> oldsz"
  shows "yields (uvmdealloc pt oldsz newsz s) (\<lambda>r t. r = newsz \<and> unmap_post pt n c True s ps t)"
proof (cases "c = 0")
  case True
  then show ?thesis
    using assms unmap_post_none [OF assms(1)] by (auto simp: uvmdealloc_def)
next
  case False
  have lt: "pageva n < pageva (n + c)" using False assms(2) by (simp add: pageva_less)
  then have less: "\<not> oldsz \<le> newsz" using assms(4,5,6) by (auto dest: antisym)
  have "unat (pageva (n + c) - pageva n) = c * 4096"
    using lt assms(2) by (simp add: unat_sub word_less_nat_alt word_le_nat_alt pageva_facts algebra_simps)
  then have u: "unat ((pageva (n + c) - pageva n) div 4096) = c" by (simp add: unat_div)
  then have "(pageva (n + c) - pageva n) div 4096 = of_nat c"
    using assms(2) by (simp add: npages_def unat_eq_of_nat [symmetric])
  moreover have "scast (ucast ((pageva (n + c) - pageva n) div 4096) :: u32) = (pageva (n + c) - pageva n) div 4096"
    using u assms(2) by (intro scast_ucast_small) (simp add: npages_def)
  ultimately have "yields (uvmunmap pt (pageva n) (scast (ucast ((pageva (n + c) - pageva n) div 4096) :: u32)) True s)
      (\<lambda>_. unmap_post pt n c True s ps)"
    using uvmunmap_spec [OF assms(1,2), of True] assms(3) by (auto simp: user_pages_def)
  then show ?thesis
    using less lt assms(4,5) by (auto simp: uvmdealloc_def Let_def res_simps)
qed

lemma alloc_inv_unmap:
  assumes I: "alloc_inv pt n c perm cont s ps t qs {}" and u: "unmap_post pt n c True t qs u"
    and zero: "\<forall>k\<in>{n..<n + c}. pmap (mem s) pt k = 0"
  shows "\<exists>rs. alloc_inv pt n 0 perm cont s ps u rs {}"
proof -
  note D = alloc_invD [OF I] and U = unmap_postD [OF u]
  let ?rs = "rev (map (phys (mem t) pt) [n..<n + c]) @ qs"
  have ok: "vm_ok u ?rs pt" using U(4) by (simp add: phys_def [abs_def])
  have pm: "pmap (mem u) pt k = pmap (mem s) pt k" if "k < npages" for k
    using U(3) [OF that] D(10) [OF that] zero by auto
  have ag: "agree_outside (tables (mem t) pt \<union> phys (mem t) pt ` {n..<n + c}) (mem t) (mem u)"
    using u by (simp add: unmap_post_def phys_def [abs_def] image_def Let_def)
  have "agree_outside (set ps \<union> tables (mem s) pt) (mem s) (mem u)"
    using D(4) by (intro agree_outside_trans [OF D(7) ag]) auto
  moreover have "set ?rs \<union> tables (mem u) pt = set ps \<union> tables (mem s) pt"
    using D(4) U(2) by auto
  moreover have "kframe s u" using D(2) U(1) by (rule kframe_trans)
  ultimately have "alloc_inv pt n 0 perm cont s ps u ?rs {}"
    unfolding alloc_inv_def using ok pm D(6) by (auto simp: user_pages_def)
  then show ?thesis ..
qed

lemma mappages_page:
  assumes "n < npages"
  shows "mappages pt (pageva n) 4096 pa perm s = mappages_from pt (pageva n) (pageva n) pa perm s"
proof -
  have "PGROUNDDOWN (pageva n + 4096 - 1) = pageva n"
  proof -
    have "unat (pageva n + 4095) = n * 4096 + 4095"
      using pageva_facts(1) [OF assms] assms by (simp add: unat_word_ariths npages_def)
    then have "unat (PGROUNDDOWN (pageva n + 4095)) = n * 4096"
      by (simp add: unat_PGROUNDDOWN)
    then have "PGROUNDDOWN (pageva n + 4095) = pageva n"
      using pageva_facts(1) [OF assms] by (simp add: word_unat_eq_iff)
    moreover have "pageva n + 4096 - 1 = pageva n + 4095" by simp
    ultimately show ?thesis by metis
  qed
  then show ?thesis using pageva_facts(4) [OF assms] by (simp add: mappages_def)
qed

lemma uvmalloc_from_spec:
  assumes "alloc_inv pt n c perm cont s ps t qs {}" "perm = (\<lambda>_. PTE_R OR PTE_U OR xperm)" "cont = (\<lambda>_ _. 0)" "perm_ok (PTE_R OR PTE_U OR xperm)"
    "N = n + c + d" "N < npages" "\<forall>k\<in>{n..<N}. pmap (mem s) pt k = 0"
    "unat newsz \<le> N * 4096" "N * 4096 < unat newsz + 4096" "length ps \<le> length qs + 3 * c"
  shows "yields (uvmalloc_from pt (pageva (n + c)) (pageva n) newsz xperm t)
    (\<lambda>r u. (r = newsz \<and> (\<exists>rs. alloc_inv pt n (N - n) perm cont s ps u rs {} \<and> length ps \<le> length rs + 3 * (N - n)))
         \<or> (r = 0 \<and> (\<exists>rs. alloc_inv pt n 0 perm cont s ps u rs {}) \<and> length ps < 3 * (N - n)))"
  using assms
proof (induction d arbitrary: c t qs)
  case 0
  then have "\<not> pageva (n + c) < newsz"
    using pageva_facts(1) [of "n + c"] by (auto simp: word_less_nat_alt)
  with 0 show ?case by (subst uvmalloc_from.simps) auto
next
  case (Suc d)
  have nc: "n + c < npages" using Suc.prems by simp
  have more: "pageva (n + c) < newsz"
    using pageva_facts(1) [OF nc] Suc.prems(5,9) by (simp add: word_less_nat_alt)
  have dealloc: "yields (uvmdealloc pt (pageva (n + c)) (pageva n) u) (\<lambda>_ v. \<exists>rs. alloc_inv pt n 0 perm cont s ps v rs {})"
    if "alloc_inv pt n c perm cont s ps u rs {}" for u rs
  proof (rule yields_mono [OF uvmdealloc_pages])
    show "vm_ok u rs pt" "user_pages u rs pt {n..<n + c}" using alloc_invD [OF that] by auto
    show "PGROUNDUP (pageva (n + c)) = pageva (n + c)" "PGROUNDUP (pageva n) = pageva n" "pageva n \<le> pageva (n + c)"
      using nc by (simp_all add: PGROUNDUP_page pageva_le)
    fix r v assume "r = pageva n \<and> unmap_post pt n c True u rs v"
    then show "\<exists>rs. alloc_inv pt n 0 perm cont s ps v rs {}"
      using alloc_inv_unmap [OF that] Suc.prems by auto
  qed (rule nc)
  show ?case
    using vm_okD(1,2) [OF alloc_invD(1) [OF Suc.prems(1)]]
  proof (cases rule: kalloc_cases)
    case (none u)
    have "alloc_inv pt n c perm cont s ps u [] {}" using alloc_inv_kalloc_none [OF Suc.prems(1) none(1)] .
    moreover have short: "length ps < 3 * (N - n)" using none(2) Suc.prems(5,10) by simp
    ultimately show ?thesis
      using dealloc [of u "[]"] more none(1) by (subst uvmalloc_from.simps) (simp add: res_simps, erule yields_mono, blast)
  next
    case (some q qs' u)
    define v where "v = u\<lparr>mem := memset (mem u) q 0 4096\<rparr>"
    obtain vs where vs: "alloc_inv pt n c perm cont s ps u vs {q}" "qs = q # vs"
      using alloc_inv_kalloc [OF Suc.prems(1) some(1,2)] by blast
    have mv: "mem v = fill (mem u) q 4096 0" by (simp add: v_def memset_eq_fill)
    then have v: "alloc_inv pt n c perm cont s ps v vs {q}"
      using alloc_inv_write [OF vs(1) agree_outsideI [OF agree_off_fill]] by (simp add: v_def memset_eq_fill)
    have zero: "mem v b = cont (n + c) (b - q)" if "in_page q b" for b
      using that Suc.prems(3) by (simp add: mv fill_def in_page_def)
    have "pmap (mem v) pt (n + c) = 0" using alloc_invD(10) [OF v nc] Suc.prems(5,7) by auto
    then have "\<not> bit (pmap (mem v) pt (n + c)) 0" by simp
    note mp = mappages_page [OF nc, of pt q "PTE_R OR PTE_U OR xperm" v]
    from alloc_invD(1) [OF v] nc \<open>\<not> bit _ 0\<close> show ?thesis
    proof (cases rule: map_page [where pa = q and perm = "PTE_R OR PTE_U OR xperm"])
      case (none w)
      have "alloc_inv pt n c perm cont s ps w [] {q}" using alloc_inv_grow [OF v none(1)] none(2) by simp
      then obtain x where x: "kfree q w = Ret () x" "alloc_inv pt n c perm cont s ps x [q] {}"
        using alloc_inv_kfree by blast
      have "length ps < 3 * (N - n)" using none(3) vs(2) Suc.prems(5,10) by simp
      then show ?thesis
        using dealloc [OF x(2)] more some(1,2) none(4) x(1) mp Suc.prems(2)
        by (subst uvmalloc_from.simps) (simp add: res_simps v_def Let_def, erule yields_mono, blast)
    next
      case s: (some w ws)
      have "alloc_inv pt n (Suc c) perm cont s ps w ws {}"
        using alloc_inv_map [OF v s(1) nc _ zero] s(3) Suc.prems(2,4) by simp
      moreover have "length ps \<le> length ws + 3 * Suc c" using s(2) vs(2) Suc.prems(10) by simp
      ultimately show ?thesis
        using Suc.IH [of "Suc c" w ws] Suc.prems more some(1,2) s(4) mp
        by (subst uvmalloc_from.simps) (auto simp: v_def Let_def pageva_next)
    qed
  qed
qed

lemma uvmalloc_spec:
  assumes "vm_ok s ps pt" "oldsz \<le> newsz" "newsz \<le> TRAPFRAME"
    "\<forall>k\<in>{pgs oldsz..<pgs newsz}. pmap (mem s) pt k = 0" "perm_ok (PTE_R OR PTE_U OR xperm)"
  shows "yields (uvmalloc pt oldsz newsz xperm s) (\<lambda>r t.
      (r = newsz \<and> (\<exists>qs. alloc_inv pt (pgs oldsz) (pgs newsz - pgs oldsz) (\<lambda>_. PTE_R OR PTE_U OR xperm) (\<lambda>_ _. 0) s ps t qs {}
           \<and> length ps \<le> length qs + 3 * (pgs newsz - pgs oldsz)))
    \<or> (r = 0 \<and> length ps < 3 * (pgs newsz - pgs oldsz)
        \<and> (\<exists>qs. alloc_inv pt (pgs oldsz) 0 (\<lambda>_. PTE_R OR PTE_U OR xperm) (\<lambda>_ _. 0) s ps t qs {})))"
proof -
  have sz: "unat newsz + 4095 < 2 ^ 38" "unat oldsz \<le> unat newsz"
    using assms(2,3) by (auto simp: word_le_nat_alt TRAPFRAME_def TRAMPOLINE_def MAXVA_def)
  then have o: "PGROUNDUP oldsz = pageva (pgs oldsz)" "pgs newsz < npages"
    using PGROUNDUP_pageva [of oldsz] PGROUNDUP_pageva [of newsz] by auto
  have le: "pgs oldsz \<le> pgs newsz" using sz by (auto simp: pgs_def intro: div_le_mono)
  have b: "unat newsz \<le> pgs newsz * 4096" "pgs newsz * 4096 < unat newsz + 4096"
    unfolding pgs_def by linarith+
  have "yields (uvmalloc_from pt (pageva (pgs oldsz + 0)) (pageva (pgs oldsz)) newsz xperm s)
    (\<lambda>r u. (r = newsz \<and> (\<exists>rs. alloc_inv pt (pgs oldsz) (pgs newsz - pgs oldsz) (\<lambda>_. PTE_R OR PTE_U OR xperm) (\<lambda>_ _. 0) s ps u rs {}
           \<and> length ps \<le> length rs + 3 * (pgs newsz - pgs oldsz)))
         \<or> (r = 0 \<and> (\<exists>rs. alloc_inv pt (pgs oldsz) 0 (\<lambda>_. PTE_R OR PTE_U OR xperm) (\<lambda>_ _. 0) s ps u rs {})
           \<and> length ps < 3 * (pgs newsz - pgs oldsz)))"
    using le b assms by (intro uvmalloc_from_spec [OF alloc_inv_start, where d = "pgs newsz - pgs oldsz"])
      (auto simp: o)
  moreover have "\<not> newsz < oldsz" using assms(2) by auto
  ultimately show ?thesis
    using o(1) by (simp add: uvmalloc_def Let_def) (erule yields_mono, blast)
qed

section \<open>Properties\<close>

lemma PGROUNDDOWN_pageva:
  assumes "unat va < 2 ^ 38"
  shows "PGROUNDDOWN va = pageva (unat va div 4096)" "unat va div 4096 < npages"
proof -
  show lt: "unat va div 4096 < npages" using assms by (simp add: npages_def)
  show "PGROUNDDOWN va = pageva (unat va div 4096)"
    using pageva_facts(1) [OF lt] by (simp add: word_unat_eq_iff unat_PGROUNDDOWN minus_mod_eq_div_mult)
qed

text \<open>
  C9. \<open>mappages\<close> maps a range as a function update on page numbers: if the range lies below
  \<open>MAXVA\<close> and none of its pages is mapped, the call returns; on 0 every page of the
  range, and no other, has the entry for the corresponding physical page with the
  permissions asked for. It fails with -1 only when the free list is used up and
  held fewer than two pages per page to map; then a prefix of the range is mapped.
\<close>

theorem mappages_maps:
  assumes "vm_ok s ps pt" "0 < sz" "unat va + unat sz \<le> unat MAXVA"
    "\<forall>k. unat va div 4096 \<le> k \<and> k \<le> (unat va + unat sz - 1) div 4096 \<longrightarrow> \<not> bit (pmap (mem s) pt k) 0"
  shows "yields (mappages pt va sz pa perm s)
    (map_post pt (unat va div 4096) (Suc ((unat va + unat sz - 1) div 4096 - unat va div 4096)) pa perm s ps)"
proof -
  have pos: "0 < unat sz" using assms(2) by (simp add: word_less_nat_alt)
  have "va + sz - 1 = va + (sz - 1)" by simp
  also have "unat \<dots> = unat va + unat sz - 1"
    using assms(3) pos by (simp add: unat_word_ariths MAXVA_def unat_sub word_le_nat_alt)
  finally have u: "unat (va + sz - 1) = unat va + unat sz - 1" .
  have va: "unat va < 2 ^ 38" "unat va + unat sz - 1 < 2 ^ 38" using assms(3) pos by (simp_all add: MAXVA_def)
  have le: "unat va div 4096 \<le> (unat va + unat sz - 1) div 4096" using pos by (auto intro: div_le_mono)
  then have e: "unat va div 4096 + ((unat va + unat sz - 1) div 4096 - unat va div 4096) = (unat va + unat sz - 1) div 4096"
    by simp
  have r: "PGROUNDDOWN va = pageva (unat va div 4096)" "PGROUNDDOWN (va + sz - 1) = pageva ((unat va + unat sz - 1) div 4096)"
    "(unat va + unat sz - 1) div 4096 < npages"
    using PGROUNDDOWN_pageva [of va] PGROUNDDOWN_pageva [of "va + sz - 1"] va by (simp_all add: u)
  have "yields (mappages_from pt (pageva (unat va div 4096))
      (pageva (unat va div 4096 + ((unat va + unat sz - 1) div 4096 - unat va div 4096))) pa perm s)
    (map_post pt (unat va div 4096) (Suc ((unat va + unat sz - 1) div 4096 - unat va div 4096)) pa perm s ps)"
    using r(3) e assms(1,4) by (intro mappages_from_spec) simp_all
  then show ?thesis unfolding e mappages_def r using assms(2) by auto
qed

text \<open>
  C10. \<open>uvmdealloc\<close> returns the new size, unmaps exactly the pages between the two sizes
  rounded up, and puts exactly their physical pages on the free list, each once;
  every other entry and the page tables stay.
\<close>

theorem uvmdealloc_frees:
  assumes "vm_ok s ps pt" "newsz \<le> oldsz" "oldsz \<le> TRAPFRAME" "user_pages s ps pt {pgs newsz..<pgs oldsz}"
  shows "yields (uvmdealloc pt oldsz newsz s) (\<lambda>r t. r = newsz
    \<and> vm_ok t (rev (map (phys (mem s) pt) [pgs newsz..<pgs oldsz]) @ ps) pt \<and> kframe s t
    \<and> tables (mem t) pt = tables (mem s) pt
    \<and> (\<forall>k<npages. pmap (mem t) pt k = (if pgs newsz \<le> k \<and> k < pgs oldsz then 0 else pmap (mem s) pt k)))"
proof -
  have sz: "unat oldsz + 4095 < 2 ^ 38" "unat newsz \<le> unat oldsz"
    using assms(2,3) by (auto simp: word_le_nat_alt TRAPFRAME_def TRAMPOLINE_def MAXVA_def)
  have le: "pgs newsz \<le> pgs oldsz" using sz by (auto simp: pgs_def intro: div_le_mono)
  have "yields (uvmdealloc pt oldsz newsz s)
      (\<lambda>r t. r = newsz \<and> unmap_post pt (pgs newsz) (pgs oldsz - pgs newsz) True s ps t)"
    using PGROUNDUP_pageva [of oldsz] PGROUNDUP_pageva [of newsz] sz le assms
    by (intro uvmdealloc_pages) simp_all
  then show ?thesis
    by (rule yields_mono) (use le in \<open>auto simp: unmap_post_def Let_def phys_def [abs_def]\<close>)
qed

text \<open>
  C5. \<open>uvmalloc\<close> is all or nothing and leaks no page. Either it returns the new size and
  every page between the two sizes is mapped to a fresh, zero-filled page of its own;
  or it returns 0, which happens only if the free list held fewer than three pages
  per page asked for, and then every entry is as before and the free list and page
  tables together hold the same pages as before.
\<close>

theorem uvmalloc_all_or_nothing:
  assumes "vm_ok s ps pt" "oldsz \<le> newsz" "newsz \<le> TRAPFRAME"
    "\<forall>k\<in>{pgs oldsz..<pgs newsz}. pmap (mem s) pt k = 0" "perm_ok (PTE_R OR PTE_U OR xperm)"
  shows "yields (uvmalloc pt oldsz newsz xperm s) (\<lambda>r t.
      (r = newsz \<and> (\<exists>qs. alloc_inv pt (pgs oldsz) (pgs newsz - pgs oldsz) (\<lambda>_. PTE_R OR PTE_U OR xperm) (\<lambda>_ _. 0) s ps t qs {}
           \<and> length ps \<le> length qs + 3 * (pgs newsz - pgs oldsz)))
    \<or> (r = 0 \<and> length ps < 3 * (pgs newsz - pgs oldsz)
        \<and> (\<exists>qs. alloc_inv pt (pgs oldsz) 0 (\<lambda>_. PTE_R OR PTE_U OR xperm) (\<lambda>_ _. 0) s ps t qs {})))"
  using assms by (rule uvmalloc_spec)

lemma empty_root:
  assumes "\<And>i. unat i < 512 \<Longrightarrow> entry m pt i = 0" "aligned pt"
  shows "tables m pt = {pt}" "pt_wf m pt" "pmap m pt k = 0"
proof -
  have n: "node m pt p = (if p = [] then Some pt else None)" if "path_ok p" for p
    using that assms(1) by (cases p) (auto simp: path_ok_def)
  show t: "tables m pt = {pt}" using n by (auto simp: tables_def intro: exI [of _ "[]"] split: if_splits)
  show "pt_wf m pt" using n assms unfolding pt_wf_def t by (auto simp: path_ok_snoc split: if_splits)
  have "lpath 2 (pageva k) \<noteq> []" using length_lpath [of 2 "pageva k"] by (auto simp del: length_lpath)
  then show "pmap m pt k = 0" using n [of "lpath 2 (pageva k)"] by (simp add: pmap_def pte_def)
qed

lemma demo_free: "free_pages demo_vm [0x80031000, 0x80032000, 0x80033000]"
proof -
  have e: "aligned 0x80031000" "aligned 0x80032000" "aligned 0x80033000" by (simp_all add: aligned_def)
  have "load64 (mem demo_vm) 0x80031000 = 0x80032000" "load64 (mem demo_vm) 0x80032000 = 0x80033000"
    "load64 (mem demo_vm) 0x80033000 = 0"
    using e entry_store [of "0x80032000" "0x80031000" 0 0] entry_store [of "0x80032000" "0x80033000" 0 0]
      entry_store [of "0x80031000" "0x80033000" 0 0]
    by (simp_all add: demo_vm_def entry_def load64_zero)
  then show ?thesis
    using e by (simp add: free_pages_def demo_vm_def boot_ksys_def ram_page_def PHYSTOP_def KERNBASE_def)
qed

lemma demo_ok: "vm_ok demo_vm [0x80031000, 0x80032000, 0x80033000] demo_root"
  "pmap (mem demo_vm) demo_root k = 0"
proof -
  have e: "aligned 0x80031000" "aligned 0x80032000" "aligned demo_root" by (simp_all add: aligned_def demo_root_def)
  have z: "entry (mem demo_vm) demo_root i = 0" if "unat i < 512" for i
    using that e entry_store [of "0x80032000" demo_root 0 i] entry_store [of "0x80031000" demo_root 0 i]
    by (simp add: demo_vm_def demo_root_def) (simp add: entry_def load64_zero)
  note E = empty_root [OF z e(3)]
  show "pmap (mem demo_vm) demo_root k = 0" using E by simp
  show "vm_ok demo_vm [0x80031000, 0x80032000, 0x80033000] demo_root"
    using demo_free E e by (simp add: vm_ok_def kmem_ready_def demo_vm_def boot_ksys_def boot_machine_def hw_ok_def
      hw_defs lock_free_def init_spinlock_def demo_root_def ram_page_def PHYSTOP_def KERNBASE_def)
qed

theorem mappages_maps_witness:
  "yields (mappages demo_root 0x1000 0x2000 0x80040000 PTE_R demo_vm)
     (map_post demo_root 1 (Suc 1) 0x80040000 PTE_R demo_vm [0x80031000, 0x80032000, 0x80033000])"
  using mappages_maps [OF demo_ok(1), of "0x2000" "0x1000" "0x80040000" PTE_R] demo_ok(2)
  by (simp add: MAXVA_def)

lemma demo_alloc:
  obtains t qs where "uvmalloc demo_root 0 0x1000 PTE_W demo_vm = Ret 0x1000 t" "vm_ok t qs demo_root"
    "user_pages t qs demo_root {0..<1}"
proof -
  have "perm_ok (PTE_R OR PTE_U OR PTE_W)" by (simp add: perm_ok_def PTE_R_def PTE_U_def PTE_W_def PTE_V_def)
  moreover have "\<exists>qs. vm_ok t qs demo_root \<and> user_pages t qs demo_root {0}"
    if "alloc_inv demo_root 0 (Suc 0) pm ct demo_vm ps t qs {}" for t qs ps pm ct
    using alloc_invD(1,3) [OF that] by auto
  ultimately have "yields (uvmalloc demo_root 0 0x1000 PTE_W demo_vm) (\<lambda>r t. r = 0x1000 \<and> (\<exists>qs. vm_ok t qs demo_root
      \<and> user_pages t qs demo_root {0..<1}))"
    by (intro yields_mono [OF uvmalloc_spec [OF demo_ok(1), of 0 "0x1000" PTE_W]])
      (auto simp: demo_ok(2) pgs_def TRAPFRAME_def TRAMPOLINE_def MAXVA_def)
  then show thesis using that by (auto elim: yieldsE)
qed

theorem uvmalloc_all_or_nothing_witness:
  "yields (uvmalloc demo_root 0 0x1000 PTE_W demo_vm) (\<lambda>r t. r = 0x1000)"
proof -
  have "perm_ok (PTE_R OR PTE_U OR PTE_W)" by (simp add: perm_ok_def PTE_R_def PTE_U_def PTE_W_def PTE_V_def)
  then show ?thesis
    by (intro yields_mono [OF uvmalloc_all_or_nothing [OF demo_ok(1), of 0 "0x1000" PTE_W]])
      (auto simp: demo_ok(2) pgs_def TRAPFRAME_def TRAMPOLINE_def MAXVA_def)
qed

theorem uvmdealloc_frees_witness:
  "\<exists>t. uvmalloc demo_root 0 0x1000 PTE_W demo_vm = Ret 0x1000 t
     \<and> yields (uvmdealloc demo_root 0x1000 0 t) (\<lambda>r u. r = 0 \<and> pmap (mem u) demo_root 0 = 0)"
proof -
  obtain t qs where t: "uvmalloc demo_root 0 0x1000 PTE_W demo_vm = Ret 0x1000 t" "vm_ok t qs demo_root"
    "user_pages t qs demo_root {0..<1}" by (rule demo_alloc)
  have "yields (uvmdealloc demo_root 0x1000 0 t) (\<lambda>r u. r = 0 \<and> pmap (mem u) demo_root 0 = 0)"
    using t(3) by (intro yields_mono [OF uvmdealloc_frees [OF t(2), of 0 "0x1000"]])
      (auto simp: pgs_def npages_def TRAPFRAME_def TRAMPOLINE_def MAXVA_def)
  then show ?thesis using t(1) by blast
qed

end
