(* ===== verification/Vm_Copy.thy ===== *)
theory Vm_Copy
  imports Vm_Map
begin

text \<open>
  Duplicating an address space: \<open>uvmcreate\<close>, \<open>uvmcopy\<close> as used by \<open>fork\<close>, and
  \<open>copytable\<close> as used by \<open>mythread_create\<close>. The copy is followed through its loop
  by the ownership invariant \<open>alloc_inv\<close>; sharing is followed by \<open>share_inv\<close>.
\<close>

section \<open>Address spaces\<close>

text \<open>
  Two address spaces side by side: the tables are disjoint, the first maps its
  pages below \<open>N\<close> as user pages, and these are not tables of the second.
\<close>

definition spaces :: "'b ksys_scheme \<Rightarrow> u64 list \<Rightarrow> u64 \<Rightarrow> u64 \<Rightarrow> nat \<Rightarrow> bool" where
  "spaces s ps old new N \<longleftrightarrow> vm_ok s ps old \<and> vm_ok s ps new
     \<and> tables (mem s) old \<inter> tables (mem s) new = {}
     \<and> user_pages s ps old {0..<N} \<and> phys (mem s) old ` {0..<N} \<inter> tables (mem s) new = {}
     \<and> (\<forall>k<N. pmap (mem s) new k = 0)"

text \<open>The page-table page that holds the entry of page \<open>k\<close> exists.\<close>

definition has_slot :: "mem \<Rightarrow> u64 \<Rightarrow> nat \<Rightarrow> bool" where
  "has_slot m pt k \<longleftrightarrow> node m pt (lpath 2 (pageva k)) \<noteq> None"

text \<open>The entry that \<open>copytable\<close> writes for a valid entry of the parent.\<close>

definition shared :: "u64 \<Rightarrow> u64" where
  "shared e = PA2PTE (PTE2PA e) OR PTE_FLAGS e OR PTE_V"

text \<open>The state after \<open>copytable\<close> has gone through the first \<open>c\<close> pages.\<close>

definition share_inv :: "u64 \<Rightarrow> u64 \<Rightarrow> nat \<Rightarrow> 'b ksys_scheme \<Rightarrow> u64 list \<Rightarrow> 'b ksys_scheme \<Rightarrow> u64 list \<Rightarrow> bool" where
  "share_inv old new c s ps t qs \<longleftrightarrow> grow new s ps t qs
     \<and> (\<forall>k<npages. pmap (mem t) new k =
          (if k < c \<and> bit (pmap (mem s) old k) 0 then shared (pmap (mem s) old k) else pmap (mem s) new k))"

section \<open>Lemmas and properties\<close>

lemma flags_or_valid:
  assumes "leaf e"
  shows "PTE_FLAGS e OR PTE_V = PTE_FLAGS e" "perm_ok (PTE_FLAGS e)"
proof -
  have b: "bit (PTE_FLAGS e) n \<longleftrightarrow> n < 10 \<and> bit e n" for n
    by (auto simp: PTE_FLAGS_def mask9 bit_and_iff bit_mask_iff dest: bit_imp_le_length)
  show e: "PTE_FLAGS e OR PTE_V = PTE_FLAGS e"
    using assms by (intro bit_word_eqI) (auto simp: b bit_or_iff PTE_V_def bit_1_iff leaf_def)
  have "PTE_FLAGS e = take_bit 10 e" by (rule bit_word_eqI) (simp add: b bit_take_bit_iff)
  then have "PTE_FLAGS e < 1024" by (simp add: take_bit_eq_mod word_less_nat_alt unat_mod)
  then show "perm_ok (PTE_FLAGS e)" using assms e by (simp add: perm_ok_def leaf_def)
qed

lemma blit_page:
  assumes "ram_page e p" "ram_page e q"
  shows "memmove m p q 4096 = blit m p q 4096"
  using assms by (intro trans [OF memmove_blit])
    (simp_all add: ram_page_def word_less_nat_alt PHYSTOP_def KERNBASE_def)

text \<open>A table and the pages it maps are left alone by \<open>alloc_inv\<close> on another one.\<close>

lemma alloc_inv_other:
  assumes I: "alloc_inv new n c perm cont s ps t qs L" and old: "vm_ok s ps old"
    and dis: "tables (mem s) old \<inter> tables (mem s) new = {}"
  shows "pmap (mem t) old k = pmap (mem s) old k" "tables (mem t) old = tables (mem s) old"
    "pt_wf (mem t) old" "pte (mem t) old va = pte (mem s) old va"
    "\<And>q. path_ok q \<Longrightarrow> node (mem t) old q = node (mem s) old q"
proof -
  note D = alloc_invD [OF I]
  have "(set ps \<union> tables (mem s) new) \<inter> tables (mem s) old = {}"
    using dis vm_okD(4) [OF old] by blast
  then have "tables (mem t) old = tables (mem s) old \<and> pt_wf (mem t) old
      \<and> (\<forall>va. pte (mem t) old va = pte (mem s) old va) \<and> (\<forall>q. path_ok q \<longrightarrow> node (mem t) old q = node (mem s) old q)"
    using table_agree [OF D(7) vm_okD(3) [OF old]] D(6) by (auto simp: ram_page_def)
  then show "pmap (mem t) old k = pmap (mem s) old k" "tables (mem t) old = tables (mem s) old"
    "pt_wf (mem t) old" "pte (mem t) old va = pte (mem s) old va"
    "\<And>q. path_ok q \<Longrightarrow> node (mem t) old q = node (mem s) old q"
    by (auto simp: pmap_def)
qed

lemma walk_old:
  assumes ok: "vm_ok s ps old" and k: "k < npages" "pmap (mem s) old k \<noteq> 0"
    and nodes: "\<And>q. path_ok q \<Longrightarrow> node (mem t) old q = node (mem s) old q"
    and pm: "pmap (mem t) old k = pmap (mem s) old k"
  obtains r where "walk old (pageva k) False t = Ret r t" "r \<noteq> 0" "load64 (mem t) r = pmap (mem s) old k"
proof -
  obtain y where y: "node (mem s) old (lpath 2 (pageva k)) = Some y" "y + 8 * PX 0 (pageva k) \<noteq> 0"
    using walk_lookup_mapped [OF ok pageva_facts(3) [OF k(1)]] k(2) unfolding pmap_def by blast
  then have "walk old (pageva k) False t = Ret (y + 8 * PX 0 (pageva k)) t"
    using walk_lookup [OF pageva_facts(3) [OF k(1)], of old t] nodes by simp
  moreover have "load64 (mem t) (y + 8 * PX 0 (pageva k)) = pmap (mem s) old k"
    using y nodes pm by (simp add: pmap_def pte_def entry_def)
  ultimately show thesis using that y(2) by blast
qed

lemma uvmcopy_from_spec:
  fixes old :: u64
  assumes "alloc_inv new 0 c perm cont s ps t qs {}" "vm_ok s ps old"
    "tables (mem s) old \<inter> tables (mem s) new = {}"
    "user_pages s ps old {0..<N}" "phys (mem s) old ` {0..<N} \<inter> tables (mem s) new = {}"
    "perm = (\<lambda>k. PTE_FLAGS (pmap (mem s) old k))" "cont = (\<lambda>k d. mem s (phys (mem s) old k + d))"
    "N = c + d" "N < npages" "\<forall>k\<in>{0..<N}. pmap (mem s) new k = 0"
    "unat sz \<le> N * 4096" "N * 4096 < unat sz + 4096" "length ps \<le> length qs + 3 * c"
  shows "yields (uvmcopy_from old new (pageva c) sz t)
    (\<lambda>r u. (r = 0 \<and> (\<exists>rs. alloc_inv new 0 N perm cont s ps u rs {}))
         \<or> (r = - 1 \<and> (\<exists>rs. alloc_inv new 0 0 perm cont s ps u rs {}) \<and> length ps < 3 * N))"
  using assms
proof (induction d arbitrary: c t qs)
  case 0
  then have "\<not> pageva c < sz" using pageva_facts(1) [of c] by (auto simp: word_less_nat_alt)
  with 0 show ?case by (subst uvmcopy_from.simps) auto
next
  case (Suc d)
  let ?e = "pmap (mem s) old c"
  have c: "c < npages" "c \<in> {0..<N}" using Suc.prems(8,9) by auto
  note up = user_pagesD [OF Suc.prems(4) c(2)]
  have more: "pageva c < sz" using pageva_facts(1) [OF c(1)] Suc.prems(8,12) by (simp add: word_less_nat_alt)
  note O = alloc_inv_other [OF Suc.prems(1,2,3)]
  obtain r where w: "walk old (pageva c) False t = Ret r t" "r \<noteq> 0" "load64 (mem t) r = ?e"
    using walk_old [OF Suc.prems(2) c(1) leaf_nonzero [OF up(2)] O(5) O(1)] by blast
  have div: "pageva c div 4096 = of_nat c"
    using pageva_facts(1) [OF c(1)] c(1)
    by (simp add: npages_def unat_eq_of_nat [symmetric] unat_div)
  have unmap: "yields (uvmunmap new 0 (of_nat c) True u) (\<lambda>_ v. \<exists>rs. alloc_inv new 0 0 perm cont s ps v rs {})"
    if "alloc_inv new 0 c perm cont s ps u rs {}" for u rs
  proof -
    have "yields (uvmunmap new (pageva 0) (of_nat c) True u) (\<lambda>_. unmap_post new 0 c True u rs)"
      using alloc_invD(1,3) [OF that] c(1) by (intro uvmunmap_spec) (auto simp: user_pages_def)
    then show ?thesis
      using alloc_inv_unmap [OF that] Suc.prems(8,10) by (auto simp: pageva_def elim!: yields_mono)
  qed
  show ?case
    using vm_okD(1,2) [OF alloc_invD(1) [OF Suc.prems(1)]]
  proof (cases rule: kalloc_cases)
    case (none u)
    have "length ps < 3 * N" using none(2) Suc.prems(8,13) by simp
    then have "yields (uvmunmap new 0 (of_nat c) True u) (\<lambda>_ v. (\<exists>rs. alloc_inv new 0 0 perm cont s ps v rs {}) \<and> length ps < 3 * N)"
      using unmap [OF alloc_inv_kalloc_none [OF Suc.prems(1) none(1)]] by (auto elim: yields_mono)
    then show ?thesis
      using more none(1) w up(2) div by (subst uvmcopy_from.simps) (simp add: res_simps leaf_def and_PTE_V Let_def)
  next
    case (some q qs' u)
    define v where "v = u\<lparr>mem := memmove (mem u) q (PTE2PA ?e) 4096\<rparr>"
    obtain vs where vs: "alloc_inv new 0 c perm cont s ps u vs {q}" "qs = q # vs" "agree_outside {q} (mem t) (mem u)"
      using alloc_inv_kalloc [OF Suc.prems(1) some(1,2)] by blast
    note D = alloc_invD [OF vs(1)]
    have "q \<in> set ps \<union> tables (mem s) new" using D(4) by blast
    then have q: "ram_page (kend s) q" using D(6) by blast
    have mv: "mem v = blit (mem u) q (phys (mem s) old c) 4096"
      using blit_page [OF q up(3)] by (simp add: v_def phys_def)
    have "agree_outside {q} (mem u) (mem v)"
      unfolding mv by (auto simp: agree_outside_def blit_def in_page_def)
    then have v: "alloc_inv new 0 c perm cont s ps v vs {q}"
      using alloc_inv_write [OF vs(1), of "mem v"] by (simp add: v_def)
    have "phys (mem s) old c \<notin> tables (mem s) new" using Suc.prems(5) c(2) by blast
    then have al: "aligned (phys (mem s) old c)" "phys (mem s) old c \<notin> set ps \<union> tables (mem s) new"
      using up(3,4) by (simp_all add: ram_page_def)
    have "\<forall>q\<in>set ps \<union> tables (mem s) new. aligned q" using D(6) by (auto simp: ram_page_def)
    then have src: "mem u b = mem s b" if "in_page (phys (mem s) old c) b" for b
      using agree_outside_page [OF D(7) _ al that] by blast
    have cnt: "mem v b = cont (0 + c) (b - q)" if "in_page q b" for b
      using that src [of "phys (mem s) old c + (b - q)"] Suc.prems(7) by (simp add: mv blit_def in_page_def)
    have "pmap (mem v) new c = 0" using alloc_invD(10) [OF v c(1)] Suc.prems(8,10) by auto
    then have nb: "\<not> bit (pmap (mem v) new c) 0" by simp
    note mp = mappages_page [OF c(1), of new q "PTE_FLAGS ?e" v]
    from alloc_invD(1) [OF v] c(1) nb show ?thesis
    proof (cases rule: map_page [where pa = q and perm = "PTE_FLAGS ?e"])
      case (none x)
      have "alloc_inv new 0 c perm cont s ps x [] {q}" using alloc_inv_grow [OF v none(1)] none(2) by simp
      then obtain y where y: "kfree q x = Ret () y" "alloc_inv new 0 c perm cont s ps y [q] {}"
        using alloc_inv_kfree by blast
      have "length ps < 3 * N" using none(3) vs(2) Suc.prems(8,13) by simp
      then have "yields (uvmunmap new 0 (of_nat c) True y) (\<lambda>_ v. (\<exists>rs. alloc_inv new 0 0 perm cont s ps v rs {}) \<and> length ps < 3 * N)"
        using unmap [OF y(2)] by (auto elim: yields_mono)
      then show ?thesis
        using more some(1,2) none(4) y(1) mp w up(2) div
        by (subst uvmcopy_from.simps) (simp add: res_simps v_def leaf_def and_PTE_V Let_def)
    next
      case s: (some x xs)
      have "alloc_inv new 0 (Suc c) perm cont s ps x xs {}"
        using alloc_inv_map [OF v s(1) _ _ cnt] c(1) s(3) Suc.prems(6) flags_or_valid(2) [OF up(2)] by simp
      moreover have "length ps \<le> length xs + 3 * Suc c" using s(2) vs(2) Suc.prems(13) by simp
      ultimately show ?thesis
        using Suc.IH [of "Suc c" x xs] Suc.prems more some(1,2) s(4) mp w up(2)
        by (subst uvmcopy_from.simps) (simp add: v_def leaf_def and_PTE_V Let_def pageva_next)
    qed
  qed
qed

lemma pgs_bounds:
  assumes "sz \<le> TRAPFRAME"
  shows "pgs sz < npages" "unat sz \<le> pgs sz * 4096" "pgs sz * 4096 < unat sz + 4096"
proof -
  have "unat sz + 4095 < 2 ^ 38"
    using assms by (auto simp: word_le_nat_alt TRAPFRAME_def TRAMPOLINE_def MAXVA_def)
  then show "pgs sz < npages" by (rule PGROUNDUP_pageva)
  show "unat sz \<le> pgs sz * 4096" "pgs sz * 4096 < unat sz + 4096" unfolding pgs_def by linarith+
qed

lemma uvmcopy_spec:
  assumes "spaces s ps old new (pgs sz)" "sz \<le> TRAPFRAME"
  shows "yields (uvmcopy old new sz s) (\<lambda>r t.
     (r = 0 \<and> (\<exists>qs. alloc_inv new 0 (pgs sz) (\<lambda>k. PTE_FLAGS (pmap (mem s) old k))
          (\<lambda>k d. mem s (phys (mem s) old k + d)) s ps t qs {}))
   \<or> (r = - 1 \<and> (\<exists>qs. alloc_inv new 0 0 (\<lambda>k. PTE_FLAGS (pmap (mem s) old k))
          (\<lambda>k d. mem s (phys (mem s) old k + d)) s ps t qs {}) \<and> length ps < 3 * pgs sz))"
proof -
  note S = assms(1) [unfolded spaces_def] and B = pgs_bounds [OF assms(2)]
  have "yields (uvmcopy_from old new (pageva 0) sz s) (\<lambda>r t.
     (r = 0 \<and> (\<exists>qs. alloc_inv new 0 (pgs sz) (\<lambda>k. PTE_FLAGS (pmap (mem s) old k))
          (\<lambda>k d. mem s (phys (mem s) old k + d)) s ps t qs {}))
   \<or> (r = - 1 \<and> (\<exists>qs. alloc_inv new 0 0 (\<lambda>k. PTE_FLAGS (pmap (mem s) old k))
          (\<lambda>k d. mem s (phys (mem s) old k + d)) s ps t qs {}) \<and> length ps < 3 * pgs sz))"
    using S B by (intro uvmcopy_from_spec [OF alloc_inv_start]) auto
  then show ?thesis by (simp add: uvmcopy_def pageva_def)
qed


lemma aligned_PTE2PA [simp]: "aligned (PTE2PA e)"
  by (simp add: aligned_bits PTE2PA_def bit_push_bit_iff)

lemma valid_flags:
  assumes "bit e 0"
  shows "PTE_FLAGS e OR PTE_V = PTE_FLAGS e" "PTE_FLAGS e < 1024"
proof -
  have b: "bit (PTE_FLAGS e) n \<longleftrightarrow> n < 10 \<and> bit e n" for n
    by (auto simp: PTE_FLAGS_def mask9 bit_and_iff bit_mask_iff dest: bit_imp_le_length)
  show "PTE_FLAGS e OR PTE_V = PTE_FLAGS e"
    using assms by (intro bit_word_eqI) (auto simp: b bit_or_iff PTE_V_def bit_1_iff)
  have "PTE_FLAGS e = take_bit 10 e" by (rule bit_word_eqI) (simp add: b bit_take_bit_iff)
  then show "PTE_FLAGS e < 1024" by (simp add: take_bit_eq_mod word_less_nat_alt unat_mod)
qed

lemma shared_facts:
  assumes "bit e 0"
  shows "PTE2PA (shared e) = PTE2PA e" "PTE_FLAGS (shared e) = PTE_FLAGS e" "bit (shared e) 0"
proof -
  have s: "shared e = PA2PTE (PTE2PA e) OR PTE_FLAGS e"
    using valid_flags(1) [OF assms] by (simp add: shared_def or.assoc)
  show "PTE2PA (shared e) = PTE2PA e" unfolding s by (intro PTE2PA_PA2PTE valid_flags(2) [OF assms]) simp
  show "PTE_FLAGS (shared e) = PTE_FLAGS e" unfolding s by (intro PTE_FLAGS_PA2PTE valid_flags(2) [OF assms])
  show "bit (shared e) 0" by (simp add: shared_def bit_or_iff PTE_V_def)
qed

lemma shared_leaf: "leaf e \<Longrightarrow> leaf (shared e)"
  using shared_facts [of e] by (simp add: leaf_def)

lemma grow_other:
  assumes g: "grow new s ps t qs" and old: "vm_ok s ps old"
    and dis: "tables (mem s) old \<inter> tables (mem s) new = {}"
  shows "pmap (mem t) old k = pmap (mem s) old k" "tables (mem t) old = tables (mem s) old"
    "\<And>q. path_ok q \<Longrightarrow> node (mem t) old q = node (mem s) old q" "vm_ok t qs old"
proof -
  have fr: "kframe s t" "vm_ok t qs new" using grow_pte [OF g] by auto
  have "\<forall>q\<in>set ps \<union> tables (mem s) new. aligned q"
    using vm_okD(8) [OF old] grow_tables(1) [OF g] vm_okD(6,8) [OF fr(2)] by blast
  moreover have "(set ps \<union> tables (mem s) new) \<inter> tables (mem s) old = {}" using dis vm_okD(4) [OF old] by blast
  ultimately have T: "tables (mem t) old = tables (mem s) old" "pt_wf (mem t) old"
      "\<And>va. pte (mem t) old va = pte (mem s) old va" "\<And>q. path_ok q \<Longrightarrow> node (mem t) old q = node (mem s) old q"
    using table_agree [OF grow_tables(2) [OF g] vm_okD(3) [OF old]] by auto
  then show "pmap (mem t) old k = pmap (mem s) old k" "tables (mem t) old = tables (mem s) old"
    "\<And>q. path_ok q \<Longrightarrow> node (mem t) old q = node (mem s) old q" by (auto simp: pmap_def)
  show "vm_ok t qs old"
    using T old fr kframe_sel(1) [OF fr(1)] grow_tables(3) [OF g] by (auto simp: vm_ok_def)
qed

lemma walk_slot:
  assumes ok: "vm_ok t qs old" and k: "k < npages" "has_slot (mem t) old k"
  obtains r where "walk old (pageva k) False t = Ret r t" "r \<noteq> 0" "load64 (mem t) r = pmap (mem t) old k"
proof -
  obtain y where y: "node (mem t) old (lpath 2 (pageva k)) = Some y" using k(2) by (auto simp: has_slot_def)
  then have "y \<in> tables (mem t) old" by (rule tablesI [rotated]) simp
  then have "y + 8 * PX 0 (pageva k) \<noteq> 0"
    using vm_ok_nonzero [OF ok] vm_okD(6) [OF ok] by (intro entry_addr_nonzero) (auto simp: PX_less)
  then show thesis
    using that [of "y + 8 * PX 0 (pageva k)"] walk_lookup [OF pageva_facts(3) [OF k(1)], of old t] y
    by (simp add: pmap_def pte_def entry_def)
qed

lemma copytable_step:
  assumes I: "share_inv old new c s ps t qs" and l: "length ps \<le> length qs + 2 * c" and c: "c < npages" "pageva c < sz"
    and S: "vm_ok s ps old" "tables (mem s) old \<inter> tables (mem s) new = {}" "has_slot (mem s) old c"
    and zero: "pmap (mem s) new c = 0"
  obtains (fail) u where "copytable_from old new (pageva c) sz t =
        andthen (uvmunmap new 0 (of_nat c) True u) (\<lambda>_ s. Ret (- 1) s)"
      "share_inv old new c s ps u []" "length ps < 2 * Suc c" "node (mem t) new (lpath 2 (pageva c)) = None"
  | (more) u us where "copytable_from old new (pageva c) sz t = copytable_from old new (pageva (Suc c)) sz u"
      "share_inv old new (Suc c) s ps u us" "length ps \<le> length us + 2 * Suc c"
proof -
  have g: "grow new s ps t qs"
    and pm: "\<And>k. k < npages \<Longrightarrow> pmap (mem t) new k =
          (if k < c \<and> bit (pmap (mem s) old k) 0 then shared (pmap (mem s) old k) else pmap (mem s) new k)"
    using I by (auto simp: share_inv_def)
  note O = grow_other [OF g S(1,2)]
  have "has_slot (mem t) old c" using S(3) O(3) by (simp add: has_slot_def)
  then obtain r where w: "walk old (pageva c) False t = Ret r t" "r \<noteq> 0" "load64 (mem t) r = pmap (mem s) old c"
    using walk_slot [OF O(4) c(1)] O(1) by metis
  show thesis
  proof (cases "bit (pmap (mem s) old c) 0")
    case False
    have "copytable_from old new (pageva c) sz t = copytable_from old new (pageva (Suc c)) sz t"
      using c(2) w False by (subst copytable_from.simps) (simp add: and_PTE_V Let_def pageva_next)
    moreover have "share_inv old new (Suc c) s ps t qs"
      using g pm False by (auto simp: share_inv_def less_Suc_eq)
    ultimately show thesis using more l by simp
  next
    case True
    let ?pa = "PTE2PA (pmap (mem s) old c)" and ?f = "PTE_FLAGS (pmap (mem s) old c)"
    have div: "pageva c div 4096 = of_nat c"
      using pageva_facts(1) [OF c(1)] c(1) by (simp add: npages_def unat_eq_of_nat [symmetric] unat_div)
    have nb: "\<not> bit (pmap (mem t) new c) 0" using pm [OF c(1)] zero by simp
    note mp = mappages_page [OF c(1), of new ?pa ?f t]
    from grow_pte(1) [OF g] c(1) nb show thesis
    proof (cases rule: map_page [where pa = ?pa and perm = ?f])
      case (none u)
      have "share_inv old new c s ps u []"
        using grow_trans [OF g none(1)] none(2) pm by (simp add: share_inv_def)
      moreover have "copytable_from old new (pageva c) sz t =
          andthen (uvmunmap new 0 (of_nat c) True u) (\<lambda>_ s. Ret (- 1) s)"
        using c(2) w True none(4) mp div by (subst copytable_from.simps) (simp add: and_PTE_V Let_def)
      ultimately show thesis using fail none(3,5) l by simp
    next
      case (some u us)
      have "share_inv old new (Suc c) s ps u us"
        using grow_trans [OF g some(1)] some(3) pm True
        by (auto simp: share_inv_def shared_def less_Suc_eq)
      moreover have "copytable_from old new (pageva c) sz t = copytable_from old new (pageva (Suc c)) sz u"
        using c(2) w True some(4) mp by (subst copytable_from.simps) (simp add: and_PTE_V Let_def pageva_next)
      ultimately show thesis using more l some(2) by simp
    qed
  qed
qed

lemma copytable_from_cases:
  assumes "share_inv old new c s ps t qs" "length ps \<le> length qs + 2 * c" "N = c + d" "N < npages"
    "unat sz \<le> N * 4096" "N * 4096 < unat sz + 4096"
    "vm_ok s ps old" "tables (mem s) old \<inter> tables (mem s) new = {}"
    "\<forall>k<N. has_slot (mem s) old k" "\<forall>k<N. pmap (mem s) new k = 0"
  obtains (finish) u us where "copytable_from old new (pageva c) sz t = Ret 0 u" "share_inv old new N s ps u us"
  | (fail) c' u v us where "c' < N" "copytable_from old new (pageva c) sz t =
        andthen (uvmunmap new 0 (of_nat c') True u) (\<lambda>_ s. Ret (- 1) s)"
      "share_inv old new c' s ps u []" "length ps < 2 * Suc c'"
      "share_inv old new c' s ps v us" "node (mem v) new (lpath 2 (pageva c')) = None"
  using assms
proof (induction d arbitrary: c t qs thesis)
  case 0
  then have "\<not> pageva c < sz" using pageva_facts(1) [of c] by (auto simp: word_less_nat_alt)
  then have "copytable_from old new (pageva c) sz t = Ret 0 t" by (subst copytable_from.simps) simp
  then show thesis using 0 by simp
next
  case (Suc d)
  have c: "c < npages" using Suc.prems(5,6) by simp
  have more: "pageva c < sz" using pageva_facts(1) [OF c] Suc.prems(5,8) by (simp add: word_less_nat_alt)
  have "has_slot (mem s) old c" "pmap (mem s) new c = 0" using Suc.prems(5,11,12) by auto
  with Suc.prems(3,4) c more Suc.prems(9,10) show thesis
  proof (cases rule: copytable_step)
    case (fail u)
    then show thesis using Suc.prems(2) [of c u t qs] Suc.prems(3,5) by simp
  next
    case m: (more u us)
    show thesis
    proof (rule Suc.IH [OF _ _ m(2,3)])
      fix u' us' assume "copytable_from old new (pageva (Suc c)) sz u = Ret 0 u'" "share_inv old new N s ps u' us'"
      then show thesis using Suc.prems(1) m(1) by simp
    next
      fix c' u' v us'
      assume "c' < N" "copytable_from old new (pageva (Suc c)) sz u = andthen (uvmunmap new 0 (of_nat c') True u') (\<lambda>_ s. Ret (- 1) s)"
        "share_inv old new c' s ps u' []" "length ps < 2 * Suc c'"
        "share_inv old new c' s ps v us'" "node (mem v) new (lpath 2 (pageva c')) = None"
      then show thesis using Suc.prems(2) m(1) by simp
    qed (use Suc.prems in auto)
  qed
qed

lemma share_inv_start: "vm_ok s ps new \<Longrightarrow> share_inv old new 0 s ps s ps"
  by (simp add: share_inv_def grow_refl)

text \<open>
  C7. \<open>copytable\<close>, given enough free pages for tables, returns 0 and makes the new
  address space share the old one: each valid page of the old table is mapped in
  the new one to the same physical page with the same flags, a page that is not
  valid stays unmapped, and the old table is unchanged.
\<close>

theorem copytable_shares:
  assumes "vm_ok s ps old" "vm_ok s ps new" "tables (mem s) old \<inter> tables (mem s) new = {}" "sz \<le> TRAPFRAME"
    "\<forall>k<pgs sz. has_slot (mem s) old k" "\<forall>k<pgs sz. pmap (mem s) new k = 0" "2 * pgs sz \<le> length ps"
  shows "yields (copytable old new sz s) (\<lambda>r t. r = 0 \<and> (\<exists>qs. vm_ok t qs new \<and> vm_ok t qs old)
     \<and> (\<forall>k. pmap (mem t) old k = pmap (mem s) old k)
     \<and> (\<forall>k<pgs sz. if bit (pmap (mem s) old k) 0
          then bit (pmap (mem t) new k) 0 \<and> phys (mem t) new k = phys (mem t) old k
               \<and> PTE_FLAGS (pmap (mem t) new k) = PTE_FLAGS (pmap (mem t) old k)
          else pmap (mem t) new k = 0))"
proof -
  note B = pgs_bounds [OF assms(4)]
  obtain u us where u: "copytable_from old new (pageva 0) sz s = Ret 0 u" "share_inv old new (pgs sz) s ps u us"
    by (rule copytable_from_cases [OF share_inv_start [OF assms(2)], of "pgs sz" "pgs sz" sz])
      (use assms B in auto)
  have g: "grow new s ps u us" using u(2) by (simp add: share_inv_def)
  note O = grow_other [OF g assms(1,3)]
  have "if bit (pmap (mem s) old k) 0
      then bit (pmap (mem u) new k) 0 \<and> phys (mem u) new k = phys (mem u) old k
           \<and> PTE_FLAGS (pmap (mem u) new k) = PTE_FLAGS (pmap (mem u) old k)
      else pmap (mem u) new k = 0" if "k < pgs sz" for k
    using u(2) that B(1) assms(6) shared_facts [of "pmap (mem s) old k"] by (simp add: share_inv_def O phys_def)
  then show ?thesis
    using u(1) O(1,4) grow_pte(1) [OF g] by (auto simp: copytable_def pageva_def)
qed

lemma PX_pageva:
  assumes "k < npages"
  shows "unat (PX l (pageva k)) = k div 512 ^ l mod 512"
proof -
  have "unat (PX l (pageva k)) = take_bit 9 (drop_bit (12 + 9 * l) (unat (pageva k)))"
    by (rule bit_eqI) (auto simp: bit_PX bit_unsigned_iff bit_take_bit_iff bit_drop_bit_eq)
  also have "\<dots> = take_bit 9 (drop_bit (12 + 9 * l) (k * 4096))" using pageva_facts(1) [OF assms] by simp
  also have "\<dots> = (k * 4096) div 2 ^ (12 + 9 * l) mod 512" by (simp add: take_bit_eq_mod drop_bit_eq_div)
  also have "(k * 4096) div 2 ^ (12 + 9 * l) = k div 512 ^ l"
  proof -
    have "(2 :: nat) ^ (12 + 9 * l) = 512 ^ l * 4096" by (simp add: power_add power_mult)
    then show ?thesis by simp
  qed
  finally show ?thesis .
qed

lemma lpath_two: "lpath 2 va = [PX 2 va, PX 1 va]"
  by (simp add: numeral_2_eq_2)

lemma lpath_low: "k < 512 \<Longrightarrow> lpath 2 (pageva k) = [0, 0]"
  using PX_pageva [of k 2] PX_pageva [of k 1] by (simp add: lpath_two npages_def unat_eq_0)

lemma lpath_512: "lpath 2 (pageva 512) = [0, 1]"
  using PX_pageva [of 512 2] PX_pageva [of 512 1]
  by (simp add: lpath_two npages_def word_unat_eq_iff)

lemma pmap_valid_node: "bit (pmap m pt k) 0 \<Longrightarrow> \<exists>y. node m pt (lpath 2 (pageva k)) = Some y"
  by (auto simp: pmap_def pte_def split: option.splits)

lemma four_tables:
  assumes wf: "pt_wf m pt" and v: "bit (pmap m pt 0) 0" "bit (pmap m pt 512) 0"
  shows "\<exists>T\<subseteq>tables m pt. finite T \<and> card T = 4"
proof -
  obtain x y where x: "node m pt [0, 0] = Some x" and y: "node m pt [0, 1] = Some y"
    using pmap_valid_node [OF v(1)] pmap_valid_node [OF v(2)] by (auto simp: lpath_low lpath_512)
  have z: "node m pt [0] = Some (PTE2PA (entry m pt 0))" using x by (auto split: if_splits)
  let ?z = "PTE2PA (entry m pt 0)"
  have ok: "path_ok [0, 0]" "path_ok [0, 1]" "path_ok [0]" by (simp_all add: path_ok_def)
  note I = pt_wf_inj [OF wf]
  have "x \<noteq> y" "x \<noteq> ?z" "y \<noteq> ?z" "x \<noteq> pt" "y \<noteq> pt" "?z \<noteq> pt"
    using I [OF ok(1,2) x] I [OF ok(1,3) x] I [OF ok(2,3) y] I [OF ok(1) path_ok_Nil x] I [OF ok(2) path_ok_Nil y]
      I [OF ok(3) path_ok_Nil z] x y z by auto
  then show ?thesis
    using tablesI [OF ok(1) x] tablesI [OF ok(2) y] tablesI [OF ok(3) z]
    by (intro exI [of _ "{x, y, ?z, pt}"]) auto
qed

lemma share_inv_user_pages:
  assumes S: "spaces s ps old new N" and I: "share_inv old new c s ps t []" and c: "c \<le> N"
  shows "user_pages t [] new {0..<c}" "k < c \<Longrightarrow> phys (mem t) new k = phys (mem s) old k"
proof -
  have sp: "user_pages s ps old {0..<N}" "phys (mem s) old ` {0..<N} \<inter> tables (mem s) new = {}"
    using S by (simp_all add: spaces_def)
  note up = user_pagesD [OF sp(1)]
  have g: "grow new s ps t []" using I by (simp add: share_inv_def)
  have pm: "pmap (mem t) new k = shared (pmap (mem s) old k)" if "k < c" for k
    using I that up(1) [of k] up(2) [of k] c by (auto simp: share_inv_def leaf_def)
  show ph: "phys (mem t) new k = phys (mem s) old k" if "k < c" for k
    using pm [OF that] up(2) [of k] that c by (auto simp: phys_def leaf_def shared_facts)
  show "user_pages t [] new {0..<c}"
  proof (rule user_pagesI)
    show "inj_on (phys (mem t) new) {0..<c}"
      using user_pages_inj [OF sp(1)] ph c by (auto simp: inj_on_def)
    fix k assume "k \<in> {0..<c}"
    then have k: "k < c" "k \<in> {0..<N}" using c by auto
    have "phys (mem s) old k \<notin> tables (mem s) new" using sp(2) k(2) by blast
    then have "phys (mem s) old k \<notin> tables (mem t) new"
      using grow_tables(1) [OF g] up(4) [OF k(2)] by auto
    then show "k < npages \<and> leaf (pmap (mem t) new k) \<and> ram_page (kend t) (phys (mem t) new k)
        \<and> phys (mem t) new k \<notin> set [] \<union> tables (mem t) new"
      using up [OF k(2)] pm [OF k(1)] ph [OF k(1)] kframe_sel(1) [OF grow_pte(2) [OF g]]
      by (simp add: shared_leaf)
  qed
qed


lemma vm_ok_agree:
  assumes "vm_ok s ps pt" "kmem_ready t" "free_pages t qs" "set qs \<subseteq> set ps" "kframe s t"
    "agree_outside (set ps) (mem s) (mem t)"
  shows "vm_ok t qs pt" "tables (mem t) pt = tables (mem s) pt" "pmap (mem t) pt k = pmap (mem s) pt k"
proof -
  have "set ps \<inter> tables (mem s) pt = {}" "\<forall>q\<in>set ps. aligned q" using vm_okD(4,8) [OF assms(1)] by auto
  note T = table_agree [OF assms(6) vm_okD(3) [OF assms(1)] this]
  show "vm_ok t qs pt" "tables (mem t) pt = tables (mem s) pt" "pmap (mem t) pt k = pmap (mem s) pt k"
    using assms T kframe_sel(1) [OF assms(5)] by (auto simp: vm_ok_def pmap_def)
qed

lemma user_pages_agree:
  assumes "user_pages s ps pt N" "vm_ok s ps pt" "kmem_ready t" "free_pages t qs" "set qs \<subseteq> set ps" "kframe s t"
    "agree_outside (set ps) (mem s) (mem t)"
  shows "user_pages t qs pt N" "phys (mem t) pt k = phys (mem s) pt k"
proof -
  note A = vm_ok_agree [OF assms(2-7)]
  show "user_pages t qs pt N"
    using A kframe_sel(1) [OF assms(6)] user_pagesD(4,5) [OF assms(1)] assms(5)
    by (intro user_pages_change [OF assms(1)]) auto
  show "phys (mem t) pt k = phys (mem s) pt k" using A(3) by (simp add: phys_def)
qed

lemma uvmcreate_spec:
  assumes "kmem_ready s" "free_pages s ps"
  obtains (none) t where "uvmcreate s = Ret 0 t" "ps = []" "kmem_ready t" "free_pages t []" "mem t = mem s" "kframe s t"
  | (some) q qs t where "uvmcreate s = Ret q t" "q \<noteq> 0" "ps = q # qs" "vm_ok t qs q" "tables (mem t) q = {q}"
      "\<And>k. pmap (mem t) q k = 0" "kframe s t" "agree_outside {q} (mem s) (mem t)"
  using assms
proof (cases rule: kalloc_cases)
  case (none t)
  then show thesis using that(1) [of t] by (simp add: uvmcreate_def)
next
  case (some q qs t)
  let ?u = "t\<lparr>mem := memset (mem t) q 0 4096\<rparr>"
  have mu: "mem ?u = fill (mem s) q 4096 0" using some(6) by (simp add: memset_eq_fill fill_def fun_eq_iff)
  have q: "aligned q" "ram_page (kend s) q" "q \<notin> set qs" "\<forall>p\<in>set qs. aligned p"
    using assms(2) some(3) by (auto simp: free_pages_def ram_page_def)
  have z: "entry (mem ?u) q i = 0" if "unat i < 512" for i
    unfolding mu using that by (simp add: entry_def load64_fill_zero)
  note E = empty_root [OF z q(1)]
  have "free_pages ?u qs"
    using some(5) q by (intro free_pages_agree [where S = "{q}"]) (auto simp: memset_eq_fill intro!: agree_outsideI agree_off_fill)
  then have "vm_ok ?u qs q"
    using E q some(4) kframe_sel(1) [OF some(7)] by (simp add: vm_ok_def)
  moreover have "agree_outside {q} (mem s) (mem ?u)"
    unfolding mu by (intro agree_outsideI [OF agree_off_fill]) auto
  ultimately show thesis
    using that(2) [of q ?u qs] some E by (simp add: uvmcreate_def)
qed

lemma alloc_many_spec:
  assumes "kmem_ready s" "free_pages s ps" "n \<le> length ps"
  shows "yields (alloc_many kalloc n s) (\<lambda>_ t. kmem_ready t \<and> free_pages t (drop n ps) \<and> kframe s t
     \<and> agree_outside (set ps) (mem s) (mem t))"
  using assms
proof (induction n arbitrary: s ps)
  case (Suc n)
  from Suc.prems(1,2) show ?case
  proof (cases rule: kalloc_cases)
    case (none t)
    then show ?thesis using Suc.prems(3) by simp
  next
    case (some p qs t)
    have ag: "agree_outside (set ps) (mem s) (mem t)"
      using some(3) unfolding some(6) by (intro agree_outsideI [OF agree_off_fill]) auto
    have "yields (alloc_many kalloc n t) (\<lambda>_ u. kmem_ready u \<and> free_pages u (drop n qs) \<and> kframe t u
        \<and> agree_outside (set qs) (mem t) (mem u))"
      using Suc.prems(3) some by (intro Suc.IH) auto
    then have "yields (alloc_many kalloc n t) (\<lambda>_ u. kmem_ready u \<and> free_pages u (drop n qs) \<and> kframe s u
        \<and> agree_outside (set ps) (mem s) (mem u))"
      by (rule yields_mono)
        (use some(3,7) kframe_trans agree_outside_trans [OF ag] in \<open>auto intro: agree_outside_trans [OF ag]\<close>)
    then show ?thesis using some by (simp add: res_simps)
  qed
qed simp

lemma many_ram_pages:
  assumes "distinct ps" "set ps = {q. ram_page (kend boot_ksys) q}"
  shows "2000 \<le> length ps"
proof -
  let ?f = "\<lambda>k. pageva (524323 + k)"
  have "inj_on ?f {0..<2000}" by (rule inj_onI) (simp add: pageva_inj npages_def)
  moreover have "?f ` {0..<2000} \<subseteq> set ps"
    unfolding assms(2)
    by (auto simp: ram_page_def pageva_facts npages_def boot_ksys_def word_le_nat_alt word_less_nat_alt PHYSTOP_def KERNBASE_def)
  ultimately have "card {0..<2000 :: nat} \<le> card (set ps)" by (metis card_image card_mono finite_set)
  then show ?thesis using assms(1) by (simp add: distinct_card)
qed

lemma two_spaces:
  obtains s :: ksys and ps old new where "spaces s ps old new 513" "tables (mem s) new = {new}" "length ps = 2"
proof -
  obtain t0 :: ksys and ps0 where t0: "kmem_ready t0" "free_pages t0 ps0" "set ps0 = {q. ram_page (kend boot_ksys) q}"
  proof -
    have "yields (kinit boot_ksys) (\<lambda>_ t. kmem_ready t \<and> (\<exists>ps. free_pages t ps \<and> set ps = {q. ram_page (kend boot_ksys) q}))"
      by (rule kinit_spec) (simp_all add: boot_ksys_def boot_machine_def hw_ok_def hw_defs PHYSTOP_def KERNBASE_def)
    then show thesis using that by (auto elim!: yieldsE)
  qed
  have l0: "2000 \<le> length ps0" using many_ram_pages [OF _ t0(3)] t0(2) by (simp add: free_pages_def)
  obtain old ps1 and t1 :: ksys where t1: "ps0 = old # ps1" "vm_ok t1 ps1 old" "\<And>k. pmap (mem t1) old k = 0"
    using t0(1,2) by (cases rule: uvmcreate_spec) (use l0 in \<open>auto intro: that\<close>)
  obtain t2 :: ksys and ps2 where t2: "vm_ok t2 ps2 old" "user_pages t2 ps2 old {0..<513}" "3 \<le> length ps2"
  proof -
    have p: "perm_ok (PTE_R OR PTE_U OR PTE_W)" by (simp add: perm_ok_def PTE_R_def PTE_U_def PTE_W_def PTE_V_def)
    have sz: "(0 :: u64) \<le> 0x201000" "0x201000 \<le> TRAPFRAME" "pgs 0 = 0" "pgs 0x201000 = 513"
      by (simp_all add: TRAPFRAME_def TRAMPOLINE_def MAXVA_def pgs_def)
    have "\<forall>k\<in>{pgs 0..<pgs 0x201000}. pmap (mem t1) old k = 0" using t1(3) by simp
    from uvmalloc_spec [OF t1(2) sz(1,2) this p] obtain t2 ps2 where
      I: "alloc_inv old 0 513 (\<lambda>_. PTE_R OR PTE_U OR PTE_W) (\<lambda>_ _. 0) t1 ps1 t2 ps2 {}"
        "length ps1 \<le> length ps2 + 3 * 513"
      unfolding sz(3,4) diff_zero using l0 t1(1) by (elim yieldsE) auto
    then show thesis using that [of t2 ps2] alloc_invD(1,3) [OF I(1)] l0 t1(1) by simp
  qed
  obtain new ps3 and t3 :: ksys where t3: "ps2 = new # ps3" "vm_ok t3 ps3 new" "tables (mem t3) new = {new}"
      "\<And>k. pmap (mem t3) new k = 0" "kframe t2 t3" "agree_outside {new} (mem t2) (mem t3)"
    using vm_okD(1,2) [OF t2(1)] by (cases rule: uvmcreate_spec) (use t2(3) in \<open>auto intro: that\<close>)
  obtain t4 :: ksys where t4: "kmem_ready t4" "free_pages t4 (drop (length ps3 - 2) ps3)" "kframe t3 t4"
      "agree_outside (set ps3) (mem t3) (mem t4)"
    using alloc_many_spec [OF vm_okD(1,2) [OF t3(2)], of "length ps3 - 2"] by (auto elim!: yieldsE)
  let ?qs = "drop (length ps3 - 2) ps3"
  have sub: "set ?qs \<subseteq> set ps3" "set ?qs \<subseteq> set ps2" using t3(1) set_drop_subset by fastforce+
  have ag: "agree_outside (set ps2) (mem t2) (mem t4)" "kframe t2 t4"
    using t3(1) agree_outside_trans [OF t3(6) t4(4)] kframe_trans [OF t3(5) t4(3)] by auto
  note A = vm_ok_agree [OF t2(1) t4(1,2) sub(2) ag(2,1)] and N = vm_ok_agree [OF t3(2) t4(1,2) sub(1) t4(3,4)]
    and U = user_pages_agree [OF t2(2,1) t4(1,2) sub(2) ag(2,1)]
  have "new \<in> set ps2" using t3(1) by simp
  then have "new \<notin> tables (mem t2) old" "new \<notin> phys (mem t2) old ` {0..<513}"
    using vm_okD(4) [OF t2(1)] user_pagesD(4) [OF t2(2)] by auto
  then have "spaces t4 ?qs old new 513"
    using A(1,2) N U t3(3,4) unfolding spaces_def by auto
  then show thesis using that [of t4 ?qs old new] N(2) t3(1,3) t2(3) by simp
qed



theorem copytable_shares_witness:
  "\<exists>(s :: ksys) old new. yields (copytable old new 0x1000 s) (\<lambda>r t. r = 0 \<and> phys (mem t) new 0 = phys (mem t) old 0)"
proof -
  obtain s :: ksys and ps old new where s: "spaces s ps old new 513" "length ps = 2" by (rule two_spaces)
  note S = s(1) [unfolded spaces_def]
  have l: "leaf (pmap (mem s) old 0)" using user_pagesD(2) [of s ps old "{0..<513}" 0] S by simp
  then have "has_slot (mem s) old 0"
    using pmap_valid_node by (force simp: has_slot_def leaf_def)
  then have "yields (copytable old new 0x1000 s) (\<lambda>r t. r = 0 \<and> (\<exists>qs. vm_ok t qs new \<and> vm_ok t qs old)
     \<and> (\<forall>k. pmap (mem t) old k = pmap (mem s) old k)
     \<and> (\<forall>k<pgs 0x1000. if bit (pmap (mem s) old k) 0
          then bit (pmap (mem t) new k) 0 \<and> phys (mem t) new k = phys (mem t) old k
               \<and> PTE_FLAGS (pmap (mem t) new k) = PTE_FLAGS (pmap (mem t) old k)
          else pmap (mem t) new k = 0))"
    using S s(2) by (intro copytable_shares) (auto simp: pgs_def TRAPFRAME_def TRAMPOLINE_def MAXVA_def)
  then have "yields (copytable old new 0x1000 s) (\<lambda>r t. r = 0 \<and> phys (mem t) new 0 = phys (mem t) old 0)"
    by (rule yields_mono) (use l in \<open>simp add: pgs_def leaf_def\<close>)
  then show ?thesis by blast
qed

end
