(* ===== verification/Vm_User.thy ===== *)
theory Vm_User
  imports Vm_Copy
begin

text \<open>
  The kernel's access to user memory: \<^verbatim>\<open>copyout\<close>, \<^verbatim>\<open>copyin\<close> and \<^verbatim>\<open>copyinstr\<close> of
  \<^verbatim>\<open>kernel/vm.c\<close>, specified over the bytes a user range denotes. A user address is
  translated by \<open>uaddr\<close> (the physical page of its page number plus the offset), and
  \<open>user_range\<close> says that every page a range touches is mapped for the user.
\<close>

definition uaddr :: "mem \<Rightarrow> u64 \<Rightarrow> nat \<Rightarrow> u64" where
  "uaddr m pt a = phys m pt (a div 4096) + of_nat (a mod 4096)"

definition ubytes :: "mem \<Rightarrow> u64 \<Rightarrow> nat \<Rightarrow> nat \<Rightarrow> byte list" where
  "ubytes m pt a n = map (\<lambda>i. m (uaddr m pt (a + i))) [0..<n]"

definition user_range :: "'b ksys_scheme \<Rightarrow> u64 list \<Rightarrow> u64 \<Rightarrow> nat set \<Rightarrow> nat \<Rightarrow> nat \<Rightarrow> bool" where
  "user_range s ps pt N a n \<longleftrightarrow> vm_ok s ps pt \<and> user_pages s ps pt N
     \<and> (\<forall>i<n. (a + i) div 4096 \<in> N \<and> bit (pmap (mem s) pt ((a + i) div 4096)) 4)"

definition stored :: "mem \<Rightarrow> u64 \<Rightarrow> nat set \<Rightarrow> nat \<Rightarrow> byte list \<Rightarrow> mem \<Rightarrow> bool" where
  "stored m pt N a bs m' \<longleftrightarrow> agree_outside (phys m pt ` N) m m'
     \<and> (\<forall>i<length bs. m' (uaddr m pt (a + i)) = bs ! i)
     \<and> (\<forall>b. (\<forall>i<length bs. b \<noteq> uaddr m pt (a + i)) \<longrightarrow> m' b = m b)"

definition ubyte :: "mem \<Rightarrow> u64 \<Rightarrow> nat \<Rightarrow> byte" where
  "ubyte m pt a = m (uaddr m pt a)"

lemma user_rangeD:
  assumes "user_range s ps pt N a n" "i < n"
  shows "(a + i) div 4096 \<in> N" "bit (pmap (mem s) pt ((a + i) div 4096)) 4"
  using assms by (auto simp: user_range_def)

lemma user_range_bound: "user_range s ps pt N a n \<Longrightarrow> i < n \<Longrightarrow> a + i < 2 ^ 38"
proof -
  assume "user_range s ps pt N a n" "i < n"
  then have "(a + i) div 4096 < npages" by (auto simp: user_range_def user_pages_def)
  then show "a + i < 2 ^ 38" by (simp add: npages_def)
qed

lemma user_range_drop:
  assumes "user_range s ps pt N a n" "c \<le> n"
  shows "user_range s ps pt N (a + c) (n - c)"
  unfolding user_range_def
proof (intro conjI allI impI)
  fix i assume "i < n - c"
  then have "c + i < n" using assms(2) by simp
  from user_rangeD [OF assms(1) this]
  show "(a + c + i) div 4096 \<in> N" "bit (pmap (mem s) pt ((a + c + i) div 4096)) 4" by (simp_all add: add.assoc)
qed (use assms in \<open>auto simp: user_range_def\<close>)

lemma user_range_take: "user_range s ps pt N a n \<Longrightarrow> m \<le> n \<Longrightarrow> user_range s ps pt N a m"
  by (auto simp: user_range_def)

lemma unat_offset: "unat (va - PGROUNDDOWN va) = unat va mod 4096"
  using PGROUNDDOWN_le [of va] by (simp add: unat_sub unat_PGROUNDDOWN)

lemma walkaddr_user:
  assumes R: "user_range s ps pt N (unat va) n" and n: "0 < n"
  shows "walkaddr pt (PGROUNDDOWN va) s = Ret (phys (mem s) pt (unat va div 4096)) s"
    "phys (mem s) pt (unat va div 4096) \<noteq> 0"
    "phys (mem s) pt (unat va div 4096) + (va - PGROUNDDOWN va) = uaddr (mem s) pt (unat va)"
proof -
  have b: "unat va < 2 ^ 38" using user_range_bound [OF R n] by simp
  let ?k = "unat va div 4096"
  have k: "?k \<in> N" "bit (pmap (mem s) pt ?k) 4" using user_rangeD [OF R n] by simp_all
  have up: "user_pages s ps pt N" and ok: "vm_ok s ps pt" using R by (auto simp: user_range_def)
  note U = user_pagesD [OF up k(1)]
  note P = PGROUNDDOWN_pageva [OF b]
  show "phys (mem s) pt ?k \<noteq> 0"
    using ram_page_nonzero [OF U(3)] vm_okD(2) [OF ok] by (simp add: free_pages_def)
  show "walkaddr pt (PGROUNDDOWN va) s = Ret (phys (mem s) pt ?k) s"
    unfolding P(1) walkaddr_eq [OF ok] using k(2) U(2) pageva_facts(3) [OF P(2)]
    by (simp add: leaf_def phys_def flip: pmap_def)
  have "va - PGROUNDDOWN va = of_nat (unat va mod 4096)"
    using unat_offset [of va] by (simp add: unat_eq_of_nat [symmetric])
  then show "phys (mem s) pt ?k + (va - PGROUNDDOWN va) = uaddr (mem s) pt (unat va)"
    by (simp add: uaddr_def)
qed

lemma chunk_same_page:
  assumes "i < chunk va n"
  shows "(unat va + i) div 4096 = unat va div 4096" "(unat va + i) mod 4096 = unat va mod 4096 + i"
    "uaddr m pt (unat va + i) = uaddr m pt (unat va) + of_nat i"
proof -
  have lt: "unat va mod 4096 + i < 4096"
    using assms unfolding chunk_def unat_offset min_less_iff_conj by linarith
  then have i: "i < 4096" by simp
  show d: "(unat va + i) div 4096 = unat va div 4096" using lt i by (simp add: div_add1_eq [of "unat va"])
  have "(unat va + i) mod 4096 = (unat va mod 4096 + i) mod 4096" by (simp only: mod_add_left_eq)
  then show m: "(unat va + i) mod 4096 = unat va mod 4096 + i" using lt by simp
  show "uaddr m pt (unat va + i) = uaddr m pt (unat va) + of_nat i"
    by (simp add: uaddr_def d m add.assoc)
qed

lemma chunk_next:
  assumes "chunk va n < n" "unat va < 2 ^ 38"
  shows "unat (PGROUNDDOWN va + 4096) = unat va + chunk va n"
proof -
  have c: "chunk va n = 4096 - unat va mod 4096" using assms(1) by (simp add: chunk_def unat_offset min_def split: if_splits)
  have lt: "unat va mod 4096 < 4096" by simp
  have "unat (PGROUNDDOWN va + 4096) = unat (PGROUNDDOWN va) + 4096"
    using assms(2) by (simp add: unat_word_ariths unat_PGROUNDDOWN)
  then show ?thesis using lt c by (simp add: unat_PGROUNDDOWN) 
qed

lemma ubytes_append: "ubytes m pt a (c + d) = ubytes m pt a c @ ubytes m pt (a + c) d"
proof -
  have "[0..<c + d] = [0..<c] @ map (\<lambda>i. i + c) [0..<d]"
    by (simp only: upt_add_eq_append [OF le0] map_add_upt add.commute)
  then show ?thesis unfolding ubytes_def by (simp add: ac_simps)
qed

lemma get_bytes_chunk: "get_bytes m (uaddr m pt (unat va)) (chunk va n) = ubytes m pt (unat va) (chunk va n)"
  using chunk_same_page(3) [of _ va n m pt] by (auto simp: get_bytes_def ubytes_def)

lemma copyin_spec:
  assumes "user_range s ps pt N (unat srcva) len"
  shows "copyin pt srcva len s = Ret (0, ubytes (mem s) pt (unat srcva) len) s"
  using assms
proof (induction pt srcva len s rule: copyin.induct)
  case (1 pt srcva len s)
  show ?case
  proof (cases "len = 0")
    case True
    then show ?thesis by (subst copyin.simps) (simp add: ubytes_def)
  next
    case False
    note W = walkaddr_user [OF "1.prems"] 
    let ?c = "chunk srcva len"
    have "copyin pt (PGROUNDDOWN srcva + PGSIZE) (len - ?c) s = Ret (0, ubytes (mem s) pt (unat srcva + ?c) (len - ?c)) s"
    proof (cases "?c < len")
      case True
      have u: "unat (PGROUNDDOWN srcva + PGSIZE) = unat srcva + ?c"
        using chunk_next [OF True] user_range_bound [OF "1.prems", of 0] False by simp
      have "user_range s ps pt N (unat (PGROUNDDOWN srcva + PGSIZE)) (len - ?c)"
        unfolding u using "1.prems" chunk_le by (rule user_range_drop)
      then show ?thesis using "1.IH" W False u by simp
    next
      case ge: False
      then show ?thesis by (subst copyin.simps) (simp add: ubytes_def)
    qed
    then show ?thesis
      using W False ubytes_append [of "mem s" pt "unat srcva" ?c "len - ?c"] chunk_le [of srcva len]
      by (subst copyin.simps) (simp add: Let_def get_bytes_chunk)
  qed
qed

lemma uaddr_inj:
  assumes "user_pages s ps pt N" "x div 4096 \<in> N" "y div 4096 \<in> N"
  shows "uaddr (mem s) pt x = uaddr (mem s) pt y \<longleftrightarrow> x = y"
proof
  assume eq: "uaddr (mem s) pt x = uaddr (mem s) pt y"
  have al: "aligned (phys (mem s) pt (x div 4096))" "aligned (phys (mem s) pt (y div 4096))"
    by (simp_all add: phys_def)
  have lt: "unat (of_nat (z mod 4096) :: u64) = z mod 4096" for z
    by (simp add: unat_of_nat)
  have "phys (mem s) pt (x div 4096) = phys (mem s) pt (y div 4096) \<and> (of_nat (x mod 4096) :: u64) = of_nat (y mod 4096)"
    using page_offset_eq_iff [OF al, of "of_nat (x mod 4096)" "of_nat (y mod 4096)"] eq lt
    by (simp add: uaddr_def)
  then have p: "phys (mem s) pt (x div 4096) = phys (mem s) pt (y div 4096)"
    and o: "(of_nat (x mod 4096) :: u64) = of_nat (y mod 4096)" by auto
  have "x div 4096 = y div 4096" using inj_onD [OF user_pages_inj [OF assms(1)] p assms(2,3)] .
  moreover have "x mod 4096 = y mod 4096" using arg_cong [OF o, of unat] unfolding lt .
  ultimately show "x = y" by (metis mult_div_mod_eq)
qed simp

lemma uaddr_in_page: "in_page (phys m pt (a div 4096)) (uaddr m pt a)"
  unfolding uaddr_def by (rule in_page_offset) simp

lemma user_range_write:
  assumes R: "user_range s ps pt N a n" and ag: "agree_outside (phys (mem s) pt ` N) (mem s) m"
  shows "user_range (s\<lparr>mem := m\<rparr>) ps pt N a n" "phys m pt k = phys (mem s) pt k"
proof -
  have up: "user_pages s ps pt N" and ok: "vm_ok s ps pt" using R by (auto simp: user_range_def)
  have dis: "phys (mem s) pt ` N \<inter> (set ps \<union> tables (mem s) pt) = {}" "\<forall>q\<in>phys (mem s) pt ` N. aligned q"
    using user_pagesD(4,5) [OF up] by (auto simp: phys_def)
  note W = vm_ok_write [OF ok ag dis]
  have "user_pages (s\<lparr>mem := m\<rparr>) ps pt N"
    using W user_pagesD(4,5) [OF up] by (intro user_pages_change [OF up]) auto
  then show "user_range (s\<lparr>mem := m\<rparr>) ps pt N a n" "phys m pt k = phys (mem s) pt k"
    using R W by (auto simp: user_range_def phys_def)
qed

lemma stored_chunk:
  assumes R: "user_range s ps pt N (unat va) n" and c: "c \<le> chunk va n" "length bs = c"
  shows "stored (mem s) pt N (unat va) bs (put_bytes (mem s) (uaddr (mem s) pt (unat va)) bs)"
  unfolding stored_def
proof (intro conjI allI impI)
  let ?u = "uaddr (mem s) pt (unat va)" and ?m = "put_bytes (mem s) (uaddr (mem s) pt (unat va)) bs"
  have cn: "c \<le> 4096" "c \<le> n" using c(1) by (auto simp: chunk_def)
  have ad: "uaddr (mem s) pt (unat va + i) = ?u + of_nat i" if "i < c" for i
    using chunk_same_page(3) [of i va n] that c(1) by simp
  show "?m (uaddr (mem s) pt (unat va + i)) = bs ! i" if "i < length bs" for i
    using that c(2) cn ad [of i] by (simp add: put_bytes_def unat_of_nat)
  have hit: "\<exists>i<c. b = uaddr (mem s) pt (unat va + i)" if "unat (b - ?u) < length bs" for b
  proof -
    have "b = ?u + of_nat (unat (b - ?u))" by simp
    then show ?thesis using ad [of "unat (b - ?u)"] that c(2) by metis
  qed
  show "?m b = mem s b" if "\<forall>i<length bs. b \<noteq> uaddr (mem s) pt (unat va + i)" for b
    using hit [of b] that c(2) by (auto simp: put_bytes_def)
  show "agree_outside (phys (mem s) pt ` N) (mem s) ?m"
    unfolding agree_outside_def
  proof (intro allI impI)
    fix b assume out: "\<forall>p\<in>phys (mem s) pt ` N. \<not> in_page p b"
    have "\<not> unat (b - ?u) < length bs"
    proof
      assume "unat (b - ?u) < length bs"
      then obtain i where i: "i < c" "b = uaddr (mem s) pt (unat va + i)" using hit by blast
      have "(unat va + i) div 4096 \<in> N" using user_rangeD(1) [OF R] i(1) cn(2) by simp
      then show False using out uaddr_in_page [of "mem s" pt "unat va + i"] i(2) by blast
    qed
    then show "?m b = mem s b" by (simp add: put_bytes_def)
  qed
qed

lemma stored_append:
  assumes R: "user_range s ps pt N a (length bs + length cs)"
    and 1: "stored (mem s) pt N a bs m" and 2: "stored m pt N (a + length bs) cs m'"
  shows "stored (mem s) pt N a (bs @ cs) m'"
proof -
  have ag: "agree_outside (phys (mem s) pt ` N) (mem s) m" using 1 by (simp add: stored_def)
  have ph: "phys m pt = phys (mem s) pt" by (rule ext) (rule user_range_write(2) [OF R ag])
  have ua: "uaddr m pt = uaddr (mem s) pt" by (rule ext) (simp add: uaddr_def ph)
  have up: "user_pages s ps pt N" using R by (simp add: user_range_def)
  have ne: "uaddr (mem s) pt (a + i) \<noteq> uaddr (mem s) pt (a + length bs + j)" if "i < length bs" "j < length cs" for i j
    using uaddr_inj [OF up, of "a + i" "a + length bs + j"] user_rangeD(1) [OF R, of i]
      user_rangeD(1) [OF R, of "length bs + j"] that by (simp add: add.assoc)
  show ?thesis
    unfolding stored_def
  proof (intro conjI allI impI)
    show "agree_outside (phys (mem s) pt ` N) (mem s) m'"
      using 2 by (intro agree_outside_trans [OF ag]) (auto simp: stored_def ph)
    show "m' (uaddr (mem s) pt (a + i)) = (bs @ cs) ! i" if i: "i < length (bs @ cs)" for i
    proof (cases "i < length bs")
      case True
      then have "m' (uaddr (mem s) pt (a + i)) = m (uaddr (mem s) pt (a + i))"
        using 2 ne by (simp add: stored_def ua)
      then show ?thesis using 1 True by (simp add: stored_def nth_append)
    next
      case False
      then obtain j where "i = length bs + j" "j < length cs" using i by (metis add_diff_inverse_nat length_append nat_add_left_cancel_less)
      then show ?thesis using 2 by (simp add: stored_def ua nth_append add.assoc)
    qed
    show "m' b = mem s b" if out: "\<forall>i<length (bs @ cs). b \<noteq> uaddr (mem s) pt (a + i)" for b
    proof -
      have "\<forall>j<length cs. b \<noteq> uaddr m pt (a + length bs + j)"
        using out by (simp add: ua add.assoc)
      then have "m' b = m b" using 2 by (simp add: stored_def)
      also have "\<dots> = mem s b" using 1 out by (simp add: stored_def)
      finally show ?thesis .
    qed
  qed
qed

lemma copyout_spec:
  assumes "user_range s ps pt N (unat dstva) (length src)"
  shows "\<exists>m. copyout pt dstva src s = Ret 0 (s\<lparr>mem := m\<rparr>) \<and> stored (mem s) pt N (unat dstva) src m"
  using assms
proof (induction pt dstva src s rule: copyout.induct)
  case (1 pt dstva src s)
  show ?case
  proof (cases "src = []")
    case True
    then show ?thesis by (subst copyout.simps) (auto simp: stored_def intro: exI [of _ "mem s"])
  next
    case False
    then have pos: "0 < length src" by simp
    note W = walkaddr_user [OF "1.prems" pos]
    let ?c = "chunk dstva (length src)"
    let ?m = "put_bytes (mem s) (uaddr (mem s) pt (unat dstva)) (take ?c src)"
    let ?s = "s\<lparr>mem := ?m\<rparr>"
    have c: "?c \<le> length src" by (rule chunk_le)
    have st: "stored (mem s) pt N (unat dstva) (take ?c src) ?m"
      using c by (intro stored_chunk [OF "1.prems"]) auto
    then have ag: "agree_outside (phys (mem s) pt ` N) (mem s) ?m" by (simp add: stored_def)
    have IH: "\<exists>m'. copyout pt (PGROUNDDOWN dstva + PGSIZE) (drop ?c src) ?s = Ret 0 (?s\<lparr>mem := m'\<rparr>)
        \<and> stored ?m pt N (unat dstva + ?c) (drop ?c src) m'"
    proof (cases "?c < length src")
      case True
      have u: "unat (PGROUNDDOWN dstva + PGSIZE) = unat dstva + ?c"
        using chunk_next [OF True] user_range_bound [OF "1.prems" pos] by simp
      have "user_range ?s ps pt N (unat (PGROUNDDOWN dstva + PGSIZE)) (length (drop ?c src))"
        unfolding u using user_range_drop [OF user_range_write(1) [OF "1.prems" ag] c] by simp
      from "1.IH" [OF False refl W(1,2) refl, unfolded W(3), OF refl this] show ?thesis
        unfolding u by simp
    next
      case ge: False
      then show ?thesis by (subst copyout.simps) (auto simp: stored_def intro: exI [of _ ?m])
    qed
    then obtain m' where m': "copyout pt (PGROUNDDOWN dstva + PGSIZE) (drop ?c src) ?s = Ret 0 (s\<lparr>mem := m'\<rparr>)"
        "stored ?m pt N (unat dstva + ?c) (drop ?c src) m'" by auto
    have "stored (mem s) pt N (unat dstva) (take ?c src @ drop ?c src) m'"
      using "1.prems" c m'(2) by (intro stored_append [OF _ st]) (simp_all add: min_absorb2)
    then have "stored (mem s) pt N (unat dstva) src m'" by simp
    moreover have "copyout pt dstva src s = Ret 0 (s\<lparr>mem := m'\<rparr>)"
      using W m'(1) False by (subst copyout.simps) (simp add: Let_def)
    ultimately show ?thesis by blast
  qed
qed

lemma stored_ubytes:
  assumes R: "user_range s ps pt N a (length bs)" and st: "stored (mem s) pt N a bs m"
  shows "ubytes m pt a (length bs) = bs"
proof -
  have ag: "agree_outside (phys (mem s) pt ` N) (mem s) m" using st by (simp add: stored_def)
  have "uaddr m pt = uaddr (mem s) pt"
    by (rule ext) (simp add: uaddr_def user_range_write(2) [OF R ag])
  then show ?thesis using st by (intro nth_equalityI) (simp_all add: ubytes_def stored_def)
qed

text \<open>
  C6. Writing to user memory and reading it back is the identity: on a mapped user
  range \<open>copyout\<close> returns 0, changes exactly the bytes behind the range, across page
  boundaries, and a following \<open>copyin\<close> of the same range returns the bytes written.
\<close>

theorem copyout_copyin:
  assumes "user_range s ps pt N (unat va) (length bs)"
  shows "yields (copyout pt va bs s) (\<lambda>r t. r = 0
     \<and> (\<forall>b. (\<forall>i<length bs. b \<noteq> uaddr (mem s) pt (unat va + i)) \<longrightarrow> mem t b = mem s b)
     \<and> copyin pt va (length bs) t = Ret (0, bs) t)"
proof -
  obtain m where m: "copyout pt va bs s = Ret 0 (s\<lparr>mem := m\<rparr>)" "stored (mem s) pt N (unat va) bs m"
    using copyout_spec [OF assms] by blast
  then have "user_range (s\<lparr>mem := m\<rparr>) ps pt N (unat va) (length bs)"
    using user_range_write(1) [OF assms] by (simp add: stored_def)
  then have "copyin pt va (length bs) (s\<lparr>mem := m\<rparr>) = Ret (0, bs) (s\<lparr>mem := m\<rparr>)"
    using copyin_spec stored_ubytes [OF assms m(2)] by fastforce
  then show ?thesis using m by (simp add: stored_def)
qed

text \<open>An address that is not a mapped user page stops the copy.\<close>

lemma copyout_fault:
  assumes "vm_ok s ps pt" "src \<noteq> []" "MAXVA \<le> PGROUNDDOWN va \<or> \<not> bit (pte (mem s) pt (PGROUNDDOWN va)) 4"
  shows "copyout pt va src s = Ret (- 1) s"
  using assms(2,3) by (subst copyout.simps) (auto simp: walkaddr_eq [OF assms(1)] Let_def)

lemma get_bytes_Suc: "get_bytes m p (Suc n) = m p # get_bytes m (p + 1) n"
  unfolding get_bytes_def map_upt_Suc by (simp add: add.assoc)

lemma copy_str_found:
  "k < n \<Longrightarrow> \<forall>i<k. m (p + of_nat i) \<noteq> 0 \<Longrightarrow> m (p + of_nat k) = 0 \<Longrightarrow> copy_str m p n = (True, get_bytes m p k @ [0])"
proof (induction n arbitrary: p k)
  case (Suc n)
  show ?case
  proof (cases k)
    case 0
    then show ?thesis using Suc.prems by (simp add: get_bytes_def)
  next
    case (Suc j)
    have "\<forall>i<j. m (p + 1 + of_nat i) \<noteq> 0" "m p \<noteq> 0"
      using Suc.prems(2) Suc all_less_Suc_shift [of j "\<lambda>i. m (p + of_nat i) \<noteq> 0"] by (simp_all add: add.assoc)
    moreover have "m (p + 1 + of_nat j) = 0" using Suc.prems(3) Suc by (simp add: add.assoc)
    ultimately show ?thesis using Suc.IH [of j "p + 1"] Suc.prems(1) Suc by (simp add: get_bytes_Suc)
  qed
qed simp

lemma copy_str_none: "\<forall>i<n. m (p + of_nat i) \<noteq> 0 \<Longrightarrow> copy_str m p n = (False, get_bytes m p n)"
proof (induction n arbitrary: p)
  case (Suc n)
  have "\<forall>i<n. m (p + 1 + of_nat i) \<noteq> 0" "m p \<noteq> 0"
    using Suc.prems all_less_Suc_shift [of n "\<lambda>i. m (p + of_nat i) \<noteq> 0"] by (simp_all add: add.assoc)
  then show ?case using Suc.IH by (simp add: get_bytes_Suc)
qed (simp add: get_bytes_def)

lemma get_bytes_chunk_le:
  assumes "k \<le> chunk va n"
  shows "get_bytes m (uaddr m pt (unat va)) k = ubytes m pt (unat va) k"
  using chunk_same_page(3) [of _ va n m pt] assms by (simp add: get_bytes_def ubytes_def)

lemma copyinstr_spec:
  assumes "user_range s ps pt N (unat va) (Suc k)" "k < mx"
    "\<forall>i<k. ubyte (mem s) pt (unat va + i) \<noteq> 0" "ubyte (mem s) pt (unat va + k) = 0"
  shows "copyinstr pt va mx s = Ret (0, ubytes (mem s) pt (unat va) k @ [0]) s"
  using assms
proof (induction pt va mx s arbitrary: k rule: copyinstr.induct)
  case (1 pt va mx s)
  have mx: "mx \<noteq> 0" using "1.prems"(2) by simp
  note W = walkaddr_user [OF "1.prems"(1) zero_less_Suc]
  let ?c = "chunk va mx" and ?p = "uaddr (mem s) pt (unat va)"
  have at: "mem s (?p + of_nat i) = ubyte (mem s) pt (unat va + i)" if "i < ?c" for i
    using chunk_same_page(3) [OF that] by (simp add: ubyte_def)
  show ?case
  proof (cases "k < ?c")
    case True
    then have "copy_str (mem s) ?p ?c = (True, get_bytes (mem s) ?p k @ [0])"
      using "1.prems"(3,4) at by (intro copy_str_found) auto
    then show ?thesis
      using W mx True get_bytes_chunk_le [of k va mx "mem s" pt]
      by (subst copyinstr.simps) (simp add: Let_def)
  next
    case False
    then have cs: "copy_str (mem s) ?p ?c = (False, get_bytes (mem s) ?p ?c)"
      using "1.prems"(3) at by (intro copy_str_none) auto
    have c: "?c \<le> k" "?c < mx" using False "1.prems"(2) by auto
    have u: "unat (PGROUNDDOWN va + PGSIZE) = unat va + ?c"
      using chunk_next [OF c(2)] user_range_bound [OF "1.prems"(1), of 0] by simp
    have "copyinstr pt (PGROUNDDOWN va + PGSIZE) (mx - ?c) s =
        Ret (0, ubytes (mem s) pt (unat (PGROUNDDOWN va + PGSIZE)) (k - ?c) @ [0]) s"
    proof (rule "1.IH" [OF mx refl W(1,2) refl])
      show "user_range s ps pt N (unat (PGROUNDDOWN va + PGSIZE)) (Suc (k - ?c))"
        using user_range_drop [OF "1.prems"(1), of ?c] c(1) unfolding u by (simp add: Suc_diff_le)
    qed (use cs [symmetric] W(3) c "1.prems"(2-4) u in \<open>auto simp: add.assoc\<close>)
    moreover have "ubytes (mem s) pt (unat va) k = ubytes (mem s) pt (unat va) ?c @ ubytes (mem s) pt (unat va + ?c) (k - ?c)"
      using ubytes_append [of "mem s" pt "unat va" ?c "k - ?c"] c(1) by simp
    ultimately show ?thesis
      using W mx cs get_bytes_chunk_le [of ?c va mx "mem s" pt] u
      by (subst copyinstr.simps) (simp add: Let_def)
  qed
qed

lemma demo_user:
  obtains t :: ksys and qs where "user_range t qs demo_root {0..<1} 0 4096" "\<And>i. i < 4096 \<Longrightarrow> ubyte (mem t) demo_root i = 0"
proof -
  have p: "perm_ok (PTE_R OR PTE_U OR PTE_W)" by (simp add: perm_ok_def PTE_R_def PTE_U_def PTE_W_def PTE_V_def)
  have "yields (uvmalloc demo_root 0 0x1000 PTE_W demo_vm) (\<lambda>r t. \<exists>qs. alloc_inv demo_root 0 1
      (\<lambda>_. PTE_R OR PTE_U OR PTE_W) (\<lambda>_ _. 0) demo_vm [0x80031000, 0x80032000, 0x80033000] t qs {})"
    by (intro yields_mono [OF uvmalloc_spec [OF demo_ok(1), of 0 "0x1000" PTE_W]])
      (use p in \<open>auto simp: demo_ok(2) pgs_def TRAPFRAME_def TRAMPOLINE_def MAXVA_def\<close>)
  then obtain t qs where I: "alloc_inv demo_root 0 1 (\<lambda>_. PTE_R OR PTE_U OR PTE_W) (\<lambda>_ _. 0)
      demo_vm [0x80031000, 0x80032000, 0x80033000] t qs {}"
    by (auto elim: yieldsE)
  note D = alloc_invD [OF I]
  have b: "bit (pmap (mem t) demo_root 0) 4"
    using D(8) [of 0] by (simp add: bit_or_iff PTE_U_def npages_def bit_simps)
  have "user_range t qs demo_root {0..<1} 0 4096"
    using D(1,3) b by (auto simp: user_range_def)
  moreover have "ubyte (mem t) demo_root i = 0" if "i < 4096" for i
    using D(9) [of 0 "uaddr (mem t) demo_root i"] uaddr_in_page [of "mem t" demo_root i] that
    by (simp add: ubyte_def npages_def)
  ultimately show thesis using that by blast
qed

theorem copyout_copyin_witness:
  "\<exists>t :: ksys. yields (copyout demo_root 0 [1, 2, 3] t) (\<lambda>r u. r = 0 \<and> copyin demo_root 0 3 u = Ret (0, [1, 2, 3]) u)"
proof -
  obtain t :: ksys and qs where "user_range t qs demo_root {0..<1} 0 4096" by (rule demo_user)
  then have "user_range t qs demo_root {0..<1} 0 3" by (rule user_range_take) simp
  then have "user_range t qs demo_root {0..<1} (unat (0 :: u64)) (length [1 :: byte, 2, 3])" by (simp add: numeral_3_eq_3)
  from copyout_copyin [OF this]
  have "yields (copyout demo_root 0 [1, 2, 3] t) (\<lambda>r u. r = 0 \<and> copyin demo_root 0 3 u = Ret (0, [1, 2, 3]) u)"
    by (rule yields_mono) (simp add: numeral_3_eq_3)
  then show ?thesis by blast
qed

lemma copyinstr_full:
  assumes "user_range s ps pt N (unat va) mx" "\<forall>i<mx. ubyte (mem s) pt (unat va + i) \<noteq> 0"
  shows "copyinstr pt va mx s = Ret (- 1, ubytes (mem s) pt (unat va) mx) s"
  using assms
proof (induction pt va mx s rule: copyinstr.induct)
  case (1 pt va mx s)
  show ?case
  proof (cases "mx = 0")
    case True
    then show ?thesis by (subst copyinstr.simps) (simp add: ubytes_def)
  next
    case mx: False
    then have z: "0 < mx" by simp
    note W = walkaddr_user [OF "1.prems"(1) z]
    let ?c = "chunk va mx" and ?p = "uaddr (mem s) pt (unat va)"
    have at: "mem s (?p + of_nat i) = ubyte (mem s) pt (unat va + i)" if "i < ?c" for i
      using chunk_same_page(3) [OF that] by (simp add: ubyte_def)
    have cs: "copy_str (mem s) ?p ?c = (False, get_bytes (mem s) ?p ?c)"
      using "1.prems"(2) at chunk_le [of va mx] by (intro copy_str_none) auto
    have "copyinstr pt (PGROUNDDOWN va + PGSIZE) (mx - ?c) s =
        Ret (- 1, ubytes (mem s) pt (unat va + ?c) (mx - ?c)) s"
    proof (cases "?c < mx")
      case True
      have u: "unat (PGROUNDDOWN va + PGSIZE) = unat va + ?c"
        using chunk_next [OF True] user_range_bound [OF "1.prems"(1) z] by simp
      have "user_range s ps pt N (unat (PGROUNDDOWN va + PGSIZE)) (mx - ?c)"
        unfolding u using "1.prems"(1) chunk_le by (rule user_range_drop)
      then show ?thesis
        using "1.IH" [OF mx refl W(1,2) refl, of _ False] cs W(3) True "1.prems"(2) u by (simp add: add.assoc)
    next
      case ge: False
      then show ?thesis by (subst copyinstr.simps) (simp add: ubytes_def)
    qed
    then show ?thesis
      using W mx cs get_bytes_chunk_le [of ?c va mx "mem s" pt]
        ubytes_append [of "mem s" pt "unat va" ?c "mx - ?c"] chunk_le [of va mx]
      by (subst copyinstr.simps) (simp add: Let_def)
  qed
qed

text \<open>
  C11. \<open>copyinstr\<close> returns 0 with the user string up to and including its first zero byte
  when one occurs within the limit, and -1 after exactly the limit otherwise.
\<close>

theorem copyinstr_reads_string:
  assumes "user_range s ps pt N (unat va) n" "mx \<le> n"
  shows "(\<forall>k<mx. (\<forall>i<k. ubyte (mem s) pt (unat va + i) \<noteq> 0) \<and> ubyte (mem s) pt (unat va + k) = 0
           \<longrightarrow> copyinstr pt va mx s = Ret (0, ubytes (mem s) pt (unat va) k @ [0]) s)
     \<and> ((\<forall>i<mx. ubyte (mem s) pt (unat va + i) \<noteq> 0)
           \<longrightarrow> copyinstr pt va mx s = Ret (- 1, ubytes (mem s) pt (unat va) mx) s)"
  using assms(2) copyinstr_spec [OF user_range_take [OF assms(1)]] copyinstr_full [OF user_range_take [OF assms]]
  by auto

theorem copyinstr_reads_string_witness:
  "\<exists>t :: ksys. copyinstr demo_root 0 5 t = Ret (0, [0]) t"
proof -
  obtain t :: ksys and qs where t: "user_range t qs demo_root {0..<1} 0 4096" "\<And>i. i < 4096 \<Longrightarrow> ubyte (mem t) demo_root i = 0"
    by (rule demo_user) blast
  then have "user_range t qs demo_root {0..<1} (unat (0 :: u64)) 4096" by simp
  from copyinstr_reads_string [OF this, of 5] t(2) [of 0]
  have "copyinstr demo_root 0 5 t = Ret (0, ubytes (mem t) demo_root 0 0 @ [0]) t" by auto
  then show ?thesis by (auto simp: ubytes_def)
qed

end
