(* ===== verification/Printf.thy ===== *)
theory Printf
  imports CString
begin

text \<open>
  Formatted output: \<^verbatim>\<open>kernel/printf.c\<close> and \<^verbatim>\<open>user/printf.c\<close>. The result of a
  formatting routine is the string of characters that it hands to \<open>consputc\<close> or
  \<open>putc\<close>, in order. A conversion without a matching argument is \<open>None\<close>.
\<close>

section \<open>Integers and pointers\<close>

datatype fmtarg = ArgInt int | ArgPtr u64 | ArgStr "string option" | ArgChar char

definition kdigits :: string where "kdigits = ''0123456789abcdef''"

definition udigits :: string where "udigits = ''0123456789ABCDEF''"

text \<open>The do-while loop, least significant digit first. The callers pass base 10 or 16.\<close>

function digit_loop :: "string \<Rightarrow> u32 \<Rightarrow> u32 \<Rightarrow> string" where
  "digit_loop ds base x =
     (if 1 < base then
        ds ! unat (x mod base) # (if x div base \<noteq> 0 then digit_loop ds base (x div base) else [])
      else [])"
  by pat_completeness auto
termination
proof (relation "measure (\<lambda>(ds, base, x). unat x)")
  fix ds base x assume "1 < (base :: u32)" "x div base \<noteq> 0"
  then have "1 < unat base" "0 < unat x"
    by (auto simp: word_less_nat_alt unat_gt_0)
  then show "((ds, base, x div base), (ds, base, x)) \<in> measure (\<lambda>(ds, base, x). unat x)"
    by (simp add: unat_div)
qed simp

declare digit_loop.simps [simp del]

text \<open>The contents of \<open>buf\<close>, and the characters printed from its end.\<close>

definition printint_buf :: "string \<Rightarrow> int \<Rightarrow> u32 \<Rightarrow> bool \<Rightarrow> string" where
  "printint_buf ds xx base sign =
     (let neg = sign \<and> xx < 0;
          x = word_of_int (if neg then - xx else xx)
      in digit_loop ds base x @ (if neg then ''-'' else []))"

definition printint :: "int \<Rightarrow> u32 \<Rightarrow> bool \<Rightarrow> string" where
  "printint xx base sign = rev (printint_buf kdigits xx base sign)"

primrec printptr_loop :: "string \<Rightarrow> nat \<Rightarrow> u64 \<Rightarrow> string" where
  "printptr_loop ds 0 x = []"
| "printptr_loop ds (Suc n) x = ds ! unat (drop_bit 60 x) # printptr_loop ds n (push_bit 4 x)"

definition printptr :: "u64 \<Rightarrow> string" where
  "printptr x = ''0x'' @ printptr_loop kdigits 16 x"

section \<open>Format strings\<close>

definition or_null :: "string option \<Rightarrow> string" where
  "or_null v = (case v of None \<Rightarrow> ''(null)'' | Some t \<Rightarrow> t)"

fun kformat :: "string \<Rightarrow> fmtarg list \<Rightarrow> string option" where
  "kformat [] as = Some []"
| "kformat (c # cs) as =
     (if c \<noteq> CHR ''%'' then map_option ((#) c) (kformat cs as)
      else case cs of
             [] \<Rightarrow> Some []
           | d # ds \<Rightarrow>
               if d = CHR ''d'' then
                 (case as of ArgInt x # as \<Rightarrow> map_option ((@) (printint x 10 True)) (kformat ds as) | _ \<Rightarrow> None)
               else if d = CHR ''x'' then
                 (case as of ArgInt x # as \<Rightarrow> map_option ((@) (printint x 16 True)) (kformat ds as) | _ \<Rightarrow> None)
               else if d = CHR ''p'' then
                 (case as of ArgPtr x # as \<Rightarrow> map_option ((@) (printptr x)) (kformat ds as) | _ \<Rightarrow> None)
               else if d = CHR ''s'' then
                 (case as of ArgStr v # as \<Rightarrow> map_option ((@) (or_null v)) (kformat ds as) | _ \<Rightarrow> None)
               else if d = CHR ''%'' then map_option ((#) CHR ''%'') (kformat ds as)
               else map_option ((@) [CHR ''%'', d]) (kformat ds as))"

section \<open>The user-level printf\<close>

definition uprintint :: "int \<Rightarrow> u32 \<Rightarrow> bool \<Rightarrow> string" where
  "uprintint xx base sg = rev (printint_buf udigits xx base sg)"

definition uprintptr :: "u64 \<Rightarrow> string" where
  "uprintptr x = ''0x'' @ printptr_loop udigits 16 x"

text \<open>The flag is \<open>state == '%'\<close>.\<close>

fun vprintf :: "bool \<Rightarrow> string \<Rightarrow> fmtarg list \<Rightarrow> string option" where
  "vprintf st [] as = Some []"
| "vprintf False (c # cs) as =
     (if c = CHR ''%'' then vprintf True cs as else map_option ((#) c) (vprintf False cs as))"
| "vprintf True (c # cs) as =
     (if c = CHR ''d'' then
        (case as of ArgInt x # as \<Rightarrow> map_option ((@) (uprintint x 10 True)) (vprintf False cs as) | _ \<Rightarrow> None)
      else if c = CHR ''l'' then
        (case as of ArgPtr x # as \<Rightarrow> map_option ((@) (uprintint (sint (ucast x :: u32)) 10 False)) (vprintf False cs as) | _ \<Rightarrow> None)
      else if c = CHR ''x'' then
        (case as of ArgInt x # as \<Rightarrow> map_option ((@) (uprintint x 16 False)) (vprintf False cs as) | _ \<Rightarrow> None)
      else if c = CHR ''p'' then
        (case as of ArgPtr x # as \<Rightarrow> map_option ((@) (uprintptr x)) (vprintf False cs as) | _ \<Rightarrow> None)
      else if c = CHR ''s'' then
        (case as of ArgStr v # as \<Rightarrow> map_option ((@) (or_null v)) (vprintf False cs as) | _ \<Rightarrow> None)
      else if c = CHR ''c'' then
        (case as of ArgChar x # as \<Rightarrow> map_option ((#) x) (vprintf False cs as) | _ \<Rightarrow> None)
      else if c = CHR ''%'' then map_option ((#) c) (vprintf False cs as)
      else map_option ((@) [CHR ''%'', c]) (vprintf False cs as))"

end
