(* ===== verification/Proc.thy ===== *)
theory Proc
  imports Vm_User Printf
begin

text \<open>
  Processes, \<^verbatim>\<open>kernel/proc.c\<close>: the process table, allocation and freeing of
  its slots, sleeping and waking, \<open>wait\<close>, \<open>kill\<close> and the scheduler. A struct proc
  pointer is an index into the table. A call that switches to the scheduler ends
  with \<open>Halt Switched\<close> in the state in which the scheduler takes over; the
  code that runs when the process is switched back to is the definition with the
  suffix \<open>_resume\<close>. The operations that also use files and inodes (\<open>fork\<close>,
  \<open>exit\<close>, \<open>userinit\<close>, the thread calls) are in \<open>Life\<close>.
\<close>

section \<open>State\<close>

datatype procstate = UNUSED | USED | SLEEPING | RUNNABLE | RUNNING | ZOMBIE

text \<open>The addresses processes sleep on.\<close>

datatype chan =
    ProcChan nat | TicksChan | SleepChan slockid | LogChan | PipeReadChan u64 | PipeWriteChan u64
  | ConsChan | UartChan | BufChan nat | DescChan

record kcontext =
  ctx_ra :: u64
  ctx_sp :: u64
  ctx_s :: "u64 list"

record proc =
  p_state :: procstate
  p_chan :: "chan option"
  p_killed :: int
  p_xstate :: int
  p_pid :: int
  p_isthread :: int
  p_fid :: int
  p_parent :: "nat option"
  p_kstack :: u64
  p_sz :: u64
  p_pagetable :: u64
  p_trapframe :: u64
  p_context :: kcontext
  p_ofile :: "nat \<Rightarrow> nat option"
  p_cwd :: "nat option"
  p_name :: cptr

text \<open>Offsets of the registers in a trap frame.\<close>

definition TF_kernel_satp :: u64 where "TF_kernel_satp = 0"

definition TF_kernel_sp :: u64 where "TF_kernel_sp = 8"

definition TF_kernel_trap :: u64 where "TF_kernel_trap = 16"

definition TF_epc :: u64 where "TF_epc = 24"

definition TF_kernel_hartid :: u64 where "TF_kernel_hartid = 32"

definition TF_ra :: u64 where "TF_ra = 40"

definition TF_sp :: u64 where "TF_sp = 48"

definition TF_a :: "nat \<Rightarrow> u64" where "TF_a n = 112 + 8 * of_nat n"

definition TF_size :: nat where "TF_size = 288"

definition MAX_THREADS :: nat where "MAX_THREADS = 1024"

definition MAX_FAMILIES :: nat where "MAX_FAMILIES = 1024"

definition NOFILE :: nat where "NOFILE = 16"

text \<open>
  The globals of \<open>proc.c\<close>. \<open>klog\<close> is the list of messages that kernel code has
  printed. \<open>sym_trampoline\<close> and \<open>sym_forkret\<close> are link-time addresses.
\<close>

record psys = ksys +
  procs :: "nat \<Rightarrow> proc"
  nextpid :: int
  initproc :: "nat option"
  threads :: "nat \<Rightarrow> nat option"
  currId :: int
  currFid :: int
  families :: "nat \<Rightarrow> int"
  running :: int
  joined :: int
  klog :: "string list"
  sym_trampoline :: u64
  sym_forkret :: u64

definition upd_proc :: "nat \<Rightarrow> (proc \<Rightarrow> proc) \<Rightarrow> 'b psys_scheme \<Rightarrow> 'b psys_scheme" where
  "upd_proc p f s = s\<lparr>procs := (procs s)(p := f (procs s p))\<rparr>"

definition log_msg :: "string \<Rightarrow> 'b psys_scheme \<Rightarrow> 'b psys_scheme" where
  "log_msg m s = s\<lparr>klog := klog s @ [m]\<rparr>"

definition kprintf :: "string \<Rightarrow> fmtarg list \<Rightarrow> 'b psys_scheme \<Rightarrow> 'b psys_scheme" where
  "kprintf fmt as s = (case kformat fmt as of None \<Rightarrow> s | Some m \<Rightarrow> log_msg m s)"

text \<open>\<open>myproc\<close> where the caller goes on to use the pointer.\<close>

definition this_proc :: "'b psys_scheme \<Rightarrow> (nat, 'b psys_scheme) res" where
  "this_proc s = andthen (myproc s) (\<lambda>p s.
     case p of None \<Rightarrow> Halt (Fault ''myproc'') s | Some p \<Rightarrow> Ret p s)"

section \<open>Allocating and freeing processes\<close>

primrec procinit_from :: "nat list \<Rightarrow> 'b psys_scheme \<Rightarrow> 'b psys_scheme" where
  "procinit_from [] s = s"
| "procinit_from (p # ps) s =
     procinit_from ps (upd_proc p (\<lambda>r. r\<lparr>p_state := UNUSED, p_kstack := KSTACK p\<rparr>)
       (initlock (ProcLock p) ''proc'' s))"

definition procinit :: "'b psys_scheme \<Rightarrow> 'b psys_scheme" where
  "procinit s = procinit_from [0..<NPROC] (initlock WaitLock ''wait_lock'' (initlock PidLock ''nextpid'' s))"

definition allocpid :: "'b psys_scheme \<Rightarrow> (int, 'b psys_scheme) res" where
  "allocpid s = andthen (acquire PidLock s) (\<lambda>_ s.
     let pid = nextpid s; s = s\<lparr>nextpid := nextpid s + 1\<rparr>
     in andthen (release PidLock s) (\<lambda>_ s. Ret pid s))"

definition proc_pagetable :: "nat \<Rightarrow> 'b psys_scheme \<Rightarrow> (u64, 'b psys_scheme) res" where
  "proc_pagetable p s = andthen (uvmcreate s) (\<lambda>pt s.
     if pt = 0 then Ret 0 s
     else andthen (mappages pt TRAMPOLINE PGSIZE (sym_trampoline s) (PTE_R OR PTE_X) s) (\<lambda>r s.
       if r < 0 then andthen (uvmfree pt 0 s) (\<lambda>_ s. Ret 0 s)
       else andthen (mappages pt TRAPFRAME PGSIZE (p_trapframe (procs s p)) (PTE_R OR PTE_W) s) (\<lambda>r s.
         if r < 0 then andthen (uvmunmap pt TRAMPOLINE 1 False s) (\<lambda>_ s.
           andthen (uvmfree pt 0 s) (\<lambda>_ s. Ret 0 s))
         else Ret pt s)))"

definition proc_freepagetable :: "u64 \<Rightarrow> u64 \<Rightarrow> 'b psys_scheme \<Rightarrow> (unit, 'b psys_scheme) res" where
  "proc_freepagetable pt sz s =
     andthen (uvmunmap pt TRAMPOLINE 1 False s) (\<lambda>_ s.
     andthen (uvmunmap pt TRAPFRAME 1 False s) (\<lambda>_ s.
     uvmfree pt sz s))"

definition freeproc :: "nat \<Rightarrow> 'b psys_scheme \<Rightarrow> (unit, 'b psys_scheme) res" where
  "freeproc p s =
     andthen (if p_trapframe (procs s p) \<noteq> 0 then kfree (p_trapframe (procs s p)) s else Ret () s) (\<lambda>_ s.
     let s = upd_proc p (\<lambda>r. r\<lparr>p_trapframe := 0\<rparr>) s; r = procs s p
     in andthen (if p_pagetable r \<noteq> 0 \<and> p_isthread r = 0 then proc_freepagetable (p_pagetable r) (p_sz r) s
                 else Ret () s) (\<lambda>_ s.
        Ret () (upd_proc p (\<lambda>r. r\<lparr>p_pagetable := 0, p_sz := 0, p_pid := 0, p_parent := None,
                  p_name := (p_name r)(0 := 0), p_chan := None, p_killed := 0, p_xstate := 0,
                  p_state := UNUSED\<rparr>) s)))"

primrec allocproc_scan :: "nat list \<Rightarrow> 'b psys_scheme \<Rightarrow> (nat option, 'b psys_scheme) res" where
  "allocproc_scan [] s = Ret None s"
| "allocproc_scan (p # ps) s = andthen (acquire (ProcLock p) s) (\<lambda>_ s.
     if p_state (procs s p) = UNUSED then Ret (Some p) s
     else andthen (release (ProcLock p) s) (\<lambda>_ s. allocproc_scan ps s))"

definition allocproc_found :: "nat \<Rightarrow> 'b psys_scheme \<Rightarrow> (nat option, 'b psys_scheme) res" where
  "allocproc_found p s = andthen (allocpid s) (\<lambda>pid s.
     let s = upd_proc p (\<lambda>r. r\<lparr>p_pid := pid, p_state := USED\<rparr>) s
     in andthen (kalloc s) (\<lambda>tf s.
       let s = upd_proc p (\<lambda>r. r\<lparr>p_trapframe := tf\<rparr>) s
       in if tf = 0 then andthen (freeproc p s) (\<lambda>_ s. andthen (release (ProcLock p) s) (\<lambda>_ s. Ret None s))
          else andthen (proc_pagetable p s) (\<lambda>pt s.
            let s = upd_proc p (\<lambda>r. r\<lparr>p_pagetable := pt\<rparr>) s
            in if pt = 0 then andthen (freeproc p s) (\<lambda>_ s. andthen (release (ProcLock p) s) (\<lambda>_ s. Ret None s))
               else Ret (Some p) (upd_proc p (\<lambda>r. r\<lparr>p_context :=
                      \<lparr>ctx_ra = sym_forkret s, ctx_sp = p_kstack r + PGSIZE, ctx_s = replicate 12 0\<rparr>\<rparr>) s))))"

definition allocproc :: "'b psys_scheme \<Rightarrow> (nat option, 'b psys_scheme) res" where
  "allocproc s = andthen (allocproc_scan [0..<NPROC] s) (\<lambda>r s.
     case r of None \<Rightarrow> Ret None s | Some p \<Rightarrow> allocproc_found p s)"

section \<open>Memory size\<close>

definition growarg :: "int \<Rightarrow> nat \<Rightarrow> 'b psys_scheme \<Rightarrow> (int, 'b psys_scheme) res" where
  "growarg n p s =
     (let sz = p_sz (procs s p); pt = p_pagetable (procs s p)
      in if 0 < n then andthen (uvmalloc pt sz (sz + of_int n) PTE_W s) (\<lambda>sz s.
             if sz = 0 then Ret (- 1) s else Ret 0 (upd_proc p (\<lambda>r. r\<lparr>p_sz := sz\<rparr>) s))
         else if n < 0 then andthen (uvmdealloc pt sz (sz + of_int n) s) (\<lambda>sz s.
             Ret 0 (upd_proc p (\<lambda>r. r\<lparr>p_sz := sz\<rparr>) s))
         else Ret 0 (upd_proc p (\<lambda>r. r\<lparr>p_sz := sz\<rparr>) s))"

definition growproc :: "int \<Rightarrow> 'b psys_scheme \<Rightarrow> (int, 'b psys_scheme) res" where
  "growproc n s = andthen (this_proc s) (\<lambda>p s. growarg n p s)"

primrec mygrow_from :: "int \<Rightarrow> nat list \<Rightarrow> 'b psys_scheme \<Rightarrow> (int, 'b psys_scheme) res" where
  "mygrow_from n [] s = Ret 0 s"
| "mygrow_from n (i # is) s =
     (case (if i < MAX_THREADS then threads s i else None) of
        None \<Rightarrow> Halt (Fault ''threads'') s
      | Some t \<Rightarrow> andthen (this_proc s) (\<lambda>p s.
          if p_fid (procs s t) = p_fid (procs s p) then andthen (growarg n t s) (\<lambda>_ s. mygrow_from n is s)
          else mygrow_from n is s))"

definition mygrow :: "int \<Rightarrow> 'b psys_scheme \<Rightarrow> (int, 'b psys_scheme) res" where
  "mygrow n s = mygrow_from n [0..<nat (currId s)] s"

section \<open>Switching, sleeping and waking\<close>

text \<open>The part of \<open>sched\<close> before the switch; it returns the saved \<open>intena\<close>.\<close>

definition sched_enter :: "'b psys_scheme \<Rightarrow> (bool, 'b psys_scheme) res" where
  "sched_enter s = andthen (this_proc s) (\<lambda>p s.
     if \<not> holding (ProcLock p) s then Halt (Panic ''sched p->lock'') s
     else if c_noff (mycpu (hw s)) \<noteq> 1 then Halt (Panic ''sched locks'') s
     else if p_state (procs s p) = RUNNING then Halt (Panic ''sched running'') s
     else if intr_get (hw s) then Halt (Panic ''sched interruptible'') s
     else Ret (c_intena (mycpu (hw s))) s)"

definition sched_resume :: "bool \<Rightarrow> 'b psys_scheme \<Rightarrow> 'b psys_scheme" where
  "sched_resume intena s = s\<lparr>hw := upd_mycpu (\<lambda>c. c\<lparr>c_intena := intena\<rparr>) (hw s)\<rparr>"

definition sched :: "'b psys_scheme \<Rightarrow> ('a, 'b psys_scheme) res" where
  "sched s = andthen (sched_enter s) (\<lambda>_ s. Halt Switched s)"

definition yield_enter :: "'b psys_scheme \<Rightarrow> (bool, 'b psys_scheme) res" where
  "yield_enter s = andthen (this_proc s) (\<lambda>p s.
     andthen (acquire (ProcLock p) s) (\<lambda>_ s.
     sched_enter (upd_proc p (\<lambda>r. r\<lparr>p_state := RUNNABLE\<rparr>) s)))"

definition yield_resume :: "bool \<Rightarrow> nat \<Rightarrow> 'b psys_scheme \<Rightarrow> (unit, 'b psys_scheme) res" where
  "yield_resume intena p s = release (ProcLock p) (sched_resume intena s)"

definition yield :: "'b psys_scheme \<Rightarrow> (unit, 'b psys_scheme) res" where
  "yield s = andthen (yield_enter s) (\<lambda>_ s. Halt Switched s)"

definition sleep_enter :: "chan option \<Rightarrow> lockid \<Rightarrow> 'b psys_scheme \<Rightarrow> (bool, 'b psys_scheme) res" where
  "sleep_enter chan lk s = andthen (this_proc s) (\<lambda>p s.
     andthen (acquire (ProcLock p) s) (\<lambda>_ s.
     andthen (release lk s) (\<lambda>_ s.
     sched_enter (upd_proc p (\<lambda>r. r\<lparr>p_chan := chan, p_state := SLEEPING\<rparr>) s))))"

definition sleep_resume :: "bool \<Rightarrow> nat \<Rightarrow> lockid \<Rightarrow> 'b psys_scheme \<Rightarrow> (unit, 'b psys_scheme) res" where
  "sleep_resume intena p lk s =
     andthen (release (ProcLock p) (upd_proc p (\<lambda>r. r\<lparr>p_chan := None\<rparr>) (sched_resume intena s))) (\<lambda>_ s.
     acquire lk s)"

definition sleep :: "chan option \<Rightarrow> lockid \<Rightarrow> 'b psys_scheme \<Rightarrow> ('a, 'b psys_scheme) res" where
  "sleep chan lk s = andthen (sleep_enter chan lk s) (\<lambda>_ s. Halt Asleep s)"

primrec wakeup_from :: "chan option \<Rightarrow> nat list \<Rightarrow> 'b psys_scheme \<Rightarrow> (unit, 'b psys_scheme) res" where
  "wakeup_from chan [] s = Ret () s"
| "wakeup_from chan (p # ps) s = andthen (myproc s) (\<lambda>me s.
     if Some p \<noteq> me then
       andthen (acquire (ProcLock p) s) (\<lambda>_ s.
       let s = (if p_state (procs s p) = SLEEPING \<and> p_chan (procs s p) = chan
                then upd_proc p (\<lambda>r. r\<lparr>p_state := RUNNABLE\<rparr>) s else s)
       in andthen (release (ProcLock p) s) (\<lambda>_ s. wakeup_from chan ps s))
     else wakeup_from chan ps s)"

definition wakeup :: "chan option \<Rightarrow> 'b psys_scheme \<Rightarrow> (unit, 'b psys_scheme) res" where
  "wakeup chan s = wakeup_from chan [0..<NPROC] s"

primrec kill_from :: "int \<Rightarrow> nat list \<Rightarrow> 'b psys_scheme \<Rightarrow> (int, 'b psys_scheme) res" where
  "kill_from pid [] s = Ret (- 1) s"
| "kill_from pid (p # ps) s = andthen (acquire (ProcLock p) s) (\<lambda>_ s.
     if p_pid (procs s p) = pid then
       let s = upd_proc p (\<lambda>r. r\<lparr>p_killed := 1\<rparr>) s;
           s = (if p_state (procs s p) = SLEEPING then upd_proc p (\<lambda>r. r\<lparr>p_state := RUNNABLE\<rparr>) s else s)
       in andthen (release (ProcLock p) s) (\<lambda>_ s. Ret 0 s)
     else andthen (release (ProcLock p) s) (\<lambda>_ s. kill_from pid ps s))"

definition kill :: "int \<Rightarrow> 'b psys_scheme \<Rightarrow> (int, 'b psys_scheme) res" where
  "kill pid s = kill_from pid [0..<NPROC] s"

definition setkilled :: "nat \<Rightarrow> 'b psys_scheme \<Rightarrow> (unit, 'b psys_scheme) res" where
  "setkilled p s = andthen (acquire (ProcLock p) s) (\<lambda>_ s.
     release (ProcLock p) (upd_proc p (\<lambda>r. r\<lparr>p_killed := 1\<rparr>) s))"

definition killed :: "nat \<Rightarrow> 'b psys_scheme \<Rightarrow> (int, 'b psys_scheme) res" where
  "killed p s = andthen (acquire (ProcLock p) s) (\<lambda>_ s.
     let k = p_killed (procs s p) in andthen (release (ProcLock p) s) (\<lambda>_ s. Ret k s))"

section \<open>Parents and children\<close>

primrec reparent_from :: "nat \<Rightarrow> nat list \<Rightarrow> 'b psys_scheme \<Rightarrow> (unit, 'b psys_scheme) res" where
  "reparent_from p [] s = Ret () s"
| "reparent_from p (pp # pps) s =
     (if p_parent (procs s pp) = Some p then
        let s = upd_proc pp (\<lambda>r. r\<lparr>p_parent := initproc s\<rparr>) s
        in andthen (wakeup (map_option ProcChan (initproc s)) s) (\<lambda>_ s. reparent_from p pps s)
      else reparent_from p pps s)"

definition reparent :: "nat \<Rightarrow> 'b psys_scheme \<Rightarrow> (unit, 'b psys_scheme) res" where
  "reparent p s = reparent_from p [0..<NPROC] s"

text \<open>The bytes of a C int in memory.\<close>

definition int_bytes :: "int \<Rightarrow> byte list" where
  "int_bytes x = map (\<lambda>i. ucast (drop_bit (8 * i) (word_of_int x :: u32))) [0..<4]"

text \<open>The scan of the table by \<open>wait\<close>: a value to return, or whether a child was seen.\<close>

datatype waitscan = Reaped int | Pending bool

primrec wait_scan :: "nat \<Rightarrow> u64 \<Rightarrow> nat list \<Rightarrow> bool \<Rightarrow> 'b psys_scheme \<Rightarrow> (waitscan, 'b psys_scheme) res" where
  "wait_scan p addr [] havekids s = Ret (Pending havekids) s"
| "wait_scan p addr (pp # pps) havekids s =
     (if p_parent (procs s pp) = Some p then
        andthen (acquire (ProcLock pp) s) (\<lambda>_ s.
        if p_state (procs s pp) = ZOMBIE then
          let pid = p_pid (procs s pp)
          in andthen (if addr \<noteq> 0 then copyout (p_pagetable (procs s p)) addr (int_bytes (p_xstate (procs s pp))) s
                      else Ret 0 s) (\<lambda>r s.
             if addr \<noteq> 0 \<and> r < 0 then
               andthen (release (ProcLock pp) s) (\<lambda>_ s. andthen (release WaitLock s) (\<lambda>_ s. Ret (Reaped (- 1)) s))
             else andthen (freeproc pp s) (\<lambda>_ s. andthen (release (ProcLock pp) s) (\<lambda>_ s.
               andthen (release WaitLock s) (\<lambda>_ s. Ret (Reaped pid) s))))
        else andthen (release (ProcLock pp) s) (\<lambda>_ s. wait_scan p addr pps True s))
      else wait_scan p addr pps havekids s)"

text \<open>One pass of the loop of \<open>wait\<close>, entered with \<open>wait_lock\<close> held.\<close>

definition wait_pass :: "nat \<Rightarrow> u64 \<Rightarrow> 'b psys_scheme \<Rightarrow> (int, 'b psys_scheme) res" where
  "wait_pass p addr s = andthen (wait_scan p addr [0..<NPROC] False s) (\<lambda>r s.
     case r of
       Reaped pid \<Rightarrow> Ret pid s
     | Pending havekids \<Rightarrow>
         andthen (if havekids then killed p s else Ret 1 s) (\<lambda>k s.
         if k \<noteq> 0 then andthen (release WaitLock s) (\<lambda>_ s. Ret (- 1) s)
         else sleep (Some (ProcChan p)) WaitLock s))"

definition wait :: "u64 \<Rightarrow> 'b psys_scheme \<Rightarrow> (int, 'b psys_scheme) res" where
  "wait addr s = andthen (this_proc s) (\<lambda>p s. andthen (acquire WaitLock s) (\<lambda>_ s. wait_pass p addr s))"

section \<open>The scheduler\<close>

text \<open>
  A round over the process table. \<open>run\<close> is what happens between the switch to
  process \<open>p\<close> and the switch back.
\<close>

primrec scheduler_round ::
    "(nat \<Rightarrow> 'b psys_scheme \<Rightarrow> (unit, 'b psys_scheme) res) \<Rightarrow> nat list \<Rightarrow> 'b psys_scheme \<Rightarrow> (unit, 'b psys_scheme) res" where
  "scheduler_round run [] s = Ret () s"
| "scheduler_round run (p # ps) s = andthen (acquire (ProcLock p) s) (\<lambda>_ s.
     andthen (if p_state (procs s p) = RUNNABLE then
                let s = upd_proc p (\<lambda>r. r\<lparr>p_state := RUNNING\<rparr>) s;
                    s = s\<lparr>hw := upd_mycpu (\<lambda>c. c\<lparr>c_proc := Some p\<rparr>) (hw s)\<rparr>
                in andthen (run p s) (\<lambda>_ s. Ret () (s\<lparr>hw := upd_mycpu (\<lambda>c. c\<lparr>c_proc := None\<rparr>) (hw s)\<rparr>))
              else Ret () s) (\<lambda>_ s.
     andthen (release (ProcLock p) s) (\<lambda>_ s. scheduler_round run ps s)))"

definition scheduler_pass ::
    "(nat \<Rightarrow> 'b psys_scheme \<Rightarrow> (unit, 'b psys_scheme) res) \<Rightarrow> 'b psys_scheme \<Rightarrow> (unit, 'b psys_scheme) res" where
  "scheduler_pass run s = scheduler_round run [0..<NPROC] (s\<lparr>hw := intr_on (hw s)\<rparr>)"

section \<open>Copying to and from a user or kernel address\<close>

text \<open>
  The kernel passes either a user address, the address of a page of its own, or a
  local buffer. A local destination is the byte list the caller goes on with.
\<close>

datatype dest = UserDst u64 | PageDst u64 | LocalDst

datatype source = UserSrc u64 | PageSrc u64 | LocalSrc "byte list"

definition either_copyout :: "dest \<Rightarrow> byte list \<Rightarrow> 'b psys_scheme \<Rightarrow> (int, 'b psys_scheme) res" where
  "either_copyout dst src s = andthen (this_proc s) (\<lambda>p s.
     case dst of
       UserDst a \<Rightarrow> copyout (p_pagetable (procs s p)) a src s
     | PageDst a \<Rightarrow> Ret 0 (s\<lparr>mem := put_bytes (mem s) a src\<rparr>)
     | LocalDst \<Rightarrow> Ret 0 s)"

definition either_copyin :: "source \<Rightarrow> nat \<Rightarrow> 'b psys_scheme \<Rightarrow> (int \<times> byte list, 'b psys_scheme) res" where
  "either_copyin src len s = andthen (this_proc s) (\<lambda>p s.
     case src of
       UserSrc a \<Rightarrow> copyin (p_pagetable (procs s p)) a len s
     | PageSrc a \<Rightarrow> Ret (0, get_bytes (mem s) a len) s
     | LocalSrc bs \<Rightarrow> Ret (0, take len bs) s)"

section \<open>Listing\<close>

definition state_name :: "procstate \<Rightarrow> string" where
  "state_name st = (case st of UNUSED \<Rightarrow> ''unused'' | USED \<Rightarrow> ''used'' | SLEEPING \<Rightarrow> ''sleep ''
     | RUNNABLE \<Rightarrow> ''runble'' | RUNNING \<Rightarrow> ''run   '' | ZOMBIE \<Rightarrow> ''zombie'')"

text \<open>The string in a process name.\<close>

definition name_string :: "cptr \<Rightarrow> string" where
  "name_string t = map (\<lambda>i. char_of (unat (t i))) (takeWhile (\<lambda>i. t i \<noteq> 0) [0..<16])"

primrec procdump_from :: "nat list \<Rightarrow> 'b psys_scheme \<Rightarrow> 'b psys_scheme" where
  "procdump_from [] s = s"
| "procdump_from (p # ps) s =
     procdump_from ps
       (if p_state (procs s p) = UNUSED then s
        else log_msg ''\<newline>'' (kprintf ''%d %s %s''
               [ArgInt (p_pid (procs s p)), ArgStr (Some (state_name (p_state (procs s p)))),
                ArgStr (Some (name_string (p_name (procs s p))))] s))"

definition procdump :: "'b psys_scheme \<Rightarrow> 'b psys_scheme" where
  "procdump s = procdump_from [0..<NPROC] (log_msg ''\<newline>'' s)"

section \<open>What the process operations change\<close>

text \<open>A state that differs in the hardware and the process table only.\<close>

definition wframe :: "'b psys_scheme \<Rightarrow> 'b psys_scheme \<Rightarrow> bool" where
  "wframe s t \<longleftrightarrow> (\<exists>h q. t = s\<lparr>hw := h, procs := q\<rparr>)"

lemma wframeI: "t = s\<lparr>hw := h, procs := q\<rparr> \<Longrightarrow> wframe s t"
  unfolding wframe_def by blast

lemma wframe_refl [simp]: "wframe s s"
  by (rule wframeI [where h = "hw s" and q = "procs s"]) simp

lemma wframe_trans: "wframe s t \<Longrightarrow> wframe t u \<Longrightarrow> wframe s u"
proof -
  assume "wframe s t" "wframe t u"
  then obtain h q h' q' where "t = s\<lparr>hw := h, procs := q\<rparr>" "u = t\<lparr>hw := h', procs := q'\<rparr>"
    unfolding wframe_def by blast
  then show "wframe s u" by (intro wframeI [where h = h' and q = q']) simp
qed

lemma wframe_hw: "wframe s (s\<lparr>hw := h\<rparr>)"
  by (rule wframeI [where h = h and q = "procs s"]) simp

lemma wframe_upd_proc: "wframe s (upd_proc p f s)"
  by (rule wframeI [where h = "hw s" and q = "(procs s)(p := f (procs s p))"]) (simp add: upd_proc_def)

lemma wframe_acquire: "acquire l s = Ret a t \<Longrightarrow> wframe s t"
  by (cases "acquire_m l (hw s)") (auto simp: acquire_def wframe_hw)

lemma wframe_release: "release l s = Ret a t \<Longrightarrow> wframe s t"
  by (cases "release_m l (hw s)") (auto simp: release_def wframe_hw)

lemma wframe_myproc: "myproc s = Ret a t \<Longrightarrow> wframe s t"
  by (cases "myproc_m (hw s)") (auto simp: myproc_def wframe_hw)

lemma wakeup_from_Ret: "wakeup_from c ps s = Ret a t \<Longrightarrow> wframe s t"
proof (induction ps arbitrary: s)
  case (Cons p ps)
  obtain me u where u: "myproc s = Ret me u" using Cons.prems by (cases "myproc s") auto
  show ?case
  proof (cases "Some p = me")
    case True
    then show ?thesis using Cons u by (auto intro: wframe_trans [OF wframe_myproc])
  next
    case False
    then obtain v where v: "acquire (ProcLock p) u = Ret () v"
      using Cons.prems u by (cases "acquire (ProcLock p) u") auto
    define w where "w = (if p_state (procs v p) = SLEEPING \<and> p_chan (procs v p) = c
                then upd_proc p (\<lambda>r. r\<lparr>p_state := RUNNABLE\<rparr>) v else v)"
    have w: "wframe v w" by (simp add: w_def wframe_upd_proc)
    obtain x where x: "release (ProcLock p) w = Ret () x" "wakeup_from c ps x = Ret a t"
      using Cons.prems u v False by (cases "release (ProcLock p) w") (auto simp: w_def Let_def)
    show ?thesis
      using Cons.IH [OF x(2)] wframe_myproc [OF u] wframe_acquire [OF v] w wframe_release [OF x(1)]
      by (meson wframe_trans)
  qed
qed simp

lemma wakeup_Ret: "wakeup c s = Ret a t \<Longrightarrow> wframe s t"
  by (simp add: wakeup_def wakeup_from_Ret)

end
