(* ===== verification/Sleeplock.thy ===== *)
theory Sleeplock
  imports Proc
begin

text \<open>
  Sleep locks, \<^verbatim>\<open>kernel/sleeplock.c\<close>. A sleep lock is the record \<open>sleeplock\<close> and
  the spin lock \<open>SleepInner\<close> that protects it. A call of \<open>acquiresleep\<close> on a held lock
  puts the process to sleep (\<open>Halt Asleep\<close>); when it is woken it runs
  \<open>acquiresleep_try\<close> again.
\<close>

record sleeplock =
  sl_locked :: bool
  sl_name :: string
  sl_pid :: int

record ssys = psys +
  slocks :: "slockid \<Rightarrow> sleeplock"

definition upd_slock :: "slockid \<Rightarrow> (sleeplock \<Rightarrow> sleeplock) \<Rightarrow> 'b ssys_scheme \<Rightarrow> 'b ssys_scheme" where
  "upd_slock l f s = s\<lparr>slocks := (slocks s)(l := f (slocks s l))\<rparr>"

definition initsleeplock :: "slockid \<Rightarrow> string \<Rightarrow> 'b ssys_scheme \<Rightarrow> 'b ssys_scheme" where
  "initsleeplock l name s =
     upd_slock l (\<lambda>k. k\<lparr>sl_name := name, sl_locked := False, sl_pid := 0\<rparr>) (initlock (SleepInner l) ''sleep lock'' s)"

text \<open>The body of \<open>acquiresleep\<close> with the inner lock held, one test of the loop.\<close>

definition acquiresleep_try :: "slockid \<Rightarrow> 'b ssys_scheme \<Rightarrow> (unit, 'b ssys_scheme) res" where
  "acquiresleep_try l s =
     (if sl_locked (slocks s l) then sleep (Some (SleepChan l)) (SleepInner l) s
      else let s = upd_slock l (\<lambda>k. k\<lparr>sl_locked := True\<rparr>) s
           in andthen (this_proc s) (\<lambda>p s.
              release (SleepInner l) (upd_slock l (\<lambda>k. k\<lparr>sl_pid := p_pid (procs s p)\<rparr>) s)))"

definition acquiresleep :: "slockid \<Rightarrow> 'b ssys_scheme \<Rightarrow> (unit, 'b ssys_scheme) res" where
  "acquiresleep l s = andthen (acquire (SleepInner l) s) (\<lambda>_ s. acquiresleep_try l s)"

definition releasesleep :: "slockid \<Rightarrow> 'b ssys_scheme \<Rightarrow> (unit, 'b ssys_scheme) res" where
  "releasesleep l s = andthen (acquire (SleepInner l) s) (\<lambda>_ s.
     andthen (wakeup (Some (SleepChan l)) (upd_slock l (\<lambda>k. k\<lparr>sl_locked := False, sl_pid := 0\<rparr>) s)) (\<lambda>_ s.
     release (SleepInner l) s))"

definition holdingsleep :: "slockid \<Rightarrow> 'b ssys_scheme \<Rightarrow> (bool, 'b ssys_scheme) res" where
  "holdingsleep l s = andthen (acquire (SleepInner l) s) (\<lambda>_ s.
     andthen (if sl_locked (slocks s l)
              then andthen (this_proc s) (\<lambda>p s. Ret (sl_pid (slocks s l) = p_pid (procs s p)) s)
              else Ret False s) (\<lambda>r s.
     andthen (release (SleepInner l) s) (\<lambda>_ s. Ret r s)))"

end
