(* ===== verification/Bio.thy ===== *)
theory Bio
  imports Sleeplock
begin

text \<open>
  The buffer cache, \<^verbatim>\<open>kernel/bio.c\<close>. Buffers are indices below \<open>NBUF\<close>; the index
  \<open>NBUF\<close> is the list head \<open>bcache.head\<close>, and \<open>b_prev\<close> and \<open>b_next\<close> are the links of the
  LRU list. A block is the function from offsets below \<open>BSIZE\<close> to bytes. The
  disk is a function from block numbers to blocks, and \<open>dwrites\<close> is the history of
  completed block writes, latest first, from which the crash states are
  built. \<open>disk_rw\<close> is what \<open>virtio_disk_rw\<close> does for its caller; the driver
  itself, and the proof that it does this, are in \<open>Virtio\<close>.
\<close>

section \<open>Blocks\<close>

definition BSIZE :: nat where "BSIZE = 1024"

definition MAXOPBLOCKS :: nat where "MAXOPBLOCKS = 10"

definition NBUF :: nat where "NBUF = MAXOPBLOCKS * 3"

type_synonym block = "nat \<Rightarrow> byte"

text \<open>Little-endian fields of a block.\<close>

definition get16 :: "block \<Rightarrow> nat \<Rightarrow> u16" where
  "get16 d i = ucast (d i) OR push_bit 8 (ucast (d (i + 1)))"

definition put16 :: "nat \<Rightarrow> u16 \<Rightarrow> block \<Rightarrow> block" where
  "put16 i v d = d(i := ucast v, i + 1 := ucast (drop_bit 8 v))"

definition get32 :: "block \<Rightarrow> nat \<Rightarrow> u32" where
  "get32 d i = ucast (get16 d i) OR push_bit 16 (ucast (get16 d (i + 2)))"

definition put32 :: "nat \<Rightarrow> u32 \<Rightarrow> block \<Rightarrow> block" where
  "put32 i v d = put16 (i + 2) (ucast (drop_bit 16 v)) (put16 i (ucast v) d)"

definition put_list :: "nat \<Rightarrow> byte list \<Rightarrow> block \<Rightarrow> block" where
  "put_list i bs d = (\<lambda>j. if i \<le> j \<and> j < i + length bs then bs ! (j - i) else d j)"

definition get_list :: "block \<Rightarrow> nat \<Rightarrow> nat \<Rightarrow> byte list" where
  "get_list d i n = map (\<lambda>j. d (i + j)) [0..<n]"

section \<open>State and operations\<close>

record buf =
  b_valid :: bool
  b_disk :: bool
  b_dev :: u32
  b_blockno :: u32
  b_refcnt :: u32
  b_prev :: nat
  b_next :: nat
  b_data :: block

record dsys = ssys +
  bufs :: "nat \<Rightarrow> buf"
  disk :: "u32 \<Rightarrow> block"
  dwrites :: "(u32 \<times> block) list"

abbreviation bhead :: nat where "bhead \<equiv> NBUF"

definition upd_buf :: "nat \<Rightarrow> (buf \<Rightarrow> buf) \<Rightarrow> 'b dsys_scheme \<Rightarrow> 'b dsys_scheme" where
  "upd_buf b f s = s\<lparr>bufs := (bufs s)(b := f (bufs s b))\<rparr>"

definition disk_rw :: "nat \<Rightarrow> bool \<Rightarrow> 'b dsys_scheme \<Rightarrow> 'b dsys_scheme" where
  "disk_rw b write s =
     (let n = b_blockno (bufs s b); d = b_data (bufs s b)
      in if write then s\<lparr>disk := (disk s)(n := d), dwrites := (n, d) # dwrites s\<rparr>
         else upd_buf b (\<lambda>r. r\<lparr>b_data := disk s n\<rparr>) s)"

text \<open>Insertion of \<open>b\<close> at the front of the list.\<close>

definition link_front :: "nat \<Rightarrow> 'b dsys_scheme \<Rightarrow> 'b dsys_scheme" where
  "link_front b s =
     (let s = upd_buf b (\<lambda>r. r\<lparr>b_next := b_next (bufs s bhead)\<rparr>) s;
          s = upd_buf b (\<lambda>r. r\<lparr>b_prev := bhead\<rparr>) s;
          s = upd_buf (b_next (bufs s bhead)) (\<lambda>r. r\<lparr>b_prev := b\<rparr>) s
      in upd_buf bhead (\<lambda>r. r\<lparr>b_next := b\<rparr>) s)"

definition unlink_buf :: "nat \<Rightarrow> 'b dsys_scheme \<Rightarrow> 'b dsys_scheme" where
  "unlink_buf b s =
     (let s = upd_buf (b_next (bufs s b)) (\<lambda>r. r\<lparr>b_prev := b_prev (bufs s b)\<rparr>) s
      in upd_buf (b_prev (bufs s b)) (\<lambda>r. r\<lparr>b_next := b_next (bufs s b)\<rparr>) s)"

primrec binit_from :: "nat list \<Rightarrow> 'b dsys_scheme \<Rightarrow> 'b dsys_scheme" where
  "binit_from [] s = s"
| "binit_from (b # bs) s = binit_from bs (link_front b (initsleeplock (BufLock b) ''buffer'' s))"

definition binit :: "'b dsys_scheme \<Rightarrow> 'b dsys_scheme" where
  "binit s = binit_from [0..<NBUF]
     (upd_buf bhead (\<lambda>r. r\<lparr>b_prev := bhead, b_next := bhead\<rparr>) (initlock BcacheLock ''bcache'' s))"

text \<open>
  The two searches of \<open>bget\<close>, along \<open>next\<close> and along \<open>prev\<close>. The list has \<open>NBUF\<close>
  elements, which bounds the walk.
\<close>

primrec scan_next :: "nat \<Rightarrow> (buf \<Rightarrow> bool) \<Rightarrow> nat \<Rightarrow> 'b dsys_scheme \<Rightarrow> (nat option, 'b dsys_scheme) res" where
  "scan_next 0 P b s = (if b = bhead then Ret None s else Halt OutOfFuel s)"
| "scan_next (Suc n) P b s =
     (if b = bhead then Ret None s
      else if P (bufs s b) then Ret (Some b) s
      else scan_next n P (b_next (bufs s b)) s)"

primrec scan_prev :: "nat \<Rightarrow> (buf \<Rightarrow> bool) \<Rightarrow> nat \<Rightarrow> 'b dsys_scheme \<Rightarrow> (nat option, 'b dsys_scheme) res" where
  "scan_prev 0 P b s = (if b = bhead then Ret None s else Halt OutOfFuel s)"
| "scan_prev (Suc n) P b s =
     (if b = bhead then Ret None s
      else if P (bufs s b) then Ret (Some b) s
      else scan_prev n P (b_prev (bufs s b)) s)"

definition bget :: "u32 \<Rightarrow> u32 \<Rightarrow> 'b dsys_scheme \<Rightarrow> (nat, 'b dsys_scheme) res" where
  "bget dev blockno s = andthen (acquire BcacheLock s) (\<lambda>_ s.
     andthen (scan_next NBUF (\<lambda>r. b_dev r = dev \<and> b_blockno r = blockno) (b_next (bufs s bhead)) s) (\<lambda>c s.
     case c of
       Some b \<Rightarrow>
         let s = upd_buf b (\<lambda>r. r\<lparr>b_refcnt := b_refcnt r + 1\<rparr>) s
         in andthen (release BcacheLock s) (\<lambda>_ s. andthen (acquiresleep (BufLock b) s) (\<lambda>_ s. Ret b s))
     | None \<Rightarrow>
         andthen (scan_prev NBUF (\<lambda>r. b_refcnt r = 0) (b_prev (bufs s bhead)) s) (\<lambda>c s.
         case c of
           Some b \<Rightarrow>
             let s = upd_buf b (\<lambda>r. r\<lparr>b_dev := dev, b_blockno := blockno, b_valid := False, b_refcnt := 1\<rparr>) s
             in andthen (release BcacheLock s) (\<lambda>_ s. andthen (acquiresleep (BufLock b) s) (\<lambda>_ s. Ret b s))
         | None \<Rightarrow> Halt (Panic ''bget: no buffers'') s)))"

definition bread :: "u32 \<Rightarrow> u32 \<Rightarrow> 'b dsys_scheme \<Rightarrow> (nat, 'b dsys_scheme) res" where
  "bread dev blockno s = andthen (bget dev blockno s) (\<lambda>b s.
     if \<not> b_valid (bufs s b) then Ret b (upd_buf b (\<lambda>r. r\<lparr>b_valid := True\<rparr>) (disk_rw b False s))
     else Ret b s)"

definition bwrite :: "nat \<Rightarrow> 'b dsys_scheme \<Rightarrow> (unit, 'b dsys_scheme) res" where
  "bwrite b s = andthen (holdingsleep (BufLock b) s) (\<lambda>h s.
     if \<not> h then Halt (Panic ''bwrite'') s else Ret () (disk_rw b True s))"

definition brelse :: "nat \<Rightarrow> 'b dsys_scheme \<Rightarrow> (unit, 'b dsys_scheme) res" where
  "brelse b s = andthen (holdingsleep (BufLock b) s) (\<lambda>h s.
     if \<not> h then Halt (Panic ''brelse'') s
     else andthen (releasesleep (BufLock b) s) (\<lambda>_ s.
       andthen (acquire BcacheLock s) (\<lambda>_ s.
       let s = upd_buf b (\<lambda>r. r\<lparr>b_refcnt := b_refcnt r - 1\<rparr>) s;
           s = (if b_refcnt (bufs s b) = 0 then link_front b (unlink_buf b s) else s)
       in release BcacheLock s)))"

definition bpin :: "nat \<Rightarrow> 'b dsys_scheme \<Rightarrow> (unit, 'b dsys_scheme) res" where
  "bpin b s = andthen (acquire BcacheLock s) (\<lambda>_ s.
     release BcacheLock (upd_buf b (\<lambda>r. r\<lparr>b_refcnt := b_refcnt r + 1\<rparr>) s))"

definition bunpin :: "nat \<Rightarrow> 'b dsys_scheme \<Rightarrow> (unit, 'b dsys_scheme) res" where
  "bunpin b s = andthen (acquire BcacheLock s) (\<lambda>_ s.
     release BcacheLock (upd_buf b (\<lambda>r. r\<lparr>b_refcnt := b_refcnt r - 1\<rparr>) s))"

end
