(* ===== verification/Log.thy ===== *)
theory Log
  imports Bio
begin

text \<open>
  The write-ahead log, \<^verbatim>\<open>kernel/log.c\<close>. The in-memory log is the record \<open>klogrec\<close>;
  the on-disk header is the block \<open>log_start\<close>, a count and block numbers of four bytes
  each, followed by the logged blocks.
\<close>

section \<open>State and operations\<close>

definition LOGSIZE :: nat where "LOGSIZE = MAXOPBLOCKS * 3"

record superblock =
  sb_magic :: u32
  sb_size :: u32
  sb_nblocks :: u32
  sb_ninodes :: u32
  sb_nlog :: u32
  sb_logstart :: u32
  sb_inodestart :: u32
  sb_bmapstart :: u32

record logheader =
  lh_n :: int
  lh_block :: "nat \<Rightarrow> u32"

record klogrec =
  log_start :: u32
  log_size :: int
  outstanding :: int
  committing :: bool
  log_dev :: u32
  lh :: logheader

record lsys = dsys +
  logrec :: klogrec

definition upd_log :: "(klogrec \<Rightarrow> klogrec) \<Rightarrow> 'b lsys_scheme \<Rightarrow> 'b lsys_scheme" where
  "upd_log f s = s\<lparr>logrec := f (logrec s)\<rparr>"

definition set_lh_n :: "int \<Rightarrow> 'b lsys_scheme \<Rightarrow> 'b lsys_scheme" where
  "set_lh_n n s = upd_log (\<lambda>l. l\<lparr>lh := (lh l)\<lparr>lh_n := n\<rparr>\<rparr>) s"

definition set_lh_block :: "nat \<Rightarrow> u32 \<Rightarrow> 'b lsys_scheme \<Rightarrow> 'b lsys_scheme" where
  "set_lh_block i v s = upd_log (\<lambda>l. l\<lparr>lh := (lh l)\<lparr>lh_block := (lh_block (lh l))(i := v)\<rparr>\<rparr>) s"

primrec install_trans_from :: "bool \<Rightarrow> nat list \<Rightarrow> 'b lsys_scheme \<Rightarrow> (unit, 'b lsys_scheme) res" where
  "install_trans_from recovering [] s = Ret () s"
| "install_trans_from recovering (tail # tails) s =
     andthen (bread (log_dev (logrec s)) (log_start (logrec s) + of_nat tail + 1) s) (\<lambda>lbuf s.
     andthen (bread (log_dev (logrec s)) (lh_block (lh (logrec s)) tail) s) (\<lambda>dbuf s.
     let s = upd_buf dbuf (\<lambda>r. r\<lparr>b_data := b_data (bufs s lbuf)\<rparr>) s
     in andthen (bwrite dbuf s) (\<lambda>_ s.
        andthen (if \<not> recovering then bunpin dbuf s else Ret () s) (\<lambda>_ s.
        andthen (brelse lbuf s) (\<lambda>_ s.
        andthen (brelse dbuf s) (\<lambda>_ s.
        install_trans_from recovering tails s))))))"

definition install_trans :: "bool \<Rightarrow> 'b lsys_scheme \<Rightarrow> (unit, 'b lsys_scheme) res" where
  "install_trans recovering s = install_trans_from recovering [0..<nat (lh_n (lh (logrec s)))] s"

text \<open>A header that names more blocks than the in-memory array holds makes \<open>read_head\<close> overrun it.\<close>

primrec read_head_from :: "block \<Rightarrow> nat list \<Rightarrow> 'b lsys_scheme \<Rightarrow> (unit, 'b lsys_scheme) res" where
  "read_head_from d [] s = Ret () s"
| "read_head_from d (i # is) s =
     (if i < LOGSIZE then read_head_from d is (set_lh_block i (get32 d (4 + 4 * i)) s)
      else Halt (Fault ''log.lh.block'') s)"

definition read_head :: "'b lsys_scheme \<Rightarrow> (unit, 'b lsys_scheme) res" where
  "read_head s = andthen (bread (log_dev (logrec s)) (log_start (logrec s)) s) (\<lambda>b s.
     let d = b_data (bufs s b); s = set_lh_n (sint (get32 d 0)) s
     in andthen (read_head_from d [0..<nat (lh_n (lh (logrec s)))] s) (\<lambda>_ s.
        brelse b s))"

primrec put_head :: "logheader \<Rightarrow> nat list \<Rightarrow> block \<Rightarrow> block" where
  "put_head h [] d = d"
| "put_head h (i # is) d = put_head h is (put32 (4 + 4 * i) (lh_block h i) d)"

definition write_head :: "'b lsys_scheme \<Rightarrow> (unit, 'b lsys_scheme) res" where
  "write_head s = andthen (bread (log_dev (logrec s)) (log_start (logrec s)) s) (\<lambda>b s.
     let h = lh (logrec s);
         s = upd_buf b (\<lambda>r. r\<lparr>b_data := put_head h [0..<nat (lh_n h)] (put32 0 (word_of_int (lh_n h)) (b_data r))\<rparr>) s
     in andthen (bwrite b s) (\<lambda>_ s. brelse b s))"

definition recover_from_log :: "'b lsys_scheme \<Rightarrow> (unit, 'b lsys_scheme) res" where
  "recover_from_log s = andthen (read_head s) (\<lambda>_ s.
     andthen (install_trans True s) (\<lambda>_ s.
     write_head (set_lh_n 0 s)))"

text \<open>The header struct of 4 + 4 * LOGSIZE bytes is smaller than a block.\<close>

definition initlog :: "u32 \<Rightarrow> superblock \<Rightarrow> 'b lsys_scheme \<Rightarrow> (unit, 'b lsys_scheme) res" where
  "initlog dev sb s =
     (if BSIZE \<le> 4 + 4 * LOGSIZE then Halt (Panic ''initlog: too big logheader'') s
      else recover_from_log (upd_log (\<lambda>l. l\<lparr>log_start := sb_logstart sb, log_size := sint (sb_nlog sb), log_dev := dev\<rparr>)
             (initlock LogLock ''log'' s)))"

text \<open>One pass of the loop of \<open>begin_op\<close>.\<close>

definition begin_op :: "'b lsys_scheme \<Rightarrow> (unit, 'b lsys_scheme) res" where
  "begin_op s = andthen (acquire LogLock s) (\<lambda>_ s.
     if committing (logrec s) then sleep (Some LogChan) LogLock s
     else if lh_n (lh (logrec s)) + (outstanding (logrec s) + 1) * int MAXOPBLOCKS > int LOGSIZE
       then sleep (Some LogChan) LogLock s
     else release LogLock (upd_log (\<lambda>l. l\<lparr>outstanding := outstanding l + 1\<rparr>) s))"

primrec write_log_from :: "nat list \<Rightarrow> 'b lsys_scheme \<Rightarrow> (unit, 'b lsys_scheme) res" where
  "write_log_from [] s = Ret () s"
| "write_log_from (tail # tails) s =
     andthen (bread (log_dev (logrec s)) (log_start (logrec s) + of_nat tail + 1) s) (\<lambda>to s.
     andthen (bread (log_dev (logrec s)) (lh_block (lh (logrec s)) tail) s) (\<lambda>frm s.
     let s = upd_buf to (\<lambda>r. r\<lparr>b_data := b_data (bufs s frm)\<rparr>) s
     in andthen (bwrite to s) (\<lambda>_ s.
        andthen (brelse frm s) (\<lambda>_ s.
        andthen (brelse to s) (\<lambda>_ s.
        write_log_from tails s)))))"

definition write_log :: "'b lsys_scheme \<Rightarrow> (unit, 'b lsys_scheme) res" where
  "write_log s = write_log_from [0..<nat (lh_n (lh (logrec s)))] s"

definition commit :: "'b lsys_scheme \<Rightarrow> (unit, 'b lsys_scheme) res" where
  "commit s =
     (if 0 < lh_n (lh (logrec s)) then
        andthen (write_log s) (\<lambda>_ s.
        andthen (write_head s) (\<lambda>_ s.
        andthen (install_trans False s) (\<lambda>_ s.
        write_head (set_lh_n 0 s))))
      else Ret () s)"

definition end_op :: "'b lsys_scheme \<Rightarrow> (unit, 'b lsys_scheme) res" where
  "end_op s = andthen (acquire LogLock s) (\<lambda>_ s.
     let s = upd_log (\<lambda>l. l\<lparr>outstanding := outstanding l - 1\<rparr>) s
     in if committing (logrec s) then Halt (Panic ''log.committing'') s
        else let do_commit = (outstanding (logrec s) = 0)
             in andthen (if do_commit then Ret () (upd_log (\<lambda>l. l\<lparr>committing := True\<rparr>) s)
                         else wakeup (Some LogChan) s) (\<lambda>_ s.
                andthen (release LogLock s) (\<lambda>_ s.
                if do_commit then
                  andthen (commit s) (\<lambda>_ s.
                  andthen (acquire LogLock s) (\<lambda>_ s.
                  andthen (wakeup (Some LogChan) (upd_log (\<lambda>l. l\<lparr>committing := False\<rparr>) s)) (\<lambda>_ s.
                  release LogLock s)))
                else Ret () s)))"

text \<open>The index of a block in the header, or the count when it is not there.\<close>

primrec absorb_index :: "(nat \<Rightarrow> u32) \<Rightarrow> u32 \<Rightarrow> nat list \<Rightarrow> nat \<Rightarrow> nat" where
  "absorb_index blk b [] n = n"
| "absorb_index blk b (i # is) n = (if blk i = b then i else absorb_index blk b is n)"

definition log_write :: "nat \<Rightarrow> 'b lsys_scheme \<Rightarrow> (unit, 'b lsys_scheme) res" where
  "log_write b s = andthen (acquire LogLock s) (\<lambda>_ s.
     let n = lh_n (lh (logrec s))
     in if int LOGSIZE \<le> n \<or> log_size (logrec s) - 1 \<le> n then Halt (Panic ''too big a transaction'') s
        else if outstanding (logrec s) < 1 then Halt (Panic ''log_write outside of trans'') s
        else let i = absorb_index (lh_block (lh (logrec s))) (b_blockno (bufs s b)) [0..<nat n] (nat n);
                 s = set_lh_block i (b_blockno (bufs s b)) s
             in andthen (if int i = n then andthen (bpin b s) (\<lambda>_ s. Ret () (set_lh_n (n + 1) s))
                         else Ret () s) (\<lambda>_ s.
                release LogLock s))"

end
