(* ===== verification/Fs.thy ===== *)
theory Fs
  imports Log
begin

text \<open>
  The file system, \<^verbatim>\<open>kernel/fs.c\<close>: the block allocator, inodes and their
  in-memory table, file contents, directories and path names. An inode pointer
  is an index into the table. Path names are byte lists without the terminating
  zero. The loops of \<open>readi\<close> and \<open>writei\<close> count in natural numbers: the guards
  before them exclude that the 32-bit offsets wrap.
\<close>

section \<open>Format\<close>

definition ROOTINO :: u32 where "ROOTINO = 1"

definition ROOTDEV :: u32 where "ROOTDEV = 1"

definition FSMAGIC :: u32 where "FSMAGIC = 0x10203040"

definition NDIRECT :: nat where "NDIRECT = 12"

definition NINDIRECT :: nat where "NINDIRECT = BSIZE div 4"

definition MAXFILE :: nat where "MAXFILE = NDIRECT + NINDIRECT"

definition DINODE_SIZE :: nat where "DINODE_SIZE = 64"

definition IPB :: nat where "IPB = BSIZE div DINODE_SIZE"

definition BPB :: nat where "BPB = BSIZE * 8"

definition DIRSIZ :: nat where "DIRSIZ = 14"

definition DIRENT_SIZE :: nat where "DIRENT_SIZE = 16"

definition NINODE :: nat where "NINODE = 50"

definition T_DIR :: u16 where "T_DIR = 1"

definition T_FILE :: u16 where "T_FILE = 2"

definition T_DEVICE :: u16 where "T_DEVICE = 3"

record inode =
  i_dev :: u32
  i_inum :: u32
  i_ref :: int
  i_valid :: bool
  i_type :: u16
  i_major :: u16
  i_minor :: u16
  i_nlink :: u16
  i_size :: u32
  i_addrs :: "nat \<Rightarrow> u32"

record fsys = lsys +
  inodes :: "nat \<Rightarrow> inode"
  sb :: superblock

definition upd_inode :: "nat \<Rightarrow> (inode \<Rightarrow> inode) \<Rightarrow> 'b fsys_scheme \<Rightarrow> 'b fsys_scheme" where
  "upd_inode ip f s = s\<lparr>inodes := (inodes s)(ip := f (inodes s ip))\<rparr>"

definition IBLOCK :: "u32 \<Rightarrow> superblock \<Rightarrow> u32" where
  "IBLOCK i sblk = i div of_nat IPB + sb_inodestart sblk"

definition BBLOCK :: "u32 \<Rightarrow> superblock \<Rightarrow> u32" where
  "BBLOCK b sblk = b div of_nat BPB + sb_bmapstart sblk"

section \<open>Super block\<close>

definition parse_sb :: "block \<Rightarrow> superblock" where
  "parse_sb d = \<lparr>sb_magic = get32 d 0, sb_size = get32 d 4, sb_nblocks = get32 d 8, sb_ninodes = get32 d 12,
     sb_nlog = get32 d 16, sb_logstart = get32 d 20, sb_inodestart = get32 d 24, sb_bmapstart = get32 d 28\<rparr>"

definition readsb :: "u32 \<Rightarrow> 'b fsys_scheme \<Rightarrow> (unit, 'b fsys_scheme) res" where
  "readsb dev s = andthen (bread dev 1 s) (\<lambda>bp s.
     brelse bp (s\<lparr>sb := parse_sb (b_data (bufs s bp))\<rparr>))"

definition fsinit :: "u32 \<Rightarrow> 'b fsys_scheme \<Rightarrow> (unit, 'b fsys_scheme) res" where
  "fsinit dev s = andthen (readsb dev s) (\<lambda>_ s.
     if sb_magic (sb s) \<noteq> FSMAGIC then Halt (Panic ''invalid file system'') s
     else initlog dev (sb s) s)"

section \<open>Blocks\<close>

definition bzero :: "u32 \<Rightarrow> u32 \<Rightarrow> 'b fsys_scheme \<Rightarrow> (unit, 'b fsys_scheme) res" where
  "bzero dev bno s = andthen (bread dev bno s) (\<lambda>bp s.
     let s = upd_buf bp (\<lambda>r. r\<lparr>b_data := (\<lambda>i. if i < BSIZE then 0 else b_data r i)\<rparr>) s
     in andthen (log_write bp s) (\<lambda>_ s. brelse bp s))"

definition bit_clear :: "block \<Rightarrow> nat \<Rightarrow> bool" where
  "bit_clear d bi \<longleftrightarrow> d (bi div 8) AND push_bit (bi mod 8) 1 = 0"

definition mark_used :: "nat \<Rightarrow> block \<Rightarrow> block" where
  "mark_used bi d = d(bi div 8 := d (bi div 8) OR push_bit (bi mod 8) 1)"

definition mark_free :: "nat \<Rightarrow> block \<Rightarrow> block" where
  "mark_free bi d = d(bi div 8 := d (bi div 8) AND NOT (push_bit (bi mod 8) 1))"

text \<open>The inner loop of \<open>balloc\<close>: the first clear bit of a bitmap block.\<close>

primrec find_clear :: "block \<Rightarrow> nat \<Rightarrow> nat \<Rightarrow> nat list \<Rightarrow> nat option" where
  "find_clear d b sz [] = None"
| "find_clear d b sz (bi # bis) =
     (if b + bi < sz then if bit_clear d bi then Some bi else find_clear d b sz bis else None)"

function balloc_from :: "u32 \<Rightarrow> nat \<Rightarrow> nat \<Rightarrow> 'b fsys_scheme \<Rightarrow> (u32, 'b fsys_scheme) res" where
  "balloc_from dev b sz s =
     (if b < sz then
        andthen (bread dev (BBLOCK (of_nat b) (sb s)) s) (\<lambda>bp s.
        case find_clear (b_data (bufs s bp)) b sz [0..<BPB] of
          Some bi \<Rightarrow>
            let s = upd_buf bp (\<lambda>r. r\<lparr>b_data := mark_used bi (b_data r)\<rparr>) s
            in andthen (log_write bp s) (\<lambda>_ s.
               andthen (brelse bp s) (\<lambda>_ s.
               andthen (bzero dev (of_nat (b + bi)) s) (\<lambda>_ s. Ret (of_nat (b + bi)) s)))
        | None \<Rightarrow> andthen (brelse bp s) (\<lambda>_ s. balloc_from dev (b + BPB) sz s))
      else Ret 0 (log_msg ''balloc: out of blocks'' s))"
  by pat_completeness auto
termination
  by (relation "measure (\<lambda>(dev, b, sz, s). sz - b)") (auto simp: BPB_def BSIZE_def)

declare balloc_from.simps [simp del]

definition balloc :: "u32 \<Rightarrow> 'b fsys_scheme \<Rightarrow> (u32, 'b fsys_scheme) res" where
  "balloc dev s = balloc_from dev 0 (unat (sb_size (sb s))) s"

definition bfree :: "u32 \<Rightarrow> u32 \<Rightarrow> 'b fsys_scheme \<Rightarrow> (unit, 'b fsys_scheme) res" where
  "bfree dev b s = andthen (bread dev (BBLOCK b (sb s)) s) (\<lambda>bp s.
     let bi = unat b mod BPB
     in if bit_clear (b_data (bufs s bp)) bi then Halt (Panic ''freeing free block'') s
        else let s = upd_buf bp (\<lambda>r. r\<lparr>b_data := mark_free bi (b_data r)\<rparr>) s
             in andthen (log_write bp s) (\<lambda>_ s. brelse bp s))"

section \<open>Inodes\<close>

primrec iinit_from :: "nat list \<Rightarrow> 'b fsys_scheme \<Rightarrow> 'b fsys_scheme" where
  "iinit_from [] s = s"
| "iinit_from (i # is) s = iinit_from is (initsleeplock (InodeLock i) ''inode'' s)"

definition iinit :: "'b fsys_scheme \<Rightarrow> 'b fsys_scheme" where
  "iinit s = iinit_from [0..<NINODE] (initlock ItableLock ''itable'' s)"

text \<open>The search of \<open>iget\<close>: the entry found, or the first free entry seen.\<close>

primrec iget_scan :: "(nat \<Rightarrow> inode) \<Rightarrow> u32 \<Rightarrow> u32 \<Rightarrow> nat list \<Rightarrow> nat option \<Rightarrow> nat + nat option" where
  "iget_scan t dev inum [] free = Inr free"
| "iget_scan t dev inum (i # is) free =
     (if 0 < i_ref (t i) \<and> i_dev (t i) = dev \<and> i_inum (t i) = inum then Inl i
      else iget_scan t dev inum is (if free = None \<and> i_ref (t i) = 0 then Some i else free))"

definition iget :: "u32 \<Rightarrow> u32 \<Rightarrow> 'b fsys_scheme \<Rightarrow> (nat, 'b fsys_scheme) res" where
  "iget dev inum s = andthen (acquire ItableLock s) (\<lambda>_ s.
     case iget_scan (inodes s) dev inum [0..<NINODE] None of
       Inl ip \<Rightarrow> andthen (release ItableLock (upd_inode ip (\<lambda>r. r\<lparr>i_ref := i_ref r + 1\<rparr>) s)) (\<lambda>_ s. Ret ip s)
     | Inr None \<Rightarrow> Halt (Panic ''iget: no inodes'') s
     | Inr (Some ip) \<Rightarrow>
         andthen (release ItableLock
           (upd_inode ip (\<lambda>r. r\<lparr>i_dev := dev, i_inum := inum, i_ref := 1, i_valid := False\<rparr>) s)) (\<lambda>_ s. Ret ip s))"

definition idup :: "nat \<Rightarrow> 'b fsys_scheme \<Rightarrow> (nat, 'b fsys_scheme) res" where
  "idup ip s = andthen (acquire ItableLock s) (\<lambda>_ s.
     andthen (release ItableLock (upd_inode ip (\<lambda>r. r\<lparr>i_ref := i_ref r + 1\<rparr>) s)) (\<lambda>_ s. Ret ip s))"

text \<open>Where the disk inode \<open>inum\<close> starts in its block.\<close>

definition dinode_off :: "u32 \<Rightarrow> nat" where
  "dinode_off inum = unat inum mod IPB * DINODE_SIZE"

primrec ialloc_from :: "u32 \<Rightarrow> u16 \<Rightarrow> nat list \<Rightarrow> 'b fsys_scheme \<Rightarrow> (nat option, 'b fsys_scheme) res" where
  "ialloc_from dev ty [] s = Ret None (log_msg ''ialloc: no inodes'' s)"
| "ialloc_from dev ty (inum # inums) s =
     andthen (bread dev (IBLOCK (of_nat inum) (sb s)) s) (\<lambda>bp s.
     let i = dinode_off (of_nat inum)
     in if get16 (b_data (bufs s bp)) i = 0 then
          let s = upd_buf bp (\<lambda>r. r\<lparr>b_data := put16 i ty (put_list i (replicate DINODE_SIZE 0) (b_data r))\<rparr>) s
          in andthen (log_write bp s) (\<lambda>_ s.
             andthen (brelse bp s) (\<lambda>_ s.
             andthen (iget dev (of_nat inum) s) (\<lambda>ip s. Ret (Some ip) s)))
        else andthen (brelse bp s) (\<lambda>_ s. ialloc_from dev ty inums s))"

definition ialloc :: "u32 \<Rightarrow> u16 \<Rightarrow> 'b fsys_scheme \<Rightarrow> (nat option, 'b fsys_scheme) res" where
  "ialloc dev ty s = ialloc_from dev ty [1..<unat (sb_ninodes (sb s))] s"

primrec put_addrs :: "nat \<Rightarrow> (nat \<Rightarrow> u32) \<Rightarrow> nat list \<Rightarrow> block \<Rightarrow> block" where
  "put_addrs i a [] d = d"
| "put_addrs i a (k # ks) d = put_addrs i a ks (put32 (i + 12 + 4 * k) (a k) d)"

definition put_dinode :: "nat \<Rightarrow> inode \<Rightarrow> block \<Rightarrow> block" where
  "put_dinode i r d = put_addrs i (i_addrs r) [0..<NDIRECT + 1]
     (put32 (i + 8) (i_size r) (put16 (i + 6) (i_nlink r) (put16 (i + 4) (i_minor r)
       (put16 (i + 2) (i_major r) (put16 i (i_type r) d)))))"

definition get_dinode :: "nat \<Rightarrow> block \<Rightarrow> inode \<Rightarrow> inode" where
  "get_dinode i d r = r\<lparr>i_type := get16 d i, i_major := get16 d (i + 2), i_minor := get16 d (i + 4),
     i_nlink := get16 d (i + 6), i_size := get32 d (i + 8),
     i_addrs := (\<lambda>k. if k < NDIRECT + 1 then get32 d (i + 12 + 4 * k) else i_addrs r k)\<rparr>"

definition iupdate :: "nat \<Rightarrow> 'b fsys_scheme \<Rightarrow> (unit, 'b fsys_scheme) res" where
  "iupdate ip s = andthen (bread (i_dev (inodes s ip)) (IBLOCK (i_inum (inodes s ip)) (sb s)) s) (\<lambda>bp s.
     let s = upd_buf bp (\<lambda>r. r\<lparr>b_data := put_dinode (dinode_off (i_inum (inodes s ip))) (inodes s ip) (b_data r)\<rparr>) s
     in andthen (log_write bp s) (\<lambda>_ s. brelse bp s))"

definition ilock :: "nat \<Rightarrow> 'b fsys_scheme \<Rightarrow> (unit, 'b fsys_scheme) res" where
  "ilock ip s =
     (if i_ref (inodes s ip) < 1 then Halt (Panic ''ilock'') s
      else andthen (acquiresleep (InodeLock ip) s) (\<lambda>_ s.
        if \<not> i_valid (inodes s ip) then
          andthen (bread (i_dev (inodes s ip)) (IBLOCK (i_inum (inodes s ip)) (sb s)) s) (\<lambda>bp s.
          let s = upd_inode ip (get_dinode (dinode_off (i_inum (inodes s ip))) (b_data (bufs s bp))) s
          in andthen (brelse bp s) (\<lambda>_ s.
             let s = upd_inode ip (\<lambda>r. r\<lparr>i_valid := True\<rparr>) s
             in if i_type (inodes s ip) = 0 then Halt (Panic ''ilock: no type'') s else Ret () s))
        else Ret () s))"

definition iunlock :: "nat \<Rightarrow> 'b fsys_scheme \<Rightarrow> (unit, 'b fsys_scheme) res" where
  "iunlock ip s = andthen (holdingsleep (InodeLock ip) s) (\<lambda>h s.
     if \<not> h \<or> i_ref (inodes s ip) < 1 then Halt (Panic ''iunlock'') s
     else releasesleep (InodeLock ip) s)"

section \<open>Contents\<close>

definition bmap :: "nat \<Rightarrow> nat \<Rightarrow> 'b fsys_scheme \<Rightarrow> (u32, 'b fsys_scheme) res" where
  "bmap ip bn s =
     (if bn < NDIRECT then
        let addr = i_addrs (inodes s ip) bn
        in if addr = 0 then andthen (balloc (i_dev (inodes s ip)) s) (\<lambda>addr s.
             if addr = 0 then Ret 0 s
             else Ret addr (upd_inode ip (\<lambda>r. r\<lparr>i_addrs := (i_addrs r)(bn := addr)\<rparr>) s))
           else Ret addr s
      else let bn = bn - NDIRECT
           in if bn < NINDIRECT then
                andthen (let addr = i_addrs (inodes s ip) NDIRECT
                         in if addr = 0 then andthen (balloc (i_dev (inodes s ip)) s) (\<lambda>addr s.
                              if addr = 0 then Ret 0 s
                              else Ret addr (upd_inode ip (\<lambda>r. r\<lparr>i_addrs := (i_addrs r)(NDIRECT := addr)\<rparr>) s))
                            else Ret addr s) (\<lambda>addr s.
                if addr = 0 then Ret 0 s
                else andthen (bread (i_dev (inodes s ip)) addr s) (\<lambda>bp s.
                  let addr = get32 (b_data (bufs s bp)) (4 * bn)
                  in andthen (if addr = 0 then andthen (balloc (i_dev (inodes s ip)) s) (\<lambda>addr s.
                                if addr \<noteq> 0 then
                                  andthen (log_write bp (upd_buf bp (\<lambda>r. r\<lparr>b_data := put32 (4 * bn) addr (b_data r)\<rparr>) s))
                                    (\<lambda>_ s. Ret addr s)
                                else Ret addr s)
                              else Ret addr s) (\<lambda>addr s.
                     andthen (brelse bp s) (\<lambda>_ s. Ret addr s))))
              else Halt (Panic ''bmap: out of range'') s)"

primrec itrunc_direct :: "nat \<Rightarrow> nat list \<Rightarrow> 'b fsys_scheme \<Rightarrow> (unit, 'b fsys_scheme) res" where
  "itrunc_direct ip [] s = Ret () s"
| "itrunc_direct ip (i # is) s =
     andthen (if i_addrs (inodes s ip) i \<noteq> 0 then
                andthen (bfree (i_dev (inodes s ip)) (i_addrs (inodes s ip) i) s) (\<lambda>_ s.
                Ret () (upd_inode ip (\<lambda>r. r\<lparr>i_addrs := (i_addrs r)(i := 0)\<rparr>) s))
              else Ret () s) (\<lambda>_ s. itrunc_direct ip is s)"

primrec itrunc_indirect :: "nat \<Rightarrow> nat \<Rightarrow> nat list \<Rightarrow> 'b fsys_scheme \<Rightarrow> (unit, 'b fsys_scheme) res" where
  "itrunc_indirect ip bp [] s = Ret () s"
| "itrunc_indirect ip bp (j # js) s =
     andthen (let a = get32 (b_data (bufs s bp)) (4 * j)
              in if a \<noteq> 0 then bfree (i_dev (inodes s ip)) a s else Ret () s) (\<lambda>_ s.
     itrunc_indirect ip bp js s)"

definition itrunc :: "nat \<Rightarrow> 'b fsys_scheme \<Rightarrow> (unit, 'b fsys_scheme) res" where
  "itrunc ip s = andthen (itrunc_direct ip [0..<NDIRECT] s) (\<lambda>_ s.
     andthen (if i_addrs (inodes s ip) NDIRECT \<noteq> 0 then
                andthen (bread (i_dev (inodes s ip)) (i_addrs (inodes s ip) NDIRECT) s) (\<lambda>bp s.
                andthen (itrunc_indirect ip bp [0..<NINDIRECT] s) (\<lambda>_ s.
                andthen (brelse bp s) (\<lambda>_ s.
                andthen (bfree (i_dev (inodes s ip)) (i_addrs (inodes s ip) NDIRECT) s) (\<lambda>_ s.
                Ret () (upd_inode ip (\<lambda>r. r\<lparr>i_addrs := (i_addrs r)(NDIRECT := 0)\<rparr>) s)))))
              else Ret () s) (\<lambda>_ s.
     iupdate ip (upd_inode ip (\<lambda>r. r\<lparr>i_size := 0\<rparr>) s)))"

definition iput :: "nat \<Rightarrow> 'b fsys_scheme \<Rightarrow> (unit, 'b fsys_scheme) res" where
  "iput ip s = andthen (acquire ItableLock s) (\<lambda>_ s.
     andthen (if i_ref (inodes s ip) = 1 \<and> i_valid (inodes s ip) \<and> i_nlink (inodes s ip) = 0 then
                andthen (acquiresleep (InodeLock ip) s) (\<lambda>_ s.
                andthen (release ItableLock s) (\<lambda>_ s.
                andthen (itrunc ip s) (\<lambda>_ s.
                andthen (iupdate ip (upd_inode ip (\<lambda>r. r\<lparr>i_type := 0\<rparr>) s)) (\<lambda>_ s.
                let s = upd_inode ip (\<lambda>r. r\<lparr>i_valid := False\<rparr>) s
                in andthen (releasesleep (InodeLock ip) s) (\<lambda>_ s. acquire ItableLock s)))))
              else Ret () s) (\<lambda>_ s.
     release ItableLock (upd_inode ip (\<lambda>r. r\<lparr>i_ref := i_ref r - 1\<rparr>) s)))"

definition iunlockput :: "nat \<Rightarrow> 'b fsys_scheme \<Rightarrow> (unit, 'b fsys_scheme) res" where
  "iunlockput ip s = andthen (iunlock ip s) (\<lambda>_ s. iput ip s)"

record stat =
  st_dev :: u32
  st_ino :: u32
  st_type :: u16
  st_nlink :: u16
  st_size :: u64

definition stati :: "nat \<Rightarrow> 'b fsys_scheme \<Rightarrow> stat" where
  "stati ip s = (let r = inodes s ip
     in \<lparr>st_dev = i_dev r, st_ino = i_inum r, st_type = i_type r, st_nlink = i_nlink r, st_size = ucast (i_size r)\<rparr>)"

primrec dest_add :: "dest \<Rightarrow> nat \<Rightarrow> dest" where
  "dest_add (UserDst a) m = UserDst (a + of_nat m)"
| "dest_add (PageDst a) m = PageDst (a + of_nat m)"
| "dest_add LocalDst m = LocalDst"

primrec source_add :: "source \<Rightarrow> nat \<Rightarrow> source" where
  "source_add (UserSrc a) m = UserSrc (a + of_nat m)"
| "source_add (PageSrc a) m = PageSrc (a + of_nat m)"
| "source_add (LocalSrc bs) m = LocalSrc (drop m bs)"

text \<open>The number of bytes moved in one round of \<open>readi\<close> or \<open>writei\<close>.\<close>

definition span :: "nat \<Rightarrow> nat \<Rightarrow> nat" where
  "span left off = min left (BSIZE - off mod BSIZE)"

lemma span_pos: "0 < left \<Longrightarrow> 0 < span left off"
  by (simp add: span_def BSIZE_def)

lemma span_less: "tot < n \<Longrightarrow> n - (tot + span (n - tot) off) < n - tot"
  using span_pos [of "n - tot" off] by simp

text \<open>The result is paired with the bytes delivered.\<close>

function readi_from :: "nat \<Rightarrow> dest \<Rightarrow> nat \<Rightarrow> nat \<Rightarrow> nat \<Rightarrow> byte list \<Rightarrow> 'b fsys_scheme \<Rightarrow> (int \<times> byte list, 'b fsys_scheme) res" where
  "readi_from ip dst off n tot acc s =
     (if tot < n then
        andthen (bmap ip (off div BSIZE) s) (\<lambda>addr s.
        if addr = 0 then Ret (int tot, acc) s
        else andthen (bread (i_dev (inodes s ip)) addr s) (\<lambda>bp s.
          let m = span (n - tot) off;
              bs = get_list (b_data (bufs s bp)) (off mod BSIZE) m
          in andthen (either_copyout dst bs s) (\<lambda>r s.
             andthen (brelse bp s) (\<lambda>_ s.
             if r = - 1 then Ret (- 1, acc) s
             else readi_from ip (dest_add dst m) (off + m) n (tot + m) (acc @ bs) s))))
      else Ret (int tot, acc) s)"
  by pat_completeness auto
termination
  by (relation "measure (\<lambda>(ip, dst, off, n, tot, acc, s). n - tot)") (use span_less in auto)

declare readi_from.simps [simp del]

definition readi :: "nat \<Rightarrow> dest \<Rightarrow> u32 \<Rightarrow> u32 \<Rightarrow> 'b fsys_scheme \<Rightarrow> (int \<times> byte list, 'b fsys_scheme) res" where
  "readi ip dst off n s =
     (let sz = i_size (inodes s ip)
      in if sz < off \<or> off + n < off then Ret (0, []) s
         else let n = (if sz < off + n then sz - off else n)
              in readi_from ip dst (unat off) (unat n) 0 [] s)"

text \<open>The result is paired with the offset reached.\<close>

function writei_from :: "nat \<Rightarrow> source \<Rightarrow> nat \<Rightarrow> nat \<Rightarrow> nat \<Rightarrow> 'b fsys_scheme \<Rightarrow> (nat \<times> nat, 'b fsys_scheme) res" where
  "writei_from ip src off n tot s =
     (if tot < n then
        andthen (bmap ip (off div BSIZE) s) (\<lambda>addr s.
        if addr = 0 then Ret (tot, off) s
        else andthen (bread (i_dev (inodes s ip)) addr s) (\<lambda>bp s.
          let m = span (n - tot) off
          in andthen (either_copyin src m s) (\<lambda>(r, bs) s.
             let s = upd_buf bp (\<lambda>b. b\<lparr>b_data := put_list (off mod BSIZE) bs (b_data b)\<rparr>) s
             in if r = - 1 then andthen (brelse bp s) (\<lambda>_ s. Ret (tot, off) s)
                else andthen (log_write bp s) (\<lambda>_ s.
                     andthen (brelse bp s) (\<lambda>_ s.
                     writei_from ip (source_add src m) (off + m) n (tot + m) s)))))
      else Ret (tot, off) s)"
  by pat_completeness auto
termination
  by (relation "measure (\<lambda>(ip, src, off, n, tot, s). n - tot)") (use span_less in auto)

declare writei_from.simps [simp del]

definition writei :: "nat \<Rightarrow> source \<Rightarrow> u32 \<Rightarrow> u32 \<Rightarrow> 'b fsys_scheme \<Rightarrow> (int, 'b fsys_scheme) res" where
  "writei ip src off n s =
     (if i_size (inodes s ip) < off \<or> off + n < off then Ret (- 1) s
      else if of_nat (MAXFILE * BSIZE) < off + n then Ret (- 1) s
      else andthen (writei_from ip src (unat off) (unat n) 0 s) (\<lambda>(tot, off) s.
        let s = (if unat (i_size (inodes s ip)) < off then upd_inode ip (\<lambda>r. r\<lparr>i_size := of_nat off\<rparr>) s else s)
        in andthen (iupdate ip s) (\<lambda>_ s. Ret (int tot) s)))"

section \<open>Directories\<close>

definition namecmp :: "cptr \<Rightarrow> cptr \<Rightarrow> int" where
  "namecmp s t = strncmp s t DIRSIZ"

definition list_ptr :: "byte list \<Rightarrow> cptr" where
  "list_ptr bs = (\<lambda>i. if i < length bs then bs ! i else 0)"

definition de_inum :: "byte list \<Rightarrow> u16" where
  "de_inum de = get16 (list_ptr de) 0"

definition de_name :: "byte list \<Rightarrow> cptr" where
  "de_name de = list_ptr (drop 2 de)"

text \<open>The result is the entry's inode and the offset for \<open>poff\<close>.\<close>

function dirlookup_from :: "nat \<Rightarrow> cptr \<Rightarrow> nat \<Rightarrow> nat \<Rightarrow> 'b fsys_scheme \<Rightarrow> ((nat \<times> nat) option, 'b fsys_scheme) res" where
  "dirlookup_from dp name off sz s =
     (if off < sz then
        andthen (readi dp LocalDst (of_nat off) (of_nat DIRENT_SIZE) s) (\<lambda>(r, de) s.
        if r \<noteq> int DIRENT_SIZE then Halt (Panic ''dirlookup read'') s
        else if de_inum de = 0 then dirlookup_from dp name (off + DIRENT_SIZE) sz s
        else if namecmp name (de_name de) = 0 then
          andthen (iget (i_dev (inodes s dp)) (ucast (de_inum de)) s) (\<lambda>ip s. Ret (Some (ip, off)) s)
        else dirlookup_from dp name (off + DIRENT_SIZE) sz s)
      else Ret None s)"
  by pat_completeness auto
termination
  by (relation "measure (\<lambda>(dp, name, off, sz, s). sz - off)") (auto simp: DIRENT_SIZE_def)

declare dirlookup_from.simps [simp del]

definition dirlookup :: "nat \<Rightarrow> cptr \<Rightarrow> 'b fsys_scheme \<Rightarrow> ((nat \<times> nat) option, 'b fsys_scheme) res" where
  "dirlookup dp name s =
     (if i_type (inodes s dp) \<noteq> T_DIR then Halt (Panic ''dirlookup not DIR'') s
      else dirlookup_from dp name 0 (unat (i_size (inodes s dp))) s)"

text \<open>The search for a free entry: the offset where the loop of \<open>dirlink\<close> stops.\<close>

function dirlink_from :: "nat \<Rightarrow> nat \<Rightarrow> nat \<Rightarrow> 'b fsys_scheme \<Rightarrow> (nat, 'b fsys_scheme) res" where
  "dirlink_from dp off sz s =
     (if off < sz then
        andthen (readi dp LocalDst (of_nat off) (of_nat DIRENT_SIZE) s) (\<lambda>(r, de) s.
        if r \<noteq> int DIRENT_SIZE then Halt (Panic ''dirlink read'') s
        else if de_inum de = 0 then Ret off s
        else dirlink_from dp (off + DIRENT_SIZE) sz s)
      else Ret off s)"
  by pat_completeness auto
termination
  by (relation "measure (\<lambda>(dp, off, sz, s). sz - off)") (auto simp: DIRENT_SIZE_def)

declare dirlink_from.simps [simp del]

definition dirent_bytes :: "u32 \<Rightarrow> cptr \<Rightarrow> byte list" where
  "dirent_bytes inum name =
     map (put16 0 (ucast inum) (\<lambda>_. 0)) [0..<2] @ map (strncpy (\<lambda>_. 0) name DIRSIZ) [0..<DIRSIZ]"

definition dirlink :: "nat \<Rightarrow> cptr \<Rightarrow> u32 \<Rightarrow> 'b fsys_scheme \<Rightarrow> (int, 'b fsys_scheme) res" where
  "dirlink dp name inum s = andthen (dirlookup dp name s) (\<lambda>r s.
     case r of
       Some (ip, _) \<Rightarrow> andthen (iput ip s) (\<lambda>_ s. Ret (- 1) s)
     | None \<Rightarrow>
         andthen (dirlink_from dp 0 (unat (i_size (inodes s dp))) s) (\<lambda>off s.
         andthen (writei dp (LocalSrc (dirent_bytes inum name)) (of_nat off) (of_nat DIRENT_SIZE) s) (\<lambda>r s.
         Ret (if r \<noteq> int DIRENT_SIZE then - 1 else 0) s)))"

section \<open>Paths\<close>

abbreviation slash :: byte where "slash \<equiv> 47"

definition skipelem :: "byte list \<Rightarrow> cptr \<Rightarrow> (byte list \<times> cptr) option" where
  "skipelem path name =
     (let path = dropWhile (\<lambda>c. c = slash) path
      in if path = [] then None
         else let e = takeWhile (\<lambda>c. c \<noteq> slash) path;
                  path = dropWhile (\<lambda>c. c \<noteq> slash) path;
                  len = length e;
                  name = (if DIRSIZ \<le> len then (\<lambda>i. if i < DIRSIZ then e ! i else name i)
                          else (\<lambda>i. if i < len then e ! i else name i)(len := 0))
              in Some (dropWhile (\<lambda>c. c = slash) path, name))"

lemma skipelem_shorter: "skipelem path name = Some (path', name') \<Longrightarrow> length path' < length path"
proof -
  assume a: "skipelem path name = Some (path', name')"
  let ?p = "dropWhile (\<lambda>c. c = slash) path"
  have ne: "?p \<noteq> []" and p': "path' = dropWhile (\<lambda>c. c = slash) (dropWhile (\<lambda>c. c \<noteq> slash) ?p)"
    using a by (auto simp: skipelem_def Let_def split: if_splits)
  then obtain c cs where c: "?p = c # cs" by (cases ?p) auto
  then have "c \<noteq> slash" using hd_dropWhile [of "\<lambda>c. c = slash" path] ne by simp
  then have "length (dropWhile (\<lambda>c. c \<noteq> slash) ?p) < length ?p"
    using c length_dropWhile_le [of "\<lambda>c. c \<noteq> slash" cs] by simp
  then show ?thesis
    using p' length_dropWhile_le [of "\<lambda>c. c = slash" path]
      length_dropWhile_le [of "\<lambda>c. c = slash" "dropWhile (\<lambda>c. c \<noteq> slash) ?p"] by simp
qed

text \<open>The result is paired with the contents of the \<open>name\<close> buffer.\<close>

function namex_from :: "nat \<Rightarrow> byte list \<Rightarrow> bool \<Rightarrow> cptr \<Rightarrow> 'b fsys_scheme \<Rightarrow> (nat option \<times> cptr, 'b fsys_scheme) res" where
  "namex_from ip path nameiparent name s =
     (case skipelem path name of
        None \<Rightarrow> if nameiparent then andthen (iput ip s) (\<lambda>_ s. Ret (None, name) s) else Ret (Some ip, name) s
      | Some (path, name) \<Rightarrow>
          andthen (ilock ip s) (\<lambda>_ s.
          if i_type (inodes s ip) \<noteq> T_DIR then andthen (iunlockput ip s) (\<lambda>_ s. Ret (None, name) s)
          else if nameiparent \<and> path = [] then andthen (iunlock ip s) (\<lambda>_ s. Ret (Some ip, name) s)
          else andthen (dirlookup ip name s) (\<lambda>r s.
            case r of
              None \<Rightarrow> andthen (iunlockput ip s) (\<lambda>_ s. Ret (None, name) s)
            | Some (nxt, _) \<Rightarrow> andthen (iunlockput ip s) (\<lambda>_ s. namex_from nxt path nameiparent name s))))"
  by pat_completeness auto
termination
  by (relation "measure (\<lambda>(ip, path, par, name, s). length path)") (auto dest: skipelem_shorter)

declare namex_from.simps [simp del]

definition namex :: "byte list \<Rightarrow> bool \<Rightarrow> cptr \<Rightarrow> 'b fsys_scheme \<Rightarrow> (nat option \<times> cptr, 'b fsys_scheme) res" where
  "namex path nameiparent name s =
     andthen (if path \<noteq> [] \<and> hd path = slash then iget ROOTDEV ROOTINO s
              else andthen (this_proc s) (\<lambda>p s.
                case p_cwd (procs s p) of None \<Rightarrow> Halt (Fault ''cwd'') s | Some ip \<Rightarrow> idup ip s)) (\<lambda>ip s.
     namex_from ip path nameiparent name s)"

definition namei :: "byte list \<Rightarrow> 'b fsys_scheme \<Rightarrow> (nat option, 'b fsys_scheme) res" where
  "namei path s = andthen (namex path False (\<lambda>_. 0) s) (\<lambda>(r, _) s. Ret r s)"

definition nameiparent :: "byte list \<Rightarrow> cptr \<Rightarrow> 'b fsys_scheme \<Rightarrow> (nat option \<times> cptr, 'b fsys_scheme) res" where
  "nameiparent path name s = namex path True name s"

end
