(* ===== verification/Console.thy ===== *)
theory Console
  imports Fs
begin

text \<open>
  The serial port and the console, \<^verbatim>\<open>kernel/uart.c\<close> and \<^verbatim>\<open>kernel/console.c\<close>. The
  device is the environment: \<open>lsr_in\<close> and \<open>rhr_in\<close> give the values that successive
  reads of the line status and receive registers return, \<open>lsr_n\<close> and \<open>rhr_n\<close> count
  the reads made, and \<open>uart_regs\<close> is the list of register writes, in order. The
  bytes sent are those written to \<open>THR\<close>.
\<close>

section \<open>State\<close>

definition UART_TX_BUF_SIZE :: u64 where "UART_TX_BUF_SIZE = 32"

definition INPUT_BUF_SIZE :: u32 where "INPUT_BUF_SIZE = 128"

definition BACKSPACE :: int where "BACKSPACE = 0x100"

record csys = fsys +
  uart_tx_buf :: "nat \<Rightarrow> byte"
  uart_tx_w :: u64
  uart_tx_r :: u64
  panicked :: bool
  lsr_in :: "nat \<Rightarrow> byte"
  lsr_n :: nat
  rhr_in :: "nat \<Rightarrow> byte"
  rhr_n :: nat
  uart_regs :: "(nat \<times> byte) list"
  cons_buf :: "nat \<Rightarrow> byte"
  cons_r :: u32
  cons_w :: u32
  cons_e :: u32

definition write_reg :: "nat \<Rightarrow> byte \<Rightarrow> 'b csys_scheme \<Rightarrow> 'b csys_scheme" where
  "write_reg r v s = s\<lparr>uart_regs := uart_regs s @ [(r, v)]\<rparr>"

definition read_lsr :: "'b csys_scheme \<Rightarrow> byte \<times> 'b csys_scheme" where
  "read_lsr s = (lsr_in s (lsr_n s), s\<lparr>lsr_n := lsr_n s + 1\<rparr>)"

definition read_rhr :: "'b csys_scheme \<Rightarrow> byte \<times> 'b csys_scheme" where
  "read_rhr s = (rhr_in s (rhr_n s), s\<lparr>rhr_n := rhr_n s + 1\<rparr>)"

definition tx_idle :: "byte \<Rightarrow> bool" where
  "tx_idle v \<longleftrightarrow> v AND 32 \<noteq> 0"

section \<open>The serial port\<close>

definition uartinit :: "'b csys_scheme \<Rightarrow> 'b csys_scheme" where
  "uartinit s =
     initlock UartTxLock ''uart''
       (write_reg 1 3 (write_reg 2 7 (write_reg 3 3 (write_reg 1 0 (write_reg 0 3
         (write_reg 3 0x80 (write_reg 1 0 s)))))))"

text \<open>\<open>uartstart\<close>: every round takes one byte out of the buffer.\<close>

lemma ring_less: "w \<noteq> r \<Longrightarrow> unat (w - (r + 1) :: u64) < unat (w - r)"
proof -
  assume "w \<noteq> r"
  then have "w - r \<noteq> 0" by simp
  then have "unat (w - r - 1) < unat (w - r)" by (simp add: unat_minus_one unat_gt_0)
  then show ?thesis by (simp add: algebra_simps)
qed

function uartstart :: "'b csys_scheme \<Rightarrow> (unit, 'b csys_scheme) res" where
  "uartstart s =
     (if uart_tx_w s = uart_tx_r s then Ret () s
      else let (v, s) = read_lsr s
           in if \<not> tx_idle v then Ret () s
              else let c = uart_tx_buf s (unat (uart_tx_r s mod UART_TX_BUF_SIZE));
                       s = s\<lparr>uart_tx_r := uart_tx_r s + 1\<rparr>
                   in andthen (wakeup (Some UartChan) s) (\<lambda>_ s. uartstart (write_reg 0 c s)))"
  by pat_completeness auto
termination
proof (relation "measure (\<lambda>s. unat (uart_tx_w s - uart_tx_r s))")
  fix s v x y c and z :: "'b csys_scheme" and a and t :: "'b csys_scheme"
  assume n: "uart_tx_w s \<noteq> uart_tx_r s" and x: "x = read_lsr s" "(v, y) = x"
    and z: "z = y\<lparr>uart_tx_r := uart_tx_r y + 1\<rparr>" and w: "wakeup (Some UartChan) z = Ret a t"
  obtain h q where "t = z\<lparr>hw := h, procs := q\<rparr>" using wakeup_Ret [OF w] by (auto simp: wframe_def)
  then have "uart_tx_w t = uart_tx_w s" "uart_tx_r t = uart_tx_r s + 1"
    using x z by (auto simp: read_lsr_def)
  then show "(write_reg 0 c t, s) \<in> measure (\<lambda>s. unat (uart_tx_w s - uart_tx_r s))"
    using ring_less [OF n] by (simp add: write_reg_def)
qed simp

declare uartstart.simps [simp del]

text \<open>One test of the full buffer; the loop runs again after the sleep.\<close>

definition uartputc :: "int \<Rightarrow> 'b csys_scheme \<Rightarrow> (unit, 'b csys_scheme) res" where
  "uartputc c s = andthen (acquire UartTxLock s) (\<lambda>_ s.
     if panicked s then Halt Spin s
     else if uart_tx_w s = uart_tx_r s + UART_TX_BUF_SIZE then sleep (Some UartChan) UartTxLock s
     else let s = s\<lparr>uart_tx_buf := (uart_tx_buf s)(unat (uart_tx_w s mod UART_TX_BUF_SIZE) := word_of_int c)\<rparr>;
              s = s\<lparr>uart_tx_w := uart_tx_w s + 1\<rparr>
          in andthen (uartstart s) (\<lambda>_ s. release UartTxLock s))"

text \<open>The number of the read that finds the transmitter idle, if there is one.\<close>

partial_function (option) spin_idle :: "(nat \<Rightarrow> byte) \<Rightarrow> nat \<Rightarrow> nat option" where
  "spin_idle f n = (if tx_idle (f n) then Some n else spin_idle f (Suc n))"

definition uartputc_sync :: "int \<Rightarrow> 'b csys_scheme \<Rightarrow> (unit, 'b csys_scheme) res" where
  "uartputc_sync c s =
     (let s = s\<lparr>hw := push_off (hw s)\<rparr>
      in if panicked s then Halt Spin s
         else case spin_idle (lsr_in s) (lsr_n s) of
                None \<Rightarrow> Halt Spin s
              | Some n \<Rightarrow> let s = write_reg 0 (word_of_int c) (s\<lparr>lsr_n := n + 1\<rparr>)
                          in on_hw (pop_off (hw s)) s)"

text \<open>\<open>uartgetc\<close>: \<open>None\<close> is the result -1.\<close>

definition uartgetc :: "'b csys_scheme \<Rightarrow> byte option \<times> 'b csys_scheme" where
  "uartgetc s = (let (v, s) = read_lsr s
     in if v AND 1 \<noteq> 0 then let (c, s) = read_rhr s in (Some c, s) else (None, s))"

section \<open>The console\<close>

definition consputc :: "int \<Rightarrow> 'b csys_scheme \<Rightarrow> (unit, 'b csys_scheme) res" where
  "consputc c s =
     (if c = BACKSPACE then
        andthen (uartputc_sync 8 s) (\<lambda>_ s. andthen (uartputc_sync 32 s) (\<lambda>_ s. uartputc_sync 8 s))
      else uartputc_sync c s)"

primrec consolewrite_from :: "source \<Rightarrow> nat \<Rightarrow> nat \<Rightarrow> 'b csys_scheme \<Rightarrow> (int, 'b csys_scheme) res" where
  "consolewrite_from src i 0 s = Ret (int i) s"
| "consolewrite_from src i (Suc n) s =
     andthen (either_copyin (source_add src i) 1 s) (\<lambda>(r, bs) s.
     if r = - 1 then Ret (int i) s
     else andthen (uartputc (sint (hd bs)) s) (\<lambda>_ s. consolewrite_from src (Suc i) n s))"

definition consolewrite :: "source \<Rightarrow> int \<Rightarrow> 'b csys_scheme \<Rightarrow> (int, 'b csys_scheme) res" where
  "consolewrite src n s = consolewrite_from src 0 (nat n) s"

definition cons_at :: "u32 \<Rightarrow> nat" where
  "cons_at i = unat (i mod INPUT_BUF_SIZE)"

text \<open>
  The loop of \<open>consoleread\<close>, entered with \<open>cons.lock\<close> held: \<open>target\<close> is the requested
  count and \<open>n\<close> what is left.
\<close>

primrec consoleread_from :: "dest \<Rightarrow> nat \<Rightarrow> nat \<Rightarrow> 'b csys_scheme \<Rightarrow> (int, 'b csys_scheme) res" where
  "consoleread_from dst target 0 s = andthen (release ConsLock s) (\<lambda>_ s. Ret (int target) s)"
| "consoleread_from dst target (Suc n) s =
     (if cons_r s = cons_w s then
        andthen (this_proc s) (\<lambda>p s.
        andthen (killed p s) (\<lambda>k s.
        if k \<noteq> 0 then andthen (release ConsLock s) (\<lambda>_ s. Ret (- 1) s)
        else sleep (Some ConsChan) ConsLock s))
      else let c = cons_buf s (cons_at (cons_r s)); s = s\<lparr>cons_r := cons_r s + 1\<rparr>
           in if c = 4 then
                let s = (if Suc n < target then s\<lparr>cons_r := cons_r s - 1\<rparr> else s)
                in andthen (release ConsLock s) (\<lambda>_ s. Ret (int target - int (Suc n)) s)
              else andthen (either_copyout dst [c] s) (\<lambda>r s.
                if r = - 1 then andthen (release ConsLock s) (\<lambda>_ s. Ret (int target - int (Suc n)) s)
                else if c = 10 then andthen (release ConsLock s) (\<lambda>_ s. Ret (int target - int n) s)
                else consoleread_from (dest_add dst 1) target n s))"

text \<open>For \<open>n < 0\<close> the loop is not entered and \<open>target - n\<close> is 0.\<close>

definition consoleread :: "dest \<Rightarrow> int \<Rightarrow> 'b csys_scheme \<Rightarrow> (int, 'b csys_scheme) res" where
  "consoleread dst n s = andthen (acquire ConsLock s) (\<lambda>_ s.
     if 0 \<le> n then andthen (consoleread_from dst (nat n) (nat n) s) (\<lambda>r s. Ret r s)
     else andthen (release ConsLock s) (\<lambda>_ s. Ret 0 s))"

text \<open>The loop of the line-kill character; every round moves the edit index back.\<close>

lemma uartputc_sync_Ret: "uartputc_sync c s = Ret a t \<Longrightarrow> \<exists>h n l. t = s\<lparr>hw := h, lsr_n := n, uart_regs := l\<rparr>"
proof -
  assume a: "uartputc_sync c s = Ret a t"
  then obtain n h where "t = s\<lparr>lsr_n := Suc n, uart_regs := uart_regs s @ [(0, word_of_int c)], hw := h\<rparr>"
    by (cases "pop_off (push_off (hw s))")
      (auto simp: uartputc_sync_def Let_def write_reg_def split: if_splits option.splits)
  then have "t = s\<lparr>hw := h, lsr_n := Suc n, uart_regs := uart_regs s @ [(0, word_of_int c)]\<rparr>" by simp
  then show ?thesis by blast
qed

lemma consputc_Ret: "consputc c s = Ret a t \<Longrightarrow> \<exists>h n l. t = s\<lparr>hw := h, lsr_n := n, uart_regs := l\<rparr>"
proof -
  assume a: "consputc c s = Ret a t"
  show ?thesis
  proof (cases "c = BACKSPACE")
    case True
    then obtain u v where u: "uartputc_sync 8 s = Ret () u" "uartputc_sync 32 u = Ret () v" "uartputc_sync 8 v = Ret a t"
      using a by (auto simp: consputc_def andthen_eq_Ret)
    from this [THEN uartputc_sync_Ret] obtain h n l where "t = s\<lparr>hw := h, lsr_n := n, uart_regs := l\<rparr>" by auto
    then show ?thesis by blast
  next
    case False
    then show ?thesis using a uartputc_sync_Ret by (simp add: consputc_def)
  qed
qed

lemma ring_less32: "e \<noteq> w \<Longrightarrow> unat (e - 1 - w :: u32) < unat (e - w)"
proof -
  assume "e \<noteq> w"
  then have "e - w \<noteq> 0" by simp
  then have "unat (e - w - 1) < unat (e - w)" by (simp add: unat_minus_one unat_gt_0)
  then show ?thesis by (simp add: algebra_simps)
qed

function kill_line :: "'b csys_scheme \<Rightarrow> (unit, 'b csys_scheme) res" where
  "kill_line s =
     (if cons_e s \<noteq> cons_w s \<and> cons_buf s (cons_at (cons_e s - 1)) \<noteq> 10 then
        andthen (consputc BACKSPACE (s\<lparr>cons_e := cons_e s - 1\<rparr>)) (\<lambda>_ s. kill_line s)
      else Ret () s)"
  by pat_completeness auto
termination
proof (relation "measure (\<lambda>s. unat (cons_e s - cons_w s))")
  fix s t :: "'b csys_scheme" and a
  assume "cons_e s \<noteq> cons_w s \<and> cons_buf s (cons_at (cons_e s - 1)) \<noteq> 10"
    "consputc BACKSPACE (s\<lparr>cons_e := cons_e s - 1\<rparr>) = Ret a t"
  then show "(t, s) \<in> measure (\<lambda>s. unat (cons_e s - cons_w s))"
    using ring_less32 by (auto dest!: consputc_Ret)
qed simp

declare kill_line.simps [simp del]

definition consoleintr :: "int \<Rightarrow> 'b csys_scheme \<Rightarrow> (unit, 'b csys_scheme) res" where
  "consoleintr c s = andthen (acquire ConsLock s) (\<lambda>_ s.
     andthen (if c = 16 then Ret () (procdump s)
              else if c = 21 then kill_line s
              else if c = 8 \<or> c = 127 then
                if cons_e s \<noteq> cons_w s then consputc BACKSPACE (s\<lparr>cons_e := cons_e s - 1\<rparr>) else Ret () s
              else if c \<noteq> 0 \<and> cons_e s - cons_r s < INPUT_BUF_SIZE then
                let c = (if c = 13 then 10 else c)
                in andthen (consputc c s) (\<lambda>_ s.
                   let s = s\<lparr>cons_buf := (cons_buf s)(cons_at (cons_e s) := word_of_int c)\<rparr>;
                       s = s\<lparr>cons_e := cons_e s + 1\<rparr>
                   in if c = 10 \<or> c = 4 \<or> cons_e s - cons_r s = INPUT_BUF_SIZE
                      then wakeup (Some ConsChan) (s\<lparr>cons_w := cons_e s\<rparr>)
                      else Ret () s)
              else Ret () s) (\<lambda>_ s.
     release ConsLock s))"

text \<open>The input loop of \<open>uartintr\<close> runs while the device has data; the bound is the number of bytes it may hold.\<close>

primrec uartintr_input :: "nat \<Rightarrow> 'b csys_scheme \<Rightarrow> (unit, 'b csys_scheme) res" where
  "uartintr_input 0 s = Halt OutOfFuel s"
| "uartintr_input (Suc k) s =
     (let (c, s) = uartgetc s
      in case c of None \<Rightarrow> Ret () s
         | Some c \<Rightarrow> andthen (consoleintr (uint c) s) (\<lambda>_ s. uartintr_input k s))"

definition uartintr :: "nat \<Rightarrow> 'b csys_scheme \<Rightarrow> (unit, 'b csys_scheme) res" where
  "uartintr fuel s = andthen (uartintr_input fuel s) (\<lambda>_ s.
     andthen (acquire UartTxLock s) (\<lambda>_ s.
     andthen (uartstart s) (\<lambda>_ s. release UartTxLock s)))"

section \<open>Kernel output\<close>

text \<open>The characters of a message, sent one by one.\<close>

primrec puts :: "string \<Rightarrow> 'b csys_scheme \<Rightarrow> (unit, 'b csys_scheme) res" where
  "puts [] s = Ret () s"
| "puts (c # cs) s = andthen (consputc (of_char c) s) (\<lambda>_ s. puts cs s)"

end
