(* ===== verification/File.thy ===== *)
theory File
  imports Console
begin

text \<open>
  Open files and pipes, \<^verbatim>\<open>kernel/file.c\<close> and \<^verbatim>\<open>kernel/pipe.c\<close>. A struct file pointer
  is an index into the file table. A pipe is named by the address of the page that
  \<open>kalloc\<close> gave it; its fields are the record \<open>pipe\<close> under that address. The
  device switch has one kind of entry, the console's pair of functions.
\<close>

section \<open>State\<close>

definition NFILE :: nat where "NFILE = 100"

definition NDEV :: int where "NDEV = 10"

definition PIPESIZE :: u32 where "PIPESIZE = 512"

datatype ftype = FD_NONE | FD_PIPE | FD_INODE | FD_DEVICE

record kfile =
  f_type :: ftype
  f_ref :: int
  f_readable :: bool
  f_writable :: bool
  f_pipe :: u64
  f_ip :: nat
  f_off :: u32
  f_major :: u16

record pipe =
  pi_data :: "nat \<Rightarrow> byte"
  pi_nread :: u32
  pi_nwrite :: u32
  pi_readopen :: bool
  pi_writeopen :: bool

datatype devfn = ConsoleDev

record flsys = csys +
  files :: "nat \<Rightarrow> kfile"
  pipes :: "u64 \<Rightarrow> pipe"
  devsw :: "int \<Rightarrow> devfn option"

definition upd_file :: "nat \<Rightarrow> (kfile \<Rightarrow> kfile) \<Rightarrow> 'b flsys_scheme \<Rightarrow> 'b flsys_scheme" where
  "upd_file f g s = s\<lparr>files := (files s)(f := g (files s f))\<rparr>"

definition upd_pipe :: "u64 \<Rightarrow> (pipe \<Rightarrow> pipe) \<Rightarrow> 'b flsys_scheme \<Rightarrow> 'b flsys_scheme" where
  "upd_pipe p g s = s\<lparr>pipes := (pipes s)(p := g (pipes s p))\<rparr>"

definition consoleinit :: "'b flsys_scheme \<Rightarrow> 'b flsys_scheme" where
  "consoleinit s = (let s = uartinit (initlock ConsLock ''cons'' s)
     in s\<lparr>devsw := (devsw s)(1 := Some ConsoleDev)\<rparr>)"

section \<open>Pipes\<close>

definition pipeclose :: "u64 \<Rightarrow> bool \<Rightarrow> 'b flsys_scheme \<Rightarrow> (unit, 'b flsys_scheme) res" where
  "pipeclose p writable s = andthen (acquire (PipeLock p) s) (\<lambda>_ s.
     andthen (if writable then wakeup (Some (PipeReadChan p)) (upd_pipe p (\<lambda>r. r\<lparr>pi_writeopen := False\<rparr>) s)
              else wakeup (Some (PipeWriteChan p)) (upd_pipe p (\<lambda>r. r\<lparr>pi_readopen := False\<rparr>) s)) (\<lambda>_ s.
     if \<not> pi_readopen (pipes s p) \<and> \<not> pi_writeopen (pipes s p)
     then andthen (release (PipeLock p) s) (\<lambda>_ s. kfree p s)
     else release (PipeLock p) s))"

text \<open>The ring buffer.\<close>

definition pipe_full :: "pipe \<Rightarrow> bool" where
  "pipe_full r \<longleftrightarrow> pi_nwrite r = pi_nread r + PIPESIZE"

definition pipe_empty :: "pipe \<Rightarrow> bool" where
  "pipe_empty r \<longleftrightarrow> pi_nread r = pi_nwrite r"

definition pipe_put :: "byte \<Rightarrow> pipe \<Rightarrow> pipe" where
  "pipe_put ch r = r\<lparr>pi_data := (pi_data r)(unat (pi_nwrite r mod PIPESIZE) := ch), pi_nwrite := pi_nwrite r + 1\<rparr>"

definition pipe_get :: "pipe \<Rightarrow> byte \<times> pipe" where
  "pipe_get r = (pi_data r (unat (pi_nread r mod PIPESIZE)), r\<lparr>pi_nread := pi_nread r + 1\<rparr>)"

text \<open>The loop of \<open>pipewrite\<close>, entered with the pipe's lock held: \<open>i\<close> bytes are written, \<open>k\<close> are left.\<close>

primrec pipewrite_from :: "u64 \<Rightarrow> u64 \<Rightarrow> nat \<Rightarrow> nat \<Rightarrow> nat \<Rightarrow> 'b flsys_scheme \<Rightarrow> (int, 'b flsys_scheme) res" where
  "pipewrite_from p addr pr i 0 s =
     andthen (wakeup (Some (PipeReadChan p)) s) (\<lambda>_ s.
     andthen (release (PipeLock p) s) (\<lambda>_ s. Ret (int i) s))"
| "pipewrite_from p addr pr i (Suc k) s =
     andthen (if \<not> pi_readopen (pipes s p) then Ret 1 s else killed pr s) (\<lambda>d s.
     if d \<noteq> 0 then andthen (release (PipeLock p) s) (\<lambda>_ s. Ret (- 1) s)
     else if pipe_full (pipes s p) then
       andthen (wakeup (Some (PipeReadChan p)) s) (\<lambda>_ s. sleep (Some (PipeWriteChan p)) (PipeLock p) s)
     else andthen (copyin (p_pagetable (procs s pr)) (addr + of_nat i) 1 s) (\<lambda>(r, bs) s.
       if r = - 1 then
         andthen (wakeup (Some (PipeReadChan p)) s) (\<lambda>_ s.
         andthen (release (PipeLock p) s) (\<lambda>_ s. Ret (int i) s))
       else pipewrite_from p addr pr (Suc i) k (upd_pipe p (pipe_put (hd bs)) s)))"

definition pipewrite :: "u64 \<Rightarrow> u64 \<Rightarrow> int \<Rightarrow> 'b flsys_scheme \<Rightarrow> (int, 'b flsys_scheme) res" where
  "pipewrite p addr n s = andthen (this_proc s) (\<lambda>pr s.
     andthen (acquire (PipeLock p) s) (\<lambda>_ s. pipewrite_from p addr pr 0 (nat n) s))"

text \<open>The copy loop of \<open>piperead\<close>; the result is the count.\<close>

primrec piperead_copy :: "u64 \<Rightarrow> u64 \<Rightarrow> nat \<Rightarrow> nat \<Rightarrow> nat \<Rightarrow> 'b flsys_scheme \<Rightarrow> (nat, 'b flsys_scheme) res" where
  "piperead_copy p addr pr i 0 s = Ret i s"
| "piperead_copy p addr pr i (Suc k) s =
     (if pipe_empty (pipes s p) then Ret i s
      else let (ch, r) = pipe_get (pipes s p); s = upd_pipe p (\<lambda>_. r) s
           in andthen (copyout (p_pagetable (procs s pr)) (addr + of_nat i) [ch] s) (\<lambda>e s.
              if e = - 1 then Ret i s else piperead_copy p addr pr (Suc i) k s))"

text \<open>\<open>piperead\<close> with the lock held, one test of the waiting loop.\<close>

definition piperead_pass :: "u64 \<Rightarrow> u64 \<Rightarrow> nat \<Rightarrow> int \<Rightarrow> 'b flsys_scheme \<Rightarrow> (int, 'b flsys_scheme) res" where
  "piperead_pass p addr pr n s =
     (if pipe_empty (pipes s p) \<and> pi_writeopen (pipes s p) then
        andthen (killed pr s) (\<lambda>k s.
        if k \<noteq> 0 then andthen (release (PipeLock p) s) (\<lambda>_ s. Ret (- 1) s)
        else sleep (Some (PipeReadChan p)) (PipeLock p) s)
      else andthen (piperead_copy p addr pr 0 (nat n) s) (\<lambda>i s.
        andthen (wakeup (Some (PipeWriteChan p)) s) (\<lambda>_ s.
        andthen (release (PipeLock p) s) (\<lambda>_ s. Ret (int i) s))))"

definition piperead :: "u64 \<Rightarrow> u64 \<Rightarrow> int \<Rightarrow> 'b flsys_scheme \<Rightarrow> (int, 'b flsys_scheme) res" where
  "piperead p addr n s = andthen (this_proc s) (\<lambda>pr s.
     andthen (acquire (PipeLock p) s) (\<lambda>_ s. piperead_pass p addr pr n s))"

section \<open>The file table\<close>

definition fileinit :: "'b flsys_scheme \<Rightarrow> 'b flsys_scheme" where
  "fileinit s = initlock FtableLock ''ftable'' s"

primrec free_file :: "(nat \<Rightarrow> kfile) \<Rightarrow> nat list \<Rightarrow> nat option" where
  "free_file t [] = None"
| "free_file t (f # fs) = (if f_ref (t f) = 0 then Some f else free_file t fs)"

definition filealloc :: "'b flsys_scheme \<Rightarrow> (nat option, 'b flsys_scheme) res" where
  "filealloc s = andthen (acquire FtableLock s) (\<lambda>_ s.
     case free_file (files s) [0..<NFILE] of
       Some f \<Rightarrow> andthen (release FtableLock (upd_file f (\<lambda>r. r\<lparr>f_ref := 1\<rparr>) s)) (\<lambda>_ s. Ret (Some f) s)
     | None \<Rightarrow> andthen (release FtableLock s) (\<lambda>_ s. Ret None s))"

definition filedup :: "nat \<Rightarrow> 'b flsys_scheme \<Rightarrow> (nat, 'b flsys_scheme) res" where
  "filedup f s = andthen (acquire FtableLock s) (\<lambda>_ s.
     if f_ref (files s f) < 1 then Halt (Panic ''filedup'') s
     else andthen (release FtableLock (upd_file f (\<lambda>r. r\<lparr>f_ref := f_ref r + 1\<rparr>) s)) (\<lambda>_ s. Ret f s))"

definition fileclose :: "nat \<Rightarrow> 'b flsys_scheme \<Rightarrow> (unit, 'b flsys_scheme) res" where
  "fileclose f s = andthen (acquire FtableLock s) (\<lambda>_ s.
     if f_ref (files s f) < 1 then Halt (Panic ''fileclose'') s
     else let s = upd_file f (\<lambda>r. r\<lparr>f_ref := f_ref r - 1\<rparr>) s
          in if 0 < f_ref (files s f) then release FtableLock s
             else let ff = files s f;
                      s = upd_file f (\<lambda>r. r\<lparr>f_ref := 0, f_type := FD_NONE\<rparr>) s
                  in andthen (release FtableLock s) (\<lambda>_ s.
                     if f_type ff = FD_PIPE then pipeclose (f_pipe ff) (f_writable ff) s
                     else if f_type ff = FD_INODE \<or> f_type ff = FD_DEVICE then
                       andthen (begin_op s) (\<lambda>_ s.
                       andthen (iput (f_ip ff) s) (\<lambda>_ s.
                       end_op s))
                     else Ret () s))"

text \<open>The bytes of a struct stat: \<open>dev\<close>, \<open>ino\<close>, \<open>type\<close>, \<open>nlink\<close>, padding to 16, \<open>size\<close>.\<close>

definition stat_bytes :: "stat \<Rightarrow> byte list" where
  "stat_bytes st = map (\<lambda>i. put32 20 (ucast (drop_bit 32 (st_size st))) (put32 16 (ucast (st_size st))
     (put16 10 (st_nlink st) (put16 8 (st_type st) (put32 4 (st_ino st) (put32 0 (st_dev st) (\<lambda>_. 0)))))) i) [0..<24]"

definition filestat :: "nat \<Rightarrow> u64 \<Rightarrow> 'b flsys_scheme \<Rightarrow> (int, 'b flsys_scheme) res" where
  "filestat f addr s = andthen (this_proc s) (\<lambda>p s.
     if f_type (files s f) = FD_INODE \<or> f_type (files s f) = FD_DEVICE then
       andthen (ilock (f_ip (files s f)) s) (\<lambda>_ s.
       let st = stati (f_ip (files s f)) s
       in andthen (iunlock (f_ip (files s f)) s) (\<lambda>_ s.
          andthen (copyout (p_pagetable (procs s p)) addr (stat_bytes st) s) (\<lambda>r s.
          Ret (if r < 0 then - 1 else 0) s)))
     else Ret (- 1) s)"

definition dev_of :: "u16 \<Rightarrow> 'b flsys_scheme \<Rightarrow> devfn option" where
  "dev_of major s = (if sint major < 0 \<or> NDEV \<le> sint major then None else devsw s (sint major))"

definition fileread :: "nat \<Rightarrow> u64 \<Rightarrow> int \<Rightarrow> 'b flsys_scheme \<Rightarrow> (int, 'b flsys_scheme) res" where
  "fileread f addr n s =
     (let r = files s f
      in if \<not> f_readable r then Ret (- 1) s
         else case f_type r of
           FD_PIPE \<Rightarrow> piperead (f_pipe r) addr n s
         | FD_DEVICE \<Rightarrow>
             (case dev_of (f_major r) s of
                None \<Rightarrow> Ret (- 1) s
              | Some ConsoleDev \<Rightarrow> consoleread (UserDst addr) n s)
         | FD_INODE \<Rightarrow>
             andthen (ilock (f_ip r) s) (\<lambda>_ s.
             andthen (readi (f_ip r) (UserDst addr) (f_off (files s f)) (word_of_int n) s) (\<lambda>(c, _) s.
             let s = (if 0 < c then upd_file f (\<lambda>r. r\<lparr>f_off := f_off r + word_of_int c\<rparr>) s else s)
             in andthen (iunlock (f_ip r) s) (\<lambda>_ s. Ret c s)))
         | FD_NONE \<Rightarrow> Halt (Panic ''fileread'') s)"

text \<open>The largest piece written in one transaction.\<close>

definition write_max :: int where
  "write_max = int ((MAXOPBLOCKS - 1 - 1 - 2) div 2 * BSIZE)"

function filewrite_from :: "nat \<Rightarrow> u64 \<Rightarrow> int \<Rightarrow> int \<Rightarrow> 'b flsys_scheme \<Rightarrow> (int, 'b flsys_scheme) res" where
  "filewrite_from f addr n i s =
     (if i < n then
        let n1 = (if write_max < n - i then write_max else n - i)
        in andthen (begin_op s) (\<lambda>_ s.
           andthen (ilock (f_ip (files s f)) s) (\<lambda>_ s.
           andthen (writei (f_ip (files s f)) (UserSrc (addr + of_int i)) (f_off (files s f)) (word_of_int n1) s) (\<lambda>r s.
           let s = (if 0 < r then upd_file f (\<lambda>x. x\<lparr>f_off := f_off x + word_of_int r\<rparr>) s else s)
           in andthen (iunlock (f_ip (files s f)) s) (\<lambda>_ s.
              andthen (end_op s) (\<lambda>_ s.
              if r \<noteq> n1 then Ret i s else filewrite_from f addr n (i + r) s)))))
      else Ret i s)"
  by pat_completeness auto
termination
  by (relation "measure (\<lambda>(f, addr, n, i, s). nat (n - i))") (auto simp: write_max_def MAXOPBLOCKS_def BSIZE_def split: if_splits)

declare filewrite_from.simps [simp del]

definition filewrite :: "nat \<Rightarrow> u64 \<Rightarrow> int \<Rightarrow> 'b flsys_scheme \<Rightarrow> (int, 'b flsys_scheme) res" where
  "filewrite f addr n s =
     (let r = files s f
      in if \<not> f_writable r then Ret (- 1) s
         else case f_type r of
           FD_PIPE \<Rightarrow> pipewrite (f_pipe r) addr n s
         | FD_DEVICE \<Rightarrow>
             (case dev_of (f_major r) s of
                None \<Rightarrow> Ret (- 1) s
              | Some ConsoleDev \<Rightarrow> consolewrite (UserSrc addr) n s)
         | FD_INODE \<Rightarrow> andthen (filewrite_from f addr n 0 s) (\<lambda>i s. Ret (if i = n then n else - 1) s)
         | FD_NONE \<Rightarrow> Halt (Panic ''filewrite'') s)"

section \<open>Creating a pipe\<close>

definition close_opt :: "nat option \<Rightarrow> 'b flsys_scheme \<Rightarrow> (unit, 'b flsys_scheme) res" where
  "close_opt f s = (case f of None \<Rightarrow> Ret () s | Some f \<Rightarrow> fileclose f s)"

text \<open>The result is the pair \<open>*f0\<close>, \<open>*f1\<close>; \<open>None\<close> is the result -1.\<close>

definition pipealloc :: "'b flsys_scheme \<Rightarrow> ((nat \<times> nat) option, 'b flsys_scheme) res" where
  "pipealloc s = andthen (filealloc s) (\<lambda>f0 s.
     andthen (if f0 = None then Ret None s else filealloc s) (\<lambda>f1 s.
     andthen (if f0 = None \<or> f1 = None then Ret 0 s else kalloc s) (\<lambda>p s.
     case (f0, f1) of
       (Some r, Some w) \<Rightarrow>
         if p \<noteq> 0 then
           let s = upd_pipe p (\<lambda>x. x\<lparr>pi_readopen := True, pi_writeopen := True, pi_nwrite := 0, pi_nread := 0\<rparr>) s;
               s = initlock (PipeLock p) ''pipe'' s;
               s = upd_file r (\<lambda>x. x\<lparr>f_type := FD_PIPE, f_readable := True, f_writable := False, f_pipe := p\<rparr>) s;
               s = upd_file w (\<lambda>x. x\<lparr>f_type := FD_PIPE, f_readable := False, f_writable := True, f_pipe := p\<rparr>) s
           in Ret (Some (r, w)) s
         else andthen (close_opt f0 s) (\<lambda>_ s. andthen (close_opt f1 s) (\<lambda>_ s. Ret None s))
     | _ \<Rightarrow> andthen (close_opt f0 s) (\<lambda>_ s. andthen (close_opt f1 s) (\<lambda>_ s. Ret None s)))))"

end
