(* ===== verification/Life.thy ===== *)
theory Life
  imports File
begin

text \<open>
  Creation and termination of processes and threads: the operations of
  \<^verbatim>\<open>kernel/proc.c\<close> that also use open files, inodes and the log.
\<close>

section \<open>fork and exit\<close>

definition tf_store :: "nat \<Rightarrow> u64 \<Rightarrow> u64 \<Rightarrow> 'b psys_scheme \<Rightarrow> 'b psys_scheme" where
  "tf_store p off v s = s\<lparr>mem := store64 (mem s) (p_trapframe (procs s p) + off) v\<rparr>"

definition tf_load :: "nat \<Rightarrow> u64 \<Rightarrow> 'b psys_scheme \<Rightarrow> u64" where
  "tf_load p off s = load64 (mem s) (p_trapframe (procs s p) + off)"

definition tf_copy :: "nat \<Rightarrow> nat \<Rightarrow> 'b psys_scheme \<Rightarrow> 'b psys_scheme" where
  "tf_copy np p s = s\<lparr>mem := put_bytes (mem s) (p_trapframe (procs s np))
     (get_bytes (mem s) (p_trapframe (procs s p)) TF_size)\<rparr>"

text \<open>The open files are duplicated slot by slot.\<close>

primrec dup_files :: "nat \<Rightarrow> nat \<Rightarrow> nat list \<Rightarrow> 'b flsys_scheme \<Rightarrow> (unit, 'b flsys_scheme) res" where
  "dup_files p np [] s = Ret () s"
| "dup_files p np (i # is) s =
     andthen (case p_ofile (procs s p) i of
                None \<Rightarrow> Ret () s
              | Some f \<Rightarrow> andthen (filedup f s) (\<lambda>f s.
                  Ret () (upd_proc np (\<lambda>r. r\<lparr>p_ofile := (p_ofile r)(i := Some f)\<rparr>) s))) (\<lambda>_ s.
     dup_files p np is s)"

definition dup_cwd :: "nat \<Rightarrow> nat \<Rightarrow> 'b flsys_scheme \<Rightarrow> (unit, 'b flsys_scheme) res" where
  "dup_cwd p np s = (case p_cwd (procs s p) of
     None \<Rightarrow> Halt (Fault ''cwd'') s
   | Some ip \<Rightarrow> andthen (idup ip s) (\<lambda>ip s. Ret () (upd_proc np (\<lambda>r. r\<lparr>p_cwd := Some ip\<rparr>) s)))"

text \<open>The last steps of creation: set the parent, and make the process runnable.\<close>

definition launch :: "nat \<Rightarrow> nat \<Rightarrow> 'b flsys_scheme \<Rightarrow> (unit, 'b flsys_scheme) res" where
  "launch p np s = andthen (release (ProcLock np) s) (\<lambda>_ s.
     andthen (acquire WaitLock s) (\<lambda>_ s.
     andthen (release WaitLock (upd_proc np (\<lambda>r. r\<lparr>p_parent := Some p\<rparr>) s)) (\<lambda>_ s.
     andthen (acquire (ProcLock np) s) (\<lambda>_ s.
     release (ProcLock np) (upd_proc np (\<lambda>r. r\<lparr>p_state := RUNNABLE\<rparr>) s)))))"

definition fork :: "'b flsys_scheme \<Rightarrow> (int, 'b flsys_scheme) res" where
  "fork s = andthen (this_proc s) (\<lambda>p s.
     andthen (allocproc s) (\<lambda>r s.
     case r of
       None \<Rightarrow> Ret (- 1) s
     | Some np \<Rightarrow>
         andthen (uvmcopy (p_pagetable (procs s p)) (p_pagetable (procs s np)) (p_sz (procs s p)) s) (\<lambda>r s.
         if r < 0 then
           andthen (freeproc np s) (\<lambda>_ s. andthen (release (ProcLock np) s) (\<lambda>_ s. Ret (- 1) s))
         else
           let s = upd_proc np (\<lambda>r. r\<lparr>p_sz := p_sz (procs s p)\<rparr>) s;
               s = tf_copy np p s;
               s = tf_store np (TF_a 0) 0 s
           in andthen (dup_files p np [0..<NOFILE] s) (\<lambda>_ s.
              andthen (dup_cwd p np s) (\<lambda>_ s.
              let s = upd_proc np (\<lambda>r. r\<lparr>p_name := safestrcpy (p_name r) (p_name (procs s p)) 16\<rparr>) s;
                  pid = p_pid (procs s np)
              in andthen (launch p np s) (\<lambda>_ s. Ret pid s))))))"

primrec close_files :: "nat \<Rightarrow> nat list \<Rightarrow> 'b flsys_scheme \<Rightarrow> (unit, 'b flsys_scheme) res" where
  "close_files p [] s = Ret () s"
| "close_files p (fd # fds) s =
     andthen (case p_ofile (procs s p) fd of
                None \<Rightarrow> Ret () s
              | Some f \<Rightarrow> andthen (fileclose f s) (\<lambda>_ s.
                  Ret () (upd_proc p (\<lambda>r. r\<lparr>p_ofile := (p_ofile r)(fd := None)\<rparr>) s))) (\<lambda>_ s.
     close_files p fds s)"

definition exit :: "int \<Rightarrow> 'b flsys_scheme \<Rightarrow> ('a, 'b flsys_scheme) res" where
  "exit status s = andthen (this_proc s) (\<lambda>p s.
     if Some p = initproc s then Halt (Panic ''init exiting'') s
     else andthen (close_files p [0..<NOFILE] s) (\<lambda>_ s.
       andthen (begin_op s) (\<lambda>_ s.
       case p_cwd (procs s p) of
         None \<Rightarrow> Halt (Fault ''cwd'') s
       | Some cwd \<Rightarrow>
       andthen (iput cwd s) (\<lambda>_ s.
       andthen (end_op s) (\<lambda>_ s.
       let s = upd_proc p (\<lambda>r. r\<lparr>p_cwd := None\<rparr>) s
       in andthen (acquire WaitLock s) (\<lambda>_ s.
          andthen (reparent p s) (\<lambda>_ s.
          andthen (wakeup (map_option ProcChan (p_parent (procs s p))) s) (\<lambda>_ s.
          andthen (acquire (ProcLock p) s) (\<lambda>_ s.
          let s = upd_proc p (\<lambda>r. r\<lparr>p_xstate := status, p_state := ZOMBIE\<rparr>) s
          in andthen (release WaitLock s) (\<lambda>_ s. sched s))))))))))"

section \<open>The first process\<close>

definition initcode :: "byte list" where
  "initcode = [0x17, 0x05, 0x00, 0x00, 0x13, 0x05, 0x45, 0x02, 0x97, 0x05, 0x00, 0x00, 0x93, 0x85, 0x35, 0x02,
     0x93, 0x08, 0x70, 0x00, 0x73, 0x00, 0x00, 0x00, 0x93, 0x08, 0x20, 0x00, 0x73, 0x00, 0x00, 0x00,
     0xef, 0xf0, 0x9f, 0xff, 0x2f, 0x69, 0x6e, 0x69, 0x74, 0x00, 0x00, 0x24, 0x00, 0x00, 0x00, 0x00,
     0x00, 0x00, 0x00, 0x00]"

definition str_bytes :: "string \<Rightarrow> byte list" where
  "str_bytes t = map of_char t"

definition userinit :: "'b flsys_scheme \<Rightarrow> (unit, 'b flsys_scheme) res" where
  "userinit s = andthen (allocproc s) (\<lambda>r s.
     let s = s\<lparr>initproc := r\<rparr>
     in case r of
       None \<Rightarrow> Halt (Fault ''userinit'') s
     | Some p \<Rightarrow>
         andthen (uvmfirst (p_pagetable (procs s p)) initcode s) (\<lambda>_ s.
         let s = upd_proc p (\<lambda>r. r\<lparr>p_sz := PGSIZE\<rparr>) s;
             s = tf_store p TF_epc 0 s;
             s = tf_store p TF_sp PGSIZE s;
             s = upd_proc p (\<lambda>r. r\<lparr>p_name := safestrcpy (p_name r) (list_ptr (str_bytes ''initcode'')) 16\<rparr>) s
         in andthen (namei (str_bytes ''/'') s) (\<lambda>cwd s.
            release (ProcLock p) (upd_proc p (\<lambda>r. r\<lparr>p_cwd := cwd, p_state := RUNNABLE\<rparr>) s))))"

section \<open>Threads\<close>

definition spoon :: "u64 \<Rightarrow> 'b flsys_scheme \<Rightarrow> (int, 'b flsys_scheme) res" where
  "spoon arg s = Ret 0 (kprintf ''In spoon system call with argument %p\<newline>'' [ArgPtr arg] s)"

text \<open>The family of the creating process: found by its pid, or entered.\<close>

definition join_family :: "nat \<Rightarrow> 'b flsys_scheme \<Rightarrow> (unit, 'b flsys_scheme) res" where
  "join_family p s =
     (let pid = p_pid (procs s p)
      in if list_ex (\<lambda>i. families s i = pid) [0..<MAX_FAMILIES] then Ret () s
         else if 0 \<le> currFid s \<and> nat (currFid s) < MAX_FAMILIES then
           let s = s\<lparr>families := (families s)(nat (currFid s) := pid)\<rparr>;
               s = upd_proc p (\<lambda>r. r\<lparr>p_fid := currFid s\<rparr>) s
           in Ret () (s\<lparr>currFid := currFid s + 1\<rparr>)
         else Halt (Fault ''families'') s)"

definition register_thread :: "nat \<Rightarrow> 'b flsys_scheme \<Rightarrow> (unit, 'b flsys_scheme) res" where
  "register_thread np s =
     (if 0 \<le> currId s \<and> nat (currId s) < MAX_THREADS then
        Ret () (s\<lparr>threads := (threads s)(nat (currId s) := Some np), currId := currId s + 1, running := running s + 1\<rparr>)
      else Halt (Fault ''threads'') s)"

definition mythread_create :: "int \<Rightarrow> u64 \<Rightarrow> 'b flsys_scheme \<Rightarrow> (int, 'b flsys_scheme) res" where
  "mythread_create arg1 arg2 s = andthen (this_proc s) (\<lambda>p s.
     let s = upd_proc p (\<lambda>r. r\<lparr>p_isthread := 1\<rparr>) s
     in andthen (allocproc s) (\<lambda>r s.
     case r of
       None \<Rightarrow> Ret (- 1) (log_msg ''error allocating space for new process\<newline>'' s)
     | Some np \<Rightarrow>
         let s = upd_proc np (\<lambda>r. r\<lparr>p_isthread := 1\<rparr>) s
         in andthen (join_family p s) (\<lambda>_ s.
         let s = upd_proc np (\<lambda>r. r\<lparr>p_fid := p_fid (procs s p)\<rparr>) s
         in andthen (copytable (p_pagetable (procs s p)) (p_pagetable (procs s np)) (p_sz (procs s p)) s) (\<lambda>r s.
         if r < 0 then
           andthen (freeproc np (log_msg ''error copying pagetable\<newline>'' s)) (\<lambda>_ s.
           andthen (release (ProcLock np) s) (\<lambda>_ s. Ret (- 1) s))
         else andthen (uvmalloc (p_pagetable (procs s np)) (p_sz (procs s p)) (p_sz (procs s p) + PGSIZE)
                         (PTE_W OR PTE_R) s) (\<lambda>newsize s.
           if newsize = 0 then
             andthen (freeproc np (log_msg ''ERROR ALLOCATING SPACE FOR STACK\<newline>'' s)) (\<lambda>_ s. Ret (- 1) s)
           else
             let s = upd_proc np (\<lambda>r. r\<lparr>p_sz := newsize\<rparr>) s;
                 s = tf_store np TF_sp newsize s;
                 s = tf_store np TF_epc arg2 s;
                 s = tf_store np (TF_a 0) (of_int arg1) s;
                 s = tf_store np TF_ra 0 s
             in andthen (register_thread np s) (\<lambda>_ s.
                andthen (dup_files p np [0..<NOFILE] s) (\<lambda>_ s.
                andthen (dup_cwd p np s) (\<lambda>_ s.
                let s = (if int MAX_THREADS \<le> running s
                         then log_msg ''It is a design decision to save resources/memory to max out the number of threads running on a single process at a time at 1,024\<newline> Please use less threads'' s
                         else s)
                in andthen (launch p np s) (\<lambda>_ s. Ret 0 s)))))))))"

primrec free_threads :: "nat list \<Rightarrow> 'b flsys_scheme \<Rightarrow> (unit, 'b flsys_scheme) res" where
  "free_threads [] s = Ret () s"
| "free_threads (i # is) s =
     (case (if i < MAX_THREADS then threads s i else None) of
        None \<Rightarrow> Halt (Fault ''threads'') s
      | Some p \<Rightarrow>
          andthen (freeproc p (upd_proc p (\<lambda>r. r\<lparr>p_isthread := 0\<rparr>) s)) (\<lambda>_ s. free_threads is s))"

definition mythread_join :: "'b flsys_scheme \<Rightarrow> (int, 'b flsys_scheme) res" where
  "mythread_join s = andthen (wait 0 s) (\<lambda>_ s.
     let s = s\<lparr>running := running s - 1, joined := joined s + 1\<rparr>
     in if running s = 0 then
          andthen (free_threads [0..<nat (currId s - 1)] s) (\<lambda>_ s.
          Ret 0 (s\<lparr>currId := 0, joined := 0, currFid := 0\<rparr>))
        else Ret 0 s)"

end
