(* ===== verification/Virtio.thy ===== *)
theory Virtio
  imports Life
begin

text \<open>
  The disk driver, \<^verbatim>\<open>kernel/virtio_disk.c\<close> and the structures of \<^verbatim>\<open>virtio.h\<close>. The
  addresses that descriptors hold are those of a command header, of a buffer's data
  or of a status byte, and are the datatype \<open>daddr\<close>. Reads of the device's
  registers return \<open>mmio_in\<close>; writes are recorded in \<open>mmio_out\<close>. The device itself is
  not part of the program: what it does to the rings and the buffers is an
  argument of the operations that wait for it.
\<close>

section \<open>State\<close>

definition NUM :: nat where "NUM = 8"

definition VRING_DESC_F_NEXT :: u16 where "VRING_DESC_F_NEXT = 1"

definition VRING_DESC_F_WRITE :: u16 where "VRING_DESC_F_WRITE = 2"

definition VIRTIO_BLK_T_IN :: u32 where "VIRTIO_BLK_T_IN = 0"

definition VIRTIO_BLK_T_OUT :: u32 where "VIRTIO_BLK_T_OUT = 1"

datatype daddr = NullAddr | ReqAddr nat | DataAddr nat | StatusAddr nat

record virtq_desc =
  d_addr :: daddr
  d_len :: u32
  d_flags :: u16
  d_next :: u16

record virtio_blk_req =
  r_type :: u32
  r_reserved :: u32
  r_sector :: u64

record vdisk =
  v_desc :: "nat \<Rightarrow> virtq_desc"
  avail_idx :: u16
  avail_ring :: "nat \<Rightarrow> u16"
  dev_used_idx :: u16
  used_ring :: "nat \<Rightarrow> u32"
  v_free :: "nat \<Rightarrow> bool"
  used_idx :: u16
  info_b :: "nat \<Rightarrow> nat option"
  info_status :: "nat \<Rightarrow> byte"
  v_ops :: "nat \<Rightarrow> virtio_blk_req"

record vsys = flsys +
  vd :: vdisk
  mmio_in :: "nat \<Rightarrow> u32"
  mmio_out :: "(nat \<times> u32) list"

definition upd_vd :: "(vdisk \<Rightarrow> vdisk) \<Rightarrow> 'b vsys_scheme \<Rightarrow> 'b vsys_scheme" where
  "upd_vd f s = s\<lparr>vd := f (vd s)\<rparr>"

definition upd_desc :: "nat \<Rightarrow> (virtq_desc \<Rightarrow> virtq_desc) \<Rightarrow> 'b vsys_scheme \<Rightarrow> 'b vsys_scheme" where
  "upd_desc i f s = upd_vd (\<lambda>v. v\<lparr>v_desc := (v_desc v)(i := f (v_desc v i))\<rparr>) s"

definition mmio_write :: "nat \<Rightarrow> u32 \<Rightarrow> 'b vsys_scheme \<Rightarrow> 'b vsys_scheme" where
  "mmio_write r v s = s\<lparr>mmio_out := mmio_out s @ [(r, v)]\<rparr>"

section \<open>Initialisation\<close>

definition clear_features :: "u32 \<Rightarrow> u32" where
  "clear_features f = f AND NOT (push_bit 5 1) AND NOT (push_bit 7 1) AND NOT (push_bit 11 1) AND NOT (push_bit 12 1)
     AND NOT (push_bit 27 1) AND NOT (push_bit 29 1) AND NOT (push_bit 28 1)"

definition virtio_disk_init :: "'b vsys_scheme \<Rightarrow> (unit, 'b vsys_scheme) res" where
  "virtio_disk_init s =
     (let s = initlock VdiskLock ''virtio_disk'' s
      in if mmio_in s 0x000 \<noteq> 0x74726976 \<or> mmio_in s 0x004 \<noteq> 2 \<or> mmio_in s 0x008 \<noteq> 2 \<or> mmio_in s 0x00c \<noteq> 0x554d4551
         then Halt (Panic ''could not find virtio disk'') s
         else let s = mmio_write 0x070 0 s;
                  s = mmio_write 0x070 1 s;
                  s = mmio_write 0x070 3 s;
                  s = mmio_write 0x020 (clear_features (mmio_in s 0x010)) s;
                  s = mmio_write 0x070 11 s;
                  status = mmio_in s 0x070
              in if status AND 8 = 0 then Halt (Panic ''virtio disk FEATURES_OK unset'') s
                 else let s = mmio_write 0x030 0 s
                      in if mmio_in s 0x044 \<noteq> 0 then Halt (Panic ''virtio disk should not be ready'') s
                         else if mmio_in s 0x034 = 0 then Halt (Panic ''virtio disk has no queue 0'') s
                         else if mmio_in s 0x034 < of_nat NUM then Halt (Panic ''virtio disk max queue too short'') s
                         else andthen (kalloc s) (\<lambda>desc s.
                              andthen (kalloc s) (\<lambda>avail s.
                              andthen (kalloc s) (\<lambda>used s.
                              if desc = 0 \<or> avail = 0 \<or> used = 0 then Halt (Panic ''virtio disk kalloc'') s
                              else let s = s\<lparr>mem := memset (memset (memset (mem s) desc 0 4096) avail 0 4096) used 0 4096\<rparr>;
                                       s = upd_vd (\<lambda>v. v\<lparr>v_desc := (\<lambda>_. \<lparr>d_addr = NullAddr, d_len = 0, d_flags = 0, d_next = 0\<rparr>),
                                             avail_idx := 0, avail_ring := (\<lambda>_. 0), dev_used_idx := 0, used_ring := (\<lambda>_. 0)\<rparr>) s;
                                       s = mmio_write 0x038 (of_nat NUM) s;
                                       s = mmio_write 0x080 (ucast desc) s;
                                       s = mmio_write 0x084 (ucast (drop_bit 32 desc)) s;
                                       s = mmio_write 0x090 (ucast avail) s;
                                       s = mmio_write 0x094 (ucast (drop_bit 32 avail)) s;
                                       s = mmio_write 0x0a0 (ucast used) s;
                                       s = mmio_write 0x0a4 (ucast (drop_bit 32 used)) s;
                                       s = mmio_write 0x044 1 s;
                                       s = upd_vd (\<lambda>v. v\<lparr>v_free := (\<lambda>i. if i < NUM then True else v_free v i)\<rparr>) s
                                   in Ret () (mmio_write 0x070 (status OR 4) s)))))"

section \<open>Descriptors\<close>

primrec first_free :: "(nat \<Rightarrow> bool) \<Rightarrow> nat list \<Rightarrow> nat option" where
  "first_free fr [] = None"
| "first_free fr (i # is) = (if fr i then Some i else first_free fr is)"

definition alloc_desc :: "'b vsys_scheme \<Rightarrow> nat option \<times> 'b vsys_scheme" where
  "alloc_desc s = (case first_free (v_free (vd s)) [0..<NUM] of
     None \<Rightarrow> (None, s)
   | Some i \<Rightarrow> (Some i, upd_vd (\<lambda>v. v\<lparr>v_free := (v_free v)(i := False)\<rparr>) s))"

definition free_desc :: "nat \<Rightarrow> 'b vsys_scheme \<Rightarrow> (unit, 'b vsys_scheme) res" where
  "free_desc i s =
     (if NUM \<le> i then Halt (Panic ''free_desc 1'') s
      else if v_free (vd s) i then Halt (Panic ''free_desc 2'') s
      else let s = upd_desc i (\<lambda>d. d\<lparr>d_addr := NullAddr, d_len := 0, d_flags := 0, d_next := 0\<rparr>) s;
               s = upd_vd (\<lambda>v. v\<lparr>v_free := (v_free v)(i := True)\<rparr>) s
           in wakeup (Some DescChan) s)"

text \<open>\<open>free_chain\<close> ends: each round makes one more descriptor free, and a free one panics.\<close>

lemma wframe_vd: "wframe s t \<Longrightarrow> vd t = vd (s :: 'b vsys_scheme)"
  by (auto simp: wframe_def)

lemma free_desc_Ret:
  assumes "free_desc i s = Ret a t"
  shows "i < NUM" "\<not> v_free (vd s) i" "v_free (vd t) = (v_free (vd s))(i := True)"
  using assms by (auto simp: free_desc_def Let_def upd_desc_def upd_vd_def dest!: wakeup_Ret wframe_vd split: if_splits)

lemma busy_less:
  assumes "i < NUM" "\<not> fr i"
  shows "card {j. j < NUM \<and> \<not> (fr(i := True)) j} < card {j. j < NUM \<and> \<not> fr j}"
  by (rule psubset_card_mono) (use assms in auto)

function free_chain :: "nat \<Rightarrow> 'b vsys_scheme \<Rightarrow> (unit, 'b vsys_scheme) res" where
  "free_chain i s =
     (let flag = d_flags (v_desc (vd s) i); nxt = d_next (v_desc (vd s) i)
      in andthen (free_desc i s) (\<lambda>_ s.
         if flag AND VRING_DESC_F_NEXT \<noteq> 0 then free_chain (unat nxt) s else Ret () s))"
  by pat_completeness auto
termination
proof (relation "measure (\<lambda>(i, s). card {j. j < NUM \<and> \<not> v_free (vd s) j})")
  fix i j :: nat and s t :: "'b vsys_scheme" and a
  assume "free_desc i s = Ret a t"
  note F = free_desc_Ret [OF this]
  show "((j, t), (i, s)) \<in> measure (\<lambda>(i, s). card {j. j < NUM \<and> \<not> v_free (vd s) j})"
    using busy_less [of i "v_free (vd s)"] F by simp
qed simp

declare free_chain.simps [simp del]

primrec free_descs :: "nat list \<Rightarrow> 'b vsys_scheme \<Rightarrow> (unit, 'b vsys_scheme) res" where
  "free_descs [] s = Ret () s"
| "free_descs (i # is) s = andthen (free_desc i s) (\<lambda>_ s. free_descs is s)"

text \<open>\<open>alloc3_desc\<close>: the indices taken, or \<open>None\<close> for the result -1.\<close>

primrec alloc_descs :: "nat \<Rightarrow> nat list \<Rightarrow> 'b vsys_scheme \<Rightarrow> (nat list option, 'b vsys_scheme) res" where
  "alloc_descs 0 idx s = Ret (Some idx) s"
| "alloc_descs (Suc k) idx s =
     (let (r, s) = alloc_desc s
      in case r of
           None \<Rightarrow> andthen (free_descs idx s) (\<lambda>_ s. Ret None s)
         | Some i \<Rightarrow> alloc_descs k (idx @ [i]) s)"

definition alloc3_desc :: "'b vsys_scheme \<Rightarrow> (nat list option, 'b vsys_scheme) res" where
  "alloc3_desc s = alloc_descs 3 [] s"

section \<open>Requests\<close>

definition fill_request :: "nat \<Rightarrow> bool \<Rightarrow> nat \<Rightarrow> nat \<Rightarrow> nat \<Rightarrow> 'b vsys_scheme \<Rightarrow> 'b vsys_scheme" where
  "fill_request b write i0 i1 i2 s =
     (let sector = b_blockno (bufs s b) * 2;
          s = upd_vd (\<lambda>v. v\<lparr>v_ops := (v_ops v)(i0 := \<lparr>r_type = (if write then VIRTIO_BLK_T_OUT else VIRTIO_BLK_T_IN),
                r_reserved = 0, r_sector = ucast sector\<rparr>)\<rparr>) s;
          s = upd_desc i0 (\<lambda>_. \<lparr>d_addr = ReqAddr i0, d_len = 16, d_flags = VRING_DESC_F_NEXT, d_next = of_nat i1\<rparr>) s;
          s = upd_desc i1 (\<lambda>_. \<lparr>d_addr = DataAddr b, d_len = of_nat BSIZE,
                d_flags = (if write then 0 else VRING_DESC_F_WRITE) OR VRING_DESC_F_NEXT, d_next = of_nat i2\<rparr>) s;
          s = upd_vd (\<lambda>v. v\<lparr>info_status := (info_status v)(i0 := 0xff)\<rparr>) s;
          s = upd_desc i2 (\<lambda>_. \<lparr>d_addr = StatusAddr i0, d_len = 1, d_flags = VRING_DESC_F_WRITE, d_next = 0\<rparr>) s;
          s = upd_buf b (\<lambda>r. r\<lparr>b_disk := True\<rparr>) s;
          s = upd_vd (\<lambda>v. v\<lparr>info_b := (info_b v)(i0 := Some b)\<rparr>) s;
          s = upd_vd (\<lambda>v. v\<lparr>avail_ring := (avail_ring v)(unat (avail_idx v) mod NUM := of_nat i0)\<rparr>) s;
          s = upd_vd (\<lambda>v. v\<lparr>avail_idx := avail_idx v + 1\<rparr>) s
      in mmio_write 0x050 0 s)"

text \<open>The part of \<open>virtio_disk_rw\<close> before the wait: it returns the head of the chain, with the lock held.\<close>

definition virtio_start :: "nat \<Rightarrow> bool \<Rightarrow> 'b vsys_scheme \<Rightarrow> (nat, 'b vsys_scheme) res" where
  "virtio_start b write s = andthen (acquire VdiskLock s) (\<lambda>_ s.
     andthen (alloc3_desc s) (\<lambda>r s.
     case r of
       Some [i0, i1, i2] \<Rightarrow> Ret i0 (fill_request b write i0 i1 i2 s)
     | _ \<Rightarrow> sleep (Some DescChan) VdiskLock s))"

definition virtio_finish :: "nat \<Rightarrow> 'b vsys_scheme \<Rightarrow> (unit, 'b vsys_scheme) res" where
  "virtio_finish i0 s =
     andthen (free_chain i0 (upd_vd (\<lambda>v. v\<lparr>info_b := (info_b v)(i0 := None)\<rparr>) s)) (\<lambda>_ s.
     release VdiskLock s)"

text \<open>The wait for completion: \<open>nap\<close> is one \<open>sleep\<close> on the buffer, from the release of the lock until it is held again.\<close>

primrec virtio_wait ::
    "('b vsys_scheme \<Rightarrow> (unit, 'b vsys_scheme) res) \<Rightarrow> nat \<Rightarrow> nat \<Rightarrow> 'b vsys_scheme \<Rightarrow> (unit, 'b vsys_scheme) res" where
  "virtio_wait nap 0 b s = (if b_disk (bufs s b) then Halt OutOfFuel s else Ret () s)"
| "virtio_wait nap (Suc k) b s =
     (if b_disk (bufs s b) then andthen (nap s) (\<lambda>_ s. virtio_wait nap k b s) else Ret () s)"

definition virtio_disk_rw ::
    "('b vsys_scheme \<Rightarrow> (unit, 'b vsys_scheme) res) \<Rightarrow> nat \<Rightarrow> nat \<Rightarrow> bool \<Rightarrow> 'b vsys_scheme \<Rightarrow> (unit, 'b vsys_scheme) res" where
  "virtio_disk_rw nap fuel b write s = andthen (virtio_start b write s) (\<lambda>i0 s.
     andthen (virtio_wait nap fuel b s) (\<lambda>_ s. virtio_finish i0 s))"

section \<open>Completion\<close>

text \<open>The loop of the interrupt handler; each round consumes one used entry.\<close>

lemma used_less: "u \<noteq> d \<Longrightarrow> unat (d - (u + 1) :: u16) < unat (d - u)"
proof -
  assume "u \<noteq> d"
  then have "d - u \<noteq> 0" by simp
  then have "unat (d - u - 1) < unat (d - u)" by (simp add: unat_minus_one unat_gt_0)
  then show ?thesis by (simp add: algebra_simps)
qed

function intr_loop :: "'b vsys_scheme \<Rightarrow> (unit, 'b vsys_scheme) res" where
  "intr_loop s =
     (if used_idx (vd s) \<noteq> dev_used_idx (vd s) then
        let i = unat (used_ring (vd s) (unat (used_idx (vd s)) mod NUM))
        in if NUM \<le> i then Halt (Fault ''disk.info'') s
           else if info_status (vd s) i \<noteq> 0 then Halt (Panic ''virtio_disk_intr status'') s
           else case info_b (vd s) i of
                  None \<Rightarrow> Halt (Fault ''disk.info.b'') s
                | Some b \<Rightarrow>
                    let s = upd_buf b (\<lambda>r. r\<lparr>b_disk := False\<rparr>) s
                    in andthen (wakeup (Some (BufChan b)) s) (\<lambda>_ s.
                       intr_loop (upd_vd (\<lambda>v. v\<lparr>used_idx := used_idx v + 1\<rparr>) s))
      else Ret () s)"
  by pat_completeness auto
termination
proof (relation "measure (\<lambda>s. unat (dev_used_idx (vd s) - used_idx (vd s)))")
  fix s t z :: "'b vsys_scheme" and a b i
  assume n: "used_idx (vd s) \<noteq> dev_used_idx (vd s)" and z: "z = upd_buf b (\<lambda>r. r\<lparr>b_disk := False\<rparr>) s"
    and w: "wakeup (Some (BufChan b)) z = Ret a t"
  have "vd t = vd s" using wframe_vd [OF wakeup_Ret [OF w]] z by (simp add: upd_buf_def)
  then show "(upd_vd (\<lambda>v. v\<lparr>used_idx := used_idx v + 1\<rparr>) t, s)
      \<in> measure (\<lambda>s. unat (dev_used_idx (vd s) - used_idx (vd s)))"
    using used_less [OF n] by (simp add: upd_vd_def)
qed simp

declare intr_loop.simps [simp del]

definition virtio_disk_intr :: "'b vsys_scheme \<Rightarrow> (unit, 'b vsys_scheme) res" where
  "virtio_disk_intr s = andthen (acquire VdiskLock s) (\<lambda>_ s.
     let s = mmio_write 0x064 (mmio_in s 0x060 AND 3) s
     in andthen (intr_loop s) (\<lambda>_ s. release VdiskLock s))"

end
