(* ===== verification/Exec.thy ===== *)
theory Exec
  imports Virtio
begin

text \<open>
  System call arguments (\<open>fetchaddr\<close> to \<open>argstr\<close> of \<^verbatim>\<open>kernel/syscall.c\<close>) and program
  loading, \<^verbatim>\<open>kernel/exec.c\<close>. A string fetched from user memory is the byte list
  without its terminating zero.
\<close>

section \<open>Arguments\<close>

definition get64 :: "block \<Rightarrow> nat \<Rightarrow> u64" where
  "get64 d i = ucast (get32 d i) OR push_bit 32 (ucast (get32 d (i + 4)))"

definition fetchaddr :: "u64 \<Rightarrow> 'b psys_scheme \<Rightarrow> (int \<times> u64, 'b psys_scheme) res" where
  "fetchaddr addr s = andthen (this_proc s) (\<lambda>p s.
     if p_sz (procs s p) \<le> addr \<or> p_sz (procs s p) < addr + 8 then Ret (- 1, 0) s
     else andthen (copyin (p_pagetable (procs s p)) addr 8 s) (\<lambda>(r, bs) s.
       if r \<noteq> 0 then Ret (- 1, 0) s else Ret (0, get64 (list_ptr bs) 0) s))"

text \<open>The bytes stored in the buffer come with the result.\<close>

definition fetchstr :: "u64 \<Rightarrow> nat \<Rightarrow> 'b psys_scheme \<Rightarrow> (int \<times> byte list, 'b psys_scheme) res" where
  "fetchstr addr mx s = andthen (this_proc s) (\<lambda>p s.
     andthen (copyinstr (p_pagetable (procs s p)) addr mx s) (\<lambda>(r, bs) s.
     if r < 0 then Ret (- 1, bs) s
     else Ret (int (length (takeWhile (\<lambda>c. c \<noteq> 0) bs)), bs) s))"

definition argraw :: "nat \<Rightarrow> 'b psys_scheme \<Rightarrow> (u64, 'b psys_scheme) res" where
  "argraw n s = andthen (this_proc s) (\<lambda>p s.
     if n < 6 then Ret (tf_load p (TF_a n) s) s else Halt (Panic ''argraw'') s)"

definition argint :: "nat \<Rightarrow> 'b psys_scheme \<Rightarrow> (int, 'b psys_scheme) res" where
  "argint n s = andthen (argraw n s) (\<lambda>v s. Ret (sint (ucast v :: u32)) s)"

definition argaddr :: "nat \<Rightarrow> 'b psys_scheme \<Rightarrow> (u64, 'b psys_scheme) res" where
  "argaddr n s = argraw n s"

definition argstr :: "nat \<Rightarrow> nat \<Rightarrow> 'b psys_scheme \<Rightarrow> (int \<times> byte list, 'b psys_scheme) res" where
  "argstr n mx s = andthen (argaddr n s) (\<lambda>addr s. fetchstr addr mx s)"

definition cstr :: "byte list \<Rightarrow> byte list" where
  "cstr bs = takeWhile (\<lambda>c. c \<noteq> 0) bs"

section \<open>Loading\<close>

definition MAXARG :: nat where "MAXARG = 32"

definition MAXPATH :: nat where "MAXPATH = 128"

definition ELF_MAGIC :: u32 where "ELF_MAGIC = 0x464C457F"

definition ELF_PROG_LOAD :: u32 where "ELF_PROG_LOAD = 1"

definition ELFHDR_SIZE :: nat where "ELFHDR_SIZE = 64"

definition PROGHDR_SIZE :: nat where "PROGHDR_SIZE = 56"

record elfhdr =
  e_magic :: u32
  e_entry :: u64
  e_phoff :: u64
  e_phnum :: u16

record proghdr =
  ph_type :: u32
  ph_flags :: u32
  ph_off :: u64
  ph_vaddr :: u64
  ph_filesz :: u64
  ph_memsz :: u64

definition parse_elf :: "byte list \<Rightarrow> elfhdr" where
  "parse_elf bs = (let d = list_ptr bs
     in \<lparr>e_magic = get32 d 0, e_entry = get64 d 24, e_phoff = get64 d 32, e_phnum = get16 d 56\<rparr>)"

definition parse_ph :: "byte list \<Rightarrow> proghdr" where
  "parse_ph bs = (let d = list_ptr bs
     in \<lparr>ph_type = get32 d 0, ph_flags = get32 d 4, ph_off = get64 d 8, ph_vaddr = get64 d 16,
         ph_filesz = get64 d 32, ph_memsz = get64 d 40\<rparr>)"

definition flags2perm :: "u32 \<Rightarrow> u64" where
  "flags2perm flags = (if flags AND 1 \<noteq> 0 then PTE_X else 0) OR (if flags AND 2 \<noteq> 0 then PTE_W else 0)"

function loadseg_from :: "u64 \<Rightarrow> u64 \<Rightarrow> nat \<Rightarrow> u32 \<Rightarrow> nat \<Rightarrow> nat \<Rightarrow> 'b fsys_scheme \<Rightarrow> (int, 'b fsys_scheme) res" where
  "loadseg_from pt va ip offset sz i s =
     (if i < sz then
        andthen (walkaddr pt (va + of_nat i) s) (\<lambda>pa s.
        if pa = 0 then Halt (Panic ''loadseg: address should exist'') s
        else let n = (if sz - i < 4096 then sz - i else 4096)
             in andthen (readi ip (PageDst pa) (offset + of_nat i) (of_nat n) s) (\<lambda>(r, _) s.
                if r \<noteq> int n then Ret (- 1) s
                else loadseg_from pt va ip offset sz (i + 4096) s))
      else Ret 0 s)"
  by pat_completeness auto
termination
  by (relation "measure (\<lambda>(pt, va, ip, offset, sz, i, s). sz - i)") auto

declare loadseg_from.simps [simp del]

definition loadseg :: "u64 \<Rightarrow> u64 \<Rightarrow> nat \<Rightarrow> u32 \<Rightarrow> u32 \<Rightarrow> 'b fsys_scheme \<Rightarrow> (int, 'b fsys_scheme) res" where
  "loadseg pt va ip offset sz s = loadseg_from pt va ip offset (unat sz) 0 s"

text \<open>The loop over the program headers: whether it succeeded, and the size reached.\<close>

primrec exec_load :: "u64 \<Rightarrow> nat \<Rightarrow> nat \<Rightarrow> u32 \<Rightarrow> u64 \<Rightarrow> 'b fsys_scheme \<Rightarrow> (bool \<times> u64, 'b fsys_scheme) res" where
  "exec_load pt ip 0 off sz s = Ret (True, sz) s"
| "exec_load pt ip (Suc k) off sz s =
     andthen (readi ip LocalDst off (of_nat PROGHDR_SIZE) s) (\<lambda>(r, bs) s.
     let ph = parse_ph bs; off' = off + of_nat PROGHDR_SIZE
     in if r \<noteq> int PROGHDR_SIZE then Ret (False, sz) s
        else if ph_type ph \<noteq> ELF_PROG_LOAD then exec_load pt ip k off' sz s
        else if ph_memsz ph < ph_filesz ph then Ret (False, sz) s
        else if ph_vaddr ph + ph_memsz ph < ph_vaddr ph then Ret (False, sz) s
        else if ph_vaddr ph mod PGSIZE \<noteq> 0 then Ret (False, sz) s
        else andthen (uvmalloc pt sz (ph_vaddr ph + ph_memsz ph) (flags2perm (ph_flags ph)) s) (\<lambda>sz1 s.
          if sz1 = 0 then Ret (False, sz) s
          else andthen (loadseg pt (ph_vaddr ph) ip (ucast (ph_off ph)) (ucast (ph_filesz ph)) s) (\<lambda>r s.
            if r < 0 then Ret (False, sz1) s else exec_load pt ip k off' sz1 s)))"

text \<open>The string in a page of the kernel.\<close>

definition page_string :: "mem \<Rightarrow> u64 \<Rightarrow> byte list" where
  "page_string m a = cstr (get_bytes m a 4096)"

text \<open>Pushing the argument strings: the stack pointer and the pointers pushed, or \<open>None\<close> for a failure.\<close>

primrec push_args :: "u64 \<Rightarrow> u64 \<Rightarrow> u64 list \<Rightarrow> u64 \<Rightarrow> u64 list \<Rightarrow> 'b psys_scheme \<Rightarrow> ((u64 \<times> u64 list) option, 'b psys_scheme) res" where
  "push_args pt stackbase [] sp ustack s = Ret (Some (sp, ustack)) s"
| "push_args pt stackbase (a # as) sp ustack s =
     (if MAXARG \<le> length ustack then Ret None s
      else let str = page_string (mem s) a;
               sp = sp - of_nat (length str + 1);
               sp = sp - sp mod 16
           in if sp < stackbase then Ret None s
              else andthen (copyout pt sp (str @ [0]) s) (\<lambda>r s.
                if r < 0 then Ret None s else push_args pt stackbase as sp (ustack @ [sp]) s))"

definition u64_bytes :: "u64 \<Rightarrow> byte list" where
  "u64_bytes v = map (\<lambda>i. ucast (drop_bit (8 * i) v)) [0..<8]"

definition push_ustack :: "u64 \<Rightarrow> u64 \<Rightarrow> u64 \<Rightarrow> u64 list \<Rightarrow> 'b psys_scheme \<Rightarrow> (u64 option, 'b psys_scheme) res" where
  "push_ustack pt stackbase sp ustack s =
     (if MAXARG \<le> length ustack then Halt (Fault ''ustack'') s
      else let sp = sp - of_nat (length ustack + 1) * 8;
               sp = sp - sp mod 16
           in if sp < stackbase then Ret None s
              else andthen (copyout pt sp (concat (map u64_bytes (ustack @ [0]))) s) (\<lambda>r s.
                Ret (if r < 0 then None else Some sp) s))"

text \<open>The program name: what follows the last slash.\<close>

definition basename :: "byte list \<Rightarrow> byte list" where
  "basename path = rev (takeWhile (\<lambda>c. c \<noteq> slash) (rev path))"

definition exec_bad :: "u64 \<Rightarrow> u64 \<Rightarrow> nat option \<Rightarrow> 'b fsys_scheme \<Rightarrow> (int, 'b fsys_scheme) res" where
  "exec_bad pt sz ip s =
     andthen (if pt \<noteq> 0 then proc_freepagetable pt sz s else Ret () s) (\<lambda>_ s.
     andthen (case ip of None \<Rightarrow> Ret () s | Some ip \<Rightarrow> andthen (iunlockput ip s) (\<lambda>_ s. end_op s)) (\<lambda>_ s.
     Ret (- 1) s))"

definition exec_commit ::
    "nat \<Rightarrow> byte list \<Rightarrow> elfhdr \<Rightarrow> u64 \<Rightarrow> u64 \<Rightarrow> u64 \<Rightarrow> u64 \<Rightarrow> nat \<Rightarrow> 'b fsys_scheme \<Rightarrow> (int, 'b fsys_scheme) res" where
  "exec_commit p path elf pt sz oldsz sp argc s =
     (let s = tf_store p (TF_a 1) sp s;
          s = upd_proc p (\<lambda>r. r\<lparr>p_name := safestrcpy (p_name r) (list_ptr (basename path)) 16\<rparr>) s;
          oldpagetable = p_pagetable (procs s p);
          s = upd_proc p (\<lambda>r. r\<lparr>p_pagetable := pt, p_sz := sz\<rparr>) s;
          s = tf_store p TF_epc (e_entry elf) s;
          s = tf_store p TF_sp sp s
      in andthen (proc_freepagetable oldpagetable oldsz s) (\<lambda>_ s. Ret (int argc) s))"

text \<open>After the program is loaded: the stack, its contents and the switch to the new image.\<close>

definition exec_stack :: "byte list \<Rightarrow> u64 list \<Rightarrow> elfhdr \<Rightarrow> u64 \<Rightarrow> u64 \<Rightarrow> 'b fsys_scheme \<Rightarrow> (int, 'b fsys_scheme) res" where
  "exec_stack path argv elf pt sz s = andthen (this_proc s) (\<lambda>p s.
     let oldsz = p_sz (procs s p); sz = PGROUNDUP sz
     in andthen (uvmalloc pt sz (sz + 2 * PGSIZE) PTE_W s) (\<lambda>sz1 s.
        if sz1 = 0 then exec_bad pt sz None s
        else andthen (uvmclear pt (sz1 - 2 * PGSIZE) s) (\<lambda>_ s.
          let stackbase = sz1 - PGSIZE
          in andthen (push_args pt stackbase argv sz1 [] s) (\<lambda>r s.
             case r of
               None \<Rightarrow> exec_bad pt sz1 None s
             | Some (sp, ustack) \<Rightarrow>
                 andthen (push_ustack pt stackbase sp ustack s) (\<lambda>r s.
                 case r of
                   None \<Rightarrow> exec_bad pt sz1 None s
                 | Some sp \<Rightarrow> exec_commit p path elf pt sz1 oldsz sp (length ustack) s)))))"

definition exec :: "byte list \<Rightarrow> u64 list \<Rightarrow> 'b fsys_scheme \<Rightarrow> (int, 'b fsys_scheme) res" where
  "exec path argv s = andthen (this_proc s) (\<lambda>p s.
     andthen (begin_op s) (\<lambda>_ s.
     andthen (namei path s) (\<lambda>r s.
     case r of
       None \<Rightarrow> andthen (end_op s) (\<lambda>_ s. Ret (- 1) s)
     | Some ip \<Rightarrow>
         andthen (ilock ip s) (\<lambda>_ s.
         andthen (readi ip LocalDst 0 (of_nat ELFHDR_SIZE) s) (\<lambda>(r, bs) s.
         if r \<noteq> int ELFHDR_SIZE then exec_bad 0 0 (Some ip) s
         else let elf = parse_elf bs
              in if e_magic elf \<noteq> ELF_MAGIC then exec_bad 0 0 (Some ip) s
                 else andthen (proc_pagetable p s) (\<lambda>pt s.
                   if pt = 0 then exec_bad 0 0 (Some ip) s
                   else andthen (exec_load pt ip (unat (e_phnum elf)) (ucast (e_phoff elf)) 0 s) (\<lambda>(ok, sz) s.
                     if \<not> ok then exec_bad pt sz (Some ip) s
                     else andthen (iunlockput ip s) (\<lambda>_ s.
                          andthen (end_op s) (\<lambda>_ s.
                          exec_stack path argv elf pt sz s)))))))))"

end
