(* ===== verification/Sysfile.thy ===== *)
theory Sysfile
  imports Exec
begin

text \<open>
  The file system calls, \<^verbatim>\<open>kernel/sysfile.c\<close>. The result of a call is the value that
  \<open>syscall\<close> stores in register \<open>a0\<close>.
\<close>

section \<open>Descriptors\<close>

text \<open>The descriptor and the file; \<open>None\<close> is the result -1.\<close>

definition argfd :: "nat \<Rightarrow> 'b flsys_scheme \<Rightarrow> ((int \<times> nat) option, 'b flsys_scheme) res" where
  "argfd n s = andthen (argint n s) (\<lambda>fd s.
     if fd < 0 \<or> int NOFILE \<le> fd then Ret None s
     else andthen (this_proc s) (\<lambda>p s.
       Ret (map_option (\<lambda>f. (fd, f)) (p_ofile (procs s p) (nat fd))) s))"

primrec free_fd :: "(nat \<Rightarrow> nat option) \<Rightarrow> nat list \<Rightarrow> nat option" where
  "free_fd t [] = None"
| "free_fd t (fd # fds) = (if t fd = None then Some fd else free_fd t fds)"

definition fdalloc :: "nat \<Rightarrow> 'b flsys_scheme \<Rightarrow> (int, 'b flsys_scheme) res" where
  "fdalloc f s = andthen (this_proc s) (\<lambda>p s.
     case free_fd (p_ofile (procs s p)) [0..<NOFILE] of
       None \<Rightarrow> Ret (- 1) s
     | Some fd \<Rightarrow> Ret (int fd) (upd_proc p (\<lambda>r. r\<lparr>p_ofile := (p_ofile r)(fd := Some f)\<rparr>) s))"

definition sys_dup :: "'b flsys_scheme \<Rightarrow> (int, 'b flsys_scheme) res" where
  "sys_dup s = andthen (argfd 0 s) (\<lambda>r s.
     case r of
       None \<Rightarrow> Ret (- 1) s
     | Some (_, f) \<Rightarrow>
         andthen (fdalloc f s) (\<lambda>fd s.
         if fd < 0 then Ret (- 1) s
         else andthen (filedup f s) (\<lambda>_ s. Ret fd s)))"

definition sys_read :: "'b flsys_scheme \<Rightarrow> (int, 'b flsys_scheme) res" where
  "sys_read s = andthen (argaddr 1 s) (\<lambda>p s.
     andthen (argint 2 s) (\<lambda>n s.
     andthen (argfd 0 s) (\<lambda>r s.
     case r of None \<Rightarrow> Ret (- 1) s | Some (_, f) \<Rightarrow> fileread f p n s)))"

definition sys_write :: "'b flsys_scheme \<Rightarrow> (int, 'b flsys_scheme) res" where
  "sys_write s = andthen (argaddr 1 s) (\<lambda>p s.
     andthen (argint 2 s) (\<lambda>n s.
     andthen (argfd 0 s) (\<lambda>r s.
     case r of None \<Rightarrow> Ret (- 1) s | Some (_, f) \<Rightarrow> filewrite f p n s)))"

definition sys_close :: "'b flsys_scheme \<Rightarrow> (int, 'b flsys_scheme) res" where
  "sys_close s = andthen (argfd 0 s) (\<lambda>r s.
     case r of
       None \<Rightarrow> Ret (- 1) s
     | Some (fd, f) \<Rightarrow>
         andthen (this_proc s) (\<lambda>p s.
         let s = upd_proc p (\<lambda>r. r\<lparr>p_ofile := (p_ofile r)(nat fd := None)\<rparr>) s
         in andthen (fileclose f s) (\<lambda>_ s. Ret 0 s)))"

definition sys_fstat :: "'b flsys_scheme \<Rightarrow> (int, 'b flsys_scheme) res" where
  "sys_fstat s = andthen (argaddr 1 s) (\<lambda>st s.
     andthen (argfd 0 s) (\<lambda>r s.
     case r of None \<Rightarrow> Ret (- 1) s | Some (_, f) \<Rightarrow> filestat f st s))"

section \<open>Links\<close>

text \<open>Leaving a call with a transaction open.\<close>

definition end_with :: "int \<Rightarrow> 'b fsys_scheme \<Rightarrow> (int, 'b fsys_scheme) res" where
  "end_with r s = andthen (end_op s) (\<lambda>_ s. Ret r s)"

definition link_bad :: "nat \<Rightarrow> 'b flsys_scheme \<Rightarrow> (int, 'b flsys_scheme) res" where
  "link_bad ip s = andthen (ilock ip s) (\<lambda>_ s.
     andthen (iupdate ip (upd_inode ip (\<lambda>r. r\<lparr>i_nlink := i_nlink r - 1\<rparr>) s)) (\<lambda>_ s.
     andthen (iunlockput ip s) (\<lambda>_ s. end_with (- 1) s)))"

definition sys_link :: "'b flsys_scheme \<Rightarrow> (int, 'b flsys_scheme) res" where
  "sys_link s = andthen (argstr 0 MAXPATH s) (\<lambda>(r0, old) s.
     if r0 < 0 then Ret (- 1) s
     else andthen (argstr 1 MAXPATH s) (\<lambda>(r1, new) s.
     if r1 < 0 then Ret (- 1) s
     else andthen (begin_op s) (\<lambda>_ s.
     andthen (namei (cstr old) s) (\<lambda>r s.
     case r of
       None \<Rightarrow> end_with (- 1) s
     | Some ip \<Rightarrow>
         andthen (ilock ip s) (\<lambda>_ s.
         if i_type (inodes s ip) = T_DIR then andthen (iunlockput ip s) (\<lambda>_ s. end_with (- 1) s)
         else andthen (iupdate ip (upd_inode ip (\<lambda>r. r\<lparr>i_nlink := i_nlink r + 1\<rparr>) s)) (\<lambda>_ s.
           andthen (iunlock ip s) (\<lambda>_ s.
           andthen (nameiparent (cstr new) (\<lambda>_. 0) s) (\<lambda>(r, name) s.
           case r of
             None \<Rightarrow> link_bad ip s
           | Some dp \<Rightarrow>
               andthen (ilock dp s) (\<lambda>_ s.
               andthen (if i_dev (inodes s dp) \<noteq> i_dev (inodes s ip) then Ret (- 1) s
                        else dirlink dp name (i_inum (inodes s ip)) s) (\<lambda>e s.
               if e < 0 then andthen (iunlockput dp s) (\<lambda>_ s. link_bad ip s)
               else andthen (iunlockput dp s) (\<lambda>_ s.
                    andthen (iput ip s) (\<lambda>_ s. end_with 0 s))))))))))))"

function isdirempty_from :: "nat \<Rightarrow> nat \<Rightarrow> nat \<Rightarrow> 'b fsys_scheme \<Rightarrow> (bool, 'b fsys_scheme) res" where
  "isdirempty_from dp off sz s =
     (if off < sz then
        andthen (readi dp LocalDst (of_nat off) (of_nat DIRENT_SIZE) s) (\<lambda>(r, de) s.
        if r \<noteq> int DIRENT_SIZE then Halt (Panic ''isdirempty: readi'') s
        else if de_inum de \<noteq> 0 then Ret False s
        else isdirempty_from dp (off + DIRENT_SIZE) sz s)
      else Ret True s)"
  by pat_completeness auto
termination
  by (relation "measure (\<lambda>(dp, off, sz, s). sz - off)") (auto simp: DIRENT_SIZE_def)

declare isdirempty_from.simps [simp del]

definition isdirempty :: "nat \<Rightarrow> 'b fsys_scheme \<Rightarrow> (bool, 'b fsys_scheme) res" where
  "isdirempty dp s = isdirempty_from dp (2 * DIRENT_SIZE) (unat (i_size (inodes s dp))) s"

definition dot :: cptr where "dot = list_ptr (str_bytes ''.'')"

definition dotdot :: cptr where "dotdot = list_ptr (str_bytes ''..'')"

definition unlink_bad :: "nat \<Rightarrow> 'b flsys_scheme \<Rightarrow> (int, 'b flsys_scheme) res" where
  "unlink_bad dp s = andthen (iunlockput dp s) (\<lambda>_ s. end_with (- 1) s)"

definition unlink_entry :: "nat \<Rightarrow> nat \<Rightarrow> nat \<Rightarrow> 'b flsys_scheme \<Rightarrow> (int, 'b flsys_scheme) res" where
  "unlink_entry dp ip off s =
     andthen (writei dp (LocalSrc (replicate DIRENT_SIZE 0)) (of_nat off) (of_nat DIRENT_SIZE) s) (\<lambda>w s.
     if w \<noteq> int DIRENT_SIZE then Halt (Panic ''unlink: writei'') s
     else andthen (if i_type (inodes s ip) = T_DIR
                   then iupdate dp (upd_inode dp (\<lambda>r. r\<lparr>i_nlink := i_nlink r - 1\<rparr>) s)
                   else Ret () s) (\<lambda>_ s.
          andthen (iunlockput dp s) (\<lambda>_ s.
          andthen (iupdate ip (upd_inode ip (\<lambda>r. r\<lparr>i_nlink := i_nlink r - 1\<rparr>) s)) (\<lambda>_ s.
          andthen (iunlockput ip s) (\<lambda>_ s. end_with 0 s)))))"

definition sys_unlink :: "'b flsys_scheme \<Rightarrow> (int, 'b flsys_scheme) res" where
  "sys_unlink s = andthen (argstr 0 MAXPATH s) (\<lambda>(r, path) s.
     if r < 0 then Ret (- 1) s
     else andthen (begin_op s) (\<lambda>_ s.
     andthen (nameiparent (cstr path) (\<lambda>_. 0) s) (\<lambda>(r, name) s.
     case r of
       None \<Rightarrow> end_with (- 1) s
     | Some dp \<Rightarrow>
         andthen (ilock dp s) (\<lambda>_ s.
         if namecmp name dot = 0 \<or> namecmp name dotdot = 0 then unlink_bad dp s
         else andthen (dirlookup dp name s) (\<lambda>r s.
           case r of
             None \<Rightarrow> unlink_bad dp s
           | Some (ip, off) \<Rightarrow>
               andthen (ilock ip s) (\<lambda>_ s.
               if sint (i_nlink (inodes s ip)) < 1 then Halt (Panic ''unlink: nlink < 1'') s
               else andthen (if i_type (inodes s ip) = T_DIR then isdirempty ip s else Ret True s) (\<lambda>e s.
                 if \<not> e then andthen (iunlockput ip s) (\<lambda>_ s. unlink_bad dp s)
                 else unlink_entry dp ip off s)))))))"

section \<open>Creation\<close>

definition create_fail :: "nat \<Rightarrow> nat \<Rightarrow> 'b flsys_scheme \<Rightarrow> (nat option, 'b flsys_scheme) res" where
  "create_fail ip dp s =
     andthen (iupdate ip (upd_inode ip (\<lambda>r. r\<lparr>i_nlink := 0\<rparr>) s)) (\<lambda>_ s.
     andthen (iunlockput ip s) (\<lambda>_ s.
     andthen (iunlockput dp s) (\<lambda>_ s. Ret None s)))"

text \<open>A new inode in directory \<open>dp\<close>, which is locked.\<close>

definition create_new :: "nat \<Rightarrow> cptr \<Rightarrow> u16 \<Rightarrow> u16 \<Rightarrow> u16 \<Rightarrow> 'b flsys_scheme \<Rightarrow> (nat option, 'b flsys_scheme) res" where
  "create_new dp name ty major minor s =
     andthen (ialloc (i_dev (inodes s dp)) ty s) (\<lambda>r s.
     case r of
       None \<Rightarrow> andthen (iunlockput dp s) (\<lambda>_ s. Ret None s)
     | Some ip \<Rightarrow>
         andthen (ilock ip s) (\<lambda>_ s.
         andthen (iupdate ip (upd_inode ip (\<lambda>r. r\<lparr>i_major := major, i_minor := minor, i_nlink := 1\<rparr>) s)) (\<lambda>_ s.
         andthen (if ty = T_DIR then
                    andthen (dirlink ip dot (i_inum (inodes s ip)) s) (\<lambda>e s.
                    if e < 0 then Ret e s else dirlink ip dotdot (i_inum (inodes s dp)) s)
                  else Ret 0 s) (\<lambda>e s.
         if e < 0 then create_fail ip dp s
         else andthen (dirlink dp name (i_inum (inodes s ip)) s) (\<lambda>e s.
           if e < 0 then create_fail ip dp s
           else andthen (if ty = T_DIR
                         then iupdate dp (upd_inode dp (\<lambda>r. r\<lparr>i_nlink := i_nlink r + 1\<rparr>) s)
                         else Ret () s) (\<lambda>_ s.
                andthen (iunlockput dp s) (\<lambda>_ s. Ret (Some ip) s)))))))"

definition create :: "byte list \<Rightarrow> u16 \<Rightarrow> u16 \<Rightarrow> u16 \<Rightarrow> 'b flsys_scheme \<Rightarrow> (nat option, 'b flsys_scheme) res" where
  "create path ty major minor s = andthen (nameiparent path (\<lambda>_. 0) s) (\<lambda>(r, name) s.
     case r of
       None \<Rightarrow> Ret None s
     | Some dp \<Rightarrow>
         andthen (ilock dp s) (\<lambda>_ s.
         andthen (dirlookup dp name s) (\<lambda>r s.
         case r of
           Some (ip, _) \<Rightarrow>
             andthen (iunlockput dp s) (\<lambda>_ s.
             andthen (ilock ip s) (\<lambda>_ s.
             if ty = T_FILE \<and> (i_type (inodes s ip) = T_FILE \<or> i_type (inodes s ip) = T_DEVICE) then Ret (Some ip) s
             else andthen (iunlockput ip s) (\<lambda>_ s. Ret None s)))
         | None \<Rightarrow> create_new dp name ty major minor s)))"

definition O_RDONLY :: int where "O_RDONLY = 0"

definition O_WRONLY :: int where "O_WRONLY = 1"

definition O_RDWR :: int where "O_RDWR = 2"

definition O_CREATE :: int where "O_CREATE = 0x200"

definition O_TRUNC :: int where "O_TRUNC = 0x400"

text \<open>The inode that \<open>open\<close> finds or creates, locked; \<open>None\<close> when the transaction has been ended.\<close>

definition open_inode :: "byte list \<Rightarrow> int \<Rightarrow> 'b flsys_scheme \<Rightarrow> (nat option, 'b flsys_scheme) res" where
  "open_inode path omode s =
     (if omode AND O_CREATE \<noteq> 0 then
        andthen (create path T_FILE 0 0 s) (\<lambda>r s.
        case r of None \<Rightarrow> andthen (end_op s) (\<lambda>_ s. Ret None s) | Some ip \<Rightarrow> Ret (Some ip) s)
      else andthen (namei path s) (\<lambda>r s.
        case r of
          None \<Rightarrow> andthen (end_op s) (\<lambda>_ s. Ret None s)
        | Some ip \<Rightarrow>
            andthen (ilock ip s) (\<lambda>_ s.
            if i_type (inodes s ip) = T_DIR \<and> omode \<noteq> O_RDONLY then
              andthen (iunlockput ip s) (\<lambda>_ s. andthen (end_op s) (\<lambda>_ s. Ret None s))
            else Ret (Some ip) s)))"

definition open_file :: "nat \<Rightarrow> nat \<Rightarrow> int \<Rightarrow> 'b flsys_scheme \<Rightarrow> (unit, 'b flsys_scheme) res" where
  "open_file ip f omode s =
     (let s = (if i_type (inodes s ip) = T_DEVICE
               then upd_file f (\<lambda>r. r\<lparr>f_type := FD_DEVICE, f_major := i_major (inodes s ip)\<rparr>) s
               else upd_file f (\<lambda>r. r\<lparr>f_type := FD_INODE, f_off := 0\<rparr>) s);
          s = upd_file f (\<lambda>r. r\<lparr>f_ip := ip, f_readable := (omode AND O_WRONLY = 0),
                f_writable := (omode AND O_WRONLY \<noteq> 0 \<or> omode AND O_RDWR \<noteq> 0)\<rparr>) s
      in andthen (if omode AND O_TRUNC \<noteq> 0 \<and> i_type (inodes s ip) = T_FILE then itrunc ip s else Ret () s) (\<lambda>_ s.
         iunlock ip s))"

definition sys_open :: "'b flsys_scheme \<Rightarrow> (int, 'b flsys_scheme) res" where
  "sys_open s = andthen (argint 1 s) (\<lambda>omode s.
     andthen (argstr 0 MAXPATH s) (\<lambda>(n, path) s.
     if n < 0 then Ret (- 1) s
     else andthen (begin_op s) (\<lambda>_ s.
     andthen (open_inode (cstr path) omode s) (\<lambda>r s.
     case r of
       None \<Rightarrow> Ret (- 1) s
     | Some ip \<Rightarrow>
         if i_type (inodes s ip) = T_DEVICE \<and> (sint (i_major (inodes s ip)) < 0 \<or> NDEV \<le> sint (i_major (inodes s ip))) then
           andthen (iunlockput ip s) (\<lambda>_ s. end_with (- 1) s)
         else andthen (filealloc s) (\<lambda>fo s.
           andthen (case fo of None \<Rightarrow> Ret (- 1) s | Some f \<Rightarrow> fdalloc f s) (\<lambda>fd s.
           case fo of
             Some f \<Rightarrow>
               if fd < 0 then
                 andthen (fileclose f s) (\<lambda>_ s. andthen (iunlockput ip s) (\<lambda>_ s. end_with (- 1) s))
               else andthen (open_file ip f omode s) (\<lambda>_ s. end_with fd s)
           | None \<Rightarrow> andthen (iunlockput ip s) (\<lambda>_ s. end_with (- 1) s)))))))"

definition sys_mkdir :: "'b flsys_scheme \<Rightarrow> (int, 'b flsys_scheme) res" where
  "sys_mkdir s = andthen (begin_op s) (\<lambda>_ s.
     andthen (argstr 0 MAXPATH s) (\<lambda>(r, path) s.
     andthen (if r < 0 then Ret None s else create (cstr path) T_DIR 0 0 s) (\<lambda>ip s.
     case ip of
       None \<Rightarrow> end_with (- 1) s
     | Some ip \<Rightarrow> andthen (iunlockput ip s) (\<lambda>_ s. end_with 0 s))))"

definition sys_mknod :: "'b flsys_scheme \<Rightarrow> (int, 'b flsys_scheme) res" where
  "sys_mknod s = andthen (begin_op s) (\<lambda>_ s.
     andthen (argint 1 s) (\<lambda>major s.
     andthen (argint 2 s) (\<lambda>minor s.
     andthen (argstr 0 MAXPATH s) (\<lambda>(r, path) s.
     andthen (if r < 0 then Ret None s
              else create (cstr path) T_DEVICE (word_of_int major) (word_of_int minor) s) (\<lambda>ip s.
     case ip of
       None \<Rightarrow> end_with (- 1) s
     | Some ip \<Rightarrow> andthen (iunlockput ip s) (\<lambda>_ s. end_with 0 s))))))"

definition sys_chdir :: "'b flsys_scheme \<Rightarrow> (int, 'b flsys_scheme) res" where
  "sys_chdir s = andthen (this_proc s) (\<lambda>p s.
     andthen (begin_op s) (\<lambda>_ s.
     andthen (argstr 0 MAXPATH s) (\<lambda>(r, path) s.
     andthen (if r < 0 then Ret None s else namei (cstr path) s) (\<lambda>ip s.
     case ip of
       None \<Rightarrow> end_with (- 1) s
     | Some ip \<Rightarrow>
         andthen (ilock ip s) (\<lambda>_ s.
         if i_type (inodes s ip) \<noteq> T_DIR then andthen (iunlockput ip s) (\<lambda>_ s. end_with (- 1) s)
         else andthen (iunlock ip s) (\<lambda>_ s.
           case p_cwd (procs s p) of
             None \<Rightarrow> Halt (Fault ''cwd'') s
           | Some cwd \<Rightarrow>
               andthen (iput cwd s) (\<lambda>_ s.
               andthen (end_op s) (\<lambda>_ s.
               Ret 0 (upd_proc p (\<lambda>r. r\<lparr>p_cwd := Some ip\<rparr>) s)))))))))"

section \<open>Programs and pipes\<close>

text \<open>The argument pages gathered by \<open>sys_exec\<close>, and whether the loop ended at a null pointer.\<close>

primrec fetch_args :: "u64 \<Rightarrow> nat \<Rightarrow> nat \<Rightarrow> u64 list \<Rightarrow> 'b psys_scheme \<Rightarrow> (bool \<times> u64 list, 'b psys_scheme) res" where
  "fetch_args uargv i 0 argv s = Ret (False, argv) s"
| "fetch_args uargv i (Suc k) argv s =
     andthen (fetchaddr (uargv + 8 * of_nat i) s) (\<lambda>(r, uarg) s.
     if r < 0 then Ret (False, argv) s
     else if uarg = 0 then Ret (True, argv) s
     else andthen (kalloc s) (\<lambda>pg s.
       if pg = 0 then Ret (False, argv) s
       else andthen (fetchstr uarg 4096 s) (\<lambda>(r, bs) s.
         let s = s\<lparr>mem := put_bytes (mem s) pg bs\<rparr>
         in if r < 0 then Ret (False, argv @ [pg]) s
            else fetch_args uargv (Suc i) k (argv @ [pg]) s)))"

primrec free_args :: "u64 list \<Rightarrow> 'b psys_scheme \<Rightarrow> (unit, 'b psys_scheme) res" where
  "free_args [] s = Ret () s"
| "free_args (a # as) s = andthen (kfree a s) (\<lambda>_ s. free_args as s)"

definition sys_exec :: "'b flsys_scheme \<Rightarrow> (int, 'b flsys_scheme) res" where
  "sys_exec s = andthen (argaddr 1 s) (\<lambda>uargv s.
     andthen (argstr 0 MAXPATH s) (\<lambda>(r, path) s.
     if r < 0 then Ret (- 1) s
     else andthen (fetch_args uargv 0 MAXARG [] s) (\<lambda>(ok, argv) s.
       andthen (if ok then exec (cstr path) argv s else Ret (- 1) s) (\<lambda>ret s.
       andthen (free_args argv s) (\<lambda>_ s. Ret ret s)))))"

definition set_ofile :: "nat \<Rightarrow> int \<Rightarrow> nat option \<Rightarrow> 'b psys_scheme \<Rightarrow> 'b psys_scheme" where
  "set_ofile p fd f s = upd_proc p (\<lambda>r. r\<lparr>p_ofile := (p_ofile r)(nat fd := f)\<rparr>) s"

definition sys_pipe :: "'b flsys_scheme \<Rightarrow> (int, 'b flsys_scheme) res" where
  "sys_pipe s = andthen (this_proc s) (\<lambda>p s.
     andthen (argaddr 0 s) (\<lambda>fdarray s.
     andthen (pipealloc s) (\<lambda>r s.
     case r of
       None \<Rightarrow> Ret (- 1) s
     | Some (rfl, wfl) \<Rightarrow>
         andthen (fdalloc rfl s) (\<lambda>fd0 s.
         andthen (if fd0 < 0 then Ret (- 1) s else fdalloc wfl s) (\<lambda>fd1 s.
         if fd0 < 0 \<or> fd1 < 0 then
           let s = (if 0 \<le> fd0 then set_ofile p fd0 None s else s)
           in andthen (fileclose rfl s) (\<lambda>_ s. andthen (fileclose wfl s) (\<lambda>_ s. Ret (- 1) s))
         else andthen (copyout (p_pagetable (procs s p)) fdarray (int_bytes fd0) s) (\<lambda>e s.
           andthen (if e < 0 then Ret e s
                    else copyout (p_pagetable (procs s p)) (fdarray + 4) (int_bytes fd1) s) (\<lambda>e s.
           if e < 0 then
             let s = set_ofile p fd1 None (set_ofile p fd0 None s)
             in andthen (fileclose rfl s) (\<lambda>_ s. andthen (fileclose wfl s) (\<lambda>_ s. Ret (- 1) s))
           else Ret 0 s)))))))"

end
