(* ===== verification/Trap.thy ===== *)
theory Trap
  imports Sysfile
begin

text \<open>
  The remaining system calls (\<^verbatim>\<open>kernel/sysproc.c\<close>), their dispatch
  (\<^verbatim>\<open>kernel/syscall.c\<close>), traps and the clock (\<^verbatim>\<open>kernel/trap.c\<close>), the interrupt controller
  (\<^verbatim>\<open>kernel/plic.c\<close>) and the boot sequence (\<^verbatim>\<open>kernel/main.c\<close>). The control and status
  registers are fields of \<open>tsys\<close>; \<open>spp\<close> and \<open>spie\<close> are bits of \<open>sstatus\<close>, whose \<open>SIE\<close> bit
  is in the hardware state. The values that reads of the claim register return are
  \<open>plic_in\<close>. The interrupt handler of the serial port takes a bound on the
  number of waiting bytes.
\<close>

section \<open>State\<close>

record tsys = vsys +
  ticks :: u32
  scause :: u64
  sepc :: u64
  stval :: u64
  stvec :: u64
  sip :: u64
  satp :: u64
  spp :: bool
  spie :: bool
  plic_in :: "nat \<Rightarrow> u32"
  plic_n :: nat
  plic_out :: "(u64 \<times> u32) list"
  first :: bool
  started :: bool
  kernel_pagetable :: u64
  sym_kernelvec :: u64
  sym_uservec :: u64
  sym_userret :: u64
  sym_usertrap :: u64
  sym_etext :: u64

definition SYS_MAX :: int where "SYS_MAX = 25"

definition UART0_IRQ :: int where "UART0_IRQ = 10"

definition VIRTIO0_IRQ :: int where "VIRTIO0_IRQ = 1"

definition MAKE_SATP :: "u64 \<Rightarrow> u64" where
  "MAKE_SATP pt = push_bit 60 8 OR drop_bit 12 pt"

definition PLIC_SENABLE :: "nat \<Rightarrow> u64" where
  "PLIC_SENABLE h = PLIC + 0x2080 + of_nat h * 0x100"

definition PLIC_SPRIORITY :: "nat \<Rightarrow> u64" where
  "PLIC_SPRIORITY h = PLIC + 0x201000 + of_nat h * 0x2000"

definition PLIC_SCLAIM :: "nat \<Rightarrow> u64" where
  "PLIC_SCLAIM h = PLIC + 0x201004 + of_nat h * 0x2000"

section \<open>The interrupt controller\<close>

definition plic_write :: "u64 \<Rightarrow> u32 \<Rightarrow> 'b tsys_scheme \<Rightarrow> 'b tsys_scheme" where
  "plic_write a v s = s\<lparr>plic_out := plic_out s @ [(a, v)]\<rparr>"

definition plicinit :: "'b tsys_scheme \<Rightarrow> 'b tsys_scheme" where
  "plicinit s = plic_write (PLIC + of_int VIRTIO0_IRQ * 4) 1 (plic_write (PLIC + of_int UART0_IRQ * 4) 1 s)"

definition plicinithart :: "'b tsys_scheme \<Rightarrow> 'b tsys_scheme" where
  "plicinithart s = (let h = cpuid (hw s)
     in plic_write (PLIC_SPRIORITY h) 0
          (plic_write (PLIC_SENABLE h) (push_bit (nat UART0_IRQ) 1 OR push_bit (nat VIRTIO0_IRQ) 1) s))"

definition plic_claim :: "'b tsys_scheme \<Rightarrow> int \<times> 'b tsys_scheme" where
  "plic_claim s = (sint (plic_in s (plic_n s)), s\<lparr>plic_n := plic_n s + 1\<rparr>)"

definition plic_complete :: "int \<Rightarrow> 'b tsys_scheme \<Rightarrow> 'b tsys_scheme" where
  "plic_complete irq s = plic_write (PLIC_SCLAIM (cpuid (hw s))) (word_of_int irq) s"

section \<open>Process system calls\<close>

definition sys_exit :: "'b flsys_scheme \<Rightarrow> (int, 'b flsys_scheme) res" where
  "sys_exit s = andthen (argint 0 s) (\<lambda>n s. exit n s)"

definition sys_getpid :: "'b flsys_scheme \<Rightarrow> (int, 'b flsys_scheme) res" where
  "sys_getpid s = andthen (this_proc s) (\<lambda>p s. Ret (p_pid (procs s p)) s)"

definition sys_fork :: "'b flsys_scheme \<Rightarrow> (int, 'b flsys_scheme) res" where
  "sys_fork s = fork s"

definition sys_wait :: "'b flsys_scheme \<Rightarrow> (int, 'b flsys_scheme) res" where
  "sys_wait s = andthen (argaddr 0 s) (\<lambda>p s. wait p s)"

definition sys_sbrk :: "'b flsys_scheme \<Rightarrow> (int, 'b flsys_scheme) res" where
  "sys_sbrk s = andthen (argint 0 s) (\<lambda>n s.
     andthen (this_proc s) (\<lambda>p s.
     let addr = p_sz (procs s p)
     in andthen (growproc n s) (\<lambda>r s. Ret (if r < 0 then - 1 else uint addr) s)))"

text \<open>One test of the loop of \<open>sys_sleep\<close>, with \<open>tickslock\<close> held. The comparison is unsigned.\<close>

definition sys_sleep_pass :: "int \<Rightarrow> u32 \<Rightarrow> 'b tsys_scheme \<Rightarrow> (int, 'b tsys_scheme) res" where
  "sys_sleep_pass n ticks0 s =
     (if ticks s - ticks0 < word_of_int n then
        andthen (this_proc s) (\<lambda>p s.
        andthen (killed p s) (\<lambda>k s.
        if k \<noteq> 0 then andthen (release TicksLock s) (\<lambda>_ s. Ret (- 1) s)
        else sleep (Some TicksChan) TicksLock s))
      else andthen (release TicksLock s) (\<lambda>_ s. Ret 0 s))"

definition sys_sleep :: "'b tsys_scheme \<Rightarrow> (int, 'b tsys_scheme) res" where
  "sys_sleep s = andthen (argint 0 s) (\<lambda>n s.
     andthen (acquire TicksLock s) (\<lambda>_ s. sys_sleep_pass n (ticks s) s))"

definition sys_kill :: "'b flsys_scheme \<Rightarrow> (int, 'b flsys_scheme) res" where
  "sys_kill s = andthen (argint 0 s) (\<lambda>pid s. kill pid s)"

definition sys_uptime :: "'b tsys_scheme \<Rightarrow> (int, 'b tsys_scheme) res" where
  "sys_uptime s = andthen (acquire TicksLock s) (\<lambda>_ s.
     let xticks = ticks s in andthen (release TicksLock s) (\<lambda>_ s. Ret (uint xticks) s))"

definition sys_spoon :: "'b flsys_scheme \<Rightarrow> (int, 'b flsys_scheme) res" where
  "sys_spoon s = andthen (argaddr 0 s) (\<lambda>arg s. spoon arg s)"

definition sys_create :: "'b flsys_scheme \<Rightarrow> (int, 'b flsys_scheme) res" where
  "sys_create s = andthen (argint 0 s) (\<lambda>arg1 s. andthen (argaddr 1 s) (\<lambda>arg2 s. mythread_create arg1 arg2 s))"

definition sys_join :: "'b flsys_scheme \<Rightarrow> (int, 'b flsys_scheme) res" where
  "sys_join s = andthen (argint 0 s) (\<lambda>_ s. mythread_join s)"

section \<open>Dispatch\<close>

definition syscalls :: "int \<Rightarrow> 'b tsys_scheme \<Rightarrow> (int, 'b tsys_scheme) res" where
  "syscalls num = (
     if num = 1 then sys_fork else if num = 2 then sys_exit else if num = 3 then sys_wait
     else if num = 4 then sys_pipe else if num = 5 then sys_read else if num = 6 then sys_kill
     else if num = 7 then sys_exec else if num = 8 then sys_fstat else if num = 9 then sys_chdir
     else if num = 10 then sys_dup else if num = 11 then sys_getpid else if num = 12 then sys_sbrk
     else if num = 13 then sys_sleep else if num = 14 then sys_uptime else if num = 15 then sys_open
     else if num = 16 then sys_write else if num = 17 then sys_mknod else if num = 18 then sys_unlink
     else if num = 19 then sys_link else if num = 20 then sys_mkdir else if num = 21 then sys_close
     else if num = 22 then sys_spoon else if num = 23 then sys_create else sys_join)"

definition syscall :: "'b tsys_scheme \<Rightarrow> (unit, 'b tsys_scheme) res" where
  "syscall s = andthen (this_proc s) (\<lambda>p s.
     let num = sint (ucast (tf_load p (TF_a 7) s) :: u32)
     in if 0 < num \<and> num < SYS_MAX then
          andthen (syscalls num s) (\<lambda>r s. Ret () (tf_store p (TF_a 0) (of_int r) s))
        else Ret () (tf_store p (TF_a 0) (- 1)
               (kprintf ''%d %s: unknown sys call %d\<newline>''
                 [ArgInt (p_pid (procs s p)), ArgStr (Some (name_string (p_name (procs s p)))), ArgInt num] s)))"

section \<open>Traps\<close>

definition trapinit :: "'b tsys_scheme \<Rightarrow> 'b tsys_scheme" where
  "trapinit s = initlock TicksLock ''time'' s"

definition trapinithart :: "'b tsys_scheme \<Rightarrow> 'b tsys_scheme" where
  "trapinithart s = s\<lparr>stvec := sym_kernelvec s\<rparr>"

text \<open>The result is the address jumped to and the page table passed to it.\<close>

definition usertrapret :: "'b tsys_scheme \<Rightarrow> (u64 \<times> u64, 'b tsys_scheme) res" where
  "usertrapret s = andthen (this_proc s) (\<lambda>p s.
     let s = s\<lparr>hw := intr_off (hw s)\<rparr>;
         s = s\<lparr>stvec := TRAMPOLINE + (sym_uservec s - sym_trampoline s)\<rparr>;
         s = tf_store p TF_kernel_satp (satp s) s;
         s = tf_store p TF_kernel_sp (p_kstack (procs s p) + PGSIZE) s;
         s = tf_store p TF_kernel_trap (sym_usertrap s) s;
         s = tf_store p TF_kernel_hartid (of_nat (hart (hw s))) s;
         s = s\<lparr>spp := False, spie := True\<rparr>;
         s = s\<lparr>sepc := tf_load p TF_epc s\<rparr>
     in Ret (TRAMPOLINE + (sym_userret s - sym_trampoline s), MAKE_SATP (p_pagetable (procs s p))) s)"

definition clockintr :: "'b tsys_scheme \<Rightarrow> (unit, 'b tsys_scheme) res" where
  "clockintr s = andthen (acquire TicksLock s) (\<lambda>_ s.
     andthen (wakeup (Some TicksChan) (s\<lparr>ticks := ticks s + 1\<rparr>)) (\<lambda>_ s.
     release TicksLock s))"

definition devintr :: "nat \<Rightarrow> 'b tsys_scheme \<Rightarrow> (nat, 'b tsys_scheme) res" where
  "devintr fuel s =
     (if scause s AND 0x8000000000000000 \<noteq> 0 \<and> scause s AND 0xff = 9 then
        let (irq, s) = plic_claim s
        in andthen (if irq = UART0_IRQ then uartintr fuel s
                    else if irq = VIRTIO0_IRQ then virtio_disk_intr s
                    else if irq \<noteq> 0 then Ret () (kprintf ''unexpected interrupt irq=%d\<newline>'' [ArgInt irq] s)
                    else Ret () s) (\<lambda>_ s.
           Ret 1 (if irq \<noteq> 0 then plic_complete irq s else s))
      else if scause s = 0x8000000000000001 then
        andthen (if cpuid (hw s) = 0 then clockintr s else Ret () s) (\<lambda>_ s.
        Ret 2 (s\<lparr>sip := sip s AND NOT 2\<rparr>))
      else Ret 0 s)"

definition usertrap :: "nat \<Rightarrow> 'b tsys_scheme \<Rightarrow> (u64 \<times> u64, 'b tsys_scheme) res" where
  "usertrap fuel s =
     (if spp s then Halt (Panic ''usertrap: not from user mode'') s
      else let s = s\<lparr>stvec := sym_kernelvec s\<rparr>
           in andthen (this_proc s) (\<lambda>p s.
              let s = tf_store p TF_epc (sepc s) s
              in andthen (if scause s = 8 then
                            andthen (killed p s) (\<lambda>k s.
                            if k \<noteq> 0 then exit (- 1) s
                            else let s = tf_store p TF_epc (tf_load p TF_epc s + 4) s;
                                     s = s\<lparr>hw := intr_on (hw s)\<rparr>
                                 in andthen (syscall s) (\<lambda>_ s. Ret 0 s))
                          else andthen (devintr fuel s) (\<lambda>d s.
                            if d \<noteq> 0 then Ret d s
                            else let s = kprintf ''usertrap(): unexpected scause %p pid=%d\<newline>''
                                           [ArgPtr (scause s), ArgInt (p_pid (procs s p))] s;
                                     s = kprintf ''            sepc=%p stval=%p\<newline>'' [ArgPtr (sepc s), ArgPtr (stval s)] s
                                 in andthen (setkilled p s) (\<lambda>_ s. Ret 0 s))) (\<lambda>which_dev s.
                 andthen (killed p s) (\<lambda>k s.
                 if k \<noteq> 0 then exit (- 1) s
                 else andthen (if which_dev = 2 then yield s else Ret () s) (\<lambda>_ s.
                      usertrapret s)))))"

definition kerneltrap :: "nat \<Rightarrow> 'b tsys_scheme \<Rightarrow> (unit, 'b tsys_scheme) res" where
  "kerneltrap fuel s =
     (let pc = sepc s; sp = spp s; si = spie s; sc = scause s
      in if \<not> sp then Halt (Panic ''kerneltrap: not from supervisor mode'') s
         else if intr_get (hw s) then Halt (Panic ''kerneltrap: interrupts enabled'') s
         else andthen (devintr fuel s) (\<lambda>which_dev s.
           if which_dev = 0 then
             Halt (Panic ''kerneltrap'') (kprintf ''sepc=%p stval=%p\<newline>'' [ArgPtr (sepc s), ArgPtr (stval s)]
               (kprintf ''scause %p\<newline>'' [ArgPtr sc] s))
           else andthen (if which_dev = 2 then
                           andthen (myproc s) (\<lambda>p s.
                           case p of
                             None \<Rightarrow> Ret () s
                           | Some _ \<Rightarrow> andthen (this_proc s) (\<lambda>p s.
                               if p_state (procs s p) = RUNNING then yield s else Ret () s))
                         else Ret () s) (\<lambda>_ s.
                Ret () (s\<lparr>sepc := pc, spp := sp, spie := si, hw := intr_off (hw s)\<rparr>))))"

definition forkret :: "'b tsys_scheme \<Rightarrow> (u64 \<times> u64, 'b tsys_scheme) res" where
  "forkret s = andthen (this_proc s) (\<lambda>p s.
     andthen (release (ProcLock p) s) (\<lambda>_ s.
     andthen (if first s then fsinit ROOTDEV (s\<lparr>first := False\<rparr>) else Ret () s) (\<lambda>_ s.
     usertrapret s)))"

section \<open>Boot\<close>

definition kvminit :: "'b tsys_scheme \<Rightarrow> (unit, 'b tsys_scheme) res" where
  "kvminit s = andthen (kvmmake (sym_etext s) (sym_trampoline s) s) (\<lambda>pt s. Ret () (s\<lparr>kernel_pagetable := pt\<rparr>))"

definition kvminithart :: "'b tsys_scheme \<Rightarrow> 'b tsys_scheme" where
  "kvminithart s = s\<lparr>satp := MAKE_SATP (kernel_pagetable s)\<rparr>"

definition printfinit :: "'b tsys_scheme \<Rightarrow> 'b tsys_scheme" where
  "printfinit s = initlock PrLock ''pr'' s"

text \<open>\<open>main\<close> up to the scheduler; a hart other than 0 spins until \<open>started\<close> is set.\<close>

definition boot :: "'b tsys_scheme \<Rightarrow> (unit, 'b tsys_scheme) res" where
  "boot s =
     (if cpuid (hw s) = 0 then
        let s = printfinit (consoleinit s);
            s = log_msg ''\<newline>'' (log_msg ''xv6 kernel is booting\<newline>'' (log_msg ''\<newline>'' s))
        in andthen (kinit s) (\<lambda>_ s.
           andthen (kvminit s) (\<lambda>_ s.
           let s = fileinit (iinit (binit (plicinithart (plicinit (trapinithart (trapinit (procinit (kvminithart s))))))))
           in andthen (virtio_disk_init s) (\<lambda>_ s.
              andthen (userinit s) (\<lambda>_ s. Ret () (s\<lparr>started := True\<rparr>)))))
      else if \<not> started s then Halt Spin s
      else Ret () (plicinithart (trapinithart (kvminithart
             (kprintf ''hart %d starting\<newline>'' [ArgInt (int (cpuid (hw s)))] s)))))"

end
