(* ===== verification/Updates.thy ===== *)
theory Updates
  imports Trap
begin

text \<open>
  Updates of different fields of the kernel state commute. The rules of
  \<open>upd_comm\<close> put the updates of a state in one order, so that the states that two
  operations reach can be compared by rewriting.
\<close>

named_theorems upd_comm \<open>reordering of state updates\<close>

lemma hw_update_comm [upd_comm]:
  "hw_update a (mem_update b0 s0) = mem_update b0 (hw_update a s0)"
  "hw_update a (freelist_update b1 s1) = freelist_update b1 (hw_update a s1)"
  "hw_update a (procs_update b2 s2) = procs_update b2 (hw_update a s2)"
  "hw_update a (nextpid_update b3 s3) = nextpid_update b3 (hw_update a s3)"
  "hw_update a (klog_update b4 s4) = klog_update b4 (hw_update a s4)"
  "hw_update a (slocks_update b5 s5) = slocks_update b5 (hw_update a s5)"
  "hw_update a (bufs_update b6 s6) = bufs_update b6 (hw_update a s6)"
  "hw_update a (disk_update b7 s7) = disk_update b7 (hw_update a s7)"
  "hw_update a (dwrites_update b8 s8) = dwrites_update b8 (hw_update a s8)"
  "hw_update a (logrec_update b9 s9) = logrec_update b9 (hw_update a s9)"
  "hw_update a (inodes_update b10 s10) = inodes_update b10 (hw_update a s10)"
  "hw_update a (sb_update b11 s11) = sb_update b11 (hw_update a s11)"
  "hw_update a (files_update b12 s12) = files_update b12 (hw_update a s12)"
  "hw_update a (pipes_update b13 s13) = pipes_update b13 (hw_update a s13)"
  "hw_update a (vd_update b14 s14) = vd_update b14 (hw_update a s14)"
  "hw_update a (mmio_out_update b15 s15) = mmio_out_update b15 (hw_update a s15)"
  by simp_all

lemma mem_update_comm [upd_comm]:
  "mem_update a (freelist_update b0 s0) = freelist_update b0 (mem_update a s0)"
  "mem_update a (procs_update b1 s1) = procs_update b1 (mem_update a s1)"
  "mem_update a (nextpid_update b2 s2) = nextpid_update b2 (mem_update a s2)"
  "mem_update a (klog_update b3 s3) = klog_update b3 (mem_update a s3)"
  "mem_update a (slocks_update b4 s4) = slocks_update b4 (mem_update a s4)"
  "mem_update a (bufs_update b5 s5) = bufs_update b5 (mem_update a s5)"
  "mem_update a (disk_update b6 s6) = disk_update b6 (mem_update a s6)"
  "mem_update a (dwrites_update b7 s7) = dwrites_update b7 (mem_update a s7)"
  "mem_update a (logrec_update b8 s8) = logrec_update b8 (mem_update a s8)"
  "mem_update a (inodes_update b9 s9) = inodes_update b9 (mem_update a s9)"
  "mem_update a (sb_update b10 s10) = sb_update b10 (mem_update a s10)"
  "mem_update a (files_update b11 s11) = files_update b11 (mem_update a s11)"
  "mem_update a (pipes_update b12 s12) = pipes_update b12 (mem_update a s12)"
  "mem_update a (vd_update b13 s13) = vd_update b13 (mem_update a s13)"
  "mem_update a (mmio_out_update b14 s14) = mmio_out_update b14 (mem_update a s14)"
  by simp_all

lemma freelist_update_comm [upd_comm]:
  "freelist_update a (procs_update b0 s0) = procs_update b0 (freelist_update a s0)"
  "freelist_update a (nextpid_update b1 s1) = nextpid_update b1 (freelist_update a s1)"
  "freelist_update a (klog_update b2 s2) = klog_update b2 (freelist_update a s2)"
  "freelist_update a (slocks_update b3 s3) = slocks_update b3 (freelist_update a s3)"
  "freelist_update a (bufs_update b4 s4) = bufs_update b4 (freelist_update a s4)"
  "freelist_update a (disk_update b5 s5) = disk_update b5 (freelist_update a s5)"
  "freelist_update a (dwrites_update b6 s6) = dwrites_update b6 (freelist_update a s6)"
  "freelist_update a (logrec_update b7 s7) = logrec_update b7 (freelist_update a s7)"
  "freelist_update a (inodes_update b8 s8) = inodes_update b8 (freelist_update a s8)"
  "freelist_update a (sb_update b9 s9) = sb_update b9 (freelist_update a s9)"
  "freelist_update a (files_update b10 s10) = files_update b10 (freelist_update a s10)"
  "freelist_update a (pipes_update b11 s11) = pipes_update b11 (freelist_update a s11)"
  "freelist_update a (vd_update b12 s12) = vd_update b12 (freelist_update a s12)"
  "freelist_update a (mmio_out_update b13 s13) = mmio_out_update b13 (freelist_update a s13)"
  by simp_all

lemma procs_update_comm [upd_comm]:
  "procs_update a (nextpid_update b0 s0) = nextpid_update b0 (procs_update a s0)"
  "procs_update a (klog_update b1 s1) = klog_update b1 (procs_update a s1)"
  "procs_update a (slocks_update b2 s2) = slocks_update b2 (procs_update a s2)"
  "procs_update a (bufs_update b3 s3) = bufs_update b3 (procs_update a s3)"
  "procs_update a (disk_update b4 s4) = disk_update b4 (procs_update a s4)"
  "procs_update a (dwrites_update b5 s5) = dwrites_update b5 (procs_update a s5)"
  "procs_update a (logrec_update b6 s6) = logrec_update b6 (procs_update a s6)"
  "procs_update a (inodes_update b7 s7) = inodes_update b7 (procs_update a s7)"
  "procs_update a (sb_update b8 s8) = sb_update b8 (procs_update a s8)"
  "procs_update a (files_update b9 s9) = files_update b9 (procs_update a s9)"
  "procs_update a (pipes_update b10 s10) = pipes_update b10 (procs_update a s10)"
  "procs_update a (vd_update b11 s11) = vd_update b11 (procs_update a s11)"
  "procs_update a (mmio_out_update b12 s12) = mmio_out_update b12 (procs_update a s12)"
  by simp_all

lemma nextpid_update_comm [upd_comm]:
  "nextpid_update a (klog_update b0 s0) = klog_update b0 (nextpid_update a s0)"
  "nextpid_update a (slocks_update b1 s1) = slocks_update b1 (nextpid_update a s1)"
  "nextpid_update a (bufs_update b2 s2) = bufs_update b2 (nextpid_update a s2)"
  "nextpid_update a (disk_update b3 s3) = disk_update b3 (nextpid_update a s3)"
  "nextpid_update a (dwrites_update b4 s4) = dwrites_update b4 (nextpid_update a s4)"
  "nextpid_update a (logrec_update b5 s5) = logrec_update b5 (nextpid_update a s5)"
  "nextpid_update a (inodes_update b6 s6) = inodes_update b6 (nextpid_update a s6)"
  "nextpid_update a (sb_update b7 s7) = sb_update b7 (nextpid_update a s7)"
  "nextpid_update a (files_update b8 s8) = files_update b8 (nextpid_update a s8)"
  "nextpid_update a (pipes_update b9 s9) = pipes_update b9 (nextpid_update a s9)"
  "nextpid_update a (vd_update b10 s10) = vd_update b10 (nextpid_update a s10)"
  "nextpid_update a (mmio_out_update b11 s11) = mmio_out_update b11 (nextpid_update a s11)"
  by simp_all

lemma klog_update_comm [upd_comm]:
  "klog_update a (slocks_update b0 s0) = slocks_update b0 (klog_update a s0)"
  "klog_update a (bufs_update b1 s1) = bufs_update b1 (klog_update a s1)"
  "klog_update a (disk_update b2 s2) = disk_update b2 (klog_update a s2)"
  "klog_update a (dwrites_update b3 s3) = dwrites_update b3 (klog_update a s3)"
  "klog_update a (logrec_update b4 s4) = logrec_update b4 (klog_update a s4)"
  "klog_update a (inodes_update b5 s5) = inodes_update b5 (klog_update a s5)"
  "klog_update a (sb_update b6 s6) = sb_update b6 (klog_update a s6)"
  "klog_update a (files_update b7 s7) = files_update b7 (klog_update a s7)"
  "klog_update a (pipes_update b8 s8) = pipes_update b8 (klog_update a s8)"
  "klog_update a (vd_update b9 s9) = vd_update b9 (klog_update a s9)"
  "klog_update a (mmio_out_update b10 s10) = mmio_out_update b10 (klog_update a s10)"
  by simp_all

lemma slocks_update_comm [upd_comm]:
  "slocks_update a (bufs_update b0 s0) = bufs_update b0 (slocks_update a s0)"
  "slocks_update a (disk_update b1 s1) = disk_update b1 (slocks_update a s1)"
  "slocks_update a (dwrites_update b2 s2) = dwrites_update b2 (slocks_update a s2)"
  "slocks_update a (logrec_update b3 s3) = logrec_update b3 (slocks_update a s3)"
  "slocks_update a (inodes_update b4 s4) = inodes_update b4 (slocks_update a s4)"
  "slocks_update a (sb_update b5 s5) = sb_update b5 (slocks_update a s5)"
  "slocks_update a (files_update b6 s6) = files_update b6 (slocks_update a s6)"
  "slocks_update a (pipes_update b7 s7) = pipes_update b7 (slocks_update a s7)"
  "slocks_update a (vd_update b8 s8) = vd_update b8 (slocks_update a s8)"
  "slocks_update a (mmio_out_update b9 s9) = mmio_out_update b9 (slocks_update a s9)"
  by simp_all

lemma bufs_update_comm [upd_comm]:
  "bufs_update a (disk_update b0 s0) = disk_update b0 (bufs_update a s0)"
  "bufs_update a (dwrites_update b1 s1) = dwrites_update b1 (bufs_update a s1)"
  "bufs_update a (logrec_update b2 s2) = logrec_update b2 (bufs_update a s2)"
  "bufs_update a (inodes_update b3 s3) = inodes_update b3 (bufs_update a s3)"
  "bufs_update a (sb_update b4 s4) = sb_update b4 (bufs_update a s4)"
  "bufs_update a (files_update b5 s5) = files_update b5 (bufs_update a s5)"
  "bufs_update a (pipes_update b6 s6) = pipes_update b6 (bufs_update a s6)"
  "bufs_update a (vd_update b7 s7) = vd_update b7 (bufs_update a s7)"
  "bufs_update a (mmio_out_update b8 s8) = mmio_out_update b8 (bufs_update a s8)"
  by simp_all

lemma disk_update_comm [upd_comm]:
  "disk_update a (dwrites_update b0 s0) = dwrites_update b0 (disk_update a s0)"
  "disk_update a (logrec_update b1 s1) = logrec_update b1 (disk_update a s1)"
  "disk_update a (inodes_update b2 s2) = inodes_update b2 (disk_update a s2)"
  "disk_update a (sb_update b3 s3) = sb_update b3 (disk_update a s3)"
  "disk_update a (files_update b4 s4) = files_update b4 (disk_update a s4)"
  "disk_update a (pipes_update b5 s5) = pipes_update b5 (disk_update a s5)"
  "disk_update a (vd_update b6 s6) = vd_update b6 (disk_update a s6)"
  "disk_update a (mmio_out_update b7 s7) = mmio_out_update b7 (disk_update a s7)"
  by simp_all

lemma dwrites_update_comm [upd_comm]:
  "dwrites_update a (logrec_update b0 s0) = logrec_update b0 (dwrites_update a s0)"
  "dwrites_update a (inodes_update b1 s1) = inodes_update b1 (dwrites_update a s1)"
  "dwrites_update a (sb_update b2 s2) = sb_update b2 (dwrites_update a s2)"
  "dwrites_update a (files_update b3 s3) = files_update b3 (dwrites_update a s3)"
  "dwrites_update a (pipes_update b4 s4) = pipes_update b4 (dwrites_update a s4)"
  "dwrites_update a (vd_update b5 s5) = vd_update b5 (dwrites_update a s5)"
  "dwrites_update a (mmio_out_update b6 s6) = mmio_out_update b6 (dwrites_update a s6)"
  by simp_all

lemma logrec_update_comm [upd_comm]:
  "logrec_update a (inodes_update b0 s0) = inodes_update b0 (logrec_update a s0)"
  "logrec_update a (sb_update b1 s1) = sb_update b1 (logrec_update a s1)"
  "logrec_update a (files_update b2 s2) = files_update b2 (logrec_update a s2)"
  "logrec_update a (pipes_update b3 s3) = pipes_update b3 (logrec_update a s3)"
  "logrec_update a (vd_update b4 s4) = vd_update b4 (logrec_update a s4)"
  "logrec_update a (mmio_out_update b5 s5) = mmio_out_update b5 (logrec_update a s5)"
  by simp_all

lemma inodes_update_comm [upd_comm]:
  "inodes_update a (sb_update b0 s0) = sb_update b0 (inodes_update a s0)"
  "inodes_update a (files_update b1 s1) = files_update b1 (inodes_update a s1)"
  "inodes_update a (pipes_update b2 s2) = pipes_update b2 (inodes_update a s2)"
  "inodes_update a (vd_update b3 s3) = vd_update b3 (inodes_update a s3)"
  "inodes_update a (mmio_out_update b4 s4) = mmio_out_update b4 (inodes_update a s4)"
  by simp_all

lemma sb_update_comm [upd_comm]:
  "sb_update a (files_update b0 s0) = files_update b0 (sb_update a s0)"
  "sb_update a (pipes_update b1 s1) = pipes_update b1 (sb_update a s1)"
  "sb_update a (vd_update b2 s2) = vd_update b2 (sb_update a s2)"
  "sb_update a (mmio_out_update b3 s3) = mmio_out_update b3 (sb_update a s3)"
  by simp_all

lemma files_update_comm [upd_comm]:
  "files_update a (pipes_update b0 s0) = pipes_update b0 (files_update a s0)"
  "files_update a (vd_update b1 s1) = vd_update b1 (files_update a s1)"
  "files_update a (mmio_out_update b2 s2) = mmio_out_update b2 (files_update a s2)"
  by simp_all

lemma pipes_update_comm [upd_comm]:
  "pipes_update a (vd_update b0 s0) = vd_update b0 (pipes_update a s0)"
  "pipes_update a (mmio_out_update b1 s1) = mmio_out_update b1 (pipes_update a s1)"
  by simp_all

lemma vd_update_comm [upd_comm]:
  "vd_update a (mmio_out_update b0 s0) = mmio_out_update b0 (vd_update a s0)"
  by simp_all

end
