(* ===== verification/Sleep_Laws.thy ===== *)
theory Sleep_Laws
  imports Updates
begin

text \<open>
  Closed forms of \<open>wakeup\<close> and of the sleep-lock operations. A process that runs with
  interrupts in a consistent state and holds only the spin locks of a set \<open>K\<close> is described
  by \<open>rest\<close>; the lemmas compute what the operations return and the state they reach.
\<close>

section \<open>Wakeup\<close>

definition proc_locks_free :: "machine \<Rightarrow> bool" where
  "proc_locks_free h \<longleftrightarrow> (\<forall>p<NPROC. lock_free (ProcLock p) h)"

definition woken :: "chan option \<Rightarrow> nat option \<Rightarrow> nat set \<Rightarrow> (nat \<Rightarrow> proc) \<Rightarrow> nat \<Rightarrow> proc" where
  "woken c me P q p = (if p \<in> P \<and> Some p \<noteq> me \<and> p_state (q p) = SLEEPING \<and> p_chan (q p) = c
     then (q p)\<lparr>p_state := RUNNABLE\<rparr> else q p)"

lemma settle_c_proc: "c_proc (mycpu (settle h)) = c_proc (mycpu h)"
  by (simp add: mycpu_def cpuid_def hw_simps)

lemma wakeup_from_eq:
  assumes "hw_ok (hw s)" "\<forall>p\<in>set ps. lock_free (ProcLock p) (hw s)" "distinct ps"
  shows "wakeup_from c ps s = Ret () (s\<lparr>hw := (if ps = [] then hw s else settle (hw s)),
     procs := woken c (c_proc (mycpu (hw s))) (set ps) (procs s)\<rparr>)"
  using assms
proof (induction ps arbitrary: s)
  case Nil
  then show ?case by (simp add: woken_def [abs_def])
next
  case (Cons p ps)
  let ?me = "c_proc (mycpu (hw s))"
  let ?q = "woken c ?me {p} (procs s)"
  let ?t = "s\<lparr>hw := settle (hw s), procs := ?q\<rparr>"
  have step: "wakeup_from c (p # ps) s = wakeup_from c ps ?t"
  proof (cases "Some p = ?me")
    case True
    then have "?q = procs s" by (auto simp: woken_def fun_eq_iff)
    then show ?thesis using Cons.prems True by (simp add: hw_simps)
  next
    case False
    have q: "(if p_state (procs s p) = SLEEPING \<and> p_chan (procs s p) = c
        then (procs s)(p := (procs s p)\<lparr>p_state := RUNNABLE\<rparr>) else procs s) = ?q"
      using False by (auto simp: woken_def fun_eq_iff)
    have "wakeup_from c (p # ps) s = wakeup_from c ps (s\<lparr>hw := settle (hw s),
        procs := (if p_state (procs s p) = SLEEPING \<and> p_chan (procs s p) = c
           then (procs s)(p := (procs s p)\<lparr>p_state := RUNNABLE\<rparr>) else procs s)\<rparr>)"
      using Cons.prems False by (simp add: hw_simps upd_proc_def Let_def settle_c_proc upd_comm)
    then show ?thesis by (simp only: q)
  qed
  have "wakeup_from c ps ?t = Ret () (?t\<lparr>hw := (if ps = [] then hw ?t else settle (hw ?t)),
     procs := woken c (c_proc (mycpu (hw ?t))) (set ps) (procs ?t)\<rparr>)"
    using Cons.prems by (intro Cons.IH) (auto simp: hw_simps)
  moreover have "woken c ?me (set ps) ?q = woken c ?me (set (p # ps)) (procs s)"
    using Cons.prems(3) by (auto simp: woken_def fun_eq_iff)
  ultimately show ?case using step by (simp add: hw_simps settle_c_proc)
qed

lemma wakeup_eq:
  assumes "hw_ok (hw s)" "proc_locks_free (hw s)"
  shows "wakeup c s = Ret () (s\<lparr>hw := settle (hw s),
     procs := woken c (c_proc (mycpu (hw s))) {..<NPROC} (procs s)\<rparr>)"
proof -
  have "set [0..<NPROC] = {..<NPROC}" by auto
  then show ?thesis
    using assms wakeup_from_eq [of s "[0..<NPROC]" c]
    by (simp add: wakeup_def proc_locks_free_def NPROC_def del: upt_rec_numeral)
qed

section \<open>Sleep locks\<close>

definition rest :: "lockid set \<Rightarrow> nat \<Rightarrow> machine \<Rightarrow> bool" where
  "rest K me h \<longleftrightarrow> hw_ok h \<and> c_proc (mycpu h) = Some me \<and> (\<forall>l. l \<notin> K \<longrightarrow> lock_free l h)"

definition no_proc_lock :: "lockid set \<Rightarrow> bool" where
  "no_proc_lock K \<longleftrightarrow> (\<forall>p. ProcLock p \<notin> K)"

lemma no_proc_lock_simps [simp]:
  "no_proc_lock {}" "no_proc_lock (insert l K) \<longleftrightarrow> (\<forall>p. l \<noteq> ProcLock p) \<and> no_proc_lock K"
  by (auto simp: no_proc_lock_def)

lemma rest_settle [hw_simps]: "rest K me (settle h) = rest K me h"
  by (simp add: rest_def hw_simps settle_c_proc)

lemma rest_acq [hw_simps]: "rest K me h \<Longrightarrow> rest (insert l K) me (acq l h)"
  by (auto simp: rest_def hw_simps mycpu_def cpuid_def)

lemma restD:
  assumes "rest K me h"
  shows "hw_ok h" "c_proc (mycpu h) = Some me" "l \<notin> K \<Longrightarrow> lock_free l h"
  using assms by (auto simp: rest_def)

lemma rest_proc_locks: "rest K me h \<Longrightarrow> no_proc_lock K \<Longrightarrow> proc_locks_free h"
  by (auto simp: rest_def no_proc_lock_def proc_locks_free_def)

lemma rest_mono: "rest K me h \<Longrightarrow> K \<subseteq> K' \<Longrightarrow> rest K' me h"
  by (auto simp: rest_def)

lemma this_proc_eq: "rest K me (hw s) \<Longrightarrow> this_proc s = Ret me (s\<lparr>hw := settle (hw s)\<rparr>)"
  by (simp add: this_proc_def rest_def hw_simps)

lemma acquire_rest: "rest K me (hw s) \<Longrightarrow> l \<notin> K \<Longrightarrow> acquire l s = Ret () (s\<lparr>hw := acq l (hw s)\<rparr>)"
  by (simp add: acquire_free restD)

lemma release_rest:
  "rest K me h \<Longrightarrow> l \<notin> K \<Longrightarrow> hw s = acq l h \<Longrightarrow> release l s = Ret () (s\<lparr>hw := settle h\<rparr>)"
  by (simp add: release_held restD)

lemma wakeup_rest:
  assumes "rest K me (hw s)" "no_proc_lock K"
  shows "wakeup c s = Ret () (s\<lparr>hw := settle (hw s), procs := woken c (Some me) {..<NPROC} (procs s)\<rparr>)"
  using wakeup_eq [OF restD(1) [OF assms(1)] rest_proc_locks [OF assms]] restD(2) [OF assms(1)] by simp

lemma woken_pid [simp]: "p_pid (woken c me P q p) = p_pid (q p)"
  by (simp add: woken_def)

lemma acquiresleep_eq:
  assumes "rest K me (hw s)" "SleepInner l \<notin> K" "\<not> sl_locked (slocks s l)"
  shows "acquiresleep l s = Ret () (s\<lparr>hw := settle (hw s),
     slocks := (slocks s)(l := (slocks s l)\<lparr>sl_locked := True, sl_pid := p_pid (procs s me)\<rparr>)\<rparr>)"
proof -
  have r: "rest (insert (SleepInner l) K) me (acq (SleepInner l) (hw s))" using assms(1) by (rule rest_acq)
  show ?thesis
    using assms
    by (simp add: acquiresleep_def acquire_rest [OF assms(1,2)] acquiresleep_try_def upd_slock_def
      this_proc_eq [where K = "insert (SleepInner l) K" and me = me] r release_rest [OF assms(1,2)] restD hw_simps upd_comm)
qed

lemma holdingsleep_eq:
  assumes "rest K me (hw s)" "SleepInner l \<notin> K"
  shows "holdingsleep l s = Ret (sl_locked (slocks s l) \<and> sl_pid (slocks s l) = p_pid (procs s me)) (s\<lparr>hw := settle (hw s)\<rparr>)"
proof -
  have r: "rest (insert (SleepInner l) K) me (acq (SleepInner l) (hw s))" using assms(1) by (rule rest_acq)
  show ?thesis
    using assms
    by (simp add: holdingsleep_def acquire_rest [OF assms(1,2)]
      this_proc_eq [where K = "insert (SleepInner l) K" and me = me] r release_rest [OF assms(1,2)] restD hw_simps upd_comm)
qed

lemma releasesleep_eq:
  assumes "rest K me (hw s)" "SleepInner l \<notin> K" "no_proc_lock K"
  shows "releasesleep l s = Ret () (s\<lparr>hw := settle (hw s),
     procs := woken (Some (SleepChan l)) (Some me) {..<NPROC} (procs s),
     slocks := (slocks s)(l := (slocks s l)\<lparr>sl_locked := False, sl_pid := 0\<rparr>)\<rparr>)"
proof -
  have r: "rest (insert (SleepInner l) K) me (acq (SleepInner l) (hw s))" using assms(1) by (rule rest_acq)
  show ?thesis
    using assms
    by (simp add: releasesleep_def acquire_rest [OF assms(1,2)] upd_slock_def
       wakeup_rest [of "insert (SleepInner l) K" me] r release_rest [OF assms(1,2)] restD hw_simps upd_comm)
qed

end
