(* ===== verification/Bio_List.thy ===== *)
theory Bio_List
  imports Sleep_Laws
begin

text \<open>
  The LRU list of the buffer cache. \<open>lru B L\<close> says that the links of the buffers \<open>B\<close> form
  the circular doubly linked list with the elements \<open>L\<close>. The two scans of \<open>bget\<close> find the first
  match of the list in either direction, and unlinking and relinking keep a list.
\<close>

section \<open>The list\<close>

fun links :: "(nat \<Rightarrow> buf) \<Rightarrow> nat list \<Rightarrow> bool" where
  "links B (x # y # ys) \<longleftrightarrow> b_next (B x) = y \<and> b_prev (B y) = x \<and> links B (y # ys)"
| "links B _ \<longleftrightarrow> True"

definition lru :: "(nat \<Rightarrow> buf) \<Rightarrow> nat list \<Rightarrow> bool" where
  "lru B L \<longleftrightarrow> distinct L \<and> bhead \<notin> set L \<and> links B (bhead # L @ [bhead])"

lemma links_append: "links B (xs @ x # ys) \<longleftrightarrow> links B (xs @ [x]) \<and> links B (x # ys)"
proof (induction xs)
  case Nil
  then show ?case by simp
next
  case (Cons y xs)
  then show ?case by (cases xs) auto
qed

lemma links_snoc: "links B (xs @ [a, b]) \<longleftrightarrow> links B (xs @ [a]) \<and> b_next (B a) = b \<and> b_prev (B b) = a"
  using links_append [of B xs a "[b]"] by simp

lemma links_cong:
  assumes "\<And>x. x \<in> set (butlast xs) \<Longrightarrow> b_next (B' x) = b_next (B x)"
    "\<And>x. x \<in> set (tl xs) \<Longrightarrow> b_prev (B' x) = b_prev (B x)"
  shows "links B' xs = links B xs"
  using assms
proof (induction xs)
  case (Cons x xs)
  show ?case
  proof (cases xs)
    case Nil
    then show ?thesis by simp
  next
    case (Cons y ys)
    have "links B' xs = links B xs"
      using Cons.prems Cons by (intro Cons.IH) (cases ys; auto)+
    then show ?thesis using Cons Cons.prems by (auto split: if_splits)
  qed
qed simp

lemma scan_next_find:
  assumes "links (bufs s) (L @ [bhead])" "bhead \<notin> set L" "length L \<le> n"
  shows "scan_next n P (hd (L @ [bhead])) s = Ret (List.find (\<lambda>b. P (bufs s b)) L) s"
  using assms
proof (induction L arbitrary: n)
  case Nil
  then show ?case by (cases n) simp_all
next
  case (Cons b L)
  obtain m where n: "n = Suc m" using Cons.prems(3) by (cases n) auto
  have "b_next (bufs s b) = hd (L @ [bhead])" "links (bufs s) (L @ [bhead])"
    using Cons.prems(1) by (cases L; simp)+
  then show ?case using Cons n by auto
qed

lemma scan_prev_find:
  assumes "links (bufs s) (bhead # L)" "bhead \<notin> set L" "length L \<le> n"
  shows "scan_prev n P (last (bhead # L)) s = Ret (List.find (\<lambda>b. P (bufs s b)) (rev L)) s"
  using assms
proof (induction L arbitrary: n rule: rev_induct)
  case Nil
  then show ?case by (cases n) simp_all
next
  case (snoc b L)
  obtain m where n: "n = Suc m" using snoc.prems(3) by (cases n) auto
  obtain xs a where xs: "bhead # L = xs @ [a]" by (cases "bhead # L" rule: rev_exhaust) auto
  then have "links (bufs s) (xs @ [a, b])" using snoc.prems(1) by (metis append.assoc append_Cons append_Nil)
  then have "links (bufs s) (bhead # L)" "b_prev (bufs s b) = last (bhead # L)"
    unfolding xs links_snoc by simp_all
  moreover have "scan_prev m P (last (bhead # L)) s = Ret (List.find (\<lambda>b. P (bufs s b)) (rev L)) s"
    by (rule snoc.IH) (use snoc.prems n calculation in auto)
  moreover have "last (bhead # L @ [b]) = b" by simp
  ultimately show ?case using snoc.prems(2) n by (auto simp del: last.simps)
qed

lemma lru_scans:
  assumes "lru (bufs s) L" "length L \<le> n"
  shows "scan_next n P (b_next (bufs s bhead)) s = Ret (List.find (\<lambda>b. P (bufs s b)) L) s"
    "scan_prev n P (b_prev (bufs s bhead)) s = Ret (List.find (\<lambda>b. P (bufs s b)) (rev L)) s"
proof -
  have l: "links (bufs s) (bhead # L @ [bhead])" and h: "bhead \<notin> set L" using assms(1) by (auto simp: lru_def)
  have "b_next (bufs s bhead) = hd (L @ [bhead])" "links (bufs s) (L @ [bhead])"
    using l by (cases L; simp)+
  then show "scan_next n P (b_next (bufs s bhead)) s = Ret (List.find (\<lambda>b. P (bufs s b)) L) s"
    using scan_next_find [OF _ h assms(2)] by simp
  obtain xs a where xs: "bhead # L = xs @ [a]" by (cases "bhead # L" rule: rev_exhaust) auto
  then have "links (bufs s) (xs @ [a, bhead])" using l by (metis append.assoc append_Cons append_Nil)
  then have "links (bufs s) (bhead # L)" "b_prev (bufs s bhead) = last (bhead # L)"
    unfolding xs links_snoc by simp_all
  then show "scan_prev n P (b_prev (bufs s bhead)) s = Ret (List.find (\<lambda>b. P (bufs s b)) (rev L)) s"
    using scan_prev_find [OF _ h assms(2), of s P] by (simp del: last.simps)
qed

definition relinked :: "(nat \<Rightarrow> buf) \<Rightarrow> (nat \<Rightarrow> buf) \<Rightarrow> bool" where
  "relinked B B' \<longleftrightarrow> (\<forall>x. (B' x)\<lparr>b_prev := 0, b_next := 0\<rparr> = (B x)\<lparr>b_prev := 0, b_next := 0\<rparr>)"

lemma relinkedD:
  assumes "relinked B B'"
  shows "b_valid (B' x) = b_valid (B x)" "b_disk (B' x) = b_disk (B x)" "b_dev (B' x) = b_dev (B x)"
    "b_blockno (B' x) = b_blockno (B x)" "b_refcnt (B' x) = b_refcnt (B x)" "b_data (B' x) = b_data (B x)"
proof -
  have e: "f ((B' x)\<lparr>b_prev := 0, b_next := 0\<rparr>) = f ((B x)\<lparr>b_prev := 0, b_next := 0\<rparr>)" for f :: "buf \<Rightarrow> 'z"
    using assms by (simp add: relinked_def)
  show "b_valid (B' x) = b_valid (B x)" "b_disk (B' x) = b_disk (B x)" "b_dev (B' x) = b_dev (B x)"
    "b_blockno (B' x) = b_blockno (B x)" "b_refcnt (B' x) = b_refcnt (B x)" "b_data (B' x) = b_data (B x)"
    using e [of b_valid] e [of b_disk] e [of b_dev] e [of b_blockno] e [of b_refcnt] e [of b_data] by simp_all
qed

lemma relinked_upd:
  "relinked B C \<Longrightarrow> relinked B (C(x := (C x)\<lparr>b_prev := p\<rparr>))"
  "relinked B C \<Longrightarrow> relinked B (C(x := (C x)\<lparr>b_next := p\<rparr>))"
  "relinked B B"
  by (simp_all add: relinked_def)

lemma links_upd_prev: "x \<notin> set (tl xs) \<Longrightarrow> links (B(x := (B x)\<lparr>b_prev := p\<rparr>)) xs = links B xs"
  by (rule links_cong) auto

lemma links_upd_next: "x \<notin> set (butlast xs) \<Longrightarrow> links (B(x := (B x)\<lparr>b_next := p\<rparr>)) xs = links B xs"
  by (rule links_cong) auto

lemma unlink_buf_lru:
  assumes "lru (bufs s) (xs @ b # ys)"
  obtains B where "unlink_buf b s = s\<lparr>bufs := B\<rparr>" "relinked (bufs s) B" "lru B (xs @ ys)"
proof -
  obtain as a where a: "bhead # xs = as @ [a]" by (cases "bhead # xs" rule: rev_exhaust) auto
  obtain c cs where c: "ys @ [bhead] = c # cs" by (cases "ys @ [bhead]") auto
  have ring: "bhead # (xs @ b # ys) @ [bhead] = as @ a # b # c # cs" using a c by simp
  have l: "links (bufs s) (as @ a # b # c # cs)" using assms ring by (metis lru_def)
  then have L: "links (bufs s) (as @ [a])" "b_next (bufs s a) = b" "b_prev (bufs s b) = a" "b_next (bufs s b) = c"
    "b_prev (bufs s c) = b" "links (bufs s) (c # cs)"
    using links_append [of "bufs s" as a "b # c # cs"] by simp_all
  have d: "distinct (xs @ b # ys)" "bhead \<notin> set (xs @ b # ys)" using assms by (auto simp: lru_def)
  have D: "distinct (as @ [a])" "distinct (c # cs)" "butlast (c # cs) = ys" "tl (as @ [a]) = xs"
    "a = bhead \<or> a \<in> set xs" "c = bhead \<or> c \<in> set ys"
  proof -
    show "distinct (as @ [a])" "distinct (c # cs)" using d unfolding a [symmetric] c [symmetric] by auto
    show "butlast (c # cs) = ys" "tl (as @ [a]) = xs" by (simp_all flip: a c)
    have "a \<in> set (bhead # xs)" "c \<in> set (ys @ [bhead])" unfolding a c by simp_all
    then show "a = bhead \<or> a \<in> set xs" "c = bhead \<or> c \<in> set ys" by auto
  qed
  have bn: "b \<noteq> a" "b \<noteq> c" using D(5,6) d by auto
  have na: "a \<notin> set ys" "c \<notin> set xs" "a \<notin> set as" "c \<notin> set cs" using D d by auto
  define B1 where "B1 = (bufs s)(c := (bufs s c)\<lparr>b_prev := a\<rparr>)"
  define B where "B = B1(a := (B1 a)\<lparr>b_next := c\<rparr>)"
  have "unlink_buf b s = s\<lparr>bufs := B\<rparr>"
    using L bn by (simp add: unlink_buf_def upd_buf_def Let_def B_def B1_def)
  moreover have "relinked (bufs s) B" unfolding B_def B1_def by (intro relinked_upd)
  moreover have "lru B (xs @ ys)"
  proof -
    have "links B1 (as @ [a])" "links B1 (c # cs)"
      unfolding B1_def using L(1,6) D(4) na by (simp_all add: links_upd_prev)
    then have "links B (as @ [a])" "links B (c # cs)"
      unfolding B_def using D(3) na by (simp_all add: links_upd_next)
    moreover have "b_next (B a) = c" "b_prev (B c) = a" by (simp_all add: B_def B1_def)
    ultimately have "links B (as @ a # c # cs)" using links_append [of B as a "c # cs"] by simp
    moreover have "bhead # (xs @ ys) @ [bhead] = as @ a # c # cs" using a c by simp
    ultimately show ?thesis using d by (simp add: lru_def)
  qed
  ultimately show thesis by (rule that)
qed

lemma link_front_lru:
  assumes "lru (bufs s) L" "b \<notin> set L" "b \<noteq> bhead"
  obtains B where "link_front b s = s\<lparr>bufs := B\<rparr>" "relinked (bufs s) B" "lru B (b # L)"
proof -
  obtain c cs where c: "L @ [bhead] = c # cs" by (cases "L @ [bhead]") auto
  have l: "links (bufs s) (bhead # c # cs)" "distinct L" "bhead \<notin> set L" using assms(1) c by (auto simp: lru_def)
  have e: "distinct (c # cs)" "b \<notin> set (c # cs)" "butlast (c # cs) = L"
    unfolding c [symmetric] using assms(2,3) l(2,3) by auto
  then have cb: "c \<noteq> b" "distinct (c # cs)" "b \<notin> set (c # cs)" "butlast (c # cs) = L" by auto
  define B1 where "B1 = (bufs s)(b := (bufs s b)\<lparr>b_next := c\<rparr>)"
  define B2 where "B2 = B1(b := (B1 b)\<lparr>b_prev := bhead\<rparr>)"
  define B3 where "B3 = B2(c := (B2 c)\<lparr>b_prev := b\<rparr>)"
  define B where "B = B3(bhead := (B3 bhead)\<lparr>b_next := b\<rparr>)"
  have n: "b_next (bufs s bhead) = c" "links (bufs s) (c # cs)" using l by simp_all
  have "link_front b s = s\<lparr>bufs := B\<rparr>"
    using n assms(3) by (simp add: link_front_def upd_buf_def Let_def B_def B3_def B2_def B1_def)
  moreover have "relinked (bufs s) B" unfolding B_def B3_def B2_def B1_def by (intro relinked_upd)
  moreover have "lru B (b # L)"
  proof -
    have "links B1 (c # cs)" unfolding B1_def using n(2) cb(3,4) assms(2) by (subst links_upd_next) auto
    then have "links B2 (c # cs)" unfolding B2_def using cb(3) by (subst links_upd_prev) auto
    then have "links B3 (c # cs)" unfolding B3_def using cb(2) by (subst links_upd_prev) auto
    then have "links B (c # cs)" unfolding B_def using cb(4) l(3) by (subst links_upd_next) auto
    moreover have "b_next (B bhead) = b" "b_prev (B b) = bhead" "b_next (B b) = c" "b_prev (B c) = b"
      using assms(3) cb(1) by (simp_all add: B_def B3_def B2_def B1_def)
    ultimately show ?thesis using assms c l(2,3) by (simp add: lru_def)
  qed
  ultimately show thesis by (rule that)
qed

lemma move_front_lru:
  assumes "lru (bufs s) L" "b \<in> set L"
  obtains B where "link_front b (unlink_buf b s) = s\<lparr>bufs := B\<rparr>" "relinked (bufs s) B" "lru B (b # remove1 b L)"
proof -
  obtain xs ys where L: "L = xs @ b # ys" using assms(2) by (meson split_list)
  have d: "b \<notin> set (xs @ ys)" "b \<noteq> bhead" using assms(1) L by (auto simp: lru_def)
  obtain B where B: "unlink_buf b s = s\<lparr>bufs := B\<rparr>" "relinked (bufs s) B" "lru B (xs @ ys)"
    using unlink_buf_lru assms(1) L by blast
  obtain C where C: "link_front b (s\<lparr>bufs := B\<rparr>) = s\<lparr>bufs := B\<rparr>\<lparr>bufs := C\<rparr>" "relinked B C" "lru C (b # xs @ ys)"
    using link_front_lru [of "s\<lparr>bufs := B\<rparr>" "xs @ ys" b] B(3) d by auto
  have "relinked (bufs s) C" using B(2) C(2) by (simp add: relinked_def)
  moreover have "remove1 b L = xs @ ys" using L d by (simp add: remove1_append)
  ultimately show thesis using B(1) C that [of C] by simp
qed

end
