(* ===== verification/Bio_Cache.thy ===== *)
theory Bio_Cache
  imports Bio_List
begin

text \<open>
  The laws of the buffer cache for one process that uses it. \<open>slot\<close> is the buffer that
  caches a block of the root device, \<open>content\<close> the data a reader of the block gets,
  \<open>refs\<close> its reference count, \<open>held\<close> whether its lock is held and \<open>handle\<close> the
  buffer through which the process holds it. \<open>bio_ok\<close> is the invariant of the cache:
  the LRU list is whole, a block has at most one buffer, and a buffer that nobody uses and that
  is valid agrees with the disk.
\<close>

section \<open>Abstraction and invariant\<close>

definition slot :: "(nat \<Rightarrow> buf) \<Rightarrow> u32 \<Rightarrow> nat option" where
  "slot B bno = List.find (\<lambda>b. b_dev (B b) = ROOTDEV \<and> b_blockno (B b) = bno) [0..<NBUF]"

definition content :: "'b dsys_scheme \<Rightarrow> u32 \<Rightarrow> block" where
  "content s bno = (case slot (bufs s) bno of
     None \<Rightarrow> disk s bno | Some b \<Rightarrow> if b_valid (bufs s b) then b_data (bufs s b) else disk s bno)"

definition refs :: "'b dsys_scheme \<Rightarrow> u32 \<Rightarrow> nat" where
  "refs s bno = (case slot (bufs s) bno of None \<Rightarrow> 0 | Some b \<Rightarrow> unat (b_refcnt (bufs s b)))"

definition held :: "'b dsys_scheme \<Rightarrow> u32 \<Rightarrow> bool" where
  "held s bno = (case slot (bufs s) bno of None \<Rightarrow> False | Some b \<Rightarrow> sl_locked (slocks s (BufLock b)))"

definition uniq :: "(nat \<Rightarrow> buf) \<Rightarrow> bool" where
  "uniq B \<longleftrightarrow> (\<forall>b<NBUF. \<forall>c<NBUF. b_dev (B b) = ROOTDEV \<and> b_dev (B c) = ROOTDEV
     \<and> b_blockno (B b) = b_blockno (B c) \<longrightarrow> b = c)"

definition bio_ok :: "'b dsys_scheme \<Rightarrow> bool" where
  "bio_ok s \<longleftrightarrow> (\<exists>L. lru (bufs s) L \<and> set L = {..<NBUF}) \<and> uniq (bufs s)
     \<and> (\<forall>b<NBUF. b_dev (bufs s b) \<noteq> ROOTDEV \<longrightarrow> b_refcnt (bufs s b) = 0)
     \<and> (\<forall>b<NBUF. sl_locked (slocks s (BufLock b)) \<longrightarrow> b_refcnt (bufs s b) \<noteq> 0)
     \<and> (\<forall>b<NBUF. b_dev (bufs s b) = ROOTDEV \<and> b_valid (bufs s b) \<and> b_refcnt (bufs s b) = 0
          \<longrightarrow> b_data (bufs s b) = disk s (b_blockno (bufs s b)))"

definition free_buf :: "'b dsys_scheme \<Rightarrow> bool" where
  "free_buf s \<longleftrightarrow> (\<exists>b<NBUF. b_refcnt (bufs s b) = 0)"

lemma bio_okD:
  assumes "bio_ok s"
  shows "\<exists>L. lru (bufs s) L \<and> set L = {..<NBUF}" "uniq (bufs s)"
    "b < NBUF \<Longrightarrow> b_dev (bufs s b) \<noteq> ROOTDEV \<Longrightarrow> b_refcnt (bufs s b) = 0"
    "b < NBUF \<Longrightarrow> sl_locked (slocks s (BufLock b)) \<Longrightarrow> b_refcnt (bufs s b) \<noteq> 0"
    "b < NBUF \<Longrightarrow> b_dev (bufs s b) = ROOTDEV \<Longrightarrow> b_valid (bufs s b) \<Longrightarrow> b_refcnt (bufs s b) = 0
       \<Longrightarrow> b_data (bufs s b) = disk s (b_blockno (bufs s b))"
  using assms by (auto simp: bio_ok_def)

lemma uniqD:
  "uniq B \<Longrightarrow> b < NBUF \<Longrightarrow> c < NBUF \<Longrightarrow> b_dev (B b) = ROOTDEV \<Longrightarrow> b_dev (B c) = ROOTDEV
   \<Longrightarrow> b_blockno (B b) = b_blockno (B c) \<Longrightarrow> b = c"
  by (simp add: uniq_def)

lemma slot_Some:
  assumes "uniq B"
  shows "slot B bno = Some b \<longleftrightarrow> b < NBUF \<and> b_dev (B b) = ROOTDEV \<and> b_blockno (B b) = bno"
proof
  assume "slot B bno = Some b"
  then show "b < NBUF \<and> b_dev (B b) = ROOTDEV \<and> b_blockno (B b) = bno"
    by (auto simp: slot_def find_Some_iff)
next
  assume b: "b < NBUF \<and> b_dev (B b) = ROOTDEV \<and> b_blockno (B b) = bno"
  then have "slot B bno \<noteq> None" by (auto simp: slot_def find_None_iff)
  then obtain c where c: "slot B bno = Some c" by auto
  then have "c < NBUF \<and> b_dev (B c) = ROOTDEV \<and> b_blockno (B c) = bno"
    by (auto simp: slot_def find_Some_iff)
  then have "c = b" using b assms unfolding uniq_def by metis
  then show "slot B bno = Some b" using c by simp
qed

lemma slot_None: "slot B bno = None \<longleftrightarrow> (\<forall>b<NBUF. b_dev (B b) = ROOTDEV \<longrightarrow> b_blockno (B b) \<noteq> bno)"
  by (auto simp: slot_def find_None_iff)

lemma slot_cong:
  assumes "\<And>x. x < NBUF \<Longrightarrow> b_dev (B' x) = b_dev (B x) \<and> b_blockno (B' x) = b_blockno (B x)"
  shows "slot B' = slot B"
  unfolding slot_def by (intro ext find_cong) (use assms in auto)

lemma find_lru:
  assumes "uniq B" "set L = {..<NBUF}"
  shows "List.find (\<lambda>b. b_dev (B b) = ROOTDEV \<and> b_blockno (B b) = bno) L = slot B bno"
proof (cases "slot B bno")
  case None
  then have "List.find (\<lambda>b. b_dev (B b) = ROOTDEV \<and> b_blockno (B b) = bno) L = None"
    using assms(2) by (auto simp: slot_None find_None_iff)
  then show ?thesis using None by simp
next
  case (Some b)
  then have b: "b \<in> set L" "b_dev (B b) = ROOTDEV" "b_blockno (B b) = bno"
    using assms by (auto simp: slot_Some)
  then obtain c where c: "List.find (\<lambda>b. b_dev (B b) = ROOTDEV \<and> b_blockno (B b) = bno) L = Some c"
    by (cases "List.find (\<lambda>b. b_dev (B b) = ROOTDEV \<and> b_blockno (B b) = bno) L") (auto simp: find_None_iff)
  then have "c \<in> set L" "b_dev (B c) = ROOTDEV" "b_blockno (B c) = bno"
    by (auto simp: find_Some_iff)
  then have "slot B bno = Some c" using assms by (auto simp: slot_Some)
  then show ?thesis using c by simp
qed

lemma lru_length: "lru B L \<Longrightarrow> set L = {..<NBUF} \<Longrightarrow> length L = NBUF"
  using distinct_card [of L] by (auto simp: lru_def)

lemma option_eqI: "(\<And>y. x = Some y \<longleftrightarrow> z = Some y) \<Longrightarrow> x = z"
  by (cases x; cases z) auto

lemma slot_move:
  assumes "uniq B" "uniq (B(b := r))" "b_dev r = ROOTDEV" "b_blockno r = bno" "x \<noteq> bno"
  shows "slot (B(b := r)) x = (if slot B x = Some b then None else slot B x)"
  by (rule option_eqI) (use assms in \<open>auto simp: slot_Some dest: uniqD\<close>)

lemma fill_slot:
  assumes u: "uniq B" and b: "b < NBUF" and at: "slot B bno = Some b \<or> slot B bno = None"
    and r: "b_dev r = ROOTDEV" "b_blockno r = bno"
  shows "uniq (B(b := r))"
    "slot (B(b := r)) x = (if x = bno then Some b else if slot B x = Some b then None else slot B x)"
proof -
  have no: "y = b" if "y < NBUF" "b_dev (B y) = ROOTDEV" "b_blockno (B y) = bno" for y
  proof -
    have "slot B bno = Some y" using that by (simp add: slot_Some [OF u])
    then show ?thesis using at by auto
  qed
  show uu: "uniq (B(b := r))"
    unfolding uniq_def
  proof (intro allI impI, elim conjE)
    fix x y assume x: "x < NBUF" "y < NBUF" "b_dev ((B(b := r)) x) = ROOTDEV" "b_dev ((B(b := r)) y) = ROOTDEV"
      "b_blockno ((B(b := r)) x) = b_blockno ((B(b := r)) y)"
    show "x = y"
    proof -
      consider "x = b" "y = b" | "x = b" "y \<noteq> b" | "x \<noteq> b" "y = b" | "x \<noteq> b" "y \<noteq> b" by blast
      then show "x = y"
      proof cases
        case 2
        then have "y = b" using x r by (intro no) simp_all
        then show ?thesis using 2 by simp
      next
        case 3
        then have "x = b" using x r by (intro no) simp_all
        then show ?thesis using 3 by simp
      next
        case 4
        then show ?thesis using x by (intro uniqD [OF u]) simp_all
      qed simp
    qed
  qed
  show "slot (B(b := r)) x = (if x = bno then Some b else if slot B x = Some b then None else slot B x)"
  proof (cases "x = bno")
    case True
    then show ?thesis using slot_Some [OF uu, of bno b] b r by simp
  next
    case False
    then show ?thesis using slot_move [OF u uu r] by simp
  qed
qed

lemma lru_same:
  assumes "\<exists>L. lru B L \<and> set L = {..<NBUF}"
    "\<And>x. b_prev (B' x) = b_prev (B x)" "\<And>x. b_next (B' x) = b_next (B x)"
  shows "\<exists>L. lru B' L \<and> set L = {..<NBUF}"
proof -
  obtain L where L: "lru B L" "set L = {..<NBUF}" using assms(1) by blast
  have "links B' (bhead # L @ [bhead]) = links B (bhead # L @ [bhead])"
    by (rule links_cong) (auto simp: assms(2,3))
  then show ?thesis using L by (auto simp: lru_def)
qed

text \<open>A buffer is filled for \<open>bno\<close>: the one that caches it, or one that nobody uses.\<close>

definition fills :: "nat \<Rightarrow> u32 \<Rightarrow> buf \<Rightarrow> sleeplock \<Rightarrow> 'b dsys_scheme \<Rightarrow> 'b dsys_scheme \<Rightarrow> bool" where
  "fills b bno r k s t \<longleftrightarrow> bio_ok s \<and> b < NBUF
     \<and> (slot (bufs s) bno = Some b \<or> slot (bufs s) bno = None \<and> b_refcnt (bufs s b) = 0)
     \<and> b_dev r = ROOTDEV \<and> b_blockno r = bno \<and> b_valid r
     \<and> b_prev r = b_prev (bufs s b) \<and> b_next r = b_next (bufs s b)
     \<and> b_refcnt r = b_refcnt (bufs s b) + 1 \<and> refs s bno < 2 ^ 32 - 1
     \<and> t = s\<lparr>hw := settle (hw s), slocks := (slocks s)(BufLock b := k), bufs := (bufs s)(b := r)\<rparr>"

lemma fills_slot:
  assumes "fills b bno r k s t"
  shows "slot (bufs t) x = (if x = bno then Some b else if slot (bufs s) x = Some b then None else slot (bufs s) x)"
  using assms fill_slot(2) [OF bio_okD(2), of s b bno r x] by (auto simp: fills_def)

lemma fills_old:
  assumes "fills b bno r k s t" "x \<noteq> bno" "slot (bufs s) x = Some b"
  shows "b_refcnt (bufs s b) = 0" "\<not> sl_locked (slocks s (BufLock b))"
    "b_valid (bufs s b) \<Longrightarrow> b_data (bufs s b) = disk s x"
proof -
  have F: "bio_ok s" "b < NBUF" "slot (bufs s) bno = Some b \<or> b_refcnt (bufs s b) = 0"
    using assms(1) by (auto simp: fills_def)
  have d: "b_dev (bufs s b) = ROOTDEV" "b_blockno (bufs s b) = x"
    using assms(3) slot_Some [OF bio_okD(2) [OF F(1)]] by auto
  then show z: "b_refcnt (bufs s b) = 0"
    using F(3) assms(2) slot_Some [OF bio_okD(2) [OF F(1)], of bno b] by auto
  then show "\<not> sl_locked (slocks s (BufLock b))" using bio_okD(4) [OF F(1,2)] by blast
  show "b_valid (bufs s b) \<Longrightarrow> b_data (bufs s b) = disk s x" using bio_okD(5) [OF F(1,2)] d z by simp
qed

lemma fills_refcnt:
  assumes "fills b bno r k s t"
  shows "unat (b_refcnt r) = refs s bno + 1" "b_refcnt r \<noteq> 0"
proof -
  have e: "unat (b_refcnt (bufs s b)) = refs s bno" "refs s bno < 2 ^ 32 - 1" "b_refcnt r = b_refcnt (bufs s b) + 1"
    using assms by (auto simp: refs_def fills_def)
  then show "unat (b_refcnt r) = refs s bno + 1" by (simp add: unat_word_ariths)
  then show "b_refcnt r \<noteq> 0" by auto
qed

lemma fills_ok:
  assumes F: "fills b bno r k s t"
  shows "bio_ok t"
proof -
  have ok: "bio_ok s" and b: "b < NBUF" and at: "slot (bufs s) bno = Some b \<or> slot (bufs s) bno = None"
    and r: "b_dev r = ROOTDEV" "b_blockno r = bno" "b_prev r = b_prev (bufs s b)" "b_next r = b_next (bufs s b)"
    and t: "t = s\<lparr>hw := settle (hw s), slocks := (slocks s)(BufLock b := k), bufs := (bufs s)(b := r)\<rparr>"
    using F by (auto simp: fills_def)
  have l: "\<exists>L. lru ((bufs s)(b := r)) L \<and> set L = {..<NBUF}"
    by (rule lru_same [OF bio_okD(1) [OF ok]]) (auto simp: r)
  show ?thesis
    unfolding bio_ok_def t
    using l fill_slot(1) [OF bio_okD(2) [OF ok] b at r(1,2)] bio_okD(3-5) [OF ok] fills_refcnt(2) [OF F] r
    by auto
qed

definition handle :: "nat \<Rightarrow> 'b dsys_scheme \<Rightarrow> u32 \<Rightarrow> nat option" where
  "handle me s bno = (case slot (bufs s) bno of None \<Rightarrow> None
     | Some b \<Rightarrow> if b_valid (bufs s b) \<and> sl_locked (slocks s (BufLock b))
                   \<and> sl_pid (slocks s (BufLock b)) = p_pid (procs s me) then Some b else None)"

lemma handle_Some:
  "handle me s bno = Some b \<longleftrightarrow> slot (bufs s) bno = Some b \<and> b_valid (bufs s b)
     \<and> sl_locked (slocks s (BufLock b)) \<and> sl_pid (slocks s (BufLock b)) = p_pid (procs s me)"
  by (auto simp: handle_def split: option.splits)

lemma fills_view:
  assumes F: "fills b bno r k s t" and k: "sl_locked k" "sl_pid k = p_pid (procs s me)"
  shows "content t = (content s)(bno := b_data r)" "refs t = (refs s)(bno := refs s bno + 1)"
    "held t = (held s)(bno := True)" "handle me t = (handle me s)(bno := Some b)"
proof -
  have t: "bufs t = (bufs s)(b := r)" "slocks t = (slocks s)(BufLock b := k)" "disk t = disk s" "procs t = procs s"
    and r: "b_valid r" using F by (auto simp: fills_def)
  note S = fills_slot [OF F, unfolded t] and O = fills_old [OF F]
  have "content t x = ((content s)(bno := b_data r)) x" for x
    using O [of x] by (cases "x = bno"; cases "slot (bufs s) x") (auto simp: content_def S t r)
  then show "content t = (content s)(bno := b_data r)" by blast
  have "refs t x = ((refs s)(bno := refs s bno + 1)) x" for x
    using O [of x] fills_refcnt [OF F]
    by (cases "x = bno"; cases "slot (bufs s) x") (auto simp: refs_def S t)
  then show "refs t = (refs s)(bno := refs s bno + 1)" by blast
  have "held t x = ((held s)(bno := True)) x" for x
    using O [of x] by (cases "x = bno"; cases "slot (bufs s) x") (auto simp: held_def S t k)
  then show "held t = (held s)(bno := True)" by blast
  have "handle me t x = ((handle me s)(bno := Some b)) x" for x
    using O [of x] by (cases "x = bno"; cases "slot (bufs s) x") (auto simp: handle_def S t k r)
  then show "handle me t = (handle me s)(bno := Some b)" by blast
qed

section \<open>Reading a block\<close>

definition bframe :: "'b dsys_scheme \<Rightarrow> 'b dsys_scheme \<Rightarrow> bool" where
  "bframe s t \<longleftrightarrow> (\<exists>h q l B d w. t = s\<lparr>hw := h, procs := q, slocks := l, bufs := B, disk := d, dwrites := w\<rparr>
     \<and> (h = hw s \<or> h = settle (hw s))
     \<and> (\<forall>p. p_pid (q p) = p_pid (procs s p)) \<and> (\<forall>x. (\<forall>b. x \<noteq> BufLock b) \<longrightarrow> l x = slocks s x))"

lemma bframeI:
  assumes "t = s\<lparr>hw := h, procs := q, slocks := l, bufs := B, disk := d, dwrites := w\<rparr>"
    "h = hw s \<or> h = settle (hw s)"
    "\<And>p. p_pid (q p) = p_pid (procs s p)" "\<And>x. (\<And>b. x \<noteq> BufLock b) \<Longrightarrow> l x = slocks s x"
  shows "bframe s t"
  using assms unfolding bframe_def by blast

lemma bframe_refl: "bframe s s"
  by (rule bframeI [where h = "hw s" and q = "procs s" and l = "slocks s" and B = "bufs s" and d = "disk s"
    and w = "dwrites s"]) simp_all

lemma bframe_trans:
  assumes "bframe s t" "bframe t u"
  shows "bframe s u"
proof -
  obtain h q l B d w where t: "t = s\<lparr>hw := h, procs := q, slocks := l, bufs := B, disk := d, dwrites := w\<rparr>"
    "h = hw s \<or> h = settle (hw s)"
    "\<forall>p. p_pid (q p) = p_pid (procs s p)" "\<forall>x. (\<forall>b. x \<noteq> BufLock b) \<longrightarrow> l x = slocks s x"
    using assms(1) unfolding bframe_def by blast
  obtain h' q' l' B' d' w' where u: "u = t\<lparr>hw := h', procs := q', slocks := l', bufs := B', disk := d', dwrites := w'\<rparr>"
    "h' = hw t \<or> h' = settle (hw t)"
    "\<forall>p. p_pid (q' p) = p_pid (procs t p)" "\<forall>x. (\<forall>b. x \<noteq> BufLock b) \<longrightarrow> l' x = slocks t x"
    using assms(2) unfolding bframe_def by blast
  have "h' = hw s \<or> h' = settle (hw s)" using t(1,2) u(2) by (auto simp: hw_simps)
  then show ?thesis
    by (rule bframeI [where h = h' and q = q' and l = l' and B = B' and d = d' and w = w', rotated 1])
      (use t u in simp_all)
qed

lemma bframe_hw: "bframe s t \<Longrightarrow> hw t = hw s \<or> hw t = settle (hw s)"
  by (auto simp: bframe_def)

definition bio_locks :: "lockid set \<Rightarrow> bool" where
  "bio_locks K \<longleftrightarrow> BcacheLock \<notin> K \<and> (\<forall>b. SleepInner (BufLock b) \<notin> K) \<and> no_proc_lock K"

definition bready :: "lockid set \<Rightarrow> nat \<Rightarrow> 'b dsys_scheme \<Rightarrow> bool" where
  "bready K me s \<longleftrightarrow> rest K me (hw s) \<and> bio_locks K \<and> bio_ok s"

lemma breadyD:
  assumes "bready K me s"
  shows "rest K me (hw s)" "BcacheLock \<notin> K" "SleepInner (BufLock b) \<notin> K" "no_proc_lock K" "bio_ok s"
  using assms by (auto simp: bready_def bio_locks_def)

lemma bready_frame: "bready K me s \<Longrightarrow> bframe s t \<Longrightarrow> bio_ok t \<Longrightarrow> bready K me t"
  using bframe_hw [of s t] by (auto simp: bready_def hw_simps)

definition pinned :: "'b dsys_scheme \<Rightarrow> u32 set" where
  "pinned s = {bno. refs s bno \<noteq> 0}"

lemma pinned_free:
  assumes ok: "bio_ok s" and c: "card (pinned s) < NBUF"
  shows "free_buf s"
proof (rule ccontr)
  assume "\<not> free_buf s"
  then have n: "\<And>b. b < NBUF \<Longrightarrow> b_refcnt (bufs s b) \<noteq> 0" by (auto simp: free_buf_def)
  then have dev: "\<And>b. b < NBUF \<Longrightarrow> b_dev (bufs s b) = ROOTDEV" using bio_okD(3) [OF ok] by blast
  let ?f = "\<lambda>b. b_blockno (bufs s b)"
  have inj: "inj_on ?f {..<NBUF}"
    by (auto simp: inj_on_def intro: uniqD [OF bio_okD(2) [OF ok]] dev)
  have "bno \<in> ?f ` {..<NBUF}" if "bno \<in> pinned s" for bno
    using that slot_Some [OF bio_okD(2) [OF ok]] by (auto simp: pinned_def refs_def split: option.splits)
  moreover have "?f b \<in> pinned s" if "b < NBUF" for b
  proof -
    have "slot (bufs s) (?f b) = Some b" using that dev slot_Some [OF bio_okD(2) [OF ok]] by blast
    then show ?thesis using n that by (simp add: pinned_def refs_def unat_gt_0)
  qed
  ultimately have "pinned s = ?f ` {..<NBUF}" by blast
  then have "card (pinned s) = NBUF" using card_image [OF inj] by simp
  then show False using c by simp
qed

lemma buf_order:
  "r\<lparr>b_data := d, b_valid := v\<rparr> = r\<lparr>b_valid := v, b_data := d\<rparr>"
  "r\<lparr>b_refcnt := n, b_valid := v\<rparr> = r\<lparr>b_valid := v, b_refcnt := n\<rparr>"
  "b_valid r \<Longrightarrow> r\<lparr>b_valid := True\<rparr> = r" "r\<lparr>b_data := b_data r\<rparr> = r" 
  by simp_all

lemma bread_cached:
  assumes rd: "bready K me s" and sl: "slot (bufs s) bno = Some b" and nh: "\<not> held s bno"
  shows "bread ROOTDEV bno s = Ret b (s\<lparr>hw := settle (hw s),
      slocks := (slocks s)(BufLock b := (slocks s (BufLock b))\<lparr>sl_locked := True, sl_pid := p_pid (procs s me)\<rparr>),
      bufs := (bufs s)(b := (bufs s b)\<lparr>b_refcnt := b_refcnt (bufs s b) + 1, b_valid := True, b_data := content s bno\<rparr>)\<rparr>)"
proof -
  note R = breadyD(1) [OF rd] and O = breadyD(5) [OF rd]
  obtain L where L: "lru (bufs s) L" "set L = {..<NBUF}" using bio_okD(1) [OF O] by blast
  have lo: "\<not> sl_locked (slocks s (BufLock b))" using sl nh by (simp add: held_def)
  let ?u = "s\<lparr>hw := acq BcacheLock (hw s)\<rparr>"
  have sc: "scan_next NBUF (\<lambda>r. b_dev r = ROOTDEV \<and> b_blockno r = bno) (b_next (bufs ?u bhead)) ?u = Ret (Some b) ?u"
    using lru_scans(1) [of ?u L NBUF] L lru_length [OF L] find_lru [OF bio_okD(2) [OF O] L(2)] sl by simp
  let ?r = "(bufs s b)\<lparr>b_refcnt := b_refcnt (bufs s b) + 1\<rparr>"
  let ?v = "s\<lparr>hw := settle (hw s), bufs := (bufs s)(b := ?r)\<rparr>"
  have aq: "acquiresleep (BufLock b) ?v = Ret () (?v\<lparr>hw := settle (hw ?v),
     slocks := (slocks ?v)(BufLock b := (slocks ?v (BufLock b))\<lparr>sl_locked := True, sl_pid := p_pid (procs ?v me)\<rparr>)\<rparr>)"
    using R breadyD(3) [OF rd] lo by (intro acquiresleep_eq [where K = K]) (simp_all add: hw_simps)
  have bg: "bget ROOTDEV bno s = Ret b (s\<lparr>hw := settle (hw s), 
     slocks := (slocks s)(BufLock b := (slocks s (BufLock b))\<lparr>sl_locked := True, sl_pid := p_pid (procs s me)\<rparr>),
     bufs := (bufs s)(b := ?r)\<rparr>)"
    using aq sc acquire_rest [OF R breadyD(2) [OF rd]]
    by (simp add: bget_def upd_buf_def release_rest [OF R breadyD(2) [OF rd]] hw_simps upd_comm)
  show ?thesis
    using sl slot_Some [OF bio_okD(2) [OF O], of bno b]
    by (cases "b_valid (bufs s b)") (auto simp: bread_def bg content_def disk_rw_def upd_buf_def buf_order)
qed

lemma bread_uncached:
  assumes rd: "bready K me s" and sl: "slot (bufs s) bno = None" and fr: "free_buf s"
  obtains b r where "b < NBUF" "b_refcnt (bufs s b) = 0"
    "r = (bufs s b)\<lparr>b_dev := ROOTDEV, b_blockno := bno, b_valid := True, b_refcnt := 1, b_data := content s bno\<rparr>"
    "bread ROOTDEV bno s = Ret b (s\<lparr>hw := settle (hw s),
      slocks := (slocks s)(BufLock b := (slocks s (BufLock b))\<lparr>sl_locked := True, sl_pid := p_pid (procs s me)\<rparr>),
      bufs := (bufs s)(b := r)\<rparr>)"
proof -
  note R = breadyD(1) [OF rd] and O = breadyD(5) [OF rd]
  obtain L where L: "lru (bufs s) L" "set L = {..<NBUF}" using bio_okD(1) [OF O] by blast
  let ?u = "s\<lparr>hw := acq BcacheLock (hw s)\<rparr>"
  have sc: "scan_next NBUF (\<lambda>r. b_dev r = ROOTDEV \<and> b_blockno r = bno) (b_next (bufs ?u bhead)) ?u = Ret None ?u"
    using lru_scans(1) [of ?u L NBUF] L lru_length [OF L] find_lru [OF bio_okD(2) [OF O] L(2)] sl by simp
  obtain b where fb: "List.find (\<lambda>b. b_refcnt (bufs s b) = 0) (rev L) = Some b"
    using fr L(2) by (cases "List.find (\<lambda>b. b_refcnt (bufs s b) = 0) (rev L)") (auto simp: find_None_iff free_buf_def)
  have sp: "scan_prev NBUF (\<lambda>r. b_refcnt r = 0) (b_prev (bufs ?u bhead)) ?u = Ret (Some b) ?u"
    using lru_scans(2) [of ?u L NBUF] L lru_length [OF L] fb by simp
  have "b \<in> set L" "b_refcnt (bufs s b) = 0" 
    using fb nth_mem [of _ "rev L"] by (auto simp: find_Some_iff simp del: nth_mem)
  then have b: "b < NBUF" "b_refcnt (bufs s b) = 0" using L(2) by auto
  have lo: "\<not> sl_locked (slocks s (BufLock b))" using bio_okD(4) [OF O b(1)] b(2) by blast
  let ?r = "(bufs s b)\<lparr>b_dev := ROOTDEV, b_blockno := bno, b_valid := False, b_refcnt := 1\<rparr>"
  let ?v = "s\<lparr>hw := settle (hw s), bufs := (bufs s)(b := ?r)\<rparr>"
  have aq: "acquiresleep (BufLock b) ?v = Ret () (?v\<lparr>hw := settle (hw ?v),
     slocks := (slocks ?v)(BufLock b := (slocks ?v (BufLock b))\<lparr>sl_locked := True, sl_pid := p_pid (procs ?v me)\<rparr>)\<rparr>)"
    using R breadyD(3) [OF rd] lo by (intro acquiresleep_eq [where K = K]) (simp_all add: hw_simps)
  have bg: "bget ROOTDEV bno s = Ret b (s\<lparr>hw := settle (hw s), 
     slocks := (slocks s)(BufLock b := (slocks s (BufLock b))\<lparr>sl_locked := True, sl_pid := p_pid (procs s me)\<rparr>),
     bufs := (bufs s)(b := ?r)\<rparr>)"
    using aq sc sp acquire_rest [OF R breadyD(2) [OF rd]]
    by (simp add: bget_def upd_buf_def release_rest [OF R breadyD(2) [OF rd]] hw_simps upd_comm)
  show thesis
    by (rule that [OF b refl]) (simp add: bread_def bg content_def sl disk_rw_def upd_buf_def buf_order)
qed

definition bread_post :: "lockid set \<Rightarrow> nat \<Rightarrow> u32 \<Rightarrow> 'b dsys_scheme \<Rightarrow> nat \<Rightarrow> 'b dsys_scheme \<Rightarrow> bool" where
  "bread_post K me bno s b t \<longleftrightarrow> bframe s t \<and> bready K me t \<and> content t = content s
     \<and> refs t = (refs s)(bno := refs s bno + 1) \<and> held t = (held s)(bno := True)
     \<and> handle me t = (handle me s)(bno := Some b) \<and> disk t = disk s \<and> dwrites t = dwrites s"

lemma fills_post:
  assumes rd: "bready K me s" and F: "fills b bno r k s t" and k: "sl_locked k" "sl_pid k = p_pid (procs s me)"
    and d: "b_data r = content s bno"
  shows "bread_post K me bno s b t"
proof -
  have t: "t = s\<lparr>hw := settle (hw s), slocks := (slocks s)(BufLock b := k), bufs := (bufs s)(b := r)\<rparr>"
    using F by (auto simp: fills_def)
  have fr: "bframe s t"
    by (rule bframeI [where h = "settle (hw s)" and q = "procs s" and l = "(slocks s)(BufLock b := k)" and B = "(bufs s)(b := r)"
      and d = "disk s" and w = "dwrites s"]) (simp_all add: t)
  show ?thesis
    using fr bready_frame [OF rd fr fills_ok [OF F]] fills_view [OF F k] d
    by (simp add: bread_post_def t)
qed

lemma bread_spec:
  assumes rd: "bready K me s" and nh: "\<not> held s bno" and rc: "refs s bno < 2 ^ 32 - 1"
    and fr: "refs s bno \<noteq> 0 \<or> card (pinned s) < NBUF"
  shows "yields (bread ROOTDEV bno s) (bread_post K me bno s)"
proof (cases "slot (bufs s) bno")
  case None
  then have "free_buf s" using fr pinned_free [OF breadyD(5) [OF rd]] by (auto simp: refs_def)
  then obtain b r where b: "b < NBUF" "b_refcnt (bufs s b) = 0"
    and r: "r = (bufs s b)\<lparr>b_dev := ROOTDEV, b_blockno := bno, b_valid := True, b_refcnt := 1, b_data := content s bno\<rparr>"
    and br: "bread ROOTDEV bno s = Ret b (s\<lparr>hw := settle (hw s),
      slocks := (slocks s)(BufLock b := (slocks s (BufLock b))\<lparr>sl_locked := True, sl_pid := p_pid (procs s me)\<rparr>),
      bufs := (bufs s)(b := r)\<rparr>)"
    using bread_uncached [OF rd None] by blast
  have "fills b bno r ((slocks s (BufLock b))\<lparr>sl_locked := True, sl_pid := p_pid (procs s me)\<rparr>) s
     (s\<lparr>hw := settle (hw s), slocks := (slocks s)(BufLock b := (slocks s (BufLock b))\<lparr>sl_locked := True, sl_pid := p_pid (procs s me)\<rparr>),
      bufs := (bufs s)(b := r)\<rparr>)"
    using b None rc breadyD(5) [OF rd] by (simp add: fills_def r)
  then show ?thesis unfolding br by (simp add: fills_post [OF rd] r)
next
  case (Some b)
  let ?r = "(bufs s b)\<lparr>b_refcnt := b_refcnt (bufs s b) + 1, b_valid := True, b_data := content s bno\<rparr>"
  have "fills b bno ?r ((slocks s (BufLock b))\<lparr>sl_locked := True, sl_pid := p_pid (procs s me)\<rparr>) s
     (s\<lparr>hw := settle (hw s), slocks := (slocks s)(BufLock b := (slocks s (BufLock b))\<lparr>sl_locked := True, sl_pid := p_pid (procs s me)\<rparr>),
      bufs := (bufs s)(b := ?r)\<rparr>)"
    using Some rc breadyD(5) [OF rd] slot_Some [OF bio_okD(2) [OF breadyD(5) [OF rd]], of bno b]
    by (simp add: fills_def)
  then show ?thesis unfolding bread_cached [OF rd Some nh] by (simp add: fills_post [OF rd])
qed

text \<open>A buffer in use changes.\<close>

definition mods :: "nat \<Rightarrow> u32 \<Rightarrow> buf \<Rightarrow> sleeplock \<Rightarrow> 'b dsys_scheme \<Rightarrow> 'b dsys_scheme \<Rightarrow> bool" where
  "mods b bno r k s t \<longleftrightarrow> bio_ok s \<and> slot (bufs s) bno = Some b \<and> b_valid (bufs s b)
     \<and> b_dev r = ROOTDEV \<and> b_blockno r = bno \<and> b_valid r
     \<and> (sl_locked k \<longrightarrow> b_refcnt r \<noteq> 0) \<and> (b_refcnt r = 0 \<longrightarrow> b_data r = disk t bno)
     \<and> relinked ((bufs s)(b := r)) (bufs t) \<and> (\<exists>L. lru (bufs t) L \<and> set L = {..<NBUF})
     \<and> slocks t = (slocks s)(BufLock b := k) \<and> (\<forall>x. x \<noteq> bno \<longrightarrow> disk t x = disk s x)
     \<and> (\<forall>p. p_pid (procs t p) = p_pid (procs s p))"

lemma mods_slot:
  assumes "mods b bno r k s t"
  shows "slot (bufs t) = slot (bufs s)" "uniq (bufs t)" "b < NBUF"
proof -
  have M: "bio_ok s" "slot (bufs s) bno = Some b" "b_dev r = ROOTDEV" "b_blockno r = bno"
    "relinked ((bufs s)(b := r)) (bufs t)" using assms by (auto simp: mods_def)
  note R = relinkedD [OF M(5)] and U = bio_okD(2) [OF M(1)]
  have b: "b < NBUF" "b_dev (bufs s b) = ROOTDEV" "b_blockno (bufs s b) = bno"
    using M(2) slot_Some [OF U] by auto
  show "b < NBUF" by (rule b)
  have e: "b_dev (bufs t x) = b_dev (bufs s x)" "b_blockno (bufs t x) = b_blockno (bufs s x)" for x
    using R b M by simp_all
  show "slot (bufs t) = slot (bufs s)" by (intro slot_cong) (simp add: e)
  show "uniq (bufs t)" using U by (simp add: uniq_def e)
qed

lemma mods_other:
  assumes "mods b bno r k s t" "x \<noteq> bno" "slot (bufs s) x = Some c"
  shows "c \<noteq> b"
proof -
  have M: "bio_ok s" "slot (bufs s) bno = Some b" using assms by (auto simp: mods_def)
  show ?thesis
    using M(2) assms(2,3) by (auto simp: slot_Some [OF bio_okD(2) [OF M(1)]])
qed

lemma mods_buf:
  assumes "mods b bno r k s t"
  shows "b_valid (bufs t x) = b_valid (((bufs s)(b := r)) x)" "b_dev (bufs t x) = b_dev (((bufs s)(b := r)) x)"
    "b_blockno (bufs t x) = b_blockno (((bufs s)(b := r)) x)" "b_refcnt (bufs t x) = b_refcnt (((bufs s)(b := r)) x)"
    "b_data (bufs t x) = b_data (((bufs s)(b := r)) x)"
  using assms relinkedD [of "(bufs s)(b := r)" "bufs t" x] by (simp_all add: mods_def)

lemma mods_view:
  assumes M: "mods b bno r k s t"
  shows "content t = (content s)(bno := b_data r)" "refs t = (refs s)(bno := unat (b_refcnt r))"
    "held t = (held s)(bno := sl_locked k)"
    "handle me t = (handle me s)(bno := (if sl_locked k \<and> sl_pid k = p_pid (procs s me) then Some b else None))"
proof -
  have m: "slot (bufs s) bno = Some b" "b_valid r" "slocks t = (slocks s)(BufLock b := k)"
    "\<And>x. x \<noteq> bno \<Longrightarrow> disk t x = disk s x" "\<And>p. p_pid (procs t p) = p_pid (procs s p)"
    using M by (auto simp: mods_def)
  note S = mods_slot(1) [OF M] and B = mods_buf [OF M] and O = mods_other [OF M]
  have "content t x = ((content s)(bno := b_data r)) x" for x
    using O [of x] m by (cases "x = bno"; cases "slot (bufs s) x") (auto simp: content_def S B)
  then show "content t = (content s)(bno := b_data r)" by blast
  have "refs t x = ((refs s)(bno := unat (b_refcnt r))) x" for x
    using O [of x] m by (cases "x = bno"; cases "slot (bufs s) x") (auto simp: refs_def S B)
  then show "refs t = (refs s)(bno := unat (b_refcnt r))" by blast
  have "held t x = ((held s)(bno := sl_locked k)) x" for x
    using O [of x] m by (cases "x = bno"; cases "slot (bufs s) x") (auto simp: held_def S)
  then show "held t = (held s)(bno := sl_locked k)" by blast
  have "handle me t x = ((handle me s)(bno := (if sl_locked k \<and> sl_pid k = p_pid (procs s me) then Some b else None))) x" for x
    using O [of x] m by (cases "x = bno"; cases "slot (bufs s) x") (auto simp: handle_def S B)
  then show "handle me t = (handle me s)(bno := (if sl_locked k \<and> sl_pid k = p_pid (procs s me) then Some b else None))" by blast
qed

lemma mods_ok:
  assumes M: "mods b bno r k s t"
  shows "bio_ok t"
proof -
  have m: "bio_ok s" "b_dev r = ROOTDEV" "b_blockno r = bno" "sl_locked k \<longrightarrow> b_refcnt r \<noteq> 0"
    "b_refcnt r = 0 \<longrightarrow> b_data r = disk t bno" "\<exists>L. lru (bufs t) L \<and> set L = {..<NBUF}"
    "slocks t = (slocks s)(BufLock b := k)" "\<And>x. x \<noteq> bno \<Longrightarrow> disk t x = disk s x" "slot (bufs s) bno = Some b"
    using M by (auto simp: mods_def)
  note D = bio_okD [OF m(1)] and B = mods_buf [OF M]
  have "b_blockno (bufs s x) \<noteq> bno" if "x < NBUF" "x \<noteq> b" "b_dev (bufs s x) = ROOTDEV" for x
    using that m(9) slot_Some [OF D(2), of bno x] by auto
  then show ?thesis
    unfolding bio_ok_def using m(6) mods_slot(2) [OF M] D(3-5) m(2-5,7,8) by (auto simp: B)
qed

section \<open>Changing, writing and releasing a block\<close>

lemma mods_frame:
  assumes M: "mods b bno r k s t"
    and t: "t = s\<lparr>hw := h, procs := q, slocks := (slocks s)(BufLock b := k), bufs := B, disk := d, dwrites := w\<rparr>"
    and h: "h = hw s \<or> h = settle (hw s)"
  shows "bframe s t"
proof (rule bframeI [OF t h])
  show "p_pid (q p) = p_pid (procs s p)" for p using M by (simp add: mods_def t)
qed simp

lemma handle_data:
  assumes "bio_ok s" "handle me s bno = Some b"
  shows "b_data (bufs s b) = content s bno" "b_blockno (bufs s b) = bno" "refs s bno = unat (b_refcnt (bufs s b))"
    "0 < refs s bno" "held s bno" "b < NBUF"
proof -
  have S: "slot (bufs s) bno = Some b" "b_valid (bufs s b)" "sl_locked (slocks s (BufLock b))"
    using assms(2) by (auto simp: handle_Some)
  have b: "b < NBUF" "b_blockno (bufs s b) = bno" using S(1) slot_Some [OF bio_okD(2) [OF assms(1)]] by auto
  show "b_data (bufs s b) = content s bno" "b_blockno (bufs s b) = bno" "refs s bno = unat (b_refcnt (bufs s b))"
    "held s bno" "b < NBUF"
    using S b by (simp_all add: content_def refs_def held_def)
  then show "0 < refs s bno" using bio_okD(4) [OF assms(1) b(1) S(3)] by (simp add: unat_gt_0)
qed

lemma modsI:
  assumes ok: "bio_ok s" and h: "handle me s bno = Some b"
    and r: "b_dev r = b_dev (bufs s b)" "b_blockno r = b_blockno (bufs s b)" "b_valid r"
      "b_prev r = b_prev (bufs s b)" "b_next r = b_next (bufs s b)"
    and k: "sl_locked k \<longrightarrow> b_refcnt r \<noteq> 0" "b_refcnt r = 0 \<longrightarrow> b_data r = disk t bno"
    and t: "bufs t = (bufs s)(b := r)" "slocks t = (slocks s)(BufLock b := k)"
      "\<And>x. x \<noteq> bno \<Longrightarrow> disk t x = disk s x" "\<And>p. p_pid (procs t p) = p_pid (procs s p)"
  shows "mods b bno r k s t"
proof -
  have S: "slot (bufs s) bno = Some b" "b_valid (bufs s b)" using h by (auto simp: handle_Some)
  have b: "b_dev (bufs s b) = ROOTDEV" "b_blockno (bufs s b) = bno"
    using S(1) slot_Some [OF bio_okD(2) [OF ok]] by auto
  have "\<exists>L. lru (bufs t) L \<and> set L = {..<NBUF}"
    by (rule lru_same [OF bio_okD(1) [OF ok]]) (simp_all add: t r)
  then show ?thesis using ok S b r k t by (simp add: mods_def relinked_upd)
qed

definition bsame :: "lockid set \<Rightarrow> nat \<Rightarrow> 'b dsys_scheme \<Rightarrow> 'b dsys_scheme \<Rightarrow> bool" where
  "bsame K me s t \<longleftrightarrow> bframe s t \<and> bready K me t \<and> handle me t = handle me s \<and> held t = held s"

lemma set_data_spec:
  assumes rd: "bready K me s" and h: "handle me s bno = Some b" and t: "t = upd_buf b (\<lambda>r. r\<lparr>b_data := f r\<rparr>) s"
  shows "bsame K me s t" "content t = (content s)(bno := f (bufs s b))" "refs t = refs s"
    "disk t = disk s" "dwrites t = dwrites s"
proof -
  note O = breadyD(5) [OF rd]
  let ?r = "(bufs s b)\<lparr>b_data := f (bufs s b)\<rparr>"
  have S: "b_valid (bufs s b)" "sl_locked (slocks s (BufLock b))" "b_refcnt (bufs s b) \<noteq> 0"
    "sl_pid (slocks s (BufLock b)) = p_pid (procs s me)"
    using h bio_okD(4) [OF O handle_data(6) [OF O h]] by (auto simp: handle_Some)
  have M: "mods b bno ?r (slocks s (BufLock b)) s t"
    by (rule modsI [OF O h]) (use S in \<open>simp_all add: t upd_buf_def\<close>)
  have fr: "bframe s t"
    by (rule mods_frame [OF M, where h = "hw s" and q = "procs s" and B = "(bufs s)(b := ?r)" and d = "disk s" and w = "dwrites s"])
      (simp_all add: t upd_buf_def)
  note V = mods_view [OF M]
  have e: "refs s bno = unat (b_refcnt (bufs s b))" "held s bno" by (rule handle_data [OF O h])+
  show "bsame K me s t"
    using fr bready_frame [OF rd fr mods_ok [OF M]] V(3) V(4) [of me] S h e(2) by (auto simp: bsame_def fun_eq_iff)
  show "content t = (content s)(bno := f (bufs s b))" using V(1) by simp
  show "refs t = refs s" using V(2) e(1) by auto
  show "disk t = disk s" "dwrites t = dwrites s" by (simp_all add: t upd_buf_def)
qed

lemma bwrite_eq:
  assumes "bready K me s" "handle me s bno = Some b"
  shows "bwrite b s = Ret () (s\<lparr>hw := settle (hw s), disk := (disk s)(bno := content s bno),
     dwrites := (bno, content s bno) # dwrites s\<rparr>)"
  using assms(2) holdingsleep_eq [OF breadyD(1) [OF assms(1)] breadyD(3) [OF assms(1)], of b]
    handle_data [OF breadyD(5) [OF assms(1)] assms(2)]
  by (simp add: bwrite_def handle_Some disk_rw_def Let_def)

lemma bwrite_spec:
  assumes rd: "bready K me s" and h: "handle me s bno = Some b"
  shows "yields (bwrite b s) (\<lambda>_ t. bsame K me s t \<and> content t = content s \<and> refs t = refs s
     \<and> disk t = (disk s)(bno := content s bno) \<and> dwrites t = (bno, content s bno) # dwrites s)"
proof -
  note O = breadyD(5) [OF rd]
  let ?t = "s\<lparr>hw := settle (hw s), disk := (disk s)(bno := content s bno), dwrites := (bno, content s bno) # dwrites s\<rparr>"
  have S: "b_valid (bufs s b)" "sl_locked (slocks s (BufLock b))" "b_refcnt (bufs s b) \<noteq> 0"
    "sl_pid (slocks s (BufLock b)) = p_pid (procs s me)"
    using h bio_okD(4) [OF O handle_data(6) [OF O h]] by (auto simp: handle_Some)
  have M: "mods b bno (bufs s b) (slocks s (BufLock b)) s ?t"
    by (rule modsI [OF O h]) (use S in simp_all)
  have fr: "bframe s ?t"
    by (rule mods_frame [OF M, where h = "settle (hw s)" and q = "procs s" and B = "bufs s"
      and d = "(disk s)(bno := content s bno)" and w = "(bno, content s bno) # dwrites s"]) simp_all
  note V = mods_view [OF M]
  have e: "b_data (bufs s b) = content s bno" "refs s bno = unat (b_refcnt (bufs s b))" "held s bno"
    by (rule handle_data [OF O h])+
  have "bsame K me s ?t"
    using fr bready_frame [OF rd fr mods_ok [OF M]] V(3) V(4) [of me] S h e(3) by (auto simp: bsame_def fun_eq_iff)
  moreover have "content ?t = content s" using V(1) e by auto
  moreover have "refs ?t = refs s" using V(2) e(2) by auto
  ultimately show ?thesis using bwrite_eq [OF rd h] by simp
qed

definition brelse_post :: "lockid set \<Rightarrow> nat \<Rightarrow> u32 \<Rightarrow> 'b dsys_scheme \<Rightarrow> unit \<Rightarrow> 'b dsys_scheme \<Rightarrow> bool" where
  "brelse_post K me bno s u t \<longleftrightarrow> bframe s t \<and> bready K me t \<and> content t = content s
     \<and> refs t = (refs s)(bno := refs s bno - 1) \<and> held t = (held s)(bno := False)
     \<and> handle me t = (handle me s)(bno := None) \<and> disk t = disk s \<and> dwrites t = dwrites s"

lemma brelse_eq:
  assumes rd: "bready K me s" and h: "handle me s bno = Some b"
    and r: "r = (bufs s b)\<lparr>b_refcnt := b_refcnt (bufs s b) - 1\<rparr>"
  obtains B where "brelse b s = Ret () (s\<lparr>hw := settle (hw s),
       procs := woken (Some (SleepChan (BufLock b))) (Some me) {..<NPROC} (procs s),
       slocks := (slocks s)(BufLock b := (slocks s (BufLock b))\<lparr>sl_locked := False, sl_pid := 0\<rparr>), bufs := B\<rparr>)"
    "relinked ((bufs s)(b := r)) B" "\<exists>L. lru B L \<and> set L = {..<NBUF}"
proof -
  note R = breadyD(1) [OF rd] and O = breadyD(5) [OF rd]
  have b: "b < NBUF" by (rule handle_data(6) [OF O h])
  let ?p = "woken (Some (SleepChan (BufLock b))) (Some me) {..<NPROC} (procs s)"
  let ?l = "(slocks s)(BufLock b := (slocks s (BufLock b))\<lparr>sl_locked := False, sl_pid := 0\<rparr>)"
  let ?u = "s\<lparr>hw := settle (hw s), procs := ?p, slocks := ?l\<rparr>"
  let ?v = "s\<lparr>hw := acq BcacheLock (settle (hw s)), procs := ?p, slocks := ?l, bufs := (bufs s)(b := r)\<rparr>"
  have R1: "rest K me (settle (hw s))" using R by (simp add: hw_simps)
  have hs: "holdingsleep (BufLock b) s = Ret True (s\<lparr>hw := settle (hw s)\<rparr>)"
    using holdingsleep_eq [OF R breadyD(3) [OF rd]] h by (simp add: handle_Some)
  have rs: "releasesleep (BufLock b) (s\<lparr>hw := settle (hw s)\<rparr>) = Ret () ?u"
    using releasesleep_eq [of K me "s\<lparr>hw := settle (hw s)\<rparr>" "BufLock b"] R1 breadyD(3,4) [OF rd] by (simp add: hw_simps)
  have aq: "acquire BcacheLock ?u = Ret () (?u\<lparr>hw := acq BcacheLock (settle (hw s))\<rparr>)"
    using acquire_rest [of K me ?u] R1 breadyD(2) [OF rd] by simp
  have e: "brelse b s = release BcacheLock (if b_refcnt r = 0 then link_front b (unlink_buf b ?v) else ?v)"
    by (simp add: brelse_def hs rs aq upd_buf_def r upd_comm Let_def)
  obtain L where L: "lru (bufs s) L" "set L = {..<NBUF}" using bio_okD(1) [OF O] by blast
  obtain B where B: "(if b_refcnt r = 0 then link_front b (unlink_buf b ?v) else ?v) = ?v\<lparr>bufs := B\<rparr>"
    "relinked ((bufs s)(b := r)) B" "\<exists>L. lru B L \<and> set L = {..<NBUF}"
  proof (cases "b_refcnt r = 0")
    case True
    have "\<exists>L. lru (bufs ?v) L \<and> set L = {..<NBUF}"
      by (rule lru_same [OF bio_okD(1) [OF O]]) (simp_all add: r)
    then obtain L' where L': "lru (bufs ?v) L'" "set L' = {..<NBUF}" by blast
    obtain B where "link_front b (unlink_buf b ?v) = ?v\<lparr>bufs := B\<rparr>" "relinked (bufs ?v) B" "lru B (b # remove1 b L')"
      using move_front_lru [OF L'(1)] L'(2) b by blast
    moreover have "set (b # remove1 b L') = {..<NBUF}"
      using L' b by (auto simp: lru_def)
    ultimately show thesis using True by (intro that [of B]) auto
  next
    case False
    have "\<exists>L. lru ((bufs s)(b := r)) L \<and> set L = {..<NBUF}"
      by (rule lru_same [OF bio_okD(1) [OF O]]) (simp_all add: r)
    then show thesis using False by (intro that [of "(bufs s)(b := r)"]) (simp_all add: relinked_upd)
  qed
  have "brelse b s = Ret () (?v\<lparr>hw := settle (settle (hw s)), bufs := B\<rparr>)"
    unfolding e B(1) by (subst release_rest [OF R1 breadyD(2) [OF rd]]) (simp_all add: upd_comm)
  then show thesis using B by (intro that [of B]) (simp_all add: hw_simps upd_comm)
qed

lemma brelse_spec:
  assumes rd: "bready K me s" and h: "handle me s bno = Some b"
    and c: "1 < refs s bno \<or> content s bno = disk s bno"
  shows "yields (brelse b s) (brelse_post K me bno s)"
proof -
  note O = breadyD(5) [OF rd]
  define r where "r = (bufs s b)\<lparr>b_refcnt := b_refcnt (bufs s b) - 1\<rparr>"
  let ?k = "(slocks s (BufLock b))\<lparr>sl_locked := False, sl_pid := 0\<rparr>"
  let ?p = "woken (Some (SleepChan (BufLock b))) (Some me) {..<NPROC} (procs s)"
  obtain B where B: "brelse b s = Ret () (s\<lparr>hw := settle (hw s), procs := ?p,
       slocks := (slocks s)(BufLock b := ?k), bufs := B\<rparr>)"
    "relinked ((bufs s)(b := r)) B" "\<exists>L. lru B L \<and> set L = {..<NBUF}"
    using brelse_eq [OF rd h r_def] by blast
  let ?t = "s\<lparr>hw := settle (hw s), procs := ?p, slocks := (slocks s)(BufLock b := ?k), bufs := B\<rparr>"
  have H: "b_data (bufs s b) = content s bno" "b_blockno (bufs s b) = bno" "refs s bno = unat (b_refcnt (bufs s b))"
    "0 < refs s bno" by (rule handle_data [OF O h])+
  have S: "slot (bufs s) bno = Some b" "b_valid (bufs s b)" using h by (auto simp: handle_Some)
  have n: "unat (b_refcnt r) = refs s bno - 1"
    using H(3,4) by (simp add: r_def unat_minus_one unat_gt_0)
  have cl: "b_refcnt r = 0 \<longrightarrow> b_data r = disk s bno"
    using n c H by (auto simp: r_def)
  have M: "mods b bno r ?k s ?t"
    using O S B H cl slot_Some [OF bio_okD(2) [OF O], of bno b] by (simp add: mods_def r_def)
  have fr: "bframe s ?t"
    by (rule mods_frame [OF M, where h = "settle (hw s)" and q = ?p and B = B and d = "disk s" and w = "dwrites s"])
      simp_all
  have "content ?t = content s" "refs ?t = (refs s)(bno := refs s bno - 1)" "held ?t = (held s)(bno := False)"
    "handle me ?t = (handle me s)(bno := None)"
    using mods_view [OF M] H n by (simp_all add: r_def fun_upd_idem)
  then show ?thesis
    unfolding B(1) using fr bready_frame [OF rd fr mods_ok [OF M]] by (simp add: brelse_post_def)
qed

lemma refcnt_spec:
  assumes rd: "bready K me s" and h: "handle me s bno = Some b"
    and n: "unat n = m" "m \<noteq> 0"
    and t: "t = s\<lparr>hw := settle (hw s), bufs := (bufs s)(b := (bufs s b)\<lparr>b_refcnt := n\<rparr>)\<rparr>"
  shows "bsame K me s t \<and> content t = content s \<and> refs t = (refs s)(bno := m)
     \<and> disk t = disk s \<and> dwrites t = dwrites s"
proof -
  note O = breadyD(5) [OF rd]
  let ?r = "(bufs s b)\<lparr>b_refcnt := n\<rparr>"
  have S: "b_valid (bufs s b)" "sl_locked (slocks s (BufLock b))" "sl_pid (slocks s (BufLock b)) = p_pid (procs s me)"
    using h by (auto simp: handle_Some)
  have "n \<noteq> 0" using n by auto
  then have M: "mods b bno ?r (slocks s (BufLock b)) s t"
    by (intro modsI [OF O h]) (use S in \<open>simp_all add: t\<close>)
  have fr: "bframe s t"
    by (rule mods_frame [OF M, where h = "settle (hw s)" and q = "procs s" and B = "(bufs s)(b := ?r)" and d = "disk s" and w = "dwrites s"])
      (simp_all add: t)
  note V = mods_view [OF M]
  have e: "b_data (bufs s b) = content s bno" "held s bno" by (rule handle_data [OF O h])+
  have "bsame K me s t"
    using fr bready_frame [OF rd fr mods_ok [OF M]] V(3) V(4) [of me] S h e(2) by (auto simp: bsame_def fun_eq_iff)
  then show ?thesis using V(1,2) e n by (simp add: t fun_upd_idem)
qed

definition pin_post :: "lockid set \<Rightarrow> nat \<Rightarrow> u32 \<Rightarrow> nat \<Rightarrow> 'b dsys_scheme \<Rightarrow> unit \<Rightarrow> 'b dsys_scheme \<Rightarrow> bool" where
  "pin_post K me bno n s u t \<longleftrightarrow> bsame K me s t \<and> content t = content s \<and> refs t = (refs s)(bno := n)
     \<and> disk t = disk s \<and> dwrites t = dwrites s"

lemma bpin_spec:
  assumes rd: "bready K me s" and h: "handle me s bno = Some b" and n: "refs s bno < 2 ^ 32 - 1"
  shows "yields (bpin b s) (pin_post K me bno (refs s bno + 1) s)"
proof -
  have "unat (b_refcnt (bufs s b) + 1) = refs s bno + 1"
    using n handle_data(3) [OF breadyD(5) [OF rd] h] by (simp add: unat_word_ariths)
  then show ?thesis
    using refcnt_spec [OF rd h _ _ refl, of "b_refcnt (bufs s b) + 1"] acquire_rest [OF breadyD(1,2) [OF rd]]
    by (simp add: bpin_def upd_buf_def release_rest [OF breadyD(1,2) [OF rd]] pin_post_def upd_comm)
qed

lemma bunpin_spec:
  assumes rd: "bready K me s" and h: "handle me s bno = Some b" and n: "1 < refs s bno"
  shows "yields (bunpin b s) (pin_post K me bno (refs s bno - 1) s)"
proof -
  have e: "refs s bno = unat (b_refcnt (bufs s b))" by (rule handle_data(3) [OF breadyD(5) [OF rd] h])
  then have "b_refcnt (bufs s b) \<noteq> 0" using n by auto
  then have "unat (b_refcnt (bufs s b) - 1) = refs s bno - 1" using e by (simp add: unat_minus_one)
  then show ?thesis
    using refcnt_spec [OF rd h _ _ refl, of "b_refcnt (bufs s b) - 1"] n acquire_rest [OF breadyD(1,2) [OF rd]]
    by (simp add: bunpin_def upd_buf_def release_rest [OF breadyD(1,2) [OF rd]] pin_post_def upd_comm)
qed

end
