(* ===== verification/Bio_View.thy ===== *)
theory Bio_View
  imports Bio_Cache
begin

text \<open>
  The interface of the buffer cache to its clients. A view collects what a client can observe,
  and \<open>sees\<close> relates a state to its view. The locale \<open>block_cache\<close> states the laws over views and
  proves the patterns its clients use; the model's operations satisfy it.
\<close>

section \<open>Views\<close>

text \<open>The abstract view of the cache that the operations are described by.\<close>

record bview =
  v_content :: "u32 \<Rightarrow> block"
  v_refs :: "u32 \<Rightarrow> nat"
  v_held :: "u32 \<Rightarrow> bool"
  v_handle :: "u32 \<Rightarrow> nat option"
  v_disk :: "u32 \<Rightarrow> block"
  v_writes :: "(u32 \<times> block) list"

definition view :: "nat \<Rightarrow> 'b dsys_scheme \<Rightarrow> bview" where
  "view me s = \<lparr>v_content = content s, v_refs = refs s, v_held = held s, v_handle = handle me s,
     v_disk = disk s, v_writes = dwrites s\<rparr>"

definition sees :: "lockid set \<Rightarrow> nat \<Rightarrow> 'b dsys_scheme \<Rightarrow> 'b dsys_scheme \<Rightarrow> bview \<Rightarrow> bool" where
  "sees K me s0 s v \<longleftrightarrow> bframe s0 s \<and> bready K me s \<and> view me s = v"

lemma seesD:
  assumes "sees K me s0 s v"
  shows "bframe s0 s" "bready K me s" "bio_ok s" "content s = v_content v" "refs s = v_refs v" "held s = v_held v"
    "handle me s = v_handle v" "disk s = v_disk v" "dwrites s = v_writes v"
  using assms breadyD(5) by (auto simp: sees_def view_def)

lemma sees_start: "bready K me s \<Longrightarrow> sees K me s s (view me s)"
  by (simp add: sees_def bframe_refl)

lemma sees_step:
  assumes "sees K me s0 s v" "bframe s t" "bready K me t" "view me t = w"
  shows "sees K me s0 t w"
  using assms bframe_trans by (auto simp: sees_def)

abbreviation v_pinned :: "bview \<Rightarrow> u32 set" where
  "v_pinned v \<equiv> {x. v_refs v x \<noteq> 0}"

definition v_read :: "u32 \<Rightarrow> nat \<Rightarrow> bview \<Rightarrow> bview" where
  "v_read bno b v = v\<lparr>v_refs := (v_refs v)(bno := v_refs v bno + 1), v_held := (v_held v)(bno := True),
     v_handle := (v_handle v)(bno := Some b)\<rparr>"

definition v_set :: "u32 \<Rightarrow> block \<Rightarrow> bview \<Rightarrow> bview" where
  "v_set bno d v = v\<lparr>v_content := (v_content v)(bno := d)\<rparr>"

definition v_write :: "u32 \<Rightarrow> bview \<Rightarrow> bview" where
  "v_write bno v = v\<lparr>v_disk := (v_disk v)(bno := v_content v bno), v_writes := (bno, v_content v bno) # v_writes v\<rparr>"

definition v_release :: "u32 \<Rightarrow> bview \<Rightarrow> bview" where
  "v_release bno v = v\<lparr>v_refs := (v_refs v)(bno := v_refs v bno - 1), v_held := (v_held v)(bno := False),
     v_handle := (v_handle v)(bno := None)\<rparr>"

definition v_pin :: "u32 \<Rightarrow> nat \<Rightarrow> bview \<Rightarrow> bview" where
  "v_pin bno n v = v\<lparr>v_refs := (v_refs v)(bno := n)\<rparr>"

lemmas v_defs = v_read_def v_set_def v_write_def v_release_def v_pin_def

lemma bread_sees:
  assumes s: "sees K me s0 s v" and h: "\<not> v_held v bno" and r: "v_refs v bno < 2 ^ 32 - 1"
    and p: "v_refs v bno \<noteq> 0 \<or> card (v_pinned v) < NBUF"
  shows "yields (bread ROOTDEV bno s) (\<lambda>b t. sees K me s0 t (v_read bno b v))"
proof (rule yields_mono [OF bread_spec [OF seesD(2) [OF s]]])
  show "\<not> held s bno" "refs s bno < 2 ^ 32 - 1" "refs s bno \<noteq> 0 \<or> card (pinned s) < NBUF"
    using h r p by (simp_all add: seesD [OF s] pinned_def)
  fix b t assume "bread_post K me bno s b t"
  then show "sees K me s0 t (v_read bno b v)"
    using s by (intro sees_step [OF s]) (auto simp: bread_post_def view_def v_read_def seesD [OF s])
qed

lemma data_sees:
  assumes s: "sees K me s0 s v" and h: "v_handle v bno = Some b"
  shows "b_data (bufs s b) = v_content v bno" "b_blockno (bufs s b) = bno"
  using handle_data [OF seesD(3) [OF s], of me bno b] h by (simp_all add: seesD [OF s])

lemma set_sees:
  assumes s: "sees K me s0 s v" and h: "v_handle v bno = Some b"
  shows "sees K me s0 (upd_buf b (\<lambda>r. r\<lparr>b_data := f r\<rparr>) s) (v_set bno (f (bufs s b)) v)"
proof -
  have h': "handle me s bno = Some b" using h by (simp add: seesD [OF s])
  note P = set_data_spec [OF seesD(2) [OF s] h' refl, of f]
  show ?thesis
    by (rule sees_step [OF s]) (use P in \<open>auto simp: bsame_def view_def v_set_def seesD [OF s]\<close>)
qed

lemma bwrite_sees:
  assumes s: "sees K me s0 s v" and h: "v_handle v bno = Some b"
  shows "yields (bwrite b s) (\<lambda>_ t. sees K me s0 t (v_write bno v))"
proof -
  have h': "handle me s bno = Some b" using h by (simp add: seesD [OF s])
  show ?thesis
    by (rule yields_mono [OF bwrite_spec [OF seesD(2) [OF s] h']])
      (auto simp: bsame_def view_def v_write_def seesD [OF s] intro!: sees_step [OF s])
qed

lemma brelse_sees:
  assumes s: "sees K me s0 s v" and h: "v_handle v bno = Some b"
    and c: "1 < v_refs v bno \<or> v_content v bno = v_disk v bno"
  shows "yields (brelse b s) (\<lambda>_ t. sees K me s0 t (v_release bno v))"
proof -
  have h': "handle me s bno = Some b" and c': "1 < refs s bno \<or> content s bno = disk s bno"
    using h c by (simp_all add: seesD [OF s])
  show ?thesis
    by (rule yields_mono [OF brelse_spec [OF seesD(2) [OF s] h' c']])
      (auto simp: brelse_post_def view_def v_release_def seesD [OF s] intro!: sees_step [OF s])
qed

lemma bpin_sees:
  assumes s: "sees K me s0 s v" and h: "v_handle v bno = Some b" and c: "v_refs v bno < 2 ^ 32 - 1"
  shows "yields (bpin b s) (\<lambda>_ t. sees K me s0 t (v_pin bno (v_refs v bno + 1) v))"
proof -
  have h': "handle me s bno = Some b" and c': "refs s bno < 2 ^ 32 - 1"
    using h c by (simp_all add: seesD [OF s])
  show ?thesis
    by (rule yields_mono [OF bpin_spec [OF seesD(2) [OF s] h' c']])
      (auto simp: pin_post_def bsame_def view_def v_pin_def seesD [OF s] intro!: sees_step [OF s])
qed

lemma bunpin_sees:
  assumes s: "sees K me s0 s v" and h: "v_handle v bno = Some b" and c: "1 < v_refs v bno"
  shows "yields (bunpin b s) (\<lambda>_ t. sees K me s0 t (v_pin bno (v_refs v bno - 1) v))"
proof -
  have h': "handle me s bno = Some b" and c': "1 < refs s bno"
    using h c by (simp_all add: seesD [OF s])
  show ?thesis
    by (rule yields_mono [OF bunpin_spec [OF seesD(2) [OF s] h' c']])
      (auto simp: pin_post_def bsame_def view_def v_pin_def seesD [OF s] intro!: sees_step [OF s])
qed

text \<open>Initialisation.\<close>

lemma binit_from_lru:
  assumes "lru (bufs s) L" "distinct bs" "set bs \<inter> set L = {}" "bhead \<notin> set bs"
  shows "\<exists>B. bufs (binit_from bs s) = B \<and> relinked (bufs s) B \<and> lru B (rev bs @ L)"
  using assms
proof (induction bs arbitrary: s L)
  case Nil
  then show ?case by (simp add: relinked_upd)
next
  case (Cons b bs)
  let ?s = "initsleeplock (BufLock b) ''buffer'' s"
  have b: "bufs ?s = bufs s" by (simp add: initsleeplock_def upd_slock_def initlock_def Let_def)
  have "lru (bufs ?s) L" "b \<notin> set L" "b \<noteq> bhead" using Cons.prems b by auto
  then obtain B where B: "link_front b ?s = ?s\<lparr>bufs := B\<rparr>" "relinked (bufs ?s) B" "lru B (b # L)"
    by (rule link_front_lru)
  have "\<exists>B'. bufs (binit_from bs (?s\<lparr>bufs := B\<rparr>)) = B' \<and> relinked (bufs (?s\<lparr>bufs := B\<rparr>)) B' \<and> lru B' (rev bs @ b # L)"
    using Cons.prems B(3) by (intro Cons.IH) auto
  then show ?case using B b by (auto simp: relinked_def)
qed

section \<open>The interface\<close>

definition v_copy :: "u32 \<Rightarrow> block \<Rightarrow> bview \<Rightarrow> bview" where
  "v_copy a d v = v_write a (v_set a d v)"

lemma v_pinned_read:
  assumes "finite (v_pinned v)"
  shows "card (v_pinned (v_read a x v)) \<le> Suc (card (v_pinned v))"
proof -
  have "card (v_pinned (v_read a x v)) \<le> card (insert a (v_pinned v))"
    using assms by (intro card_mono) (auto simp: v_read_def split: if_splits)
  also have "\<dots> \<le> Suc (card (v_pinned v))" using assms by (simp add: card_insert_if)
  finally show ?thesis .
qed

locale block_cache =
  fixes shows_view :: "'s \<Rightarrow> bview \<Rightarrow> bool"
    and rd :: "u32 \<Rightarrow> 's \<Rightarrow> (nat, 's) res"
    and data :: "nat \<Rightarrow> 's \<Rightarrow> block"
    and set_data :: "nat \<Rightarrow> (block \<Rightarrow> block) \<Rightarrow> 's \<Rightarrow> 's"
    and wr :: "nat \<Rightarrow> 's \<Rightarrow> (unit, 's) res"
    and rl :: "nat \<Rightarrow> 's \<Rightarrow> (unit, 's) res"
    and unpin :: "nat \<Rightarrow> 's \<Rightarrow> (unit, 's) res"
  assumes rd: "shows_view s v \<Longrightarrow> \<not> v_held v bno \<Longrightarrow> v_refs v bno < 2 ^ 32 - 1 \<Longrightarrow>
      v_refs v bno \<noteq> 0 \<or> card (v_pinned v) < NBUF \<Longrightarrow>
      yields (rd bno s) (\<lambda>b t. shows_view t (v_read bno b v))"
    and data: "shows_view s v \<Longrightarrow> v_handle v bno = Some b \<Longrightarrow> data b s = v_content v bno"
    and set_data: "shows_view s v \<Longrightarrow> v_handle v bno = Some b \<Longrightarrow>
      shows_view (set_data b f s) (v_set bno (f (v_content v bno)) v)"
    and wr: "shows_view s v \<Longrightarrow> v_handle v bno = Some b \<Longrightarrow> yields (wr b s) (\<lambda>_ t. shows_view t (v_write bno v))"
    and rl: "shows_view s v \<Longrightarrow> v_handle v bno = Some b \<Longrightarrow>
      1 < v_refs v bno \<or> v_content v bno = v_disk v bno \<Longrightarrow>
      yields (rl b s) (\<lambda>_ t. shows_view t (v_release bno v))"
    and unpin: "shows_view s v \<Longrightarrow> v_handle v bno = Some b \<Longrightarrow> 1 < v_refs v bno \<Longrightarrow>
      yields (unpin b s) (\<lambda>_ t. shows_view t (v_pin bno (v_refs v bno - 1) v))"
    and unheld: "shows_view s v \<Longrightarrow> \<not> v_held v bno \<Longrightarrow> v_handle v bno = None"
begin

lemma write_handle:
  assumes "shows_view s v" "v_handle v a = Some x" "\<And>t. shows_view t (v_copy a (f (v_content v a)) v) \<Longrightarrow> yields (k t) Q"
  shows "yields (andthen (wr x (set_data x f s)) (\<lambda>_. k)) Q"
  by (rule yields_seq [OF wr [OF set_data [OF assms(1,2), of f], of a]])
    (use assms(2,3) in \<open>simp_all add: v_copy_def v_set_def\<close>)

lemma rewrite_block:
  assumes s: "shows_view s v" and h: "\<not> v_held v a" "v_refs v a < 2 ^ 32 - 1" "card (v_pinned v) < NBUF"
    and upd: "\<And>x t w. shows_view t w \<Longrightarrow> upd x t = set_data x f t"
    and k: "\<And>t. shows_view t (v_copy a (f (v_content v a)) v) \<Longrightarrow> yields (k t) Q"
  shows "yields (andthen (rd a s) (\<lambda>x s. andthen (wr x (upd x s)) (\<lambda>_ s. andthen (rl x s) (\<lambda>_. k)))) Q"
proof (rule yields_seq [OF rd [OF s h(1,2)]])
  show "v_refs v a \<noteq> 0 \<or> card (v_pinned v) < NBUF" using h by simp
  fix x t assume t: "shows_view t (v_read a x v)"
  let ?d = "f (v_content v a)"
  show "yields (andthen (wr x (upd x t)) (\<lambda>_ s. andthen (rl x s) (\<lambda>_. k))) Q"
    unfolding upd [OF t]
  proof (rule write_handle [OF t, of a])
    show "v_handle (v_read a x v) a = Some x" by (simp add: v_defs)
    fix t assume "shows_view t (v_copy a (f (v_content (v_read a x v) a)) (v_read a x v))"
    then have t: "shows_view t (v_copy a ?d (v_read a x v))" by (simp add: v_read_def)
    have e: "v_release a (v_copy a ?d (v_read a x v)) = v_copy a ?d v"
      using h(1) unheld [OF s h(1)] by (simp add: v_defs v_copy_def fun_upd_idem)
    show "yields (andthen (rl x t) (\<lambda>_. k)) Q"
      by (rule yields_seq [OF rl [OF t, of a]]) (use k in \<open>auto simp: e\<close>, auto simp: v_defs v_copy_def)
  qed
qed

lemma read_two:
  assumes s: "shows_view s v" and h: "\<not> v_held v a" "\<not> v_held v c" "a \<noteq> c" "v_refs v a < 2 ^ 32 - 1" "v_refs v c < 2 ^ 32 - 1"
    and n: "card (v_pinned v) < NBUF" "v_refs v c \<noteq> 0 \<or> Suc (card (v_pinned v)) < NBUF" "finite (v_pinned v)"
    and rd2: "\<And>x t w. shows_view t w \<Longrightarrow> rd2 x t = rd c t"
    and k: "\<And>x y t. shows_view t (v_read c y (v_read a x v)) \<Longrightarrow> yields (k x y t) Q"
  shows "yields (andthen (rd a s) (\<lambda>x s. andthen (rd2 x s) (\<lambda>y s. k x y s))) Q"
proof (rule yields_seq [OF rd [OF s h(1,4)]])
  show "v_refs v a \<noteq> 0 \<or> card (v_pinned v) < NBUF" using n by simp
  fix x t assume t: "shows_view t (v_read a x v)"
  have "v_refs (v_read a x v) c = v_refs v c" "v_held (v_read a x v) c = v_held v c"
    using h(3) by (simp_all add: v_read_def)
  then show "yields (andthen (rd2 x t) (\<lambda>y s. k x y s)) Q"
    unfolding rd2 [OF t] using h n v_pinned_read [OF n(3), of a x] by (intro yields_seq [OF rd [OF t, of c] k]) auto
qed

lemma copy_up:
  assumes s: "shows_view s v" and h: "\<not> v_held v a" "\<not> v_held v c" "a \<noteq> c" "v_refs v a < 2 ^ 32 - 1" "v_refs v c < 2 ^ 32 - 1"
    and n: "card (v_pinned v) < NBUF" "v_refs v c \<noteq> 0" "finite (v_pinned v)"
    and rd2: "\<And>x t w. shows_view t w \<Longrightarrow> rd2 x t = rd c t"
    and k: "\<And>t. shows_view t (v_copy a (v_content v c) v) \<Longrightarrow> yields (k t) Q"
  shows "yields (andthen (rd a s) (\<lambda>x s. andthen (rd2 x s) (\<lambda>y s.
     andthen (wr x (set_data x (\<lambda>_. data y s) s)) (\<lambda>_ s. andthen (rl y s) (\<lambda>_ s. andthen (rl x s) (\<lambda>_. k)))))) Q"
proof (rule read_two [OF s h n(1) _ n(3) rd2])
  show "v_refs v c \<noteq> 0 \<or> Suc (card (v_pinned v)) < NBUF" using n by simp
  fix x y t assume t: "shows_view t (v_read c y (v_read a x v))"
  let ?v = "v_read c y (v_read a x v)" and ?d = "v_content v c"
  have hd: "v_handle ?v a = Some x" "v_handle ?v c = Some y" using h(3) by (simp_all add: v_defs)
  have d: "data y t = ?d" using data [OF t hd(2)] by (simp add: v_defs)
  show "yields (andthen (wr x (set_data x (\<lambda>_. data y t) t)) (\<lambda>_ s. andthen (rl y s) (\<lambda>_ s. andthen (rl x s) (\<lambda>_. k)))) Q"
    unfolding d
  proof (rule write_handle [OF t hd(1)])
    fix t assume t: "shows_view t (v_copy a ?d ?v)"
    have e: "v_release a (v_release c (v_copy a ?d ?v)) = v_copy a ?d v"
      using h unheld [OF s h(1)] unheld [OF s h(2)] by (auto simp: v_defs v_copy_def fun_eq_iff)
    show "yields (andthen (rl y t) (\<lambda>_ s. andthen (rl x s) (\<lambda>_. k))) Q"
    proof (rule yields_seq [OF rl [OF t, of c]])
      show "v_handle (v_copy a ?d ?v) c = Some y" "1 < v_refs (v_copy a ?d ?v) c \<or> v_content (v_copy a ?d ?v) c = v_disk (v_copy a ?d ?v) c"
        using n(2) by (simp_all add: v_defs v_copy_def)
      fix u t assume t: "shows_view t (v_release c (v_copy a ?d ?v))"
      show "yields (andthen (rl x t) (\<lambda>_. k)) Q"
        by (rule yields_seq [OF rl [OF t, of a]]) (use k h(3) in \<open>auto simp: e\<close>, auto simp: v_defs v_copy_def)
    qed
  qed
qed

lemma copy_down:
  assumes s: "shows_view s v" and h: "\<not> v_held v a" "\<not> v_held v c" "a \<noteq> c" "v_refs v a < 2 ^ 32 - 1" "v_refs v c < 2 ^ 32 - 1"
    and n: "card (v_pinned v) < NBUF" "v_refs v c \<noteq> 0 \<or> Suc (card (v_pinned v)) < NBUF" "finite (v_pinned v)"
    and cl: "v_content v a = v_disk v a" and p: "p \<Longrightarrow> v_refs v c \<noteq> 0"
    and rd2: "\<And>x t w. shows_view t w \<Longrightarrow> rd2 x t = rd c t"
    and k: "\<And>t. shows_view t (v_pin c (if p then v_refs v c - 1 else v_refs v c) (v_copy c (v_content v a) v)) \<Longrightarrow> yields (k t) Q"
  shows "yields (andthen (rd a s) (\<lambda>x s. andthen (rd2 x s) (\<lambda>y s.
     andthen (wr y (set_data y (\<lambda>_. data x s) s)) (\<lambda>_ s. andthen (if p then unpin y s else Ret () s) (\<lambda>_ s.
     andthen (rl x s) (\<lambda>_ s. andthen (rl y s) (\<lambda>_. k))))))) Q"
proof (rule read_two [OF s h n rd2])
  fix x y t assume t: "shows_view t (v_read c y (v_read a x v))"
  let ?v = "v_read c y (v_read a x v)" and ?d = "v_content v a"
  let ?w = "v_copy c ?d ?v"
  let ?u = "if p then v_pin c (v_refs ?w c - 1) ?w else ?w"
  have hd: "v_handle ?v a = Some x" "v_handle ?v c = Some y" using h(3) by (simp_all add: v_defs)
  have d: "data x t = ?d" using data [OF t hd(1)] by (simp add: v_defs)
  show "yields (andthen (wr y (set_data y (\<lambda>_. data x t) t)) (\<lambda>_ s. andthen (if p then unpin y s else Ret () s) (\<lambda>_ s.
     andthen (rl x s) (\<lambda>_ s. andthen (rl y s) (\<lambda>_. k))))) Q"
    unfolding d
  proof (rule write_handle [OF t hd(2)])
    fix t assume t: "shows_view t ?w"
    have hw: "v_handle ?w c = Some y" "p \<Longrightarrow> 1 < v_refs ?w c" using p by (simp_all add: v_defs v_copy_def)
    have up: "yields (if p then unpin y t else Ret () t) (\<lambda>_ t. shows_view t ?u)"
      using unpin [OF t hw(1)] hw(2) t by (cases p) simp_all
    have e: "v_release c (v_release a ?u) = v_pin c (if p then v_refs v c - 1 else v_refs v c) (v_copy c ?d v)"
      using h unheld [OF s h(1)] unheld [OF s h(2)] by (auto simp: v_defs v_copy_def fun_eq_iff)
    show "yields (andthen (if p then unpin y t else Ret () t) (\<lambda>_ s. andthen (rl x s) (\<lambda>_ s. andthen (rl y s) (\<lambda>_. k)))) Q"
    proof (rule yields_seq [OF up])
      fix z t assume t: "shows_view t ?u"
      show "yields (andthen (rl x t) (\<lambda>_ s. andthen (rl y s) (\<lambda>_. k))) Q"
      proof (rule yields_seq [OF rl [OF t, of a]])
        show "v_handle ?u a = Some x" "1 < v_refs ?u a \<or> v_content ?u a = v_disk ?u a"
          using h(3) cl by (simp_all add: v_defs v_copy_def)
        fix z t assume t: "shows_view t (v_release a ?u)"
        show "yields (andthen (rl y t) (\<lambda>_. k)) Q"
          by (rule yields_seq [OF rl [OF t, of c]]) (use k h(3) in \<open>auto simp: e\<close>, auto simp: v_defs v_copy_def)
      qed
    qed
  qed
qed

end

text \<open>The buffer cache of the model is such a cache.\<close>

interpretation bcache: block_cache "sees K me s0" "bread ROOTDEV" "\<lambda>b s. b_data (bufs s b)"
  "\<lambda>b f. upd_buf b (\<lambda>r. r\<lparr>b_data := f (b_data r)\<rparr>)" bwrite brelse bunpin for K me s0
proof (unfold_locales, goal_cases)
  case (1 s v bno) then show ?case by (rule bread_sees)
next
  case (2 s v bno b) then show ?case by (rule data_sees)
next
  case (3 s v bno b f)
  then show ?case using set_sees [OF 3, of "\<lambda>r. f (b_data r)"] data_sees(1) [OF 3] by simp
next
  case (4 s v bno b) then show ?case by (rule bwrite_sees)
next
  case (5 s v bno b) then show ?case by (rule brelse_sees)
next
  case (6 s v bno b) then show ?case by (rule bunpin_sees)
next
  case (7 s v bno) then show ?case using handle_data(5) [OF seesD(3) [OF 7(1)], of me bno] seesD(6,7) [OF 7(1)]
    by (cases "v_handle v bno") auto
qed

end
