(* ===== verification/Start.thy ===== *)
theory Start
  imports Updates
begin

text \<open>
  A concrete state of the whole kernel: the statically allocated data is zero, as the C
  language has it, and process 0 runs on hart 0. The witnesses of the properties start
  from it.
\<close>

definition zero_proc :: proc where
  "zero_proc = \<lparr>p_state = UNUSED, p_chan = None, p_killed = 0, p_xstate = 0, p_pid = 0, p_isthread = 0, p_fid = 0,
     p_parent = None, p_kstack = 0, p_sz = 0, p_pagetable = 0, p_trapframe = 0,
     p_context = \<lparr>ctx_ra = 0, ctx_sp = 0, ctx_s = []\<rparr>, p_ofile = (\<lambda>_. None), p_cwd = None, p_name = (\<lambda>_. 0)\<rparr>"

definition zero_buf :: buf where
  "zero_buf = \<lparr>b_valid = False, b_disk = False, b_dev = 0, b_blockno = 0, b_refcnt = 0, b_prev = 0, b_next = 0,
     b_data = (\<lambda>_. 0)\<rparr>"

definition zero_inode :: inode where
  "zero_inode = \<lparr>i_dev = 0, i_inum = 0, i_ref = 0, i_valid = False, i_type = 0, i_major = 0, i_minor = 0, i_nlink = 0,
     i_size = 0, i_addrs = (\<lambda>_. 0)\<rparr>"

definition zero_pipe :: pipe where
  "zero_pipe = \<lparr>pi_data = (\<lambda>_. 0), pi_nread = 0, pi_nwrite = 0, pi_readopen = False, pi_writeopen = False\<rparr>"

definition zero_file :: kfile where
  "zero_file = \<lparr>f_type = FD_NONE, f_ref = 0, f_readable = False, f_writable = False, f_pipe = 0, f_ip = 0, f_off = 0,
     f_major = 0\<rparr>"

definition zero_vdisk :: vdisk where
  "zero_vdisk = \<lparr>v_desc = (\<lambda>_. \<lparr>d_addr = NullAddr, d_len = 0, d_flags = 0, d_next = 0\<rparr>), avail_idx = 0, avail_ring = (\<lambda>_. 0),
     dev_used_idx = 0, used_ring = (\<lambda>_. 0), v_free = (\<lambda>_. False), used_idx = 0, info_b = (\<lambda>_. None), info_status = (\<lambda>_. 0),
     v_ops = (\<lambda>_. \<lparr>r_type = 0, r_reserved = 0, r_sector = 0\<rparr>)\<rparr>"

definition start_machine :: machine where
  "start_machine = boot_machine\<lparr>cpus := (\<lambda>_. \<lparr>c_proc = Some 0, c_noff = 0, c_intena = False\<rparr>)\<rparr>"

text \<open>The superblock that \<open>mkfs\<close> writes: 2000 blocks, 200 inodes, 30 log blocks.\<close>

definition start_sb :: superblock where
  "start_sb = \<lparr>sb_magic = 0x10203040, sb_size = 2000, sb_nblocks = 1954, sb_ninodes = 200, sb_nlog = 30, sb_logstart = 2,
     sb_inodestart = 32, sb_bmapstart = 45\<rparr>"

definition start_log :: klogrec where
  "start_log = \<lparr>log_start = 2, log_size = 30, outstanding = 0, committing = False, log_dev = 1,
     lh = \<lparr>lh_n = 0, lh_block = (\<lambda>_. 0)\<rparr>\<rparr>"

definition start_sys :: tsys where
  "start_sys = \<lparr>hw = start_machine, mem = (\<lambda>_. 0), freelist = 0, kend = 0x80022000,
     procs = (\<lambda>_. zero_proc)(0 := zero_proc\<lparr>p_state := RUNNING, p_pid := 1\<rparr>), nextpid = 2, initproc = Some 0,
     threads = (\<lambda>_. None), currId = 0, currFid = 1, families = (\<lambda>_. 0), running = 0, joined = 0, klog = [],
     sym_trampoline = 0x80007000, sym_forkret = 0x80001a00,
     slocks = (\<lambda>_. \<lparr>sl_locked = False, sl_name = [], sl_pid = 0\<rparr>),
     bufs = (\<lambda>_. zero_buf), disk = (\<lambda>_ _. 0), dwrites = [], logrec = start_log,
     inodes = (\<lambda>_. zero_inode), sb = start_sb,
     uart_tx_buf = (\<lambda>_. 0), uart_tx_w = 0, uart_tx_r = 0, panicked = False, lsr_in = (\<lambda>_. 32), lsr_n = 0,
     rhr_in = (\<lambda>_. 0), rhr_n = 0, uart_regs = [], cons_buf = (\<lambda>_. 0), cons_r = 0, cons_w = 0, cons_e = 0,
     files = (\<lambda>_. zero_file), pipes = (\<lambda>_. zero_pipe), devsw = (\<lambda>_. None),
     vd = zero_vdisk, mmio_in = (\<lambda>_. 0), mmio_out = [],
     ticks = 0, scause = 0, sepc = 0, stval = 0, stvec = 0, sip = 0, satp = 0, spp = False, spie = False,
     plic_in = (\<lambda>_. 0), plic_n = 0, plic_out = [], first = True, started = False, kernel_pagetable = 0,
     sym_kernelvec = 0x80005c00, sym_uservec = 0x80007000, sym_userret = 0x80007090, sym_usertrap = 0x80002700,
     sym_etext = 0x80008000\<rparr>"

lemma start_hw [simp]: "hw start_sys = start_machine"
  by (simp add: start_sys_def)

lemma start_machine_simps [simp]:
  "hw_ok start_machine" "lock_free l start_machine" "c_proc (mycpu start_machine) = Some 0"
  by (simp_all add: hw_ok_def start_machine_def boot_machine_def hw_defs lock_free_def init_spinlock_def)

end
