(* ===== verification/Bio_Store.thy ===== *)
theory Bio_Store
  imports Bio_View Start
begin

text \<open>
  Initialisation of the buffer cache, and the refinement of an abstract block store by the cache.
\<close>

section \<open>Initialisation\<close>

lemma link_front_sel [simp]:
  "hw (link_front b s) = hw s" "slocks (link_front b s) = slocks s" "disk (link_front b s) = disk s"
  by (simp_all add: link_front_def upd_buf_def Let_def)

lemma initsleeplock_sel [simp]:
  "hw (initsleeplock l n s) = hw (initlock (SleepInner l) ''sleep lock'' s)" "disk (initsleeplock l n s) = disk s"
  "sl_locked (slocks (initsleeplock l n s) k) \<longleftrightarrow> k \<noteq> l \<and> sl_locked (slocks s k)"
  by (simp_all add: initsleeplock_def upd_slock_def initlock_def)

lemma rest_initlock: "rest K me (hw s) \<Longrightarrow> rest K me (hw (initlock l n s))"
  by (auto simp: rest_def initlock_def hw_ok_def lock_free_def init_spinlock_def hw_defs)

lemma binit_from_disk: "disk (binit_from bs s) = disk s"
  by (induction bs arbitrary: s) simp_all

lemma binit_from_hw: "rest K me (hw s) \<Longrightarrow> rest K me (hw (binit_from bs s))"
  by (induction bs arbitrary: s) (simp_all add: rest_initlock)

lemma binit_from_slocks:
  "sl_locked (slocks (binit_from bs s) l) \<Longrightarrow> sl_locked (slocks s l) \<and> (\<forall>b\<in>set bs. l \<noteq> BufLock b)"
  by (induction bs arbitrary: s) fastforce+

lemma binit_ok:
  assumes "rest K me (hw s)" "bio_locks K" "\<And>b. b < NBUF \<Longrightarrow> b_refcnt (bufs s b) = 0 \<and> b_dev (bufs s b) \<noteq> ROOTDEV"
  shows "bready K me (binit s)" "\<And>x. refs (binit s) x = 0 \<and> \<not> held (binit s) x" "disk (binit s) = disk s"
proof -
  let ?s = "upd_buf bhead (\<lambda>r. r\<lparr>b_prev := bhead, b_next := bhead\<rparr>) (initlock BcacheLock ''bcache'' s)"
  have l: "lru (bufs ?s) []" by (simp add: lru_def upd_buf_def)
  obtain B where B: "bufs (binit s) = B" "relinked (bufs ?s) B" "lru B (rev [0..<NBUF])"
    using binit_from_lru [OF l, of "[0..<NBUF]"] by (auto simp: binit_def)
  have f: "b_refcnt (B b) = 0" "b_dev (B b) \<noteq> ROOTDEV" if "b < NBUF" for b
    using assms(3) [OF that] relinkedD(3,5) [OF B(2), of b] that by (auto simp: upd_buf_def initlock_def)
  have u: "\<not> sl_locked (slocks (binit s) (BufLock b))" if "b < NBUF" for b
    using binit_from_slocks [of "[0..<NBUF]" ?s "BufLock b"] that unfolding binit_def by fastforce
  have n: "slot (bufs (binit s)) x = None" for x using f B(1) by (auto simp: slot_None)
  have "uniq (bufs (binit s))" using f B(1) by (auto simp: uniq_def)
  moreover have "\<exists>L. lru (bufs (binit s)) L \<and> set L = {..<NBUF}"
    using B by (intro exI [of _ "rev [0..<NBUF]"]) auto
  ultimately have "bio_ok (binit s)" using f u B(1) by (auto simp: bio_ok_def)
  moreover have "rest K me (hw (binit s))"
    using assms(1) by (simp add: binit_def binit_from_hw upd_buf_def rest_initlock)
  ultimately show "bready K me (binit s)" using assms(2) by (simp add: bready_def)
  show "refs (binit s) x = 0 \<and> \<not> held (binit s) x" for x using n by (simp add: refs_def held_def)
  show "disk (binit s) = disk s" by (simp add: binit_def binit_from_disk upd_buf_def initlock_def)
qed

lemma start_buf [simp]: "bufs start_sys b = zero_buf" "logrec start_sys = start_log" "disk start_sys = (\<lambda>_ _. 0)"
  "dwrites start_sys = []"
  by (simp_all add: start_sys_def)

lemma start_rest: "rest {} 0 (hw start_sys)"
  by (simp add: rest_def)

lemma start_cache:
  "bready {} 0 (binit start_sys)" "refs (binit start_sys) x = 0" "\<not> held (binit start_sys) x" "disk (binit start_sys) = (\<lambda>_ _. 0)"
  using binit_ok [OF start_rest, of] by (auto simp: bio_locks_def zero_buf_def ROOTDEV_def)

section \<open>The cache as a block store\<close>

record bstore =
  bs_data :: "u32 \<Rightarrow> block"
  bs_disk :: "u32 \<Rightarrow> block"
  bs_refs :: "u32 \<Rightarrow> nat"
  bs_mine :: "u32 \<Rightarrow> bool"
  bs_writes :: "(u32 \<times> block) list"

datatype bop = Read u32 | Modify u32 "block \<Rightarrow> block" | Write u32 | Release u32 | Pin u32 | Unpin u32

fun store_op :: "bop \<Rightarrow> bstore \<Rightarrow> bstore option" where
  "store_op (Read x) a = (if \<not> bs_mine a x \<and> bs_refs a x < 2 ^ 32 - 1 \<and> (bs_refs a x \<noteq> 0 \<or> card {x. bs_refs a x \<noteq> 0} < NBUF)
     then Some (a\<lparr>bs_refs := (bs_refs a)(x := bs_refs a x + 1), bs_mine := (bs_mine a)(x := True)\<rparr>) else None)"
| "store_op (Modify x f) a = (if bs_mine a x then Some (a\<lparr>bs_data := (bs_data a)(x := f (bs_data a x))\<rparr>) else None)"
| "store_op (Write x) a = (if bs_mine a x
     then Some (a\<lparr>bs_disk := (bs_disk a)(x := bs_data a x), bs_writes := (x, bs_data a x) # bs_writes a\<rparr>) else None)"
| "store_op (Release x) a = (if bs_mine a x \<and> (1 < bs_refs a x \<or> bs_data a x = bs_disk a x)
     then Some (a\<lparr>bs_refs := (bs_refs a)(x := bs_refs a x - 1), bs_mine := (bs_mine a)(x := False)\<rparr>) else None)"
| "store_op (Pin x) a = (if bs_mine a x \<and> bs_refs a x < 2 ^ 32 - 1
     then Some (a\<lparr>bs_refs := (bs_refs a)(x := bs_refs a x + 1)\<rparr>) else None)"
| "store_op (Unpin x) a = (if bs_mine a x \<and> 1 < bs_refs a x
     then Some (a\<lparr>bs_refs := (bs_refs a)(x := bs_refs a x - 1)\<rparr>) else None)"

primrec store_run :: "bop list \<Rightarrow> bstore \<Rightarrow> bstore option" where
  "store_run [] a = Some a"
| "store_run (p # ps) a = (case store_op p a of None \<Rightarrow> None | Some a \<Rightarrow> store_run ps a)"

text \<open>The same operations through the code; \<open>handle\<close> finds the buffer that the process got from \<open>bread\<close>.\<close>

definition with_handle :: "nat \<Rightarrow> u32 \<Rightarrow> (nat \<Rightarrow> 'b dsys_scheme \<Rightarrow> (unit, 'b dsys_scheme) res) \<Rightarrow> 'b dsys_scheme \<Rightarrow> (unit, 'b dsys_scheme) res" where
  "with_handle me x f s = (case handle me s x of None \<Rightarrow> Halt (Fault ''no buffer'') s | Some b \<Rightarrow> f b s)"

fun cache_op :: "nat \<Rightarrow> bop \<Rightarrow> 'b dsys_scheme \<Rightarrow> (unit, 'b dsys_scheme) res" where
  "cache_op me (Read x) s = andthen (bread ROOTDEV x s) (\<lambda>_ s. Ret () s)"
| "cache_op me (Modify x f) s = with_handle me x (\<lambda>b s. Ret () (upd_buf b (\<lambda>r. r\<lparr>b_data := f (b_data r)\<rparr>) s)) s"
| "cache_op me (Write x) s = with_handle me x bwrite s"
| "cache_op me (Release x) s = with_handle me x brelse s"
| "cache_op me (Pin x) s = with_handle me x bpin s"
| "cache_op me (Unpin x) s = with_handle me x bunpin s"

primrec cache_run :: "nat \<Rightarrow> bop list \<Rightarrow> 'b dsys_scheme \<Rightarrow> (unit, 'b dsys_scheme) res" where
  "cache_run me [] s = Ret () s"
| "cache_run me (p # ps) s = andthen (cache_op me p s) (\<lambda>_ s. cache_run me ps s)"

definition store_of :: "bview \<Rightarrow> bstore" where
  "store_of v = \<lparr>bs_data = v_content v, bs_disk = v_disk v, bs_refs = v_refs v, bs_mine = v_held v, bs_writes = v_writes v\<rparr>"

text \<open>Every lock on a buffer is the process's own.\<close>

definition alone :: "bview \<Rightarrow> bool" where
  "alone v \<longleftrightarrow> (\<forall>x. v_held v x \<longleftrightarrow> v_handle v x \<noteq> None)"

lemma cache_op_refines:
  assumes s: "sees K me s0 s v" and al: "alone v" and a: "store_op p (store_of v) = Some a"
  shows "yields (cache_op me p s) (\<lambda>_ t. \<exists>w. sees K me s0 t w \<and> alone w \<and> store_of w = a)"
proof -
  have h: "\<exists>b. v_handle v x = Some b \<and> handle me s x = Some b" if "v_held v x" for x
    using al that seesD(7) [OF s] by (auto simp: alone_def)
  have fin: ?thesis if "cache_op me p s = r" "yields r (\<lambda>_ t. sees K me s0 t w)" "alone w" "store_of w = a" for w r
    unfolding that(1) by (rule yields_mono [OF that(2)]) (use that(3,4) in auto)
  show ?thesis
  proof (cases p)
    case (Read x)
    have c: "\<not> v_held v x" "v_refs v x < 2 ^ 32 - 1" "v_refs v x \<noteq> 0 \<or> card (v_pinned v) < NBUF"
      and a': "\<And>b. store_of (v_read x b v) = a" "\<And>b. alone (v_read x b v)"
      using a al Read by (auto simp: store_of_def v_read_def alone_def split: if_splits)
    show ?thesis
      unfolding Read cache_op.simps by (rule yields_seq [OF bread_sees [OF s c]]) (use a' in auto)
  next
    case (Modify x f)
    then obtain b where b: "v_handle v x = Some b" "handle me s x = Some b" using a h by (auto simp: store_of_def split: if_splits)
    have "store_of (v_set x (f (v_content v x)) v) = a" "alone (v_set x (f (v_content v x)) v)"
      using a al Modify by (auto simp: store_of_def v_set_def alone_def split: if_splits)
    then show ?thesis using set_sees [OF s b(1), of "\<lambda>r. f (b_data r)"] data_sees(1) [OF s b(1)] Modify b(2)
      by (auto simp: with_handle_def)
  next
    case (Write x)
    then obtain b where b: "v_handle v x = Some b" "handle me s x = Some b" using a h by (auto simp: store_of_def split: if_splits)
    have "store_of (v_write x v) = a" "alone (v_write x v)"
      using a al Write by (auto simp: store_of_def v_write_def alone_def split: if_splits)
    then show ?thesis by (intro fin [OF _ bwrite_sees [OF s b(1)]]) (simp_all add: with_handle_def Write b(2))
  next
    case (Release x)
    then obtain b where b: "v_handle v x = Some b" "handle me s x = Some b" "1 < v_refs v x \<or> v_content v x = v_disk v x"
      using a h by (auto simp: store_of_def split: if_splits)
    have "store_of (v_release x v) = a" "alone (v_release x v)"
      using a al Release by (auto simp: store_of_def v_release_def alone_def split: if_splits)
    then show ?thesis by (intro fin [OF _ brelse_sees [OF s b(1,3)]]) (simp_all add: with_handle_def Release b(2))
  next
    case (Pin x)
    then obtain b where b: "v_handle v x = Some b" "handle me s x = Some b" "v_refs v x < 2 ^ 32 - 1"
      using a h by (auto simp: store_of_def split: if_splits)
    have "store_of (v_pin x (v_refs v x + 1) v) = a" "alone (v_pin x (v_refs v x + 1) v)"
      using a al Pin by (auto simp: store_of_def v_pin_def alone_def split: if_splits)
    then show ?thesis by (intro fin [OF _ bpin_sees [OF s b(1,3)]]) (simp_all add: with_handle_def Pin b(2))
  next
    case (Unpin x)
    then obtain b where b: "v_handle v x = Some b" "handle me s x = Some b" "1 < v_refs v x"
      using a h by (auto simp: store_of_def split: if_splits)
    have "store_of (v_pin x (v_refs v x - 1) v) = a" "alone (v_pin x (v_refs v x - 1) v)"
      using a al Unpin by (auto simp: store_of_def v_pin_def alone_def split: if_splits)
    then show ?thesis by (intro fin [OF _ bunpin_sees [OF s b(1,3)]]) (simp_all add: with_handle_def Unpin b(2))
  qed
qed

lemma cache_run_refines:
  assumes "sees K me s0 s v" "alone v" "store_run ps (store_of v) = Some a"
  shows "yields (cache_run me ps s) (\<lambda>_ t. \<exists>w. sees K me s0 t w \<and> alone w \<and> store_of w = a)"
  using assms
proof (induction ps arbitrary: s v)
  case Nil
  then show ?case by auto
next
  case (Cons p ps)
  then obtain a1 where a1: "store_op p (store_of v) = Some a1" "store_run ps a1 = Some a"
    by (auto split: option.splits)
  show ?case
    unfolding cache_run.simps
    by (rule yields_seq [OF cache_op_refines [OF Cons.prems(1,2) a1(1)]]) (use Cons.IH a1(2) in blast)
qed



end
