(* ===== verification/Log_Laws.thy ===== *)
theory Log_Laws
  imports Bio_Store
begin

text \<open>
  The loops of the log over the interface of the buffer cache. The lemmas give the block
  writes that \<open>write_log\<close>, \<open>write_head\<close>, \<open>install_trans\<close>, \<open>commit\<close> and \<open>recover_from_log\<close>
  send to the disk, in their order, and the view of the cache they leave.
\<close>

section \<open>Little-endian fields\<close>

lemma get16_put16_same: "get16 (put16 i v d) i = v"
proof (rule bit_word_eqI)
  fix n assume "n < LENGTH(16)"
  then show "bit (get16 (put16 i v d) i) n = bit v n"
    by (cases "n < 8") (auto simp: get16_def put16_def bit_simps)
qed

lemma get16_put16_other: "i + 1 < j \<or> j + 1 < i \<Longrightarrow> get16 (put16 j v d) i = get16 d i"
  by (auto simp: get16_def put16_def)

lemma get32_put32_same: "get32 (put32 i v d) i = v"
proof -
  have a: "get16 (put32 i v d) i = ucast v" "get16 (put32 i v d) (i + 2) = ucast (drop_bit 16 v)"
    by (simp_all add: put32_def get16_put16_same get16_put16_other)
  show ?thesis
  proof (rule bit_word_eqI)
    fix n assume "n < LENGTH(32)"
    then show "bit (get32 (put32 i v d) i) n = bit v n"
      unfolding get32_def a by (cases "n < 16") (auto simp: bit_simps)
  qed
qed

lemma get32_put32_other: "i + 3 < j \<or> j + 3 < i \<Longrightarrow> get32 (put32 j v d) i = get32 d i"
  by (auto simp: get32_def put32_def get16_put16_other)

lemma get32_put32_slot: "q \<noteq> j \<Longrightarrow> get32 (put32 (4 + 4 * j) v d) (4 + 4 * q) = get32 d (4 + 4 * q)"
  by (rule get32_put32_other) arith

lemma get32_put_head:
  "get32 (put_head h is d) (4 + 4 * q) = (if q \<in> set is then lh_block h q else get32 d (4 + 4 * q))"
  "get32 (put_head h is d) 0 = get32 d 0"
proof (induction "is" arbitrary: d)
  case (Cons j js)
  { case 1
    show ?case using Cons.IH(1)
      by (cases "q = j") (simp_all add: get32_put32_same get32_put32_slot) }
  { case 2
    show ?case using Cons.IH(2) by (simp add: get32_put32_other) }
qed simp_all

section \<open>Sequences of block writes\<close>

definition applyw :: "(u32 \<times> block) list \<Rightarrow> (u32 \<Rightarrow> block) \<Rightarrow> u32 \<Rightarrow> block" where
  "applyw ws d = foldl (\<lambda>d w. d(fst w := snd w)) d ws"

lemma applyw_simps [simp]:
  "applyw [] d = d" "applyw (w # ws) d = applyw ws (d(fst w := snd w))" "applyw (ws @ ws') d = applyw ws' (applyw ws d)"
  by (simp_all add: applyw_def)

lemma applyw_other: "x \<notin> fst ` set ws \<Longrightarrow> applyw ws d x = d x"
  by (induction ws arbitrary: d) auto

lemma applyw_at: "distinct (map fst ws) \<Longrightarrow> (x, b) \<in> set ws \<Longrightarrow> applyw ws d x = b"
proof (induction ws arbitrary: d)
  case (Cons w ws)
  then show ?case
    using applyw_other [of x ws] by (cases "w = (x, b)") (auto simp: rev_image_eqI)
qed simp

definition v_app :: "(u32 \<times> block) list \<Rightarrow> bview \<Rightarrow> bview" where
  "v_app ws v = v\<lparr>v_content := applyw ws (v_content v), v_disk := applyw ws (v_disk v), v_writes := rev ws @ v_writes v\<rparr>"

lemma v_app_sel [simp]:
  "v_content (v_app ws v) = applyw ws (v_content v)" "v_disk (v_app ws v) = applyw ws (v_disk v)"
  "v_writes (v_app ws v) = rev ws @ v_writes v" "v_refs (v_app ws v) = v_refs v" "v_held (v_app ws v) = v_held v"
  "v_handle (v_app ws v) = v_handle v"
  by (simp_all add: v_app_def)

lemma v_app_append: "v_app ws' (v_app ws v) = v_app (ws @ ws') v" "v_app [] v = v"
  by (simp_all add: v_app_def)

lemma v_copy_app: "v_copy a d v = v_app [(a, d)] v"
  by (simp add: v_app_def v_copy_def v_defs)

section \<open>Writing the log\<close>

definition log_at :: "u32 \<Rightarrow> nat \<Rightarrow> u32" where
  "log_at st i = st + of_nat i + 1"

text \<open>The blocks behind the header: the log has \<open>LOGSIZE\<close> blocks with the header.\<close>

definition LOGDATA :: nat where "LOGDATA = LOGSIZE - 1"

definition log_area :: "u32 \<Rightarrow> u32 set" where
  "log_area st = insert st (log_at st ` {..<LOGDATA})"

definition hdr_of :: "logheader \<Rightarrow> block \<Rightarrow> block" where
  "hdr_of h d = put_head h [0..<nat (lh_n h)] (put32 0 (word_of_int (lh_n h)) d)"

lemma bframe_logrec: "bframe s t \<Longrightarrow> logrec t = logrec s"
  by (auto simp: bframe_def)

lemma sees_logrec: "sees K me s0 s v \<Longrightarrow> logrec s = logrec s0"
  by (simp add: sees_def bframe_logrec)

lemma log_at_inj: "i < LOGDATA \<Longrightarrow> j < LOGDATA \<Longrightarrow> log_at st i = log_at st j \<longleftrightarrow> i = j"
proof -
  assume a: "i < LOGDATA" "j < LOGDATA"
  have "(of_nat i :: u32) = of_nat j \<longleftrightarrow> i = j" using a
    by (auto simp: LOGDATA_def LOGSIZE_def MAXOPBLOCKS_def word_of_nat_eq_iff take_bit_nat_eq_self)
  then show ?thesis by (simp add: log_at_def)
qed

lemma log_at_area: "i < LOGDATA \<Longrightarrow> log_at st i \<in> log_area st"
  by (simp add: log_area_def)

lemma log_at_start: "i < LOGDATA \<Longrightarrow> log_at st i \<noteq> st"
proof
  assume a: "i < LOGDATA" "log_at st i = st"
  then have "of_nat (Suc i) = (0 :: u32)" by (simp add: log_at_def add.commute)
  then show False using a(1)
    by (simp add: word_of_nat_eq_0_iff LOGDATA_def LOGSIZE_def MAXOPBLOCKS_def nat_dvd_not_less del: of_nat_Suc)
qed

text \<open>A view in which no buffer is held and reference counts are small.\<close>

definition idle :: "bview \<Rightarrow> bool" where
  "idle v \<longleftrightarrow> (\<forall>x. \<not> v_held v x) \<and> (\<forall>x. v_refs v x \<le> 1) \<and> finite (v_pinned v) \<and> card (v_pinned v) < NBUF"

lemma idle_app [simp]: "idle (v_app ws v) = idle v"
  by (simp add: idle_def)

lemma idleD:
  assumes "idle v"
  shows "\<not> v_held v x" "v_refs v x < 2 ^ 32 - 1" "finite (v_pinned v)" "card (v_pinned v) < NBUF"
proof -
  have "v_refs v x \<le> 1" using assms by (simp add: idle_def)
  then show "v_refs v x < 2 ^ 32 - 1" by (rule le_less_trans) simp
qed (use assms in \<open>simp_all add: idle_def\<close>)

lemma write_log_sees:
  fixes s :: "'b lsys_scheme"
  assumes "sees K me s0 s v" "idle v" "log_dev (logrec s0) = ROOTDEV"
    and "\<forall>i\<in>set is. i < LOGDATA \<and> blk i \<notin> log_area st \<and> v_refs v (blk i) \<noteq> 0"
    and "st = log_start (logrec s0)" "blk = lh_block (lh (logrec s0))"
  shows "yields (write_log_from is s) (\<lambda>_ t. sees K me s0 t (v_app (map (\<lambda>i. (log_at st i, v_content v (blk i))) is) v))"
  using assms(1,2,4)
proof (induction "is" arbitrary: s v)
  case Nil
  then show ?case by (simp add: v_app_append)
next
  case (Cons i js)
  note L = sees_logrec [OF Cons.prems(1)] 
  have ne: "log_at st i \<noteq> blk i" using Cons.prems(3) log_at_area [of i st] by auto
  have t: "yields (write_log_from js t)
     (\<lambda>_ t. sees K me s0 t (v_app (map (\<lambda>i. (log_at st i, v_content v (blk i))) (i # js)) v))"
    if "sees K me s0 t (v_copy (log_at st i) (v_content v (blk i)) v)" for t
  proof -
    let ?w = "v_app [(log_at st i, v_content v (blk i))] v"
    have e: "map (\<lambda>i. (log_at st i, v_content ?w (blk i))) js = map (\<lambda>i. (log_at st i, v_content v (blk i))) js"
      using Cons.prems(3) log_at_area [of i st] by auto
    have "yields (write_log_from js t) (\<lambda>_ t. sees K me s0 t (v_app (map (\<lambda>i. (log_at st i, v_content ?w (blk i))) js) ?w))"
      using that Cons.prems by (intro Cons.IH) (simp_all add: v_copy_app)
    then show ?thesis unfolding e by (simp add: v_app_append)
  qed
  note I = idleD [OF Cons.prems(2)]
  have "yields (andthen (bread ROOTDEV (log_at st i) s) (\<lambda>x s.
      andthen (bread (log_dev (logrec s)) (lh_block (lh (logrec s)) i) s) (\<lambda>y s.
      andthen (bwrite x (upd_buf x (\<lambda>r. r\<lparr>b_data := b_data (bufs s y)\<rparr>) s)) (\<lambda>_ s.
      andthen (brelse y s) (\<lambda>_ s. andthen (brelse x s) (\<lambda>_. write_log_from js))))))
      (\<lambda>_ t. sees K me s0 t (v_app (map (\<lambda>i. (log_at st i, v_content v (blk i))) (i # js)) v))"
    by (rule bcache.copy_up [OF Cons.prems(1) I(1) I(1) ne I(2) I(2) I(4) _ I(3) _ t])
      (use Cons.prems(3) in \<open>simp_all add: sees_logrec assms(3,6)\<close>)
  then show ?case by (simp add: L assms(3,5) log_at_def Let_def)
qed

section \<open>Installing\<close>

definition v_drop :: "bool \<Rightarrow> u32 list \<Rightarrow> bview \<Rightarrow> bview" where
  "v_drop p xs v = v\<lparr>v_refs := (\<lambda>x. if p \<and> x \<in> set xs then v_refs v x - 1 else v_refs v x)\<rparr>"

lemma v_drop_sel [simp]:
  "v_content (v_drop p xs v) = v_content v" "v_disk (v_drop p xs v) = v_disk v" "v_writes (v_drop p xs v) = v_writes v"
  "v_held (v_drop p xs v) = v_held v" "v_handle (v_drop p xs v) = v_handle v"
  "v_refs (v_drop p xs v) = (\<lambda>x. if p \<and> x \<in> set xs then v_refs v x - 1 else v_refs v x)"
  by (simp_all add: v_drop_def)

lemma v_drop_app: "v_app ws (v_drop p xs v) = v_drop p xs (v_app ws v)"
  by (rule bview.equality) (auto simp: fun_eq_iff)

lemma v_drop_none: "v_drop p [] v = v" "v_drop False xs v = v"
  by (rule bview.equality; simp)+

lemma v_drop_Cons: "x \<notin> set xs \<Longrightarrow> v_drop p xs (v_drop p [x] v) = v_drop p (x # xs) v"
  by (rule bview.equality) (auto simp: fun_eq_iff)

lemma idle_drop:
  assumes "idle v"
  shows "idle (v_drop p xs v)"
proof -
  have s: "v_pinned (v_drop p xs v) \<subseteq> v_pinned v" by auto
  have f: "finite (v_pinned v)" "card (v_pinned v) < NBUF" "\<And>x. \<not> v_held v x" "\<And>x. v_refs v x \<le> 1"
    using assms by (auto simp: idle_def)
  have "finite (v_pinned (v_drop p xs v))" "card (v_pinned (v_drop p xs v)) < NBUF"
    using finite_subset [OF s f(1)] card_mono [OF f(1) s] f(2) by linarith+
  then show ?thesis unfolding idle_def using f(3,4) by (auto simp: le_diff_conv)
qed

lemma v_pin_drop: "v_pin c (if p then v_refs v c - 1 else v_refs v c) (v_copy c d v) = v_drop p [c] (v_app [(c, d)] v)"
  by (rule bview.equality) (auto simp: v_pin_def v_copy_app fun_eq_iff)

definition room :: "bool \<Rightarrow> bview \<Rightarrow> bool" where
  "room p v \<longleftrightarrow> p \<or> Suc (card (v_pinned v)) < NBUF"

lemma install_trans_sees:
  fixes s :: "'b lsys_scheme"
  assumes "sees K me s0 s v" "idle v" "log_dev (logrec s0) = ROOTDEV"
    and "\<forall>i\<in>set is. i < LOGDATA \<and> blk i \<notin> log_area st \<and> (p \<longrightarrow> v_refs v (blk i) \<noteq> 0)
       \<and> v_content v (log_at st i) = v_disk v (log_at st i)"
    and "p \<longrightarrow> distinct (map blk is)" "room p v"
    and "st = log_start (logrec s0)" "blk = lh_block (lh (logrec s0))"
  shows "yields (install_trans_from (\<not> p) is s) (\<lambda>_ t. sees K me s0 t
     (v_drop p (map blk is) (v_app (map (\<lambda>i. (blk i, v_content v (log_at st i))) is) v)))"
  using assms(1,2,4,5,6)
proof (induction "is" arbitrary: s v)
  case Nil
  then show ?case by (simp add: v_app_append v_drop_none)
next
  case (Cons i js)
  let ?Q = "\<lambda>_ t. sees K me s0 t (v_drop p (map blk (i # js)) (v_app (map (\<lambda>i. (blk i, v_content v (log_at st i))) (i # js)) v))"
  note L = sees_logrec [OF Cons.prems(1)] 
  have ne: "log_at st i \<noteq> blk i" using Cons.prems(3) log_at_area [of i st] by auto
  let ?w = "v_drop p [blk i] (v_app [(blk i, v_content v (log_at st i))] v)"
  have t: "yields (install_trans_from (\<not> p) js t) ?Q"
    if "sees K me s0 t (v_pin (blk i) (if p then v_refs v (blk i) - 1 else v_refs v (blk i)) (v_copy (blk i) (v_content v (log_at st i)) v))" for t
  proof -
    have o: "log_at st j \<noteq> blk i \<and> (p \<longrightarrow> blk i \<noteq> blk j)" if "j \<in> set js" for j
      using Cons.prems(3,4) that log_at_area [of j st] by auto
    have c: "\<forall>j\<in>set js. j < LOGDATA \<and> blk j \<notin> log_area st \<and> (p \<longrightarrow> v_refs ?w (blk j) \<noteq> 0)
       \<and> v_content ?w (log_at st j) = v_disk ?w (log_at st j)"
    proof
      fix j assume "j \<in> set js"
      then show "j < LOGDATA \<and> blk j \<notin> log_area st \<and> (p \<longrightarrow> v_refs ?w (blk j) \<noteq> 0)
         \<and> v_content ?w (log_at st j) = v_disk ?w (log_at st j)"
        using Cons.prems(3) o [of j] by auto
    qed
    have "room p ?w" using Cons.prems(5) by (cases p) (simp_all add: room_def v_drop_none)
    then have "yields (install_trans_from (\<not> p) js t) (\<lambda>_ t. sees K me s0 t
       (v_drop p (map blk js) (v_app (map (\<lambda>i. (blk i, v_content ?w (log_at st i))) js) ?w)))"
      using that Cons.prems(2,4) c unfolding v_pin_drop by (intro Cons.IH) (simp_all add: idle_drop)
    moreover have e: "map (\<lambda>i. (blk i, v_content ?w (log_at st i))) js = map (\<lambda>i. (blk i, v_content v (log_at st i))) js"
      using o by auto
    moreover have "v_drop p (map blk js) (v_app ws ?w) = v_drop p (map blk (i # js)) (v_app ((blk i, v_content v (log_at st i)) # ws) v)" for ws
      using Cons.prems(4) by (cases p) (simp_all add: v_drop_app v_drop_none v_app_append v_drop_Cons)
    ultimately show ?thesis by (simp only: e) simp
  qed
  note I = idleD [OF Cons.prems(2)]
  have "yields (andthen (bread ROOTDEV (log_at st i) s) (\<lambda>x s.
      andthen (bread (log_dev (logrec s)) (lh_block (lh (logrec s)) i) s) (\<lambda>y s.
      andthen (bwrite y (upd_buf y (\<lambda>r. r\<lparr>b_data := b_data (bufs s x)\<rparr>) s)) (\<lambda>_ s.
      andthen (if p then bunpin y s else Ret () s) (\<lambda>_ s.
      andthen (brelse x s) (\<lambda>_ s. andthen (brelse y s) (\<lambda>_. install_trans_from (\<not> p) js)))))))
      ?Q"
    by (rule bcache.copy_down [OF Cons.prems(1) I(1) I(1) ne I(2) I(2) I(4) _ I(3) _ _ _ t])
      (use Cons.prems(3,5) in \<open>auto simp: sees_logrec assms(3,8) room_def\<close>)
  then show ?case by (simp add: L assms(3,7) log_at_def Let_def)
qed

lemma andthen_Ret: "andthen r Ret = r"
  by (cases r) simp_all

lemma write_head_sees:
  fixes s :: "'b lsys_scheme"
  assumes "sees K me s0 s v" "idle v" "log_dev (logrec s0) = ROOTDEV" "st = log_start (logrec s0)"
  shows "yields (write_head s) (\<lambda>_ t. sees K me s0 t (v_app [(st, hdr_of (lh (logrec s0)) (v_content v st))] v))"
proof -
  note L = sees_logrec [OF assms(1)] and I = idleD [OF assms(2)]
  have "yields (andthen (bread ROOTDEV st s) (\<lambda>x s. andthen (bwrite x (upd_buf x (\<lambda>r. r\<lparr>b_data := hdr_of (lh (logrec s)) (b_data r)\<rparr>) s))
      (\<lambda>_ s. andthen (brelse x s) (\<lambda>_. Ret ())))) (\<lambda>_ t. sees K me s0 t (v_app [(st, hdr_of (lh (logrec s0)) (v_content v st))] v))"
    by (rule bcache.rewrite_block [OF assms(1) I(1,2,4)]) (simp_all add: v_copy_app sees_logrec)
  then show ?thesis
    by (simp add: write_head_def andthen_Ret L assms(3,4) Let_def hdr_of_def)
qed

section \<open>Commit\<close>

definition homes :: "klogrec \<Rightarrow> u32 list" where
  "homes l = map (lh_block (lh l)) [0..<nat (lh_n (lh l))]"

definition log_wf :: "klogrec \<Rightarrow> bool" where
  "log_wf l \<longleftrightarrow> log_dev l = ROOTDEV \<and> 0 \<le> lh_n (lh l) \<and> lh_n (lh l) \<le> int LOGDATA
     \<and> distinct (homes l) \<and> set (homes l) \<inter> log_area (log_start l) = {}"

text \<open>The block writes of a commit, in the order in which they reach the disk.\<close>

definition commit_trace :: "klogrec \<Rightarrow> (u32 \<Rightarrow> block) \<Rightarrow> (u32 \<times> block) list" where
  "commit_trace l c =
     (let st = log_start l; n = nat (lh_n (lh l)); hdr = hdr_of (lh l) (c st)
      in if n = 0 then []
         else map (\<lambda>i. (log_at st i, c (lh_block (lh l) i))) [0..<n] @ [(st, hdr)]
            @ map (\<lambda>x. (x, c x)) (homes l) @ [(st, hdr_of ((lh l)\<lparr>lh_n := 0\<rparr>) hdr)])"

lemma view_logrec [simp]: "view me (s\<lparr>logrec := l\<rparr>) = view me s"
  by (simp add: view_def content_def refs_def held_def handle_def fun_eq_iff split: option.split)

lemma bready_logrec [simp]: "bready K me (s\<lparr>logrec := l\<rparr>) = bready K me s"
  by (simp add: bready_def bio_ok_def)

lemma sees_set_log:
  assumes "sees K me s0 s v"
  shows "sees K me (upd_log f s0) (upd_log f s) v"
proof -
  have s: "bframe s0 s" "bready K me s" "view me s = v" using assms by (auto simp: sees_def)
  obtain h q l B d w where t: "s = s0\<lparr>hw := h, procs := q, slocks := l, bufs := B, disk := d, dwrites := w\<rparr>"
    "h = hw s0 \<or> h = settle (hw s0)" "\<forall>p. p_pid (q p) = p_pid (procs s0 p)"
    "\<forall>x. (\<forall>b. x \<noteq> BufLock b) \<longrightarrow> l x = slocks s0 x"
    using s(1) unfolding bframe_def by blast
  have "bframe (upd_log f s0) (upd_log f s)"
    by (rule bframeI [where h = h and q = q and l = l and B = B and d = d and w = w])
      (use t in \<open>auto simp: upd_log_def\<close>)
  then show ?thesis using s by (simp add: sees_def upd_log_def)
qed

lemma set_lh_n_log: "logrec (set_lh_n n s) = (logrec s)\<lparr>lh := (lh (logrec s))\<lparr>lh_n := n\<rparr>\<rparr>"
  by (simp add: set_lh_n_def upd_log_def)

lemma log_wf_homes:
  assumes "log_wf l" "i < nat (lh_n (lh l))"
  shows "i < LOGDATA" "lh_block (lh l) i \<notin> log_area (log_start l)" "lh_block (lh l) i \<in> set (homes l)"
proof -
  show h: "lh_block (lh l) i \<in> set (homes l)" using assms(2) by (simp add: homes_def)
  show "i < LOGDATA" "lh_block (lh l) i \<notin> log_area (log_start l)"
    using assms h by (auto simp: log_wf_def disjoint_iff)
qed

text \<open>A view in which exactly the blocks \<open>xs\<close> are pinned, once.\<close>

definition pins :: "u32 list \<Rightarrow> bview \<Rightarrow> bool" where
  "pins xs v \<longleftrightarrow> (\<forall>x. \<not> v_held v x) \<and> (\<forall>x. v_refs v x = (if x \<in> set xs then 1 else 0))"

lemma pins_idle:
  assumes "pins xs v" "length xs < NBUF"
  shows "idle v"
proof -
  have "v_pinned v = set xs" using assms(1) by (auto simp: pins_def)
  then show ?thesis using assms card_length [of xs] by (simp add: idle_def pins_def)
qed

lemma log_writes_at:
  assumes "log_wf l" "i < nat (lh_n (lh l))"
  shows "applyw (map (\<lambda>i. (log_at (log_start l) i, f i)) [0..<nat (lh_n (lh l))]) d (log_at (log_start l) i) = f i"
proof (rule applyw_at)
  show "distinct (map fst (map (\<lambda>i. (log_at (log_start l) i, f i)) [0..<nat (lh_n (lh l))]))"
    using log_at_inj log_wf_homes(1) [OF assms(1)] by (auto simp: distinct_map inj_on_def)
qed (use assms in auto)

lemma commit_sees:
  fixes s :: "'b lsys_scheme"
  assumes rd: "bready K me s" and wf: "log_wf (logrec s)" and pn: "pins (homes (logrec s)) (view me s)"
  shows "yields (commit s) (\<lambda>_ t. sees K me (set_lh_n 0 s) t
     (v_drop True (homes (logrec s)) (v_app (commit_trace (logrec s) (content s)) (view me s))))"
proof (cases "nat (lh_n (lh (logrec s))) = 0")
  case True
  then have z: "lh_n (lh (logrec s)) = 0" using wf by (auto simp: log_wf_def)
  then have "set_lh_n 0 s = s" by (simp add: set_lh_n_def upd_log_def)
  then show ?thesis
    using z sees_start [OF rd]
    by (simp add: commit_def commit_trace_def Let_def homes_def v_app_append v_drop_none)
next
  case False
  let ?l = "logrec s" and ?v = "view me s"
  let ?st = "log_start ?l" and ?n = "nat (lh_n (lh ?l))" and ?b = "lh_block (lh ?l)"
  define ws1 where "ws1 = map (\<lambda>i. (log_at ?st i, content s (?b i))) [0..<?n]"
  define hdr where "hdr = hdr_of (lh ?l) (content s ?st)"
  define ws3 where "ws3 = map (\<lambda>x. (x, content s x)) (homes ?l)"
  define hdr0 where "hdr0 = hdr_of ((lh ?l)\<lparr>lh_n := 0\<rparr>) hdr"
  note H = log_wf_homes [OF wf]
  have dev: "log_dev ?l = ROOTDEV" using wf by (simp add: log_wf_def)
  have "nat (lh_n (lh ?l)) < 30" using wf by (auto simp: log_wf_def LOGDATA_def LOGSIZE_def MAXOPBLOCKS_def)
  then have id: "idle ?v" using pins_idle [OF pn] by (simp add: homes_def NBUF_def MAXOPBLOCKS_def)
  have st: "applyw ws1 d ?st = d ?st" for d :: "u32 \<Rightarrow> block"
    using log_at_start [OF H(1), THEN not_sym] by (intro applyw_other) (auto simp: ws1_def)
  have 1: "yields (write_log s) (\<lambda>_ t. sees K me s t (v_app ws1 ?v))"
    using write_log_sees [OF sees_start [OF rd] id dev _ refl refl, of "[0..<?n]"] H pn
    by (simp add: write_log_def ws1_def view_def pins_def)
  have 2: "yields (write_head t) (\<lambda>_ t. sees K me s t (v_app (ws1 @ [(?st, hdr)]) ?v))"
    if "sees K me s t (v_app ws1 ?v)" for t
    using write_head_sees [OF that _ dev refl] id by (simp add: st v_app_append hdr_def view_def)
  have 3: "yields (install_trans False t) (\<lambda>_ t. sees K me s t (v_drop True (homes ?l) (v_app (ws1 @ [(?st, hdr)] @ ws3) ?v)))"
    if "sees K me s t (v_app (ws1 @ [(?st, hdr)]) ?v)" for t
  proof -
    let ?w = "v_app (ws1 @ [(?st, hdr)]) ?v"
    have at: "v_content ?w (log_at ?st i) = content s (?b i)" "v_disk ?w (log_at ?st i) = content s (?b i)" if "i < ?n" for i
      using log_writes_at [OF wf that] log_at_start [OF H(1) [OF that]] by (simp_all add: ws1_def view_def)
    have m: "map (\<lambda>i. (?b i, v_content ?w (log_at ?st i))) [0..<?n] = ws3"
      using at by (simp add: ws3_def homes_def)
    have "yields (install_trans_from (\<not> True) [0..<?n] t) (\<lambda>_ t. sees K me s t (v_drop True (map ?b [0..<?n])
       (v_app (map (\<lambda>i. (?b i, v_content ?w (log_at ?st i))) [0..<?n]) ?w)))"
      using that id H at wf pn dev
      by (intro install_trans_sees) (auto simp: log_wf_def homes_def room_def pins_def)
    then show ?thesis
      unfolding m by (simp add: install_trans_def sees_logrec [OF that] homes_def v_app_append)
  qed
  have 4: "yields (write_head (set_lh_n 0 t)) (\<lambda>_ t. sees K me (set_lh_n 0 s) t
      (v_drop True (homes ?l) (v_app (ws1 @ [(?st, hdr)] @ ws3 @ [(?st, hdr0)]) ?v)))"
    if "sees K me s t (v_drop True (homes ?l) (v_app (ws1 @ [(?st, hdr)] @ ws3) ?v))" for t
  proof -
    have "?st \<notin> set (homes ?l)" using wf by (auto simp: log_wf_def log_area_def disjoint_iff)
    then have "?st \<notin> fst ` set ws3" by (auto simp: ws3_def)
    then have c: "applyw ws3 d ?st = d ?st" for d :: "u32 \<Rightarrow> block" by (rule applyw_other)
    have S: "sees K me (set_lh_n 0 s) (set_lh_n 0 t) (v_drop True (homes ?l) (v_app (ws1 @ [(?st, hdr)] @ ws3) ?v))"
      unfolding set_lh_n_def by (rule sees_set_log [OF that])
    have P: "idle (v_drop True (homes ?l) (v_app (ws1 @ [(?st, hdr)] @ ws3) ?v))"
      "log_dev (logrec (set_lh_n 0 s)) = ROOTDEV" "?st = log_start (logrec (set_lh_n 0 s))"
      using id dev by (simp_all add: idle_drop set_lh_n_log)
    have h: "hdr_of (lh (logrec (set_lh_n 0 s))) (v_content (v_drop True (homes ?l) (v_app (ws1 @ [(?st, hdr)] @ ws3) ?v)) ?st) = hdr0"
      by (simp add: set_lh_n_log c hdr0_def)
    show ?thesis
      using write_head_sees [OF S P] unfolding h by (simp only: v_drop_app v_app_append append_assoc)
  qed
  have "yields (commit s) (\<lambda>_ t. sees K me (set_lh_n 0 s) t
      (v_drop True (homes ?l) (v_app (ws1 @ [(?st, hdr)] @ ws3 @ [(?st, hdr0)]) ?v)))"
  proof -
    have e: "commit s = andthen (write_log s) (\<lambda>_ s. andthen (write_head s) (\<lambda>_ s.
        andthen (install_trans False s) (\<lambda>_ s. write_head (set_lh_n 0 s))))"
      using False by (simp add: commit_def)
    show ?thesis unfolding e by (rule yields_seq [OF 1], rule yields_seq [OF 2], assumption, rule yields_seq [OF 3], assumption, rule 4)
  qed
  then show ?thesis
    using False by (simp add: commit_trace_def Let_def ws1_def ws3_def hdr_def hdr0_def)
qed

section \<open>Recovery\<close>

definition disk_n :: "block \<Rightarrow> nat" where
  "disk_n d = nat (sint (get32 d 0))"

definition disk_homes :: "block \<Rightarrow> u32 list" where
  "disk_homes d = map (\<lambda>i. get32 d (4 + 4 * i)) [0..<disk_n d]"

definition head_of :: "block \<Rightarrow> logheader \<Rightarrow> logheader" where
  "head_of d h = h\<lparr>lh_n := sint (get32 d 0),
     lh_block := (\<lambda>i. if i < disk_n d then get32 d (4 + 4 * i) else lh_block h i)\<rparr>"

text \<open>The block writes of a recovery.\<close>

definition recover_trace :: "u32 \<Rightarrow> (u32 \<Rightarrow> block) \<Rightarrow> (u32 \<times> block) list" where
  "recover_trace st D = map (\<lambda>i. (get32 (D st) (4 + 4 * i), D (log_at st i))) [0..<disk_n (D st)] @ [(st, put32 0 0 (D st))]"

definition disk_log_wf :: "u32 \<Rightarrow> (u32 \<Rightarrow> block) \<Rightarrow> bool" where
  "disk_log_wf st D \<longleftrightarrow> disk_n (D st) \<le> LOGDATA \<and> set (disk_homes (D st)) \<inter> log_area st = {}"

lemma read_head_from_eq:
  assumes "\<forall>i\<in>set is. i < LOGSIZE"
  shows "read_head_from d is s = Ret () (upd_log (\<lambda>l. l\<lparr>lh := (lh l)\<lparr>lh_block :=
     (\<lambda>i. if i \<in> set is then get32 d (4 + 4 * i) else lh_block (lh l) i)\<rparr>\<rparr>) s)"
  using assms
proof (induction "is" arbitrary: s)
  case Nil
  then show ?case by (simp add: upd_log_def)
next
  case (Cons i js)
  have "(\<lambda>j. if j \<in> set js then get32 d (4 + 4 * j) else (blk(i := get32 d (4 + 4 * i))) j)
      = (\<lambda>j. if j \<in> set (i # js) then get32 d (4 + 4 * j) else blk j)" for blk :: "nat \<Rightarrow> u32"
    by auto
  then show ?case using Cons by (simp add: set_lh_block_def upd_log_def cong: if_cong)
qed

lemma read_head_sees:
  fixes s :: "'b lsys_scheme"
  assumes s: "sees K me s0 s v" and id: "idle v" and dev: "log_dev (logrec s0) = ROOTDEV"
    and st: "st = log_start (logrec s0)" and n: "disk_n (v_content v st) \<le> LOGSIZE"
    and c: "v_content v st = v_disk v st"
  shows "yields (read_head s) (\<lambda>_ t. sees K me (upd_log (\<lambda>l. l\<lparr>lh := head_of (v_content v st) (lh l)\<rparr>) s0) t v)"
proof -
  note L = sees_logrec [OF s] and I = idleD [OF id]
  have e: "read_head s = andthen (bread ROOTDEV st s) (\<lambda>b s. let d = b_data (bufs s b); s = set_lh_n (sint (get32 d 0)) s
     in andthen (read_head_from d [0..<nat (lh_n (lh (logrec s)))] s) (\<lambda>_ s. brelse b s))"
    by (simp add: read_head_def L dev st)
  show ?thesis
    unfolding e
  proof (rule yields_seq [OF bread_sees [OF s I(1,2)]])
    show "v_refs v st \<noteq> 0 \<or> card (v_pinned v) < NBUF" using I(4) by simp
    fix b t assume t: "sees K me s0 t (v_read st b v)"
    let ?d = "v_content v st"
    have hd: "v_handle (v_read st b v) st = Some b" by (simp add: v_read_def)
    have d: "b_data (bufs t b) = ?d" using data_sees(1) [OF t hd] by (simp add: v_read_def)
    have rh: "read_head_from ?d [0..<disk_n ?d] (set_lh_n (sint (get32 ?d 0)) t)
       = Ret () (upd_log (\<lambda>l. l\<lparr>lh := head_of ?d (lh l)\<rparr>) t)"
      using n by (subst read_head_from_eq) (auto simp: set_lh_n_def upd_log_def head_of_def cong: if_cong)
    have r: "v_release st (v_read st b v) = v"
      using I(1) bcache.unheld [OF s I(1)] by (simp add: v_defs fun_upd_idem)
    have hd': "v_handle (v_read st b v) st = Some b"
      "1 < v_refs (v_read st b v) st \<or> v_content (v_read st b v) st = v_disk (v_read st b v) st"
      using c by (simp_all add: v_read_def)
    show "yields (let d = b_data (bufs t b); s = set_lh_n (sint (get32 d 0)) t
       in andthen (read_head_from d [0..<nat (lh_n (lh (logrec s)))] s) (\<lambda>_ s. brelse b s))
       (\<lambda>_ t. sees K me (upd_log (\<lambda>l. l\<lparr>lh := head_of ?d (lh l)\<rparr>) s0) t v)"
      using brelse_sees [OF sees_set_log [OF t] hd'] rh
      by (simp add: d Let_def set_lh_n_log disk_n_def r)
  qed
qed

lemma content_clean:
  assumes "bio_ok s" "refs s x = 0"
  shows "content s x = disk s x"
proof (cases "slot (bufs s) x")
  case (Some b)
  have "b < NBUF" "b_dev (bufs s b) = ROOTDEV" "b_blockno (bufs s b) = x"
    using Some slot_Some [OF bio_okD(2) [OF assms(1)]] by auto
  moreover have "b_refcnt (bufs s b) = 0"
    using assms(2) Some by (simp add: refs_def unat_eq_0)
  ultimately show ?thesis using bio_okD(5) [OF assms(1)] Some by (simp add: content_def)
qed (simp add: content_def)

lemma recover_sees:
  fixes s :: "'b lsys_scheme"
  assumes rd: "bready K me s" and dev: "log_dev (logrec s) = ROOTDEV" and st: "st = log_start (logrec s)"
    and wf: "disk_log_wf st (disk s)" and pn: "pins [] (view me s)"
  shows "yields (recover_from_log s) (\<lambda>_ t. \<exists>s1. logrec s1 = (logrec s)\<lparr>lh := (head_of (disk s st) (lh (logrec s)))\<lparr>lh_n := 0\<rparr>\<rparr>
     \<and> sees K me s1 t (v_app (recover_trace st (disk s)) (view me s)))"
proof -
  let ?v = "view me s" and ?d = "disk s st"
  let ?h = "head_of ?d (lh (logrec s))"
  let ?s1 = "upd_log (\<lambda>l. l\<lparr>lh := head_of ?d (lh l)\<rparr>) s"
  let ?w = "v_app (map (\<lambda>i. (get32 ?d (4 + 4 * i), disk s (log_at st i))) [0..<disk_n ?d]) ?v"
  have z: "v_refs ?v x = 0" "\<not> v_held ?v x" for x using pn by (simp_all add: pins_def)
  have cl: "content s = disk s"
    using content_clean [OF breadyD(5) [OF rd]] z(1) by (auto simp: view_def fun_eq_iff)
  have id: "idle ?v" using pins_idle [OF pn] by (simp add: NBUF_def MAXOPBLOCKS_def)
  have "disk_n (disk s st) \<le> LOGSIZE" using wf by (simp add: disk_log_wf_def LOGDATA_def LOGSIZE_def MAXOPBLOCKS_def)
  then have 1: "yields (read_head s) (\<lambda>_ t. sees K me ?s1 t ?v)"
    using read_head_sees [OF sees_start [OF rd] id dev st] cl by (simp add: view_def)
  have 2: "yields (install_trans True t) (\<lambda>_ t. sees K me ?s1 t ?w)" if t: "sees K me ?s1 t ?v" for t
  proof -
    have l: "lh (logrec ?s1) = ?h" "log_start (logrec ?s1) = st" "log_dev (logrec ?s1) = ROOTDEV"
      using dev st by (simp_all add: upd_log_def)
    have "\<forall>i\<in>set [0..<disk_n ?d]. i < LOGDATA \<and> lh_block ?h i \<notin> log_area st \<and> (False \<longrightarrow> v_refs ?v (lh_block ?h i) \<noteq> 0)
       \<and> v_content ?v (log_at st i) = v_disk ?v (log_at st i)"
    proof
      fix i assume i: "i \<in> set [0..<disk_n ?d]"
      then have "get32 ?d (4 + 4 * i) \<in> set (disk_homes ?d)" by (simp add: disk_homes_def)
      then show "i < LOGDATA \<and> lh_block ?h i \<notin> log_area st \<and> (False \<longrightarrow> v_refs ?v (lh_block ?h i) \<noteq> 0)
         \<and> v_content ?v (log_at st i) = v_disk ?v (log_at st i)"
        using i wf cl by (auto simp: disk_log_wf_def head_of_def view_def disjoint_iff)
    qed
    then have "yields (install_trans_from (\<not> False) [0..<disk_n ?d] t) (\<lambda>_ t. sees K me ?s1 t
       (v_drop False (map (lh_block ?h) [0..<disk_n ?d]) (v_app (map (\<lambda>i. (lh_block ?h i, v_content ?v (log_at st i))) [0..<disk_n ?d]) ?v)))"
      using l z by (intro install_trans_sees [OF t id]) (auto simp: room_def NBUF_def MAXOPBLOCKS_def)
    moreover have m: "map (\<lambda>i. (lh_block ?h i, v_content ?v (log_at st i))) [0..<disk_n ?d]
       = map (\<lambda>i. (get32 ?d (4 + 4 * i), disk s (log_at st i))) [0..<disk_n ?d]"
      by (simp add: head_of_def view_def cl)
    moreover have "nat (lh_n (lh (logrec t))) = disk_n ?d"
      unfolding sees_logrec [OF t] l by (simp add: head_of_def disk_n_def)
    ultimately show ?thesis unfolding m by (simp add: install_trans_def v_drop_none)
  qed
  have 3: "yields (write_head (set_lh_n 0 t)) (\<lambda>_ t. sees K me (set_lh_n 0 ?s1) t (v_app (recover_trace st (disk s)) ?v))"
    if t: "sees K me ?s1 t ?w" for t
  proof -
    have S: "sees K me (set_lh_n 0 ?s1) (set_lh_n 0 t) ?w" unfolding set_lh_n_def by (rule sees_set_log [OF t])
    have P: "idle ?w" "log_dev (logrec (set_lh_n 0 ?s1)) = ROOTDEV" "st = log_start (logrec (set_lh_n 0 ?s1))"
      using id dev st by (simp_all add: set_lh_n_log upd_log_def)
    have "st \<notin> set (disk_homes ?d)" using wf by (auto simp: disk_log_wf_def log_area_def)
    then have "v_content ?w st = ?d" 
      by (subst v_app_sel, subst applyw_other) (auto simp: disk_homes_def view_def cl)
    then have h: "hdr_of (lh (logrec (set_lh_n 0 ?s1))) (v_content ?w st) = put32 0 0 ?d"
      by (simp add: set_lh_n_log hdr_of_def)
    show ?thesis
      using write_head_sees [OF S P] unfolding h by (simp only: v_app_append recover_trace_def)
  qed
  have "logrec (set_lh_n 0 ?s1) = (logrec s)\<lparr>lh := ?h\<lparr>lh_n := 0\<rparr>\<rparr>" by (simp add: set_lh_n_log upd_log_def)
  then show ?thesis
    unfolding recover_from_log_def
    by (intro yields_seq [OF 1] yields_seq [OF 2] yields_mono [OF 3]) (assumption | blast)+
qed

end
