(* ===== verification/Log_Crash.thy ===== *)
theory Log_Crash
  imports Log_Laws
begin

text \<open>
  Crashes, on disk images. A crash keeps a prefix of the block writes that were
  in progress. The lemmas show what recovery makes of every such disk, also when recovery itself is
  interrupted any number of times.
\<close>

definition recovered :: "u32 \<Rightarrow> (u32 \<Rightarrow> block) \<Rightarrow> u32 \<Rightarrow> block" where
  "recovered st D = applyw (recover_trace st D) D"

text \<open>The disks that crashes during recovery leave behind.\<close>

inductive crashed :: "u32 \<Rightarrow> (u32 \<Rightarrow> block) \<Rightarrow> (u32 \<Rightarrow> block) \<Rightarrow> bool" for st D where
  crashed_none: "crashed st D D"
| crashed_again: "crashed st D D' \<Longrightarrow> crashed st D (applyw (take k (recover_trace st D')) D')"

lemma notin_take: "x \<notin> f ` set ws \<Longrightarrow> x \<notin> f ` set (take k ws)"
  by (meson image_mono set_take_subset subsetD)

lemma applyw_determined: "x \<in> fst ` set ws \<Longrightarrow> applyw ws d x = applyw ws d' x"
proof (induction ws arbitrary: d d')
  case (Cons w ws)
  show ?case
  proof (cases "x \<in> fst ` set ws")
    case False
    then show ?thesis using Cons.prems by (auto simp: applyw_other)
  qed (simp add: Cons.IH)
qed simp

lemma applyw_absorb: "applyw ws (applyw (take k ws) d) x = applyw ws d x"
proof (cases "x \<in> fst ` set ws")
  case False
  then have "x \<notin> fst ` set (take k ws)" by (rule notin_take)
  then show ?thesis using False by (simp add: applyw_other)
qed (rule applyw_determined)

lemma disk_n_clear: "disk_n (put32 0 0 d) = 0"
  by (simp add: disk_n_def get32_put32_same)

lemma recover_trace_clear: "disk_n (D st) = 0 \<Longrightarrow> recover_trace st D = [(st, put32 0 0 (D st))]"
  by (simp add: recover_trace_def)

lemma recovered_clear: "disk_n (D st) = 0 \<Longrightarrow> x \<noteq> st \<Longrightarrow> recovered st D x = D x"
  by (simp add: recovered_def recover_trace_clear)

lemma disk_log_wf_clear: "disk_n (D st) = 0 \<Longrightarrow> disk_log_wf st D"
  by (simp add: disk_log_wf_def disk_homes_def)

text \<open>A crash during recovery does not change what recovery restores.\<close>

lemma recover_crash:
  assumes wf: "disk_log_wf st D" and D': "D' = applyw (take k (recover_trace st D)) D"
  shows "disk_log_wf st D' \<and> (\<forall>x. x \<notin> log_area st \<longrightarrow> recovered st D' x = recovered st D x)"
proof -
  define ws where "ws = map (\<lambda>i. (get32 (D st) (4 + 4 * i), D (log_at st i))) [0..<disk_n (D st)]"
  have tr: "recover_trace st D = ws @ [(st, put32 0 0 (D st))]" by (simp add: recover_trace_def ws_def)
  have out: "fst ` set ws \<inter> log_area st = {}" using wf by (simp add: disk_log_wf_def disk_homes_def ws_def image_image)
  show ?thesis
  proof (cases "k \<le> length ws")
    case True
    have D'': "D' = applyw (take k ws) D" using True by (simp add: D' tr)
    have same: "D' x = D x" if "x \<in> log_area st" for x
      using out that unfolding D'' by (intro applyw_other notin_take) (auto simp: disjoint_iff)
    have st: "D' st = D st" by (rule same) (simp add: log_area_def)
    have "D' (log_at st i) = D (log_at st i)" if "i < disk_n (D st)" for i
      using wf that by (intro same log_at_area) (simp add: disk_log_wf_def)
    then have tr': "recover_trace st D' = recover_trace st D" by (simp add: recover_trace_def st)
    have "disk_log_wf st D'" using wf by (simp add: disk_log_wf_def st)
    moreover have "recovered st D' x = recovered st D x" if "x \<notin> log_area st" for x
      using that applyw_absorb [of ws k D x] unfolding recovered_def tr' tr by (simp add: D'' log_area_def)
    ultimately show ?thesis by blast
  next
    case False
    then have "take k (recover_trace st D) = recover_trace st D" by (simp add: tr)
    then have r: "D' = recovered st D" by (simp add: D' recovered_def)
    then have z: "disk_n (D' st) = 0" by (simp add: recovered_def tr disk_n_clear)
    then have "recovered st D' x = recovered st D x" if "x \<notin> log_area st" for x
      using recovered_clear [of D' st x, OF z] that r by (auto simp: log_area_def)
    then show ?thesis using disk_log_wf_clear [of D', OF z] by blast
  qed
qed

lemma crashed_recovered:
  assumes "crashed st D D'" "disk_log_wf st D"
  shows "disk_log_wf st D' \<and> (\<forall>x. x \<notin> log_area st \<longrightarrow> recovered st D' x = recovered st D x)"
  using assms
proof (induction rule: crashed.induct)
  case (crashed_again D' k)
  then show ?case using recover_crash [of st D', OF _ refl, of k] by simp
qed simp

text \<open>A crash during a commit.\<close>

lemma hdr_of_fields:
  assumes "log_wf l"
  shows "disk_n (hdr_of (lh l) d) = nat (lh_n (lh l))" "disk_homes (hdr_of (lh l) d) = homes l"
    "hdr_of ((lh l)\<lparr>lh_n := 0\<rparr>) d = put32 0 0 d"
proof -
  have "0 \<le> lh_n (lh l)" "lh_n (lh l) < 30" using assms by (simp_all add: log_wf_def LOGDATA_def LOGSIZE_def MAXOPBLOCKS_def)
  then have "sint (word_of_int (lh_n (lh l)) :: u32) = lh_n (lh l)"
    by (simp add: sint_sbintrunc' signed_take_bit_int_eq_self)
  then show n: "disk_n (hdr_of (lh l) d) = nat (lh_n (lh l))"
    by (simp add: disk_n_def hdr_of_def get32_put_head(2) get32_put32_same)
  show "disk_homes (hdr_of (lh l) d) = homes l"
    unfolding disk_homes_def n homes_def by (simp add: hdr_of_def get32_put_head(1))
  show "hdr_of ((lh l)\<lparr>lh_n := 0\<rparr>) d = put32 0 0 d" by (simp add: hdr_of_def)
qed

lemma log_writes_area:
  assumes "log_wf l" "x \<notin> log_area (log_start l)"
  shows "x \<notin> fst ` set (map (\<lambda>i. (log_at (log_start l) i, f i)) [0..<nat (lh_n (lh l))])"
  using assms(2) log_at_area [OF log_wf_homes(1) [OF assms(1)], of _ "log_start l"] by auto

lemma commit_crash:
  assumes wf: "log_wf l" and z: "disk_n (D (log_start l)) = 0" and cl: "\<And>x. x \<notin> set (homes l) \<Longrightarrow> c x = D x"
    and D': "D' = applyw (take k (commit_trace l c)) D"
  shows "disk_log_wf (log_start l) D' \<and>
    ((\<forall>x. x \<notin> log_area (log_start l) \<longrightarrow> recovered (log_start l) D' x = D x) \<or>
     (\<forall>x. x \<notin> log_area (log_start l) \<longrightarrow> recovered (log_start l) D' x = c x))"
proof (cases "nat (lh_n (lh l)) = 0")
  case True
  then have "D' = D" by (simp add: D' commit_trace_def Let_def)
  then show ?thesis using disk_log_wf_clear [of D, OF z] recovered_clear [of D, OF z] by (auto simp: log_area_def)
next
  case False
  let ?st = "log_start l" and ?n = "nat (lh_n (lh l))"
  define ws1 where "ws1 = map (\<lambda>i. (log_at ?st i, c (lh_block (lh l) i))) [0..<?n]"
  define hdr where "hdr = hdr_of (lh l) (c ?st)"
  define ws3 where "ws3 = map (\<lambda>x. (x, c x)) (homes l)"
  have tr: "commit_trace l c = ws1 @ (?st, hdr) # ws3 @ [(?st, put32 0 0 hdr)]"
    using False by (simp add: commit_trace_def Let_def ws1_def hdr_def ws3_def hdr_of_fields(3) [OF wf])
  have st1: "?st \<notin> fst ` set (take j ws1)" for j
    using log_at_start [OF log_wf_homes(1) [OF wf], THEN not_sym] by (intro notin_take) (auto simp: ws1_def)
  have a1: "x \<notin> fst ` set (take j ws1)" if "x \<notin> log_area ?st" for x j
    using log_writes_area [OF wf that] unfolding ws1_def by (rule notin_take)
  have h3: "set (homes l) \<inter> log_area ?st = {}" using wf by (simp add: log_wf_def)
  have a3: "x \<notin> fst ` set (take j ws3)" if "x \<in> log_area ?st \<or> x \<notin> set (homes l)" for x j
    using that h3 by (intro notin_take) (auto simp: ws3_def image_image)
  have in3: "applyw ws3 d x = c x" if "x \<in> set (homes l)" for d x
    using wf that by (intro applyw_at) (auto simp: ws3_def log_wf_def comp_def)
  consider "k \<le> ?n" | "?n < k" "k \<le> 2 * ?n + 1" | "2 * ?n + 1 < k" by linarith
  then show ?thesis
  proof cases
    case 1
    then have e: "D' = applyw (take k ws1) D" by (simp add: D' tr ws1_def)
    then have zz: "disk_n (D' ?st) = 0" using z st1 by (simp add: applyw_other)
    have "recovered ?st D' x = D x" if "x \<notin> log_area ?st" for x
      using that recovered_clear [of D' ?st x, OF zz] a1 [OF that] by (auto simp: e applyw_other log_area_def)
    then show ?thesis using disk_log_wf_clear [of D', OF zz] by blast
  next
    case 2
    define j where "j = k - Suc ?n"
    then have k: "k = ?n + Suc j" "j \<le> ?n" using 2 by simp_all
    have len: "length ws1 = ?n" "length ws3 = ?n" by (simp_all add: ws1_def ws3_def homes_def)
    have e: "D' = applyw (take j ws3) ((applyw ws1 D)(?st := hdr))" using k(2) by (simp add: D' tr k(1) len)
    have st: "D' ?st = hdr" unfolding e by (subst applyw_other) (auto intro!: a3 simp: log_area_def)
    have at: "D' (log_at ?st i) = c (lh_block (lh l) i)" if "i < ?n" for i
      using log_writes_at [OF wf that] log_at_start [OF log_wf_homes(1) [OF wf that]] a3 [of "log_at ?st i" j]
        log_at_area [OF log_wf_homes(1) [OF wf that], of ?st]
      by (simp add: e applyw_other ws1_def)
    have "recover_trace ?st D' = ws3 @ [(?st, put32 0 0 hdr)]"
      using at hdr_of_fields(2) [OF wf, of "c ?st"] hdr_of_fields(1) [OF wf, of "c ?st"]
      by (simp add: recover_trace_def st hdr_def ws3_def homes_def disk_homes_def)
    then have "recovered ?st D' x = c x" if "x \<notin> log_area ?st" for x
      using that in3 [of x] a3 [of x] a3 [of x "length ws3"] cl [of x] a1 [OF that, of "length ws1"]
      by (cases "x \<in> set (homes l)") (auto simp: recovered_def e applyw_other log_area_def)
    moreover have "disk_log_wf ?st D'"
      using wf hdr_of_fields [OF wf] h3 by (auto simp: disk_log_wf_def st hdr_def log_wf_def nat_le_iff)
    ultimately show ?thesis by blast
  next
    case 3
    have "length (commit_trace l c) = 2 * ?n + 2" by (simp add: tr ws1_def ws3_def homes_def)
    then have "D' = applyw (commit_trace l c) D" using 3 by (simp add: D')
    then have e: "D' = (applyw ws3 ((applyw ws1 D)(?st := hdr)))(?st := put32 0 0 hdr)" by (simp add: tr)
    then have zz: "disk_n (D' ?st) = 0" by (simp add: disk_n_clear)
    have "recovered ?st D' x = c x" if "x \<notin> log_area ?st" for x
      using that recovered_clear [of D' ?st x, OF zz] in3 [of x] a3 [of x "length ws3"] cl [of x] a1 [OF that, of "length ws1"]
      by (cases "x \<in> set (homes l)") (auto simp: e applyw_other log_area_def)
    then show ?thesis using disk_log_wf_clear [of D', OF zz] by blast
  qed
qed

end
