(* ===== verification/Log_Txn.thy ===== *)
theory Log_Txn
  imports Log_Crash
begin

text \<open>
  The operations of the log as the file system uses them: \<open>begin_op\<close>, \<open>log_write\<close> and \<open>end_op\<close> under
  the lock of the log, and transactions built from them.
\<close>

section \<open>Critical sections\<close>

lemma view_hw [simp]: "view me (s\<lparr>hw := h\<rparr>) = view me s"
  by (simp add: view_def content_def refs_def held_def handle_def fun_eq_iff split: option.split)

lemma bio_ok_hw [simp]: "bio_ok (s\<lparr>hw := h\<rparr>) = bio_ok s"
  by (simp add: bio_ok_def)

lemma upd_log_frame: "bframe s t \<Longrightarrow> bframe (upd_log f s) (upd_log f t)"
proof -
  assume "bframe s t"
  then obtain h q l B d w where t: "t = s\<lparr>hw := h, procs := q, slocks := l, bufs := B, disk := d, dwrites := w\<rparr>"
    "h = hw s \<or> h = settle (hw s)" "\<forall>p. p_pid (q p) = p_pid (procs s p)"
    "\<forall>x. (\<forall>b. x \<noteq> BufLock b) \<longrightarrow> l x = slocks s x"
    unfolding bframe_def by blast
  show ?thesis
    by (rule bframeI [where h = h and q = q and l = l and B = B and d = d and w = w])
      (use t in \<open>auto simp: upd_log_def\<close>)
qed

lemma bframe_set_hw:
  assumes "bframe s t" "h = k \<or> h = settle k"
  shows "bframe (s\<lparr>hw := k\<rparr>) (t\<lparr>hw := h\<rparr>)"
proof -
  obtain h' q l B d w where t: "t = s\<lparr>hw := h', procs := q, slocks := l, bufs := B, disk := d, dwrites := w\<rparr>"
    "\<forall>p. p_pid (q p) = p_pid (procs s p)" "\<forall>x. (\<forall>b. x \<noteq> BufLock b) \<longrightarrow> l x = slocks s x"
    using assms(1) unfolding bframe_def by blast
  show ?thesis
    by (rule bframeI [where h = h and q = q and l = l and B = B and d = d and w = w])
      (use t assms(2) in \<open>auto simp: upd_comm\<close>)
qed

lemma locked_sees:
  fixes s :: "'b lsys_scheme"
  assumes s: "sees K me s0 s v" and l: "l \<notin> K" and bl: "bio_locks (insert l K)"
    and body: "\<And>s' s0'. sees (insert l K) me s0' s' v \<Longrightarrow> logrec s0' = logrec s0 \<Longrightarrow>
      yields (body s') (\<lambda>x t. sees (insert l K) me (upd_log f s0') t w)"
  shows "yields (andthen (acquire l s) (\<lambda>_ s. andthen (body s) (\<lambda>_ s. release l s))) (\<lambda>x t. sees K me (upd_log f s0) t w)"
proof -
  note R = breadyD(1) [OF seesD(2) [OF s]] and F = seesD(1) [OF s] and O = seesD(3) [OF s]
  have bK: "bio_locks K" using seesD(2) [OF s] by (simp add: bready_def)
  let ?h = "acq l (hw s)"
  let ?s = "s\<lparr>hw := ?h\<rparr>" and ?u = "s0\<lparr>hw := ?h\<rparr>"
  have "sees (insert l K) me ?u ?s v"
    unfolding sees_def using bframe_set_hw [OF F] rest_acq [OF R] bl O s
    by (simp add: bready_def sees_def)
  then have B: "yields (body ?s) (\<lambda>x t. sees (insert l K) me (upd_log f ?u) t w)"
    by (rule body) simp
  have "yields (andthen (body ?s) (\<lambda>_ s. release l s)) (\<lambda>x t. sees K me (upd_log f s0) t w)"
  proof (rule yields_seq [OF B])
    fix x t assume t: "sees (insert l K) me (upd_log f ?u) t w"
    have "hw t = ?h" using bframe_hw [OF seesD(1) [OF t]] restD(1) [OF R] by (auto simp: upd_log_def hw_simps)
    then have r: "release l t = Ret () (t\<lparr>hw := settle (hw s)\<rparr>)" by (rule release_rest [OF R l])
    have e: "(upd_log f ?u)\<lparr>hw := hw s0\<rparr> = upd_log f s0" by (simp add: upd_log_def upd_comm)
    have "settle (hw s) = hw s0 \<or> settle (hw s) = settle (hw s0)" using bframe_hw [OF F] by (auto simp: hw_simps)
    then have "bframe (upd_log f s0) (t\<lparr>hw := settle (hw s)\<rparr>)"
      using bframe_set_hw [OF seesD(1) [OF t]] e by metis
    then have "sees K me (upd_log f s0) (t\<lparr>hw := settle (hw s)\<rparr>) w"
      using t R bK seesD(3) [OF t] by (simp add: sees_def bready_def hw_simps)
    then show "yields (release l t) (\<lambda>x t. sees K me (upd_log f s0) t w)" using r by simp
  qed
  then show ?thesis using acquire_rest [OF R l] by simp
qed

lemma view_procs:
  "\<forall>p. p_pid (q p) = p_pid (procs s p) \<Longrightarrow> view me (s\<lparr>procs := q\<rparr>) = view me s"
  by (simp add: view_def content_def refs_def held_def handle_def fun_eq_iff split: option.split)

lemma wakeup_sees:
  assumes s: "sees K me s0 s v"
  shows "yields (wakeup c s) (\<lambda>_ t. sees K me s0 t v)"
proof -
  note R = breadyD [OF seesD(2) [OF s]]
  let ?q = "woken c (Some me) {..<NPROC} (procs s)"
  let ?t = "s\<lparr>hw := settle (hw s), procs := ?q\<rparr>"
  have "bframe s ?t"
    by (rule bframeI [where h = "settle (hw s)" and q = ?q and l = "slocks s" and B = "bufs s" and d = "disk s" and w = "dwrites s"])
      simp_all
  moreover have "bio_ok ?t" using R(5) by (simp add: bio_ok_def)
  moreover have "view me ?t = view me s" using view_procs [of ?q "s\<lparr>hw := settle (hw s)\<rparr>"] by simp
  ultimately have "sees K me s0 ?t v"
    using sees_step [OF s] bready_frame [OF seesD(2) [OF s]] s by (auto simp: sees_def)
  then show ?thesis using wakeup_rest [OF R(1,4)] by simp
qed

section \<open>Log operations\<close>

text \<open>The header after \<open>log_write\<close> of a block.\<close>

definition log_add :: "u32 \<Rightarrow> klogrec \<Rightarrow> klogrec" where
  "log_add bno l = (if bno \<in> set (homes l) then l
     else l\<lparr>lh := (lh l)\<lparr>lh_n := lh_n (lh l) + 1, lh_block := (lh_block (lh l))(nat (lh_n (lh l)) := bno)\<rparr>\<rparr>)"

lemma log_add_sel [simp]:
  "log_start (log_add bno l) = log_start l" "log_dev (log_add bno l) = log_dev l" "log_size (log_add bno l) = log_size l"
  "outstanding (log_add bno l) = outstanding l" "committing (log_add bno l) = committing l"
  by (simp_all add: log_add_def)

lemma homes_log_add:
  assumes "0 \<le> lh_n (lh l)"
  shows "homes (log_add bno l) = (if bno \<in> set (homes l) then homes l else homes l @ [bno])"
proof -
  have "nat (1 + lh_n (lh l)) = Suc (nat (lh_n (lh l)))" using assms by simp
  then show ?thesis by (auto simp: log_add_def homes_def add.commute)
qed

lemma length_homes: "0 \<le> lh_n (lh l) \<Longrightarrow> lh_n (lh l) = int (length (homes l))"
  by (simp add: homes_def)

lemma log_wf_add:
  assumes "log_wf l" "lh_n (lh l) + 1 \<le> int LOGDATA" "bno \<notin> log_area (log_start l)"
  shows "log_wf (log_add bno l)"
  using assms homes_log_add [of l bno] by (auto simp: log_wf_def) (auto simp: log_add_def)

lemma absorb_index_found:
  "b \<in> blk ` set is \<Longrightarrow> absorb_index blk b is n \<in> set is \<and> blk (absorb_index blk b is n) = b"
  by (induction "is") auto

lemma absorb_index_none: "b \<notin> blk ` set is \<Longrightarrow> absorb_index blk b is n = n"
  by (induction "is") auto

definition log_body :: "nat \<Rightarrow> 'b lsys_scheme \<Rightarrow> (unit, 'b lsys_scheme) res" where
  "log_body b s =
     (let n = lh_n (lh (logrec s))
      in if int LOGSIZE \<le> n \<or> log_size (logrec s) - 1 \<le> n then Halt (Panic ''too big a transaction'') s
         else if outstanding (logrec s) < 1 then Halt (Panic ''log_write outside of trans'') s
         else let i = absorb_index (lh_block (lh (logrec s))) (b_blockno (bufs s b)) [0..<nat n] (nat n);
                  s = set_lh_block i (b_blockno (bufs s b)) s
              in if int i = n then andthen (bpin b s) (\<lambda>_ s. Ret () (set_lh_n (n + 1) s)) else Ret () s)"

lemma log_write_body: "log_write b s = andthen (acquire LogLock s) (\<lambda>_ s. andthen (log_body b s) (\<lambda>_ s. release LogLock s))"
  unfolding log_write_def log_body_def Let_def by (intro andthen_cong refl) (simp add: res_simps)

lemma set_lh_eq:
  "set_lh_n n (set_lh_block i b s) = upd_log (\<lambda>l. l\<lparr>lh := (lh l)\<lparr>lh_n := n, lh_block := (lh_block (lh l))(i := b)\<rparr>\<rparr>) s"
  by (simp add: set_lh_n_def set_lh_block_def upd_log_def)

lemma log_body_sees:
  fixes s :: "'b lsys_scheme"
  assumes s: "sees K me s0 s v" and h: "v_handle v bno = Some b" and wf: "log_wf (logrec s0)"
    and n: "lh_n (lh (logrec s0)) < log_size (logrec s0) - 1" "1 \<le> outstanding (logrec s0)" "v_refs v bno < 2 ^ 32 - 1"
  shows "yields (log_body b s) (\<lambda>_ t. sees K me (upd_log (log_add bno) s0) t
     (if bno \<in> set (homes (logrec s0)) then v else v_pin bno (v_refs v bno + 1) v))"
proof -
  let ?l = "logrec s0"
  let ?n = "lh_n (lh ?l)"
  define i where "i = absorb_index (lh_block (lh ?l)) bno [0..<nat ?n] (nat ?n)"
  note L = sees_logrec [OF s]
  have n0: "0 \<le> ?n" "?n < int LOGSIZE" using wf by (simp_all add: log_wf_def LOGDATA_def LOGSIZE_def MAXOPBLOCKS_def)
  have e: "log_body b s = (let s = set_lh_block i bno s in
     if int i = ?n then andthen (bpin b s) (\<lambda>_ s. Ret () (set_lh_n (?n + 1) s)) else Ret () s)"
    using n n0 data_sees(2) [OF s h] by (simp add: log_body_def L i_def Let_def)
  show ?thesis
  proof (cases "bno \<in> set (homes ?l)")
    case True
    then have i: "i < nat ?n" "lh_block (lh ?l) i = bno"
      using absorb_index_found [of bno "lh_block (lh ?l)" "[0..<nat ?n]" "nat ?n"] by (simp_all add: i_def homes_def)
    have "(lh_block (lh ?l))(i := bno) = lh_block (lh ?l)" using i(2) by auto
    then have "set_lh_block i bno s = s" by (simp add: set_lh_block_def upd_log_def L)
    moreover have "upd_log (log_add bno) s0 = s0" using True by (simp add: upd_log_def log_add_def)
    ultimately show ?thesis using e i True s by (auto simp: Let_def)
  next
    case False
    then have i: "i = nat ?n"
      using absorb_index_none [of bno "lh_block (lh ?l)" "[0..<nat ?n]" "nat ?n"] by (simp add: i_def homes_def)
    have "sees K me (set_lh_block i bno s0) (set_lh_block i bno s) v"
      unfolding set_lh_block_def by (rule sees_set_log [OF s])
    from bpin_sees [OF this h n(3)]
    have P: "yields (bpin b (set_lh_block i bno s)) (\<lambda>_ t. sees K me (set_lh_block i bno s0) t (v_pin bno (v_refs v bno + 1) v))" .
    have g: "set_lh_n (?n + 1) (set_lh_block i bno s0) = upd_log (log_add bno) s0"
      using False by (simp add: set_lh_eq) (simp add: upd_log_def log_add_def i)
    have "yields (andthen (bpin b (set_lh_block i bno s)) (\<lambda>_ s. Ret () (set_lh_n (?n + 1) s)))
       (\<lambda>_ t. sees K me (upd_log (log_add bno) s0) t (v_pin bno (v_refs v bno + 1) v))"
    proof (rule yields_seq [OF P])
      fix x t assume "sees K me (set_lh_block i bno s0) t (v_pin bno (v_refs v bno + 1) v)"
      then have "sees K me (set_lh_n (?n + 1) (set_lh_block i bno s0)) (set_lh_n (?n + 1) t) (v_pin bno (v_refs v bno + 1) v)"
        unfolding set_lh_n_def by (rule sees_set_log)
      then show "yields (Ret () (set_lh_n (?n + 1) t)) (\<lambda>_ t. sees K me (upd_log (log_add bno) s0) t (v_pin bno (v_refs v bno + 1) v))"
        by (simp add: g)
    qed
    then show ?thesis using e i n0 False by (simp add: Let_def)
  qed
qed

lemma bio_locks_log: "bio_locks (insert LogLock K) = bio_locks K"
  by (auto simp: bio_locks_def)

lemma log_write_sees:
  fixes s :: "'b lsys_scheme"
  assumes s: "sees K me s0 s v" and K: "LogLock \<notin> K" and h: "v_handle v bno = Some b" and wf: "log_wf (logrec s0)"
    and n: "lh_n (lh (logrec s0)) < log_size (logrec s0) - 1" "1 \<le> outstanding (logrec s0)" "v_refs v bno < 2 ^ 32 - 1"
  shows "yields (log_write b s) (\<lambda>_ t. sees K me (upd_log (log_add bno) s0) t
     (if bno \<in> set (homes (logrec s0)) then v else v_pin bno (v_refs v bno + 1) v))"
  unfolding log_write_body
proof (rule locked_sees [OF s K])
  show "bio_locks (insert LogLock K)" using seesD(2) [OF s] by (simp add: bready_def bio_locks_log)
  fix s' s0' :: "'b lsys_scheme" assume "sees (insert LogLock K) me s0' s' v" "logrec s0' = logrec s0"
  then show "yields (log_body b s') (\<lambda>x t. sees (insert LogLock K) me (upd_log (log_add bno) s0') t
     (if bno \<in> set (homes (logrec s0)) then v else v_pin bno (v_refs v bno + 1) v))"
    using log_body_sees [of "insert LogLock K" me s0' s' v bno b] h wf n by simp
qed

lemma begin_op_sees:
  fixes s :: "'b lsys_scheme"
  assumes s: "sees K me s0 s v" and K: "LogLock \<notin> K"
    and n: "\<not> committing (logrec s0)" "lh_n (lh (logrec s0)) + (outstanding (logrec s0) + 1) * int MAXOPBLOCKS \<le> int LOGSIZE"
  shows "yields (begin_op s) (\<lambda>_ t. sees K me (upd_log (\<lambda>l. l\<lparr>outstanding := outstanding l + 1\<rparr>) s0) t v)"
proof -
  let ?f = "\<lambda>l. l\<lparr>outstanding := outstanding l + 1\<rparr>"
  have "yields (andthen (acquire LogLock s) (\<lambda>_ s. andthen (Ret () (upd_log ?f s)) (\<lambda>_ s. release LogLock s)))
     (\<lambda>x t. sees K me (upd_log ?f s0) t v)"
  proof (rule locked_sees [OF s K])
    show "bio_locks (insert LogLock K)" using seesD(2) [OF s] by (simp add: bready_def bio_locks_log)
  qed (simp add: sees_set_log)
  then show ?thesis
    using n acquire_rest [OF breadyD(1) [OF seesD(2) [OF s]] K] sees_logrec [OF s]
    by (simp add: begin_op_def)
qed

lemma end_op_sees:
  fixes s :: "'b lsys_scheme"
  assumes s: "sees K me s0 s v" and K: "LogLock \<notin> K" and l: "l = logrec s0" and wf: "log_wf l" and pn: "pins (homes l) v"
    and n: "\<not> committing l" "outstanding l = 1"
  shows "yields (end_op s) (\<lambda>_ t. sees K me (upd_log (\<lambda>l. l\<lparr>outstanding := 0, committing := False, lh := (lh l)\<lparr>lh_n := 0\<rparr>\<rparr>) s0) t
     (v_drop True (homes l) (v_app (commit_trace l (v_content v)) v)))"
proof -
  let ?f = "\<lambda>l. l\<lparr>outstanding := 0, committing := True\<rparr>" and ?g = "\<lambda>l. l\<lparr>committing := False\<rparr>"
  let ?w = "v_drop True (homes l) (v_app (commit_trace l (v_content v)) v)"
  note L = sees_logrec [OF s]
  have bl: "bio_locks (insert LogLock K)" using seesD(2) [OF s] by (simp add: bready_def bio_locks_log)
  have e: "end_op s = andthen (andthen (acquire LogLock s) (\<lambda>_ s. andthen (Ret () (upd_log ?f s)) (\<lambda>_ s. release LogLock s)))
     (\<lambda>_ s. andthen (commit s) (\<lambda>_ s. andthen (acquire LogLock s) (\<lambda>_ s.
        andthen (wakeup (Some LogChan) (upd_log ?g s)) (\<lambda>_ s. release LogLock s))))"
    using n l L acquire_rest [OF breadyD(1) [OF seesD(2) [OF s]] K]
    by (simp add: end_op_def upd_log_def Let_def)
  have 1: "yields (andthen (acquire LogLock s) (\<lambda>_ s. andthen (Ret () (upd_log ?f s)) (\<lambda>_ s. release LogLock s)))
     (\<lambda>x t. sees K me (upd_log ?f s0) t v)"
    by (rule locked_sees [OF s K bl]) (simp add: sees_set_log)
  have 2: "yields (commit t) (\<lambda>_ t. sees K me (set_lh_n 0 (upd_log ?f s0)) t ?w)" if t: "sees K me (upd_log ?f s0) t v" for t
  proof -
    have lt: "logrec t = ?f l" using sees_logrec [OF t] l by (simp add: upd_log_def)
    have h: "homes (?f l) = homes l" "commit_trace (?f l) = commit_trace l"
      by (simp_all add: homes_def commit_trace_def Let_def fun_eq_iff cong: if_cong)
    have "log_wf (?f l)" using wf h by (simp add: log_wf_def)
    then have C: "yields (commit t) (\<lambda>_ u. sees K me (set_lh_n 0 t) u ?w)"
      using commit_sees [OF seesD(2) [OF t]] pn t h seesD(4) [OF t] by (simp add: lt sees_def)
    have F: "bframe (set_lh_n 0 (upd_log ?f s0)) (set_lh_n 0 t)"
      unfolding set_lh_n_def by (rule upd_log_frame [OF seesD(1) [OF t]])
    show ?thesis by (rule yields_mono [OF C]) (use F in \<open>auto simp: sees_def intro: bframe_trans\<close>)
  qed
  have 3: "yields (andthen (acquire LogLock t) (\<lambda>_ s. andthen (wakeup (Some LogChan) (upd_log ?g s)) (\<lambda>_ s. release LogLock s)))
      (\<lambda>_ t. sees K me (upd_log ?g u) t ?w)" if t: "sees K me u t ?w" for t u
    by (rule locked_sees [OF t K bl]) (intro wakeup_sees sees_set_log)
  have g: "upd_log ?g (set_lh_n 0 (upd_log ?f s0)) = upd_log (\<lambda>l. l\<lparr>outstanding := 0, committing := False, lh := (lh l)\<lparr>lh_n := 0\<rparr>\<rparr>) s0"
    by (simp add: set_lh_n_def upd_log_def)
  show ?thesis
    unfolding e g [symmetric] by (rule yields_seq [OF 1], rule yields_seq [OF 2], assumption, rule 3)
qed

section \<open>Transactions\<close>

text \<open>
  A transaction in the way the file system runs them: every update reads a block through
  the cache, changes it, logs it and releases it.
\<close>

primrec txn_writes :: "(u32 \<times> (block \<Rightarrow> block)) list \<Rightarrow> 'b lsys_scheme \<Rightarrow> (unit, 'b lsys_scheme) res" where
  "txn_writes [] s = Ret () s"
| "txn_writes (u # us) s =
     andthen (bread ROOTDEV (fst u) s) (\<lambda>b s.
     andthen (log_write b (upd_buf b (\<lambda>r. r\<lparr>b_data := snd u (b_data r)\<rparr>) s)) (\<lambda>_ s.
     andthen (brelse b s) (\<lambda>_ s. txn_writes us s)))"

definition transaction :: "(u32 \<times> (block \<Rightarrow> block)) list \<Rightarrow> 'b lsys_scheme \<Rightarrow> (unit, 'b lsys_scheme) res" where
  "transaction us s = andthen (begin_op s) (\<lambda>_ s. andthen (txn_writes us s) (\<lambda>_ s. end_op s))"

definition updated :: "(u32 \<times> (block \<Rightarrow> block)) list \<Rightarrow> (u32 \<Rightarrow> block) \<Rightarrow> u32 \<Rightarrow> block" where
  "updated us d = foldl (\<lambda>d u. d(fst u := snd u (d (fst u)))) d us"

definition log_room :: "nat \<Rightarrow> klogrec \<Rightarrow> bool" where
  "log_room k l \<longleftrightarrow> log_wf l \<and> outstanding l = 1 \<and> \<not> committing l \<and> length (homes l) + k \<le> MAXOPBLOCKS \<and> int MAXOPBLOCKS < log_size l"

definition log_idle :: "nat \<Rightarrow> 'b lsys_scheme \<Rightarrow> bool" where
  "log_idle me s \<longleftrightarrow> log_wf (logrec s) \<and> lh_n (lh (logrec s)) = 0 \<and> outstanding (logrec s) = 0 \<and> \<not> committing (logrec s)
     \<and> int MAXOPBLOCKS < log_size (logrec s) \<and> disk_n (disk s (log_start (logrec s))) = 0
     \<and> (\<forall>x. refs s x = 0 \<and> \<not> held s x)"

text \<open>A system that starts on the disk \<open>D\<close>.\<close>

definition booted :: "u32 \<Rightarrow> (u32 \<Rightarrow> block) \<Rightarrow> 'b lsys_scheme \<Rightarrow> bool" where
  "booted st D s \<longleftrightarrow> (\<exists>K me. bready K me s) \<and> disk s = D \<and> log_dev (logrec s) = ROOTDEV \<and> log_start (logrec s) = st
     \<and> (\<forall>x. refs s x = 0 \<and> \<not> held s x)"

text \<open>
  Wherever the sequence of writes is cut, and however often recovery is cut and restarted,
  recovery restores the old or the new contents of all blocks outside the log.
\<close>

definition all_or_nothing :: "'b itself \<Rightarrow> u32 \<Rightarrow> (u32 \<times> block) list \<Rightarrow> (u32 \<Rightarrow> block) \<Rightarrow> (u32 \<Rightarrow> block) \<Rightarrow> bool" where
  "all_or_nothing T st ws old new \<longleftrightarrow> (\<forall>k D s :: 'b lsys_scheme. crashed st (applyw (take k ws) old) D \<longrightarrow> booted st D s \<longrightarrow>
     yields (recover_from_log s) (\<lambda>_ t. (\<forall>x. x \<notin> log_area st \<longrightarrow> disk t x = old x) \<or> (\<forall>x. x \<notin> log_area st \<longrightarrow> disk t x = new x)))"

lemma recover_booted:
  fixes s :: "'b lsys_scheme"
  assumes b: "booted st D s" and wf: "disk_log_wf st D"
  shows "yields (recover_from_log s) (\<lambda>_ t. disk t = recovered st D)"
proof -
  obtain K me where rd: "bready K me s" using b by (auto simp: booted_def)
  have B: "disk s = D" "log_dev (logrec s) = ROOTDEV" "st = log_start (logrec s)" "pins [] (view me s)"
    using b by (auto simp: booted_def pins_def view_def)
  show ?thesis
    by (rule yields_mono [OF recover_sees [OF rd B(2,3) _ B(4)]])
      (use B wf in \<open>auto simp: seesD(8) recovered_def view_def\<close>)
qed

lemma commit_all_or_nothing:
  assumes wf: "log_wf l" and z: "disk_n (old (log_start l)) = 0" and cl: "\<And>x. x \<notin> set (homes l) \<Longrightarrow> new x = old x"
  shows "all_or_nothing T (log_start l) (commit_trace l new) old new"
  unfolding all_or_nothing_def
proof (intro allI impI)
  fix k D and s :: "'a lsys_scheme"
  let ?st = "log_start l"
  assume c: "crashed ?st (applyw (take k (commit_trace l new)) old) D" and b: "booted ?st D s"
  note cc = commit_crash [where D = old and c = new and k = k, OF wf z cl refl]
  have "disk_log_wf ?st D \<and> (\<forall>x. x \<notin> log_area ?st \<longrightarrow> recovered ?st D x = recovered ?st (applyw (take k (commit_trace l new)) old) x)"
    using crashed_recovered [OF c] cc by blast
  then show "yields (recover_from_log s) (\<lambda>_ t. (\<forall>x. x \<notin> log_area ?st \<longrightarrow> disk t x = old x)
     \<or> (\<forall>x. x \<notin> log_area ?st \<longrightarrow> disk t x = new x))"
    using cc by (intro yields_mono [OF recover_booted [OF b]]) auto
qed

lemma pins_add:
  assumes "pins (homes l) v" "0 \<le> lh_n (lh l)" "v_refs v' = (v_refs v)(bno := 1)" "v_held v' = v_held v"
  shows "pins (homes (log_add bno l)) v'"
  using assms by (auto simp: pins_def homes_log_add)

lemma txn_write_sees:
  fixes s :: "'b lsys_scheme"
  assumes s: "sees K me s0 s v" and K: "LogLock \<notin> K" and l: "l = logrec s0" and r: "log_room (Suc k) l"
    and pn: "pins (homes l) v" and x: "x \<notin> log_area (log_start l)"
    and w: "w = v\<lparr>v_content := (v_content v)(x := f (v_content v x)), v_refs := (v_refs v)(x := 1)\<rparr>"
    and cont: "\<And>t. sees K me (upd_log (log_add x) s0) t w \<Longrightarrow> yields (cont t) Q"
  shows "yields (andthen (bread ROOTDEV x s) (\<lambda>b s. andthen (log_write b (upd_buf b (\<lambda>r. r\<lparr>b_data := f (b_data r)\<rparr>) s)) (\<lambda>_ s.
     andthen (brelse b s) (\<lambda>_ s. cont s)))) Q"
proof -
  have L: "log_wf l" "length (homes l) < 10" "lh_n (lh l) < log_size l - 1" "1 \<le> outstanding l"
    using r length_homes [of l] by (auto simp: log_room_def log_wf_def MAXOPBLOCKS_def)
  have I: "idle v" by (rule pins_idle [OF pn]) (use L(2) in \<open>simp add: NBUF_def MAXOPBLOCKS_def\<close>)
  note I = idleD [OF I]
  have rx: "v_refs v x = (if x \<in> set (homes l) then 1 else 0)" "\<not> v_held v x" using pn by (simp_all add: pins_def)
  show ?thesis
  proof (rule yields_seq [OF bread_sees [OF s I(1,2)]])
    show "v_refs v x \<noteq> 0 \<or> card (v_pinned v) < NBUF" using I(4) by simp
    fix b t assume t: "sees K me s0 t (v_read x b v)"
    let ?d = "f (v_content v x)"
    let ?v = "v_set x ?d (v_read x b v)"
    let ?p = "if x \<in> set (homes l) then ?v else v_pin x (v_refs ?v x + 1) ?v"
    have "v_handle (v_read x b v) x = Some b" by (simp add: v_read_def)
    then have S: "sees K me s0 (upd_buf b (\<lambda>r. r\<lparr>b_data := f (b_data r)\<rparr>) t) ?v"
      using set_sees [OF t, of x b "\<lambda>r. f (b_data r)"] data_sees(1) [OF t, of x b] by (simp add: v_read_def)
    have hv: "v_handle ?v x = Some b" "v_refs ?v x < 2 ^ 32 - 1" using rx by (auto simp: v_defs)
    have lw: "yields (log_write b (upd_buf b (\<lambda>r. r\<lparr>b_data := f (b_data r)\<rparr>) t)) (\<lambda>_ t. sees K me (upd_log (log_add x) s0) t ?p)"
      using log_write_sees [OF S K hv(1) _ _ _ hv(2)] L l by simp
    have e: "v_release x ?p = w" 
      using rx bcache.unheld [OF s rx(2)] by (intro bview.equality) (auto simp: v_defs w fun_eq_iff)
    show "yields (andthen (log_write b (upd_buf b (\<lambda>r. r\<lparr>b_data := f (b_data r)\<rparr>) t)) (\<lambda>_ s. andthen (brelse b s) (\<lambda>_ s. cont s))) Q"
    proof (rule yields_seq [OF lw])
      fix z t assume t: "sees K me (upd_log (log_add x) s0) t ?p"
      show "yields (andthen (brelse b t) (\<lambda>_ s. cont s)) Q"
      proof (rule yields_seq [OF brelse_sees [OF t, of x]])
        show "v_handle ?p x = Some b" "1 < v_refs ?p x \<or> v_content ?p x = v_disk ?p x"
          using rx by (simp_all add: v_defs)
      qed (use cont e in simp)
    qed
  qed
qed

lemma txn_writes_sees:
  fixes s :: "'b lsys_scheme"
  assumes "sees K me s0 s v" and K: "LogLock \<notin> K" and "log_room (length us) (logrec s0)" and "pins (homes (logrec s0)) v"
    and "\<forall>u\<in>set us. fst u \<notin> log_area (log_start (logrec s0))"
  shows "yields (txn_writes us s) (\<lambda>_ t. \<exists>f w. sees K me (upd_log f s0) t w \<and> log_room 0 (f (logrec s0))
     \<and> log_start (f (logrec s0)) = log_start (logrec s0) \<and> log_size (f (logrec s0)) = log_size (logrec s0)
     \<and> pins (homes (f (logrec s0))) w
     \<and> v_content w = updated us (v_content v) \<and> v_disk w = v_disk v \<and> v_writes w = v_writes v)"
  using assms(1,3,4,5)
proof (induction us arbitrary: s s0 v)
  case Nil
  have "upd_log (\<lambda>l. l) s0 = s0" by (simp add: upd_log_def)
  then show ?case using Nil by (auto simp: updated_def intro!: exI [of _ "\<lambda>l. l"])
next
  case (Cons u us)
  let ?l = "logrec s0" and ?x = "fst u"
  let ?w = "v\<lparr>v_content := (v_content v)(?x := snd u (v_content v ?x)), v_refs := (v_refs v)(?x := 1)\<rparr>"
  have r: "log_room (Suc (length us)) ?l" and wf: "log_wf ?l" and x: "?x \<notin> log_area (log_start ?l)"
    using Cons.prems by (simp_all add: log_room_def)
  have n: "0 \<le> lh_n (lh ?l)" "length (homes ?l) + Suc (length us) \<le> 10" using r by (auto simp: log_room_def log_wf_def MAXOPBLOCKS_def)
  have wf': "log_wf (log_add ?x ?l)"
    using log_wf_add [OF wf _ x] n length_homes [OF n(1)] by (simp add: LOGDATA_def LOGSIZE_def MAXOPBLOCKS_def)
  have r': "log_room (length us) (log_add ?x ?l)"
    using r wf' homes_log_add [OF n(1), of ?x] by (simp add: log_room_def)
  have pn: "pins (homes (log_add ?x ?l)) ?w" by (rule pins_add [OF Cons.prems(3) n(1)]) simp_all
  show ?case
    unfolding txn_writes.simps
  proof (rule txn_write_sees [OF Cons.prems(1) K refl r Cons.prems(3) x refl])
    fix t assume t: "sees K me (upd_log (log_add ?x) s0) t ?w"
    have l: "logrec (upd_log (log_add ?x) s0) = log_add ?x ?l" by (simp add: upd_log_def)
    have c: "upd_log f (upd_log g s0) = upd_log (\<lambda>l. f (g l)) s0" for f g by (simp add: upd_log_def)
    let ?G = "\<lambda>t. \<exists>f w. sees K me (upd_log f s0) t w \<and> log_room 0 (f ?l)
     \<and> log_start (f ?l) = log_start ?l \<and> log_size (f ?l) = log_size ?l \<and> pins (homes (f ?l)) w
     \<and> v_content w = updated (u # us) (v_content v) \<and> v_disk w = v_disk v \<and> v_writes w = v_writes v"
    show "yields (txn_writes us t) (\<lambda>_. ?G)"
    proof (rule yields_mono [OF Cons.IH [OF t]])
      show "log_room (length us) (logrec (upd_log (log_add ?x) s0))" "pins (homes (logrec (upd_log (log_add ?x) s0))) ?w"
        "\<forall>u\<in>set us. fst u \<notin> log_area (log_start (logrec (upd_log (log_add ?x) s0)))"
        using r' pn Cons.prems(4) by (simp_all add: l)
      have e: "updated us (v_content ?w) = updated (u # us) (v_content v)" by (simp add: updated_def)
      show "\<exists>f w. sees K me (upd_log f (upd_log (log_add ?x) s0)) t w \<and> log_room 0 (f (logrec (upd_log (log_add ?x) s0)))
         \<and> log_start (f (logrec (upd_log (log_add ?x) s0))) = log_start (logrec (upd_log (log_add ?x) s0))
         \<and> log_size (f (logrec (upd_log (log_add ?x) s0))) = log_size (logrec (upd_log (log_add ?x) s0))
         \<and> pins (homes (f (logrec (upd_log (log_add ?x) s0)))) w
         \<and> v_content w = updated us (v_content ?w) \<and> v_disk w = v_disk ?w \<and> v_writes w = v_writes ?w \<Longrightarrow> ?G t" for t
        unfolding l c e by (elim exE conjE, rule exI, rule exI, intro conjI, assumption) simp_all
    qed
  qed
qed

lemma applyw_same: "\<forall>w\<in>set ws. fst w = x \<longrightarrow> snd w = d x \<Longrightarrow> applyw ws d x = d x"
  by (induction ws arbitrary: d) auto

lemma commit_trace_content:
  assumes wf: "log_wf l" and x: "x \<notin> log_area (log_start l)"
  shows "applyw (commit_trace l c) c x = c x"
proof (rule applyw_same)
  have "log_at (log_start l) i \<noteq> x" if "i < nat (lh_n (lh l))" for i
    using log_at_area [OF log_wf_homes(1) [OF wf that], of "log_start l"] x by auto
  then show "\<forall>w\<in>set (commit_trace l c). fst w = x \<longrightarrow> snd w = c x"
    using x unfolding commit_trace_def Let_def log_area_def by (fastforce split: if_splits)
qed

lemma commit_trace_header:
  assumes wf: "log_wf l" and z: "disk_n (d (log_start l)) = 0"
  shows "disk_n (applyw (commit_trace l c) d (log_start l)) = 0"
  using z by (simp add: commit_trace_def Let_def hdr_of_fields(3) [OF wf] disk_n_clear)

lemma pins_drop: "pins (homes l) v \<Longrightarrow> pins [] (v_drop True (homes l) (v_app ws v))"
  by (simp add: pins_def)

lemma transaction_spec:
  fixes s :: "'b lsys_scheme"
  assumes rd: "bready K me s" and K: "LogLock \<notin> K" and il: "log_idle me s" and n: "length us \<le> MAXOPBLOCKS"
    and us: "\<forall>u\<in>set us. fst u \<notin> log_area (log_start (logrec s))"
  shows "yields (transaction us s) (\<lambda>_ t. bready K me t \<and> log_idle me t
    \<and> (\<forall>x. x \<notin> log_area (log_start (logrec s)) \<longrightarrow> disk t x = updated us (disk s) x)
    \<and> (\<exists>ws. dwrites t = rev ws @ dwrites s \<and> all_or_nothing T (log_start (logrec s)) ws (disk s) (updated us (disk s))))"
proof -
  let ?l = "logrec s" and ?v = "view me s" and ?st = "log_start (logrec s)"
  let ?f1 = "\<lambda>l. l\<lparr>outstanding := outstanding l + 1\<rparr>"
  have L: "log_wf ?l" "lh_n (lh ?l) = 0" "outstanding ?l = 0" "\<not> committing ?l" "int MAXOPBLOCKS < log_size ?l"
    "disk_n (disk s ?st) = 0" "pins [] ?v" "homes ?l = []"
    using il by (simp_all add: log_idle_def pins_def view_def homes_def)
  have cl: "content s = disk s"
    using content_clean [OF breadyD(5) [OF rd]] il by (auto simp: log_idle_def fun_eq_iff)
  have 1: "yields (begin_op s) (\<lambda>_ t. sees K me (upd_log ?f1 s) t ?v)"
    using begin_op_sees [OF sees_start [OF rd] K] L by (simp add: LOGSIZE_def MAXOPBLOCKS_def)
  have l1: "logrec (upd_log ?f1 s) = ?f1 ?l" "homes (?f1 ?l) = []" "log_room (length us) (?f1 ?l)" "log_start (?f1 ?l) = ?st"
    using L n by (auto simp: upd_log_def homes_def log_room_def log_wf_def)
  have 2: "yields (txn_writes us t) (\<lambda>_ t. \<exists>l w. sees K me (upd_log (\<lambda>_. l) s) t w \<and> log_room 0 l \<and> log_start l = ?st
     \<and> log_size l = log_size ?l \<and> pins (homes l) w \<and> v_content w = updated us (disk s) \<and> v_disk w = disk s \<and> v_writes w = dwrites s)"
    if t: "sees K me (upd_log ?f1 s) t ?v" for t
  proof (rule yields_mono [OF txn_writes_sees [OF t K, unfolded l1(1)]])
    show "log_room (length us) (?f1 ?l)" "pins (homes (?f1 ?l)) ?v" "\<forall>u\<in>set us. fst u \<notin> log_area (log_start (?f1 ?l))"
      using l1 L us by simp_all
    fix a u assume "\<exists>f w. sees K me (upd_log f (upd_log ?f1 s)) u w \<and> log_room 0 (f (?f1 ?l)) \<and> log_start (f (?f1 ?l)) = log_start (?f1 ?l)
       \<and> log_size (f (?f1 ?l)) = log_size (?f1 ?l) \<and> pins (homes (f (?f1 ?l))) w \<and> v_content w = updated us (v_content ?v)
       \<and> v_disk w = v_disk ?v \<and> v_writes w = v_writes ?v"
    then obtain f w where F: "sees K me (upd_log f (upd_log ?f1 s)) u w" "log_room 0 (f (?f1 ?l))" "log_start (f (?f1 ?l)) = ?st"
       "log_size (f (?f1 ?l)) = log_size ?l" "pins (homes (f (?f1 ?l))) w" "v_content w = updated us (disk s)"
       "v_disk w = disk s" "v_writes w = dwrites s"
      by (auto simp: view_def cl)
    have "upd_log f (upd_log ?f1 s) = upd_log (\<lambda>_. f (?f1 ?l)) s" by (simp add: upd_log_def)
    then show "\<exists>l w. sees K me (upd_log (\<lambda>_. l) s) u w \<and> log_room 0 l \<and> log_start l = ?st
     \<and> log_size l = log_size ?l \<and> pins (homes l) w \<and> v_content w = updated us (disk s) \<and> v_disk w = disk s \<and> v_writes w = dwrites s"
      using F by metis
  qed
  have 3: "yields (end_op t) (\<lambda>_ t. bready K me t \<and> log_idle me t
    \<and> (\<forall>x. x \<notin> log_area ?st \<longrightarrow> disk t x = updated us (disk s) x)
    \<and> (\<exists>ws. dwrites t = rev ws @ dwrites s \<and> all_or_nothing T ?st ws (disk s) (updated us (disk s))))"
    if t: "sees K me (upd_log (\<lambda>_. l) s) t w" "log_room 0 l" "log_start l = ?st" "log_size l = log_size ?l"
      "pins (homes l) w" "v_content w = updated us (disk s)" "v_disk w = disk s" "v_writes w = dwrites s" for t l w
  proof -
    let ?new = "updated us (disk s)"
    have l: "log_wf l" "\<not> committing l" "outstanding l = 1" "int MAXOPBLOCKS < log_size l" using t(2) by (auto simp: log_room_def)
    have nr: "?new x = disk s x" if "x \<notin> set (homes l)" for x
      using content_clean [OF seesD(3) [OF t(1)], of x] t(5,6,7) that seesD(4,5,8) [OF t(1)] by (simp add: pins_def)
    have an: "all_or_nothing T ?st (commit_trace l ?new) (disk s) ?new"
      using commit_all_or_nothing [where new = ?new and old = "disk s" and l = l and T = T] l(1) L(6) nr t(3) by simp
    show ?thesis
    proof (rule yields_mono [OF end_op_sees [OF t(1) K _ l(1) t(5) l(2,3)]])
      show "l = logrec (upd_log (\<lambda>_. l) s)" by (simp add: upd_log_def)
      let ?g = "\<lambda>l. l\<lparr>outstanding := 0, committing := False, lh := (lh l)\<lparr>lh_n := 0\<rparr>\<rparr>"
      fix a u assume u: "sees K me (upd_log ?g (upd_log (\<lambda>_. l) s)) u (v_drop True (homes l) (v_app (commit_trace l (v_content w)) w))"
      have lu: "logrec u = ?g l" using sees_logrec [OF u] by (simp add: upd_log_def)
      have ru: "refs u x = 0 \<and> \<not> held u x" for x
        using pins_drop [OF t(5), of "commit_trace l (v_content w)"] seesD(5,6) [OF u] by (simp add: pins_def)
      have du: "disk u = applyw (commit_trace l ?new) (disk s)" "content u = applyw (commit_trace l ?new) ?new"
        "dwrites u = rev (commit_trace l ?new) @ dwrites s" using seesD(4,8,9) [OF u] t(6,7,8) by simp_all
      have "content u = disk u" using content_clean [OF seesD(3) [OF u]] ru by (auto simp: fun_eq_iff)
      then have "disk u x = ?new x" if "x \<notin> log_area ?st" for x
        using commit_trace_content [OF l(1), of x ?new] that t(3) du(2) by simp
      moreover have "log_wf (?g l)" using l(1) by (simp add: log_wf_def homes_def)
      then have "log_idle me u"
        using ru l(4) commit_trace_header [OF l(1), of "disk s" ?new] L(6) t(3) by (simp add: log_idle_def lu du(1))
      ultimately show "bready K me u \<and> log_idle me u \<and> (\<forall>x. x \<notin> log_area ?st \<longrightarrow> disk u x = ?new x)
         \<and> (\<exists>ws. dwrites u = rev ws @ dwrites s \<and> all_or_nothing T ?st ws (disk s) ?new)"
        using seesD(2) [OF u] du(3) an by blast
    qed
  qed
  show ?thesis
    unfolding transaction_def
    by (rule yields_seq [OF 1], rule yields_seq [OF 2], assumption, elim exE conjE, rule 3)
qed

lemma binit_logrec: "logrec (binit s) = logrec s"
proof -
  have "logrec (binit_from bs s) = logrec s" for bs and s :: "'a lsys_scheme"
    by (induction bs arbitrary: s)
      (simp_all add: initsleeplock_def upd_slock_def initlock_def link_front_def upd_buf_def Let_def)
  then show ?thesis by (simp add: binit_def upd_buf_def initlock_def)
qed

lemma start_idle: "log_idle 0 (binit start_sys)"
  using start_cache
  by (auto simp: log_idle_def binit_logrec start_log_def log_wf_def homes_def disk_n_def get32_def get16_def
      MAXOPBLOCKS_def ROOTDEV_def)



end
