(* ===== verification/Mkfs.thy ===== *)
theory Mkfs
  imports Log_Laws
begin

text \<open>
  The program \<^verbatim>\<open>mkfs/mkfs.c\<close> that builds the initial file system image on the host: the disk layout, sectors and disk
  inodes, appending to files, the root directory and the bitmap. The host is little-endian. The image is a function from
  sector numbers to blocks; a failed assertion is \<open>None\<close>.
\<close>

section \<open>Layout\<close>

definition NINODES :: nat where "NINODES = 200"

definition FSSIZE :: nat where "FSSIZE = 2000"

definition nbitmap :: nat where "nbitmap = FSSIZE div (BSIZE * 8) + 1"

definition ninodeblocks :: nat where "ninodeblocks = NINODES div IPB + 1"

definition nlog :: nat where "nlog = LOGSIZE"

definition nmeta :: nat where "nmeta = 2 + nlog + ninodeblocks + nbitmap"

definition nblocks :: nat where "nblocks = FSSIZE - nmeta"

text \<open>The bytes in the order of the disk, read as a number by a little-endian host.\<close>

definition xshort :: "u16 \<Rightarrow> u16" where
  "xshort x = get16 ((\<lambda>i. 0)(0 := ucast x, 1 := ucast (drop_bit 8 x))) 0"

definition xint :: "u32 \<Rightarrow> u32" where
  "xint x = get32 ((\<lambda>i. 0)(0 := ucast x, 1 := ucast (drop_bit 8 x), 2 := ucast (drop_bit 16 x), 3 := ucast (drop_bit 24 x))) 0"

definition mkfs_sb :: superblock where
  "mkfs_sb = \<lparr>sb_magic = FSMAGIC, sb_size = xint (of_nat FSSIZE), sb_nblocks = xint (of_nat nblocks),
     sb_ninodes = xint (of_nat NINODES), sb_nlog = xint (of_nat nlog), sb_logstart = xint 2,
     sb_inodestart = xint (of_nat (2 + nlog)), sb_bmapstart = xint (of_nat (2 + nlog + ninodeblocks))\<rparr>"

definition put_sb :: "superblock \<Rightarrow> block \<Rightarrow> block" where
  "put_sb v d = put32 28 (sb_bmapstart v) (put32 24 (sb_inodestart v) (put32 20 (sb_logstart v) (put32 16 (sb_nlog v)
     (put32 12 (sb_ninodes v) (put32 8 (sb_nblocks v) (put32 4 (sb_size v) (put32 0 (sb_magic v) d)))))))"

section \<open>Sectors and inodes\<close>

record mkst =
  m_img :: "u32 \<Rightarrow> block"
  m_freeinode :: u32
  m_freeblock :: u32

definition zero_block :: block where "zero_block = (\<lambda>i. 0)"

definition wsect :: "u32 \<Rightarrow> block \<Rightarrow> mkst \<Rightarrow> mkst" where
  "wsect sec buf st = st\<lparr>m_img := (m_img st)(sec := buf)\<rparr>"

definition rsect :: "u32 \<Rightarrow> mkst \<Rightarrow> block" where
  "rsect sec st = m_img st sec"

text \<open>A disk inode is the part of the kernel's inode that is on disk; the other fields are zero.\<close>

definition winode :: "u32 \<Rightarrow> inode \<Rightarrow> mkst \<Rightarrow> mkst" where
  "winode inum ip st =
     (let bn = IBLOCK inum mkfs_sb; buf = rsect bn st
      in wsect bn (put_dinode (dinode_off inum) ip buf) st)"

definition rinode :: "u32 \<Rightarrow> mkst \<Rightarrow> inode" where
  "rinode inum st = get_dinode (dinode_off inum) (rsect (IBLOCK inum mkfs_sb) st) zero_inode"

definition mk_ialloc :: "u16 \<Rightarrow> mkst \<Rightarrow> u32 \<times> mkst" where
  "mk_ialloc ty st =
     (let inum = m_freeinode st; st = st\<lparr>m_freeinode := inum + 1\<rparr>;
          din = zero_inode\<lparr>i_type := xshort ty, i_nlink := xshort 1, i_size := xint 0\<rparr>
      in (inum, winode inum din st))"

text \<open>A failed assertion is \<open>None\<close>.\<close>

definition mk_balloc :: "nat \<Rightarrow> mkst \<Rightarrow> mkst option" where
  "mk_balloc used st =
     (if used < BSIZE * 8
      then Some (wsect (sb_bmapstart mkfs_sb)
                  (fold (\<lambda>i buf. buf(i div 8 := buf (i div 8) OR push_bit (i mod 8) 1)) [0..<used] zero_block) st)
      else None)"

section \<open>File contents\<close>

text \<open>The block of the image for block \<open>fbn\<close> of a file, allocated if there is none yet.\<close>

definition file_block :: "nat \<Rightarrow> inode \<Rightarrow> mkst \<Rightarrow> u32 \<times> inode \<times> mkst" where
  "file_block fbn din st =
     (if fbn < NDIRECT then
        let (din, st) = (if xint (i_addrs din fbn) = 0
                         then (din\<lparr>i_addrs := (i_addrs din)(fbn := xint (m_freeblock st))\<rparr>, st\<lparr>m_freeblock := m_freeblock st + 1\<rparr>)
                         else (din, st))
        in (xint (i_addrs din fbn), din, st)
      else
        let (din, st) = (if xint (i_addrs din NDIRECT) = 0
                         then (din\<lparr>i_addrs := (i_addrs din)(NDIRECT := xint (m_freeblock st))\<rparr>, st\<lparr>m_freeblock := m_freeblock st + 1\<rparr>)
                         else (din, st));
            ib = xint (i_addrs din NDIRECT); indirect = rsect ib st; k = fbn - NDIRECT;
            (indirect, st) = (if get32 indirect (4 * k) = 0
                              then let indirect = put32 (4 * k) (xint (m_freeblock st)) indirect
                                   in (indirect, wsect ib indirect (st\<lparr>m_freeblock := m_freeblock st + 1\<rparr>))
                              else (indirect, st))
        in (xint (get32 indirect (4 * k)), din, st))"

text \<open>
  The loop of \<open>iappend\<close>. The file \<open>fs.img\<close> has \<open>FSSIZE\<close> sectors, and reading a sector behind them ends the program; an
  indirect block behind them is always followed by a data block behind them, so that one test covers both reads.
\<close>

function iappend_from :: "inode \<Rightarrow> nat \<Rightarrow> byte list \<Rightarrow> mkst \<Rightarrow> (inode \<times> nat \<times> mkst) option" where
  "iappend_from din off p st =
     (if p = [] then Some (din, off, st)
      else let fbn = off div BSIZE
           in if MAXFILE \<le> fbn then None
              else let (x, din, st) = file_block fbn din st; n1 = min (length p) ((fbn + 1) * BSIZE - off)
                   in if FSSIZE \<le> unat x then None
                      else let st = wsect x (put_list (off - fbn * BSIZE) (take n1 p) (rsect x st)) st
                           in iappend_from din (off + n1) (drop n1 p) st)"
  by pat_completeness auto
termination
proof (relation "measure (\<lambda>(din, off, p, st). length p)", goal_cases)
  case (2 din off p st fbn t x u din' st' n1 st'')
  have "off < (off div BSIZE + 1) * BSIZE" using div_mult_mod_eq [of off BSIZE] mod_less_divisor [of BSIZE off]
    by (simp add: BSIZE_def)
  then show ?case using 2 by auto
qed simp

declare iappend_from.simps [simp del]

definition iappend :: "u32 \<Rightarrow> byte list \<Rightarrow> mkst \<Rightarrow> mkst option" where
  "iappend inum p st =
     (let din = rinode inum st; off = unat (xint (i_size din))
      in case iappend_from din off p st of
           None \<Rightarrow> None
         | Some (din, off, st) \<Rightarrow> Some (winode inum (din\<lparr>i_size := xint (of_nat off)\<rparr>) st))"

section \<open>The image\<close>

text \<open>A directory entry of mkfs: the name is cut to \<open>DIRSIZ\<close> bytes and padded with zeros.\<close>

definition mk_dirent :: "u32 \<Rightarrow> byte list \<Rightarrow> byte list" where
  "mk_dirent inum name = (let v = xshort (ucast inum) in [ucast v, ucast (drop_bit 8 v)]) @
     take DIRSIZ (name @ replicate DIRSIZ 0)"

text \<open>The name of a file in the root directory: \<open>user/\<close> and a leading underscore are dropped.\<close>

definition shortname :: "string \<Rightarrow> string option" where
  "shortname argv =
     (let s = (if take 5 argv = ''user/'' then drop 5 argv else argv)
      in if CHR ''/'' \<in> set s then None
         else Some (if s \<noteq> [] \<and> hd s = CHR ''_'' then tl s else s))"

definition bytes_of :: "string \<Rightarrow> byte list" where
  "bytes_of s = map (\<lambda>c. of_char c) s"

text \<open>The loop over the buffers that \<open>read\<close> returns for one file.\<close>

primrec append_bufs :: "u32 \<Rightarrow> byte list list \<Rightarrow> mkst \<Rightarrow> mkst option" where
  "append_bufs inum [] st = Some st"
| "append_bufs inum (b # bs) st = (case iappend inum b st of None \<Rightarrow> None | Some st \<Rightarrow> append_bufs inum bs st)"

primrec add_files :: "(string \<times> byte list list) list \<Rightarrow> mkst \<Rightarrow> mkst option" where
  "add_files [] st = Some st"
| "add_files (f # fs) st =
     (case shortname (fst f) of
        None \<Rightarrow> None
      | Some name \<Rightarrow>
          (let (inum, st) = mk_ialloc T_FILE st
           in case iappend ROOTINO (mk_dirent inum (bytes_of name)) st of
                None \<Rightarrow> None
              | Some st \<Rightarrow> (case append_bufs inum (snd f) st of None \<Rightarrow> None | Some st \<Rightarrow> add_files fs st)))"

definition fix_root :: "mkst \<Rightarrow> mkst" where
  "fix_root st =
     (let din = rinode ROOTINO st; off = xint (i_size din); off = (off div of_nat BSIZE + 1) * of_nat BSIZE
      in winode ROOTINO (din\<lparr>i_size := xint off\<rparr>) st)"

definition mkfs_main :: "(string \<times> byte list list) list \<Rightarrow> mkst option" where
  "mkfs_main argv =
     (let st = \<lparr>m_img = (\<lambda>sec. zero_block), m_freeinode = 1, m_freeblock = of_nat nmeta\<rparr>;
          st = wsect 1 (put_sb mkfs_sb zero_block) st;
          (rootino, st) = mk_ialloc T_DIR st
      in if rootino \<noteq> ROOTINO then None
         else case iappend rootino (mk_dirent rootino (bytes_of ''.'')) st of
           None \<Rightarrow> None
         | Some st \<Rightarrow> (case iappend rootino (mk_dirent rootino (bytes_of ''..'')) st of
             None \<Rightarrow> None
           | Some st \<Rightarrow> (case add_files argv st of
               None \<Rightarrow> None
             | Some st \<Rightarrow> let st = fix_root st in mk_balloc (unat (m_freeblock st)) st)))"

end
