(* ===== verification/Mkfs_Blocks.thy ===== *)
theory Mkfs_Blocks
  imports Mkfs
begin

text \<open>
  The blocks of the files in an image: disk inodes are read back as written, and \<open>file_block\<close> finds or makes the block of
  a file without touching the addresses or the data of any other.
\<close>

section \<open>Fields of the image\<close>

lemma xshort_id [simp]: "xshort x = x"
proof (rule bit_word_eqI)
  fix n assume "n < LENGTH(16)"
  then show "bit (xshort x) n = bit x n" by (cases "n < 8") (auto simp: xshort_def get16_def bit_simps)
qed

lemma xint_id [simp]: "xint x = x"
proof (rule bit_word_eqI)
  fix n assume n: "n < LENGTH(32)"
  consider "n < 8" | "8 \<le> n" "n < 16" | "16 \<le> n" "n < 24" | "24 \<le> n" by linarith
  then show "bit (xint x) n = bit x n"
    by cases (use n in \<open>auto simp: xint_def get32_def get16_def bit_simps\<close>)
qed

lemma get16_put32_other: "j + 1 < i \<or> i + 3 < j \<Longrightarrow> get16 (put32 i v d) j = get16 d j"
  by (auto simp: put32_def get16_put16_other)

lemma get32_put16_other: "j + 3 < i \<or> i + 1 < j \<Longrightarrow> get32 (put16 i v d) j = get32 d j"
  by (auto simp: get32_def get16_put16_other)

lemma get32_put_addrs:
  "distinct ks \<Longrightarrow> get32 (put_addrs i a ks d) (i + 12 + 4 * k) = (if k \<in> set ks then a k else get32 d (i + 12 + 4 * k))"
proof (induction ks arbitrary: d)
  case (Cons q ks)
  have "get32 (put32 (i + 12 + 4 * q) (a q) d) (i + 12 + 4 * k) = (if k = q then a q else get32 d (i + 12 + 4 * k))"
    by (cases "k = q") (auto simp: get32_put32_same intro!: get32_put32_other)
  then show ?case using Cons by auto
qed simp

lemma get16_put_addrs: "j + 1 < i + 12 \<Longrightarrow> get16 (put_addrs i a ks d) j = get16 d j"
  by (induction ks arbitrary: d) (auto simp: get16_put32_other)

lemma get32_put_addrs_low: "j + 3 < i + 12 \<Longrightarrow> get32 (put_addrs i a ks d) j = get32 d j"
  by (induction ks arbitrary: d) (auto simp: get32_put32_other)

text \<open>A disk inode is read back as it was written.\<close>

lemma get_put_dinode:
  "get_dinode i (put_dinode i r d) q = q\<lparr>i_type := i_type r, i_major := i_major r, i_minor := i_minor r,
     i_nlink := i_nlink r, i_size := i_size r, i_addrs := (\<lambda>k. if k < NDIRECT + 1 then i_addrs r k else i_addrs q k)\<rparr>"
proof -
  have "get32 (put_dinode i r d) (i + 12 + 4 * k) = i_addrs r k" if "k < NDIRECT + 1" for k
    using that by (auto simp: put_dinode_def get32_put_addrs)
  moreover have "get16 (put_dinode i r d) i = i_type r" "get16 (put_dinode i r d) (i + 2) = i_major r"
    "get16 (put_dinode i r d) (i + 4) = i_minor r" "get16 (put_dinode i r d) (i + 6) = i_nlink r"
    "get32 (put_dinode i r d) (i + 8) = i_size r"
    by (simp_all add: put_dinode_def get16_put_addrs get32_put_addrs_low get16_put32_other get16_put16_same
      get16_put16_other get32_put32_same)
  ultimately show ?thesis by (simp add: get_dinode_def cong: if_cong)
qed

text \<open>Writing one inode leaves the others of its block.\<close>

lemma put_dinode_frame:
  assumes "j < i \<or> i + DINODE_SIZE \<le> j"
  shows "put_dinode i r d j = d j"
proof -
  have "put_addrs i a ks d j = d j" if "\<forall>k\<in>set ks. k \<le> NDIRECT" for a ks d
    using that assms
  proof (induction ks arbitrary: d)
    case (Cons q ks)
    then have "put32 (i + 12 + 4 * q) (a q) d j = d j"
      by (auto simp: put32_def put16_def DINODE_SIZE_def NDIRECT_def)
    then show ?case using Cons by auto
  qed simp
  then show ?thesis using assms by (auto simp: put_dinode_def put32_def put16_def DINODE_SIZE_def)
qed

lemma get_dinode_cong:
  assumes "\<And>j. i \<le> j \<Longrightarrow> j < i + DINODE_SIZE \<Longrightarrow> d j = d' j"
  shows "get_dinode i d q = get_dinode i d' q"
  using assms by (auto simp: get_dinode_def get32_def get16_def DINODE_SIZE_def NDIRECT_def fun_eq_iff)

lemma get_dinode_other:
  assumes "i + DINODE_SIZE \<le> j \<or> j + DINODE_SIZE \<le> i"
  shows "get_dinode j (put_dinode i r d) q = get_dinode j d q"
  using assms by (intro get_dinode_cong put_dinode_frame) auto

section \<open>Where an inode lives\<close>

definition ino_ok :: "u32 \<Rightarrow> bool" where
  "ino_ok i \<longleftrightarrow> unat i < NINODES"

lemma layout: "LOGSIZE = 30" "IPB = 16" "NDIRECT = 12" "NINDIRECT = 256" "MAXFILE = 268" "nmeta = 46" "ninodeblocks = 13" "nbitmap = 1"
  "BSIZE = 1024" "DINODE_SIZE = 64" "BPB = 8192" "FSSIZE = 2000"
  by (simp_all add: LOGSIZE_def MAXOPBLOCKS_def IPB_def NDIRECT_def NINDIRECT_def MAXFILE_def nmeta_def nlog_def ninodeblocks_def nbitmap_def
    BSIZE_def DINODE_SIZE_def FSSIZE_def NINODES_def BPB_def)

lemma mkfs_sb_fields: "sb_inodestart mkfs_sb = 32" "sb_bmapstart mkfs_sb = 45" "sb_logstart mkfs_sb = 2" "sb_size mkfs_sb = 2000"
  by (simp_all add: mkfs_sb_def nlog_def layout FSSIZE_def)

lemma unat_IBLOCK: "unat i < NINODES \<Longrightarrow> unat (IBLOCK i mkfs_sb) = 32 + unat i div 16"
  by (simp add: IBLOCK_def mkfs_sb_fields layout NINODES_def unat_div unat_word_ariths)

lemma IBLOCK_less: "ino_ok i \<Longrightarrow> unat (IBLOCK i mkfs_sb) < 45 \<and> 32 \<le> unat (IBLOCK i mkfs_sb)"
  by (auto simp: unat_IBLOCK ino_ok_def NINODES_def)

lemma rinode_winode:
  assumes "ino_ok i" "ino_ok j"
  shows "rinode j (winode i r st) =
    (if j = i then zero_inode\<lparr>i_type := i_type r, i_major := i_major r, i_minor := i_minor r, i_nlink := i_nlink r,
        i_size := i_size r, i_addrs := (\<lambda>k. if k < NDIRECT + 1 then i_addrs r k else 0)\<rparr>
     else rinode j st)"
proof (cases "j = i")
  case True
  then show ?thesis by (simp add: rinode_def winode_def rsect_def wsect_def Let_def get_put_dinode zero_inode_def cong: if_cong)
next
  case False
  show ?thesis
  proof (cases "IBLOCK j mkfs_sb = IBLOCK i mkfs_sb")
    case True
    then have "unat j div 16 = unat i div 16" using unat_IBLOCK assms by (metis ino_ok_def add_left_cancel)
    then have "unat j mod 16 \<noteq> unat i mod 16" using False div_mult_mod_eq [of "unat i" 16] div_mult_mod_eq [of "unat j" 16]
      unsigned_word_eqI [of i j] by auto
    then have "dinode_off i + DINODE_SIZE \<le> dinode_off j \<or> dinode_off j + DINODE_SIZE \<le> dinode_off i"
      by (auto simp: dinode_off_def layout)
    then show ?thesis using True False get_dinode_other by (simp add: rinode_def winode_def rsect_def wsect_def Let_def)
  qed (use False in \<open>simp add: rinode_def winode_def rsect_def wsect_def Let_def\<close>)
qed

lemma winode_other: "b \<noteq> IBLOCK i mkfs_sb \<Longrightarrow> m_img (winode i r st) b = m_img st b"
  by (simp add: winode_def wsect_def Let_def)

section \<open>The blocks of a file\<close>

definition addr_of :: "(u32 \<Rightarrow> block) \<Rightarrow> inode \<Rightarrow> nat \<Rightarrow> u32" where
  "addr_of img din f = (if f < NDIRECT then i_addrs din f
     else if i_addrs din NDIRECT = 0 then 0 else get32 (img (i_addrs din NDIRECT)) (4 * (f - NDIRECT)))"

definition file_bytes :: "(u32 \<Rightarrow> block) \<Rightarrow> inode \<Rightarrow> nat \<Rightarrow> byte list" where
  "file_bytes img din n = map (\<lambda>k. img (addr_of img din (k div BSIZE)) (k mod BSIZE)) [0..<n]"

definition owned :: "(u32 \<Rightarrow> block) \<Rightarrow> inode \<Rightarrow> u32 set" where
  "owned img din = ({i_addrs din NDIRECT} \<union> addr_of img din ` {..<MAXFILE}) - {0}"

text \<open>
  Every block has one use, the used blocks are below the next free one and above the
  metadata, and the blocks from there on are still zero.
\<close>

definition inode_ok :: "(u32 \<Rightarrow> block) \<Rightarrow> nat \<Rightarrow> inode \<Rightarrow> bool" where
  "inode_ok img n din \<longleftrightarrow>
     (\<forall>f<MAXFILE. \<forall>g<MAXFILE. addr_of img din f = addr_of img din g \<longrightarrow> addr_of img din f \<noteq> 0 \<longrightarrow> f = g) \<and>
     (\<forall>f<MAXFILE. addr_of img din f \<noteq> 0 \<longrightarrow> addr_of img din f \<noteq> i_addrs din NDIRECT) \<and>
     (\<forall>b\<in>owned img din. nmeta \<le> unat b \<and> unat b < n)"

definition fresh :: "(u32 \<Rightarrow> block) \<Rightarrow> nat \<Rightarrow> bool" where
  "fresh img n \<longleftrightarrow> (\<forall>b. n \<le> unat b \<longrightarrow> img b = zero_block)"

lemma addr_of_direct: "f < NDIRECT \<Longrightarrow> addr_of img din f = i_addrs din f"
  by (simp add: addr_of_def)

lemma get32_zero [simp]: "get32 zero_block i = 0"
  by (simp add: get32_def get16_def zero_block_def)

text \<open>Blocks that are not the indirect block do not matter for the addresses.\<close>

lemma addr_of_cong:
  "img (i_addrs din NDIRECT) = img' (i_addrs din NDIRECT) \<Longrightarrow> addr_of img din f = addr_of img' din f"
  by (simp add: addr_of_def)

lemma inode_ok_cong:
  assumes "inode_ok img n din" "img (i_addrs din NDIRECT) = img' (i_addrs din NDIRECT)" "n \<le> n'"
  shows "inode_ok img' n' din" "owned img' din = owned img din"
proof -
  have "addr_of img' din = addr_of img din" using addr_of_cong [of img din img'] assms(2) by (intro ext) simp
  then show "owned img' din = owned img din" "inode_ok img' n' din"
    using assms(1,3) by (auto simp: inode_ok_def owned_def intro: less_le_trans)
qed

lemma owned_bounds: "inode_ok img n din \<Longrightarrow> b \<in> owned img din \<Longrightarrow> nmeta \<le> unat b \<and> unat b < n"
  by (simp add: inode_ok_def)

lemma addr_owned: "g < MAXFILE \<Longrightarrow> addr_of img din g \<noteq> 0 \<Longrightarrow> addr_of img din g \<in> owned img din"
  by (simp add: owned_def)

lemma ind_owned: "i_addrs din NDIRECT \<noteq> 0 \<Longrightarrow> i_addrs din NDIRECT \<in> owned img din"
  by (simp add: owned_def)

text \<open>What \<open>file_block\<close> does: it finds or makes the block, and changes no other address and no data.\<close>

definition block_step :: "nat \<Rightarrow> inode \<Rightarrow> mkst \<Rightarrow> u32 \<Rightarrow> inode \<Rightarrow> mkst \<Rightarrow> bool" where
  "block_step f din st x din' st' \<longleftrightarrow>
     x = addr_of (m_img st') din' f \<and> x \<noteq> 0 \<and> (addr_of (m_img st) din f \<noteq> 0 \<longrightarrow> x = addr_of (m_img st) din f) \<and>
     (\<forall>g<MAXFILE. g \<noteq> f \<longrightarrow> addr_of (m_img st') din' g = addr_of (m_img st) din g) \<and>
     inode_ok (m_img st') (unat (m_freeblock st')) din' \<and> fresh (m_img st') (unat (m_freeblock st')) \<and>
     unat (m_freeblock st) \<le> unat (m_freeblock st') \<and> unat (m_freeblock st') \<le> unat (m_freeblock st) + 2 \<and>
     owned (m_img st') din' \<subseteq> owned (m_img st) din \<union> {b. unat (m_freeblock st) \<le> unat b} \<and>
     (\<forall>b. b \<noteq> i_addrs din' NDIRECT \<longrightarrow> m_img st' b = m_img st b) \<and>
     (i_addrs din NDIRECT \<noteq> 0 \<longrightarrow> i_addrs din' NDIRECT = i_addrs din NDIRECT) \<and>
     (i_addrs din NDIRECT = 0 \<longrightarrow> i_addrs din' NDIRECT = 0 \<or> unat (m_freeblock st) \<le> unat (i_addrs din' NDIRECT)) \<and>
     m_freeinode st' = m_freeinode st \<and> din' = din\<lparr>i_addrs := i_addrs din'\<rparr> \<and> (\<forall>k>NDIRECT. i_addrs din' k = i_addrs din k)"

text \<open>Giving a fresh block to file block \<open>f\<close>.\<close>

lemma give_block:
  assumes ok: "inode_ok img n din" and f: "f < MAXFILE" "addr_of img din f = 0" and x: "unat x = n" "nmeta \<le> n"
    and a: "\<And>g. g < MAXFILE \<Longrightarrow> addr_of img' din' g = (if g = f then x else addr_of img din g)"
    and ind: "i_addrs din' NDIRECT = i_addrs din NDIRECT"
  shows "inode_ok img' (Suc n) din'" "owned img' din' \<subseteq> owned img din \<union> {x}"
proof -
  note old = owned_bounds [OF ok]
  have x': "x \<noteq> 0" "x \<notin> owned img din" using x old by (auto simp: layout)
  show o: "owned img' din' \<subseteq> owned img din \<union> {x}" using a ind by (auto simp: owned_def)
  note mem = addr_owned [of _ img din] and memi = ind_owned [of din img]
  show "inode_ok img' (Suc n) din'"
    unfolding inode_ok_def
  proof (intro conjI allI impI ballI, goal_cases)
    case (1 g h)
    then show ?case using a x' mem ok unfolding inode_ok_def by (auto split: if_splits)
  next
    case (2 g)
    then show ?case using a x' memi ind ok unfolding inode_ok_def by (auto split: if_splits)
  next
    case (3 b)
    then show ?case using o old x by auto
  next
    case (4 b)
    then show ?case using o old x by (auto simp: less_Suc_eq)
  qed
qed

definition mk_ready :: "nat \<Rightarrow> inode \<Rightarrow> mkst \<Rightarrow> bool" where
  "mk_ready spare din st \<longleftrightarrow> inode_ok (m_img st) (unat (m_freeblock st)) din \<and> fresh (m_img st) (unat (m_freeblock st)) \<and>
     nmeta \<le> unat (m_freeblock st) \<and> unat (m_freeblock st) + spare \<le> FSSIZE"

lemma unat_freeblock_Suc: "unat x + spare \<le> FSSIZE \<Longrightarrow> 0 < spare \<Longrightarrow> unat (x + 1 :: u32) = Suc (unat x)"
  by (simp add: unat_word_ariths FSSIZE_def)

lemma fresh_Suc: "fresh img n \<Longrightarrow> n \<le> n' \<Longrightarrow> fresh img n'"
  by (auto simp: fresh_def)

lemma inode_ok_Suc: "inode_ok img n din \<Longrightarrow> n \<le> n' \<Longrightarrow> inode_ok img n' din"
  by (rule inode_ok_cong) auto

text \<open>A direct block.\<close>

lemma direct_step:
  assumes r: "mk_ready 2 din st" and f: "f < NDIRECT"
  shows "\<exists>x din' st'. file_block f din st = (x, din', st') \<and> block_step f din st x din' st'"
proof (cases "i_addrs din f = 0")
  case False
  then have "file_block f din st = (i_addrs din f, din, st)" using f by (simp add: file_block_def)
  moreover have "block_step f din st (i_addrs din f) din st"
    using r f False by (auto simp: block_step_def mk_ready_def addr_of_direct)
  ultimately show ?thesis by blast
next
  case True
  let ?x = "m_freeblock st" and ?n = "unat (m_freeblock st)"
  let ?din = "din\<lparr>i_addrs := (i_addrs din)(f := ?x)\<rparr>" and ?st = "st\<lparr>m_freeblock := ?x + 1\<rparr>"
  have fb: "file_block f din st = (?x, ?din, ?st)" using f True by (simp add: file_block_def)
  have n: "unat (?x + 1) = Suc ?n" using r unat_freeblock_Suc [of ?x 2] by (simp add: mk_ready_def)
  have a: "addr_of (m_img ?st) ?din g = (if g = f then ?x else addr_of (m_img st) din g)" for g
    using f by (simp add: addr_of_def)
  have m: "f < MAXFILE" using f by (simp add: layout)
  have x0: "?x \<noteq> 0" using r by (auto simp: mk_ready_def layout)
  have "inode_ok (m_img ?st) (Suc ?n) ?din" "owned (m_img ?st) ?din \<subseteq> owned (m_img st) din \<union> {?x}"
    using give_block [of "m_img st" ?n din f ?x "m_img ?st" ?din] r a m f True by (auto simp: mk_ready_def addr_of_direct)
  then have "block_step f din st ?x ?din ?st"
    using r a n x0 f m True by (auto simp: block_step_def mk_ready_def addr_of_direct intro: fresh_Suc)
  then show ?thesis using fb by blast
qed

text \<open>The indirect block is made when the first block behind the direct ones is needed.\<close>

definition with_indirect :: "inode \<Rightarrow> mkst \<Rightarrow> inode \<times> mkst" where
  "with_indirect din st = (if i_addrs din NDIRECT = 0
     then (din\<lparr>i_addrs := (i_addrs din)(NDIRECT := m_freeblock st)\<rparr>, st\<lparr>m_freeblock := m_freeblock st + 1\<rparr>)
     else (din, st))"

lemma with_indirect_ok:
  assumes r: "mk_ready (Suc k) din st" and w: "with_indirect din st = (din', st')"
  shows "mk_ready k din' st'" "i_addrs din' NDIRECT \<noteq> 0" "m_img st' = m_img st" "addr_of (m_img st) din' = addr_of (m_img st) din"
    "unat (m_freeblock st) \<le> unat (m_freeblock st')" "unat (m_freeblock st') \<le> Suc (unat (m_freeblock st))"
    "owned (m_img st) din' \<subseteq> owned (m_img st) din \<union> {b. unat (m_freeblock st) \<le> unat b}"
    "i_addrs din NDIRECT \<noteq> 0 \<Longrightarrow> i_addrs din' NDIRECT = i_addrs din NDIRECT"
    "i_addrs din NDIRECT = 0 \<Longrightarrow> unat (m_freeblock st) \<le> unat (i_addrs din' NDIRECT)"
    "m_freeinode st' = m_freeinode st" "din' = din\<lparr>i_addrs := i_addrs din'\<rparr>" "\<forall>k>NDIRECT. i_addrs din' k = i_addrs din k"
proof -
  let ?n = "unat (m_freeblock st)"
  show img: "m_img st' = m_img st" and "m_freeinode st' = m_freeinode st" "din' = din\<lparr>i_addrs := i_addrs din'\<rparr>"
    and "\<forall>k>NDIRECT. i_addrs din' k = i_addrs din k"
    and "i_addrs din NDIRECT \<noteq> 0 \<Longrightarrow> i_addrs din' NDIRECT = i_addrs din NDIRECT"
    and ge: "i_addrs din NDIRECT = 0 \<Longrightarrow> ?n \<le> unat (i_addrs din' NDIRECT)"
    using w by (auto simp: with_indirect_def split: if_splits)
  have n: "unat (m_freeblock st + 1) = Suc ?n" using r unat_freeblock_Suc [of "m_freeblock st" "Suc k"] by (simp add: mk_ready_def)
  have f0: "m_freeblock st \<noteq> 0" "m_img st (m_freeblock st) = zero_block" using r by (auto simp: mk_ready_def layout fresh_def)
  show nz: "i_addrs din' NDIRECT \<noteq> 0" using w f0 by (auto simp: with_indirect_def split: if_splits)
  show a: "addr_of (m_img st) din' = addr_of (m_img st) din"
    by (rule ext) (use w f0 in \<open>auto simp: with_indirect_def addr_of_def split: if_splits\<close>)
  show "?n \<le> unat (m_freeblock st')" "unat (m_freeblock st') \<le> Suc ?n"
    using w n by (auto simp: with_indirect_def split: if_splits)
  show o: "owned (m_img st) din' \<subseteq> owned (m_img st) din \<union> {b. ?n \<le> unat b}"
    using w unfolding owned_def a by (auto simp: with_indirect_def split: if_splits)
  have "inode_ok (m_img st) (Suc ?n) din'" if "i_addrs din NDIRECT = 0"
  proof -
    have i: "i_addrs din' NDIRECT = m_freeblock st" using w that by (auto simp: with_indirect_def split: if_splits)
    have "unat (addr_of (m_img st) din g) < ?n" if "g < MAXFILE" "addr_of (m_img st) din g \<noteq> 0" for g
      using r owned_bounds [OF _ addr_owned [OF that]] by (simp add: mk_ready_def)
    then have "addr_of (m_img st) din g \<noteq> m_freeblock st" if "g < MAXFILE" "addr_of (m_img st) din g \<noteq> 0" for g
      using that by fastforce
    moreover have "owned (m_img st) din' \<subseteq> owned (m_img st) din \<union> {m_freeblock st}"
      unfolding owned_def a i by auto
    ultimately show ?thesis
      using r unfolding mk_ready_def inode_ok_def a i by (auto simp: less_Suc_eq)
  qed
  then show "mk_ready k din' st'"
    using r w n by (auto simp: mk_ready_def with_indirect_def intro: fresh_Suc split: if_splits)
qed


text \<open>An entry of the indirect block.\<close>

lemma entry_step:
  assumes r: "mk_ready (Suc 0) din st" and f: "NDIRECT \<le> f" "f < MAXFILE" and i: "i_addrs din NDIRECT \<noteq> 0"
    and z: "addr_of (m_img st) din f = 0"
  defines "x \<equiv> m_freeblock st" and "ib \<equiv> i_addrs din NDIRECT"
  defines "st' \<equiv> wsect ib (put32 (4 * (f - NDIRECT)) x (m_img st ib)) (st\<lparr>m_freeblock := x + 1\<rparr>)"
  shows "block_step f din st x din st'"
proof -
  let ?n = "unat (m_freeblock st)"
  have n: "unat (x + 1) = Suc ?n" using r unat_freeblock_Suc [of x "Suc 0"] by (simp add: mk_ready_def x_def)
  have img: "m_img st' = (m_img st)(ib := put32 (4 * (f - NDIRECT)) x (m_img st ib))" by (simp add: st'_def wsect_def)
  have a: "addr_of (m_img st') din g = (if g = f then x else addr_of (m_img st) din g)" for g
  proof (cases "g = f")
    case True
    then show ?thesis using f i unfolding img ib_def by (simp add: addr_of_def get32_put32_same)
  next
    case False
    then have "NDIRECT \<le> g \<Longrightarrow> get32 (put32 (4 * (f - NDIRECT)) x (m_img st ib)) (4 * (g - NDIRECT)) = get32 (m_img st ib) (4 * (g - NDIRECT))"
      using f by (intro get32_put32_other) arith
    then show ?thesis using False i unfolding img ib_def by (auto simp: addr_of_def)
  qed
  have x0: "x \<noteq> 0" using r by (auto simp: mk_ready_def layout x_def)
  have g: "inode_ok (m_img st') (Suc ?n) din" "owned (m_img st') din \<subseteq> owned (m_img st) din \<union> {x}"
    using give_block [of "m_img st" ?n din f x "m_img st'" din] r a f(2) z by (auto simp: mk_ready_def x_def)
  have "unat ib < ?n" using r owned_bounds [of "m_img st" ?n din ib] ind_owned [OF i] by (simp add: mk_ready_def ib_def)
  then have "fresh (m_img st') (Suc ?n)" using r unfolding img by (auto simp: mk_ready_def fresh_def)
  then show ?thesis
    using g a n x0 z i by (auto simp: block_step_def st'_def wsect_def x_def [symmetric] ib_def [symmetric])
qed

lemma block_step_indirect:
  assumes w: "with_indirect din st = (din1, st1)" and r: "mk_ready 2 din st" and s: "block_step f din1 st1 x din' st'"
    and fb: "unat (m_freeblock st') \<le> Suc (unat (m_freeblock st1))"
  shows "block_step f din st x din' st'"
proof -
  have r': "mk_ready (Suc 1) din st" using r by (simp add: numeral_2_eq_2)
  note w' = with_indirect_ok [OF r' w]
  have nz: "i_addrs din' NDIRECT = i_addrs din1 NDIRECT" using s w'(2) by (auto simp: block_step_def)
  have o: "owned (m_img st') din' \<subseteq> owned (m_img st) din \<union> {b. unat (m_freeblock st) \<le> unat b}"
    using s w'(3,5,7) by (fastforce simp: block_step_def)
  have d: "din' = din\<lparr>i_addrs := i_addrs din'\<rparr>" "\<forall>k>NDIRECT. i_addrs din' k = i_addrs din k"
    using s w'(11,12) unfolding block_step_def by (metis inode.surjective inode.update_convs(10), simp)
  show ?thesis
    using s w'(3,4,5,6,8,9,10) nz o d fb unfolding block_step_def by auto
qed

lemma file_block_indirect:
  assumes "NDIRECT \<le> f" "with_indirect din st = (din1, st1)" "i_addrs din1 NDIRECT \<noteq> 0"
  shows "file_block f din st =
    (if addr_of (m_img st1) din1 f = 0
     then (m_freeblock st1, din1, wsect (i_addrs din1 NDIRECT)
             (put32 (4 * (f - NDIRECT)) (m_freeblock st1) (m_img st1 (i_addrs din1 NDIRECT))) (st1\<lparr>m_freeblock := m_freeblock st1 + 1\<rparr>))
     else (addr_of (m_img st1) din1 f, din1, st1))"
proof -
  have "addr_of (m_img st1) din1 f = get32 (m_img st1 (i_addrs din1 NDIRECT)) (4 * (f - NDIRECT))"
    using assms(1,3) by (simp add: addr_of_def)
  then show ?thesis
    using assms(1) unfolding file_block_def xint_id with_indirect_def [symmetric] assms(2)
    by (simp add: rsect_def get32_put32_same Let_def)
qed

lemma indirect_step:
  assumes r: "mk_ready 2 din st" and f: "NDIRECT \<le> f" "f < MAXFILE"
  shows "\<exists>x din' st'. file_block f din st = (x, din', st') \<and> block_step f din st x din' st'"
proof -
  obtain din1 st1 where w: "with_indirect din st = (din1, st1)" by (metis surj_pair)
  have r': "mk_ready (Suc 1) din st" using r by (simp add: numeral_2_eq_2)
  note w' = with_indirect_ok [OF r' w]
  let ?x = "m_freeblock st1" and ?ib = "i_addrs din1 NDIRECT"
  let ?st = "wsect ?ib (put32 (4 * (f - NDIRECT)) ?x (m_img st1 ?ib)) (st1\<lparr>m_freeblock := ?x + 1\<rparr>)"
  have fb: "file_block f din st =
      (if addr_of (m_img st1) din1 f = 0 then (?x, din1, ?st) else (addr_of (m_img st1) din1 f, din1, st1))"
    by (rule file_block_indirect [OF f(1) w w'(2)])
  show ?thesis
  proof (cases "addr_of (m_img st1) din1 f = 0")
    case True
    have r1: "mk_ready (Suc 0) din1 st1" using w'(1) by simp
    have "unat (m_freeblock ?st) \<le> Suc (unat ?x)"
      using unat_freeblock_Suc [of ?x "Suc 0"] r1 by (simp add: mk_ready_def wsect_def)
    then have "block_step f din st ?x din1 ?st"
      using block_step_indirect [OF w r] entry_step [OF r1 f w'(2) True] by blast
    then show ?thesis using fb True by auto
  next
    case False
    have "block_step f din1 st1 (addr_of (m_img st1) din1 f) din1 st1"
      using w'(1) False by (auto simp: block_step_def mk_ready_def)
    then have "block_step f din st (addr_of (m_img st1) din1 f) din1 st1"
      using block_step_indirect [OF w r] by simp
    then show ?thesis using fb False by auto
  qed
qed

end
