(* ===== verification/Mkfs_Append.thy ===== *)
theory Mkfs_Append
  imports Mkfs_Blocks
begin

text \<open>
  \<open>iappend\<close> of \<^verbatim>\<open>mkfs/mkfs.c\<close>: one turn of its loop puts bytes into a block the file owns alone, the loop
  appends all of them, and the other files of the image keep their contents.
\<close>

section \<open>One turn of the loop\<close>

lemma block_step_ok:
  assumes "mk_ready 2 din st" "f < MAXFILE"
  obtains x din' st' where "file_block f din st = (x, din', st')" "block_step f din st x din' st'"
  using direct_step [OF assms(1), of f] indirect_step [OF assms(1), of f] assms(2) by (cases "f < NDIRECT") auto

definition extends :: "inode \<Rightarrow> mkst \<Rightarrow> inode \<Rightarrow> mkst \<Rightarrow> bool" where
  "extends din st din' st' \<longleftrightarrow> unat (m_freeblock st) \<le> unat (m_freeblock st') \<and>
     owned (m_img st') din' \<subseteq> owned (m_img st) din \<union> {b. unat (m_freeblock st) \<le> unat b} \<and>
     (\<forall>b. b \<noteq> 0 \<longrightarrow> unat b < unat (m_freeblock st) \<longrightarrow> b \<notin> owned (m_img st) din \<longrightarrow> m_img st' b = m_img st b) \<and>
     m_freeinode st' = m_freeinode st \<and> din' = din\<lparr>i_addrs := i_addrs din'\<rparr> \<and> (\<forall>k>NDIRECT. i_addrs din' k = i_addrs din k)"

lemma extends_refl: "extends din st din st"
  by (simp add: extends_def)

lemma extends_trans:
  assumes "extends din st din1 st1" "extends din1 st1 din2 st2"
  shows "extends din st din2 st2"
proof -
  have "m_img st2 b = m_img st b" if "b \<noteq> 0" "unat b < unat (m_freeblock st)" "b \<notin> owned (m_img st) din" for b
  proof -
    have "b \<notin> owned (m_img st1) din1" "unat b < unat (m_freeblock st1)" using assms(1) that by (auto simp: extends_def)
    then show ?thesis using assms that by (simp add: extends_def)
  qed
  moreover have "owned (m_img st2) din2 \<subseteq> owned (m_img st) din \<union> {b. unat (m_freeblock st) \<le> unat b}"
    using assms unfolding extends_def by fastforce
  moreover have "din2 = din\<lparr>i_addrs := i_addrs din2\<rparr>"
    using assms unfolding extends_def by (metis inode.surjective inode.update_convs(10))
  ultimately show ?thesis using assms unfolding extends_def by auto
qed

definition allocated :: "(u32 \<Rightarrow> block) \<Rightarrow> inode \<Rightarrow> nat \<Rightarrow> bool" where
  "allocated img din off \<longleftrightarrow> (\<forall>f. f * BSIZE < off \<longrightarrow> addr_of img din f \<noteq> 0)"

lemma BSIZE_pos: "0 < BSIZE"
  by (simp add: BSIZE_def)

lemma block_bounds: "off div BSIZE * BSIZE \<le> off" "off < BSIZE + off div BSIZE * BSIZE"
  using div_mult_mod_eq [of off BSIZE] mod_less_divisor [OF BSIZE_pos, of off] by linarith+

lemma file_bytes_cong:
  "(\<And>k. k < n \<Longrightarrow> img (addr_of img din (k div BSIZE)) (k mod BSIZE) = img' (addr_of img' din' (k div BSIZE)) (k mod BSIZE)) \<Longrightarrow>
   file_bytes img din n = file_bytes img' din' n"
  by (simp add: file_bytes_def)

text \<open>One turn of the loop of \<open>iappend\<close>: a block is found and the bytes that fit are put into it.\<close>

definition put_bytes :: "nat \<Rightarrow> u32 \<Rightarrow> byte list \<Rightarrow> mkst \<Rightarrow> mkst" where
  "put_bytes k x q st = wsect x (put_list k q (m_img st x)) st"

lemma put_bytes_sel [simp]:
  "m_freeblock (put_bytes k x q st) = m_freeblock st" "m_freeinode (put_bytes k x q st) = m_freeinode st"
  "m_img (put_bytes k x q st) = (m_img st)(x := put_list k q (m_img st x))"
  by (simp_all add: put_bytes_def wsect_def)

lemma block_stepD:
  assumes "block_step f din st x din' st'"
  shows "x = addr_of (m_img st') din' f" "x \<noteq> 0" "addr_of (m_img st) din f \<noteq> 0 \<Longrightarrow> x = addr_of (m_img st) din f"
    "\<And>g. g < MAXFILE \<Longrightarrow> g \<noteq> f \<Longrightarrow> addr_of (m_img st') din' g = addr_of (m_img st) din g"
    "inode_ok (m_img st') (unat (m_freeblock st')) din'" "fresh (m_img st') (unat (m_freeblock st'))"
    "unat (m_freeblock st) \<le> unat (m_freeblock st')" "unat (m_freeblock st') \<le> unat (m_freeblock st) + 2"
    "owned (m_img st') din' \<subseteq> owned (m_img st) din \<union> {b. unat (m_freeblock st) \<le> unat b}"
    "\<And>b. b \<noteq> i_addrs din' NDIRECT \<Longrightarrow> m_img st' b = m_img st b"
    "m_freeinode st' = m_freeinode st" "din' = din\<lparr>i_addrs := i_addrs din'\<rparr>" "\<forall>k>NDIRECT. i_addrs din' k = i_addrs din k"
  using assms unfolding block_step_def by blast+

lemma block_step_owns:
  assumes "block_step f din st x din' st'" "f < MAXFILE"
  shows "x \<in> owned (m_img st') din'" "x \<noteq> i_addrs din' NDIRECT"
  using addr_owned [OF assms(2), of "m_img st'" din'] block_stepD(1,2,5) [OF assms(1)] assms(2) by (auto simp: inode_ok_def)

lemma put_bytes_addr:
  "x \<noteq> i_addrs din NDIRECT \<Longrightarrow> addr_of (m_img (put_bytes k x q st)) din = addr_of (m_img st) din"
  by (rule ext) (simp add: addr_of_def)

lemma put_bytes_ready:
  assumes s: "block_step f din st x din1 st1" and f: "f < MAXFILE"
  shows "inode_ok (m_img (put_bytes k x q st1)) (unat (m_freeblock st1)) din1"
    "fresh (m_img (put_bytes k x q st1)) (unat (m_freeblock st1))"
proof -
  note x = block_step_owns [OF s f] and d = block_stepD [OF s]
  show "inode_ok (m_img (put_bytes k x q st1)) (unat (m_freeblock st1)) din1"
    using d(5) unfolding inode_ok_def owned_def put_bytes_addr [OF x(2)] .
  show "fresh (m_img (put_bytes k x q st1)) (unat (m_freeblock st1))"
    using d(6) owned_bounds [OF d(5) x(1)] by (auto simp: fresh_def)
qed

lemma put_bytes_extends:
  assumes s: "block_step f din st x din1 st1" and f: "f < MAXFILE"
  shows "extends din st din1 (put_bytes k x q st1)"
proof -
  note x = block_step_owns [OF s f] and d = block_stepD [OF s]
  have "m_img (put_bytes k x q st1) b = m_img st b"
    if b: "b \<noteq> 0" "unat b < unat (m_freeblock st)" "b \<notin> owned (m_img st) din" for b
  proof -
    have "b \<notin> owned (m_img st1) din1" using d(9) b by auto
    then have "b \<noteq> x" "b \<noteq> i_addrs din1 NDIRECT" using x(1) ind_owned [of din1 "m_img st1"] b(1) by auto
    then show ?thesis using d(10) by simp
  qed
  moreover have "owned (m_img (put_bytes k x q st1)) din1 = owned (m_img st1) din1"
    unfolding owned_def put_bytes_addr [OF x(2)] ..
  ultimately show ?thesis using d(7,9,11,12,13) unfolding extends_def by simp
qed

lemma put_bytes_allocated:
  assumes s: "block_step (off div BSIZE) din st x din1 st1" and f: "off div BSIZE < MAXFILE" and al: "allocated (m_img st) din off"
    and n: "off + n \<le> (off div BSIZE + 1) * BSIZE"
  shows "allocated (m_img (put_bytes k x q st1)) din1 (off + n)"
  unfolding allocated_def put_bytes_addr [OF block_step_owns(2) [OF s f]]
proof (intro allI impI)
  fix g assume "g * BSIZE < off + n"
  then have "g * BSIZE < (off div BSIZE + 1) * BSIZE" using n by (rule less_le_trans)
  then have "g < off div BSIZE + 1" by (simp only: mult_less_cancel2)
  then have g: "g \<le> off div BSIZE" by simp
  show "addr_of (m_img st1) din1 g \<noteq> 0"
  proof (cases "g = off div BSIZE")
    case False
    then have "Suc g * BSIZE \<le> off div BSIZE * BSIZE" using g by (intro mult_le_mono1) simp
    then have "g * BSIZE < off" using div_times_less_eq_dividend [of off BSIZE] BSIZE_pos unfolding mult_Suc by linarith
    then show ?thesis using block_stepD(4) [OF s, of g] al False g f by (auto simp: allocated_def)
  qed (use block_stepD(1,2) [OF s] in simp)
qed

lemma put_bytes_old:
  assumes s: "block_step (off div BSIZE) din st x din1 st1" and f: "off div BSIZE < MAXFILE" and al: "allocated (m_img st) din off" and k: "k < off"
  fixes q
  defines "img \<equiv> m_img (put_bytes (off - off div BSIZE * BSIZE) x q st1)"
  shows "img (addr_of img din1 (k div BSIZE)) (k mod BSIZE) = m_img st (addr_of (m_img st) din (k div BSIZE)) (k mod BSIZE)"
proof -
  let ?g = "k div BSIZE" and ?f = "off div BSIZE"
  note x = block_step_owns [OF s f] and d = block_stepD [OF s]
  note a = put_bytes_addr [OF x(2), of "off - ?f * BSIZE" q st1, folded img_def]
  have "?g * BSIZE < off" using k div_times_less_eq_dividend [of k BSIZE] by linarith
  then have g0: "addr_of (m_img st) din ?g \<noteq> 0" using al by (auto simp: allocated_def)
  have gf: "?g \<le> ?f" using k by (simp add: div_le_mono)
  show ?thesis
  proof (cases "?g = ?f")
    case True
    have "?g * BSIZE + k mod BSIZE < off" using k div_mult_mod_eq [of k BSIZE] by simp
    then have "k mod BSIZE < off - ?f * BSIZE" using True by simp
    moreover have "x = addr_of (m_img st) din ?f" using d(3) g0 True by simp
    moreover have "img x (k mod BSIZE) = m_img st x (k mod BSIZE)"
      using calculation(1) d(10) [OF x(2)] by (simp add: img_def put_list_def)
    ultimately show ?thesis using True d(1) a by simp
  next
    case False
    then have e: "addr_of (m_img st1) din1 ?g = addr_of (m_img st) din ?g" "?g < MAXFILE" using d(4) gf f by auto
    then have "addr_of (m_img st1) din1 ?g \<noteq> x" "addr_of (m_img st1) din1 ?g \<noteq> i_addrs din1 NDIRECT"
      using d(1,5) f g0 False unfolding inode_ok_def by metis+
    then have "img (addr_of (m_img st1) din1 ?g) = m_img st (addr_of (m_img st1) din1 ?g)" using d(10) by (simp add: img_def)
    then show ?thesis using e(1) a by simp
  qed
qed

lemma put_list_in: "k < length q \<Longrightarrow> put_list j q d (j + k) = q ! k"
  by (simp add: put_list_def)

lemma put_bytes_file:
  assumes s: "block_step (off div BSIZE) din st x din1 st1" and f: "off div BSIZE < MAXFILE" and al: "allocated (m_img st) din off"
    and n: "off + length q \<le> (off div BSIZE + 1) * BSIZE"
  shows "file_bytes (m_img (put_bytes (off - off div BSIZE * BSIZE) x q st1)) din1 (off + length q) = file_bytes (m_img st) din off @ q"
proof -
  let ?f = "off div BSIZE" and ?img = "m_img (put_bytes (off - off div BSIZE * BSIZE) x q st1)"
  note x = block_step_owns [OF s f] and d = block_stepD [OF s]
  have "?img (addr_of ?img din1 ((off + k) div BSIZE)) ((off + k) mod BSIZE) = q ! k" if k: "k < length q" for k
  proof -
    have "?f * BSIZE \<le> off + k" "off + k < Suc ?f * BSIZE"
      using n k block_bounds [of off] unfolding mult_Suc add_mult_distrib by linarith+
    then have e: "(off + k) div BSIZE = ?f" by (intro div_nat_eqI) (auto simp: mult.commute)
    then have "(off + k) mod BSIZE = off - ?f * BSIZE + k"
      using div_mult_mod_eq [of "off + k" BSIZE] div_times_less_eq_dividend [of off BSIZE] by simp
    moreover have "?img x (off - ?f * BSIZE + k) = q ! k" by (simp only: put_bytes_sel fun_upd_same put_list_in [OF k])
    ultimately show ?thesis using e d(1) unfolding put_bytes_addr [OF x(2)] by simp
  qed
  then have "?img (addr_of ?img din1 (k div BSIZE)) (k mod BSIZE) = q ! (k - off)" if "\<not> k < off" "k < off + length q" for k
    using that(2) le_add_diff_inverse [of off k] that(1) by (metis less_diff_conv2 add.commute not_less)
  then show ?thesis
    unfolding file_bytes_def using put_bytes_old [OF s f al]
    by (intro nth_equalityI) (auto simp: nth_append simp del: put_bytes_sel)
qed

text \<open>The blocks one call of \<open>iappend\<close> takes at most: two for each turn of its loop.\<close>

definition append_cost :: "nat \<Rightarrow> nat \<Rightarrow> nat" where
  "append_cost off n = (if n = 0 then 0 else 2 * ((off + n - 1) div BSIZE - off div BSIZE + 1))"

lemma append_cost_small: "n \<le> BSIZE \<Longrightarrow> append_cost off n \<le> 4"
proof -
  assume "n \<le> BSIZE"
  then have "(off + n - 1) div BSIZE \<le> (off + BSIZE) div BSIZE" by (intro div_le_mono) simp
  also have "\<dots> = off div BSIZE + 1" using BSIZE_pos div_add_self2 [of BSIZE off] by linarith
  finally have "(off + n - 1) div BSIZE - off div BSIZE \<le> 1" by linarith
  then have "2 * ((off + n - 1) div BSIZE - off div BSIZE + 1) \<le> 2 * (1 + 1)" by (intro mult_le_mono2 add_le_mono1)
  then show ?thesis by (simp add: append_cost_def)
qed

lemma append_cost_step:
  assumes "0 < n" and n1: "n1 = min n ((off div BSIZE + 1) * BSIZE - off)"
  shows "append_cost off n = 2 + append_cost (off + n1) (n - n1)" "0 < n1"
proof -
  let ?f = "off div BSIZE"
  have o: "?f * BSIZE \<le> off" "off < (?f + 1) * BSIZE"
    using block_bounds [of off] by simp_all
  then show "0 < n1" using assms by simp
  show "append_cost off n = 2 + append_cost (off + n1) (n - n1)"
  proof (cases "n1 = n")
    case True
    then have "off + n \<le> (?f + 1) * BSIZE" using n1 o(2) by simp
    then have "(off + n - 1) div BSIZE = ?f" using o assms(1) by (intro div_nat_eqI) (unfold mult_Suc mult.commute [of BSIZE] add_mult_distrib, linarith+)
    then show ?thesis using True assms(1) by (simp add: append_cost_def)
  next
    case False
    then have e: "off + n1 = (?f + 1) * BSIZE" and l: "n1 < n" using n1 o(2) by auto
    have "(?f + 1) * BSIZE \<le> off + n - 1" using e l by simp
    then have "?f + 1 \<le> (off + n - 1) div BSIZE" using BSIZE_pos by (simp only: less_eq_div_iff_mult_less_eq)
    moreover have "(off + n1) div BSIZE = ?f + 1" using BSIZE_pos unfolding e by simp
    moreover have "off + n1 + (n - n1) - 1 = off + n - 1" using l by simp
    ultimately show ?thesis using l by (simp add: append_cost_def)
  qed
qed

lemma iappend_from_ok:
  assumes "mk_ready (append_cost off (length p) + spare) din st" "allocated (m_img st) din off" "off + length p \<le> MAXFILE * BSIZE"
  shows "\<exists>din' st'. iappend_from din off p st = Some (din', off + length p, st') \<and> mk_ready spare din' st' \<and> extends din st din' st' \<and>
    allocated (m_img st') din' (off + length p) \<and> file_bytes (m_img st') din' (off + length p) = file_bytes (m_img st) din off @ p"
  using assms
proof (induction "length p" arbitrary: din off p st rule: less_induct)
  case less
  show ?case
  proof (cases "p = []")
    case True
    then show ?thesis using less.prems by (simp add: iappend_from.simps extends_refl append_cost_def)
  next
    case False
    define n1 where "n1 = min (length p) ((off div BSIZE + 1) * BSIZE - off)"
    let ?f = "off div BSIZE" and ?q = "take n1 p"
    have c: "append_cost off (length p) = 2 + append_cost (off + n1) (length p - n1)" "0 < n1" "n1 \<le> length p"
      using append_cost_step [of "length p" n1 off] False n1_def by auto
    have "off < MAXFILE * BSIZE" using less.prems(3) False by (cases p) auto
    then have f: "?f < MAXFILE" by (simp add: less_mult_imp_div_less)
    have lq: "length ?q = n1" using c(3) by simp
    have n: "off + length ?q \<le> (?f + 1) * BSIZE"
      using block_bounds [of off] by (simp add: n1_def)
    obtain x din1 st1 where fb: "file_block ?f din st = (x, din1, st1)" and s: "block_step ?f din st x din1 st1"
      using block_step_ok [of din st ?f] less.prems(1) f c(1) by (auto simp: mk_ready_def)
    let ?st = "put_bytes (off - ?f * BSIZE) x ?q st1"
    have r: "mk_ready (append_cost (off + n1) (length (drop n1 p)) + spare) din1 ?st"
      using put_bytes_ready [OF s f] block_stepD(7,8) [OF s] less.prems(1) c by (simp add: mk_ready_def del: put_bytes_sel(3))
    have al: "allocated (m_img ?st) din1 (off + n1)" using put_bytes_allocated [OF s f less.prems(2) n] by (simp only: lq)
    obtain din' st' where rec: "iappend_from din1 (off + n1) (drop n1 p) ?st = Some (din', off + n1 + length (drop n1 p), st')"
        "mk_ready spare din' st'" "extends din1 ?st din' st'" "allocated (m_img st') din' (off + n1 + length (drop n1 p))"
        "file_bytes (m_img st') din' (off + n1 + length (drop n1 p)) = file_bytes (m_img ?st) din1 (off + n1) @ drop n1 p"
      using less.hyps [OF _ r al] c less.prems(3) False by auto
    have e: "off + n1 + length (drop n1 p) = off + length p" using c(3) by simp
    have "unat x < FSSIZE"
      using owned_bounds [OF block_stepD(5) [OF s] block_step_owns(1) [OF s f]] r by (simp add: mk_ready_def del: put_bytes_sel(3))
    then have "iappend_from din off p st = iappend_from din1 (off + n1) (drop n1 p) ?st"
      using False f fb by (subst iappend_from.simps) (simp add: Let_def n1_def put_bytes_def rsect_def)
    moreover have "file_bytes (m_img st') din' (off + length p) = file_bytes (m_img st) din off @ p"
      using rec(5) put_bytes_file [OF s f less.prems(2) n] unfolding lq e by simp
    moreover have "iappend_from din1 (off + n1) (drop n1 p) ?st = Some (din', off + length p, st')" "allocated (m_img st') din' (off + length p)"
      using rec(1,4) unfolding e .
    ultimately show ?thesis
      using rec(2) extends_trans [OF put_bytes_extends [OF s f] rec(3)] by (intro exI [of _ din'] exI [of _ st']) simp
  qed
qed

section \<open>The image\<close>

definition file_size :: "u32 \<Rightarrow> mkst \<Rightarrow> nat" where
  "file_size i st = unat (i_size (rinode i st))"

definition file_of :: "u32 \<Rightarrow> mkst \<Rightarrow> byte list" where
  "file_of i st = file_bytes (m_img st) (rinode i st) (file_size i st)"

definition blocks_of :: "u32 \<Rightarrow> mkst \<Rightarrow> u32 set" where
  "blocks_of i st = owned (m_img st) (rinode i st)"

definition image_ok :: "nat \<Rightarrow> mkst \<Rightarrow> bool" where
  "image_ok spare st \<longleftrightarrow> (\<forall>i. ino_ok i \<longrightarrow> mk_ready spare (rinode i st) st \<and> file_size i st \<le> MAXFILE * BSIZE \<and>
       allocated (m_img st) (rinode i st) (file_size i st)) \<and>
     (\<forall>i j. ino_ok i \<longrightarrow> ino_ok j \<longrightarrow> i \<noteq> j \<longrightarrow> blocks_of i st \<inter> blocks_of j st = {})"

lemma image_okD:
  assumes "image_ok spare st" "ino_ok i"
  shows "mk_ready spare (rinode i st) st" "file_size i st \<le> MAXFILE * BSIZE" "allocated (m_img st) (rinode i st) (file_size i st)"
    "ino_ok j \<Longrightarrow> i \<noteq> j \<Longrightarrow> blocks_of i st \<inter> blocks_of j st = {}"
  using assms unfolding image_ok_def by blast+

lemma kept_blocks:
  assumes "\<And>b. b \<in> owned img din \<Longrightarrow> img' b = img b"
  shows "addr_of img' din = addr_of img din" "owned img' din = owned img din" "inode_ok img n din \<Longrightarrow> n \<le> m \<Longrightarrow> inode_ok img' m din"
    "allocated img din k \<Longrightarrow> allocated img' din k"
    "allocated img din k \<Longrightarrow> k \<le> MAXFILE * BSIZE \<Longrightarrow> file_bytes img' din k = file_bytes img din k"
proof -
  show a: "addr_of img' din = addr_of img din"
    by (rule ext) (use assms [of "i_addrs din NDIRECT"] in \<open>auto simp: addr_of_def owned_def\<close>)
  then show "owned img' din = owned img din" "allocated img din k \<Longrightarrow> allocated img' din k" by (simp_all add: owned_def allocated_def)
  then show "inode_ok img n din \<Longrightarrow> n \<le> m \<Longrightarrow> inode_ok img' m din" using a unfolding inode_ok_def by (auto intro: less_le_trans)
  assume al: "allocated img din k" and k: "k \<le> MAXFILE * BSIZE"
  have "img' (addr_of img din (j div BSIZE)) = img (addr_of img din (j div BSIZE))" if "j < k" for j
  proof (rule assms, rule addr_owned)
    show "j div BSIZE < MAXFILE" using that k by (intro less_mult_imp_div_less) simp
    show "addr_of img din (j div BSIZE) \<noteq> 0" using al le_less_trans [OF block_bounds(1) [of j] that] by (simp add: allocated_def)
  qed
  then show "file_bytes img' din k = file_bytes img din k" unfolding file_bytes_def a by simp
qed

lemma rinode_zero: "i_dev (rinode i st) = 0" "i_inum (rinode i st) = 0" "i_ref (rinode i st) = 0" "i_valid (rinode i st) = False"
  "\<forall>k>NDIRECT. i_addrs (rinode i st) k = 0"
  by (simp_all add: rinode_def get_dinode_def zero_inode_def)

lemma IBLOCK_nonzero: "ino_ok i \<Longrightarrow> IBLOCK i mkfs_sb \<noteq> 0"
  using IBLOCK_less [of i] by auto

text \<open>The inode that \<open>iappend\<close> writes back is the one it made.\<close>

lemma rinode_written:
  assumes "ino_ok i" "din = (rinode i st)\<lparr>i_addrs := a\<rparr>" "\<forall>k>NDIRECT. a k = i_addrs (rinode i st) k"
  shows "rinode i (winode i (din\<lparr>i_size := z\<rparr>) st') = din\<lparr>i_size := z\<rparr>"
proof -
  have "(\<lambda>k. if k < NDIRECT + 1 then a k else 0) = a" using assms(3) rinode_zero(5) [of i st] by (auto simp: fun_eq_iff)
  then show ?thesis
    using assms(1,2) by (intro inode.equality) (simp_all add: rinode_winode rinode_zero(1-4) cong: if_cong, simp_all add: zero_inode_def)
qed

text \<open>Neither the blocks of other files nor the inodes are touched before the inode is written back.\<close>

lemma rinode_cong: "m_img st' (IBLOCK i mkfs_sb) = m_img st (IBLOCK i mkfs_sb) \<Longrightarrow> rinode i st' = rinode i st"
  by (simp add: rinode_def rsect_def)

lemma extends_kept:
  assumes "mk_ready n (rinode i st) st" "extends (rinode i st) st din' st'" "b \<noteq> 0" "unat b < unat (m_freeblock st)" "b \<notin> blocks_of i st"
  shows "m_img st' b = m_img st b"
  using assms unfolding extends_def blocks_of_def by blast

lemma metadata_not_owned: "mk_ready n din st \<Longrightarrow> unat b < nmeta \<Longrightarrow> b \<notin> owned (m_img st) din"
  unfolding mk_ready_def using owned_bounds(1) by fastforce

lemma extends_metadata:
  assumes "mk_ready n (rinode i st) st" "extends (rinode i st) st din' st'" "b \<noteq> 0" "unat b < nmeta"
  shows "m_img st' b = m_img st b"
  using extends_kept [OF assms(1-3)] metadata_not_owned [OF assms(1,4)] assms(1,4) by (simp add: blocks_of_def mk_ready_def)

lemma IBLOCK_meta: "ino_ok i \<Longrightarrow> unat (IBLOCK i mkfs_sb) < nmeta"
  using IBLOCK_less [of i] by (simp add: layout)

lemma winode_data: "ino_ok i \<Longrightarrow> nmeta \<le> unat b \<Longrightarrow> m_img (winode i r st) b = m_img st b"
  using IBLOCK_meta [of i] by (intro winode_other) auto

lemma winode_sel [simp]: "m_freeblock (winode i r st) = m_freeblock st" "m_freeinode (winode i r st) = m_freeinode st"
  by (simp_all add: winode_def wsect_def Let_def)

lemma winode_fresh: "ino_ok i \<Longrightarrow> nmeta \<le> n \<Longrightarrow> fresh (m_img st) n \<Longrightarrow> fresh (m_img (winode i r st)) n"
  by (auto simp: fresh_def winode_data)

definition appended :: "nat \<Rightarrow> nat \<Rightarrow> u32 \<Rightarrow> mkst \<Rightarrow> inode \<Rightarrow> mkst \<Rightarrow> bool" where
  "appended spare z i st din st1 \<longleftrightarrow>
     mk_ready spare din st1 \<and> extends (rinode i st) st din st1 \<and> allocated (m_img st1) din z \<and> z \<le> MAXFILE * BSIZE"

lemma appended_rinode:
  assumes im: "image_ok n st" and i: "ino_ok i" and a: "appended spare z i st din st1"
  defines "st' \<equiv> winode i (din\<lparr>i_size := of_nat z\<rparr>) st1"
  shows "rinode i st' = din\<lparr>i_size := of_nat z\<rparr>" "ino_ok j \<Longrightarrow> j \<noteq> i \<Longrightarrow> rinode j st' = rinode j st"
    "file_size i st' = z" "b \<in> owned (m_img st1) din \<Longrightarrow> m_img st' b = m_img st1 b"
    "ino_ok j \<Longrightarrow> j \<noteq> i \<Longrightarrow> b \<in> blocks_of j st \<Longrightarrow> m_img st' b = m_img st b"
proof -
  have e: "extends (rinode i st) st din st1" and r: "mk_ready n (rinode i st) st" and z: "z \<le> MAXFILE * BSIZE" and r1: "mk_ready spare din st1"
    using a image_okD(1) [OF im i] by (auto simp: appended_def)
  have "din = (rinode i st)\<lparr>i_addrs := i_addrs din\<rparr>" "\<forall>k>NDIRECT. i_addrs din k = i_addrs (rinode i st) k"
    using e by (simp_all add: extends_def)
  then show ri: "rinode i st' = din\<lparr>i_size := of_nat z\<rparr>" using rinode_written [OF i] unfolding st'_def by blast
  have "z < 2 ^ 32" using z by (simp add: layout)
  then show "file_size i st' = z" using ri by (simp add: file_size_def unat_of_nat take_bit_nat_eq_self)
  show "rinode j st' = rinode j st" if j: "ino_ok j" "j \<noteq> i"
    using rinode_winode [OF i j(1)] j(2) rinode_cong [OF extends_metadata [OF r e IBLOCK_nonzero IBLOCK_meta], OF j(1,1)] by (simp add: st'_def)
  show "m_img st' b = m_img st1 b" if "b \<in> owned (m_img st1) din"
    using r1 owned_bounds [OF _ that] unfolding st'_def by (intro winode_data [OF i]) (auto simp: mk_ready_def)
  show "m_img st' b = m_img st b" if j: "ino_ok j" "j \<noteq> i" "b \<in> blocks_of j st"
  proof -
    have "nmeta \<le> unat b" "unat b < unat (m_freeblock st)"
      using image_okD(1) [OF im j(1)] owned_bounds j(3) by (auto simp: mk_ready_def blocks_of_def)
    moreover from this have "b \<noteq> 0" by (auto simp: layout)
    moreover have "b \<notin> blocks_of i st" using image_okD(4) [OF im j(1) i j(2)] j(3) by auto
    ultimately show ?thesis using extends_kept [OF r e, of b] winode_data [OF i] by (simp add: st'_def)
  qed
qed

lemma owned_size [simp]: "owned img (din\<lparr>i_size := z\<rparr>) = owned img din" "addr_of img (din\<lparr>i_size := z\<rparr>) = addr_of img din"
  "inode_ok img n (din\<lparr>i_size := z\<rparr>) = inode_ok img n din" "allocated img (din\<lparr>i_size := z\<rparr>) k = allocated img din k"
  "file_bytes img (din\<lparr>i_size := z\<rparr>) k = file_bytes img din k"
proof -
  show a: "addr_of img (din\<lparr>i_size := z\<rparr>) = addr_of img din" by (rule ext) (simp add: addr_of_def)
  then show "owned img (din\<lparr>i_size := z\<rparr>) = owned img din" by (simp add: owned_def)
  then show "inode_ok img n (din\<lparr>i_size := z\<rparr>) = inode_ok img n din" "allocated img (din\<lparr>i_size := z\<rparr>) k = allocated img din k"
    "file_bytes img (din\<lparr>i_size := z\<rparr>) k = file_bytes img din k" using a by (simp_all add: inode_ok_def allocated_def file_bytes_def)
qed

lemma appended_files:
  assumes im: "image_ok n st" and i: "ino_ok i" and a: "appended spare z i st din st1"
  defines "st' \<equiv> winode i (din\<lparr>i_size := of_nat z\<rparr>) st1"
  shows "file_of i st' = file_bytes (m_img st1) din z" "ino_ok j \<Longrightarrow> j \<noteq> i \<Longrightarrow> file_of j st' = file_of j st"
    "blocks_of i st' = owned (m_img st1) din" "ino_ok j \<Longrightarrow> j \<noteq> i \<Longrightarrow> blocks_of j st' = blocks_of j st"
proof -
  note f = appended_rinode [OF im i a, folded st'_def]
  note k = kept_blocks [of "m_img st1" din "m_img st'", OF f(4)]
  have al: "allocated (m_img st1) din z" "z \<le> MAXFILE * BSIZE" using a by (auto simp: appended_def)
  show "file_of i st' = file_bytes (m_img st1) din z" using f(1,3) k(5) [OF _ al] by (simp add: file_of_def)
  show "blocks_of i st' = owned (m_img st1) din" using f(1) k(2) by (simp add: blocks_of_def)
  assume j: "ino_ok j" "j \<noteq> i"
  note kj = kept_blocks [of "m_img st" "rinode j st" "m_img st'", OF f(5) [OF j, unfolded blocks_of_def]]
  show "file_of j st' = file_of j st" "blocks_of j st' = blocks_of j st"
    using f(2) [OF j] kj(2) kj(5) [OF _ image_okD(3,2) [OF im j(1)]] by (simp_all add: file_of_def file_size_def blocks_of_def)
qed

lemma appended_ok:
  assumes im: "image_ok n st" and i: "ino_ok i" and a: "appended spare z i st din st1"
  shows "image_ok spare (winode i (din\<lparr>i_size := of_nat z\<rparr>) st1)" (is "image_ok spare ?st")
proof -
  note f = appended_rinode [OF im i a] and g = appended_files [OF im i a]
  have r: "mk_ready spare din st1" and e: "extends (rinode i st) st din st1" and al: "allocated (m_img st1) din z" "z \<le> MAXFILE * BSIZE"
    using a by (auto simp: appended_def)
  have fr: "fresh (m_img ?st) (unat (m_freeblock st1))" using r by (intro winode_fresh i) (auto simp: mk_ready_def)
  have le: "unat (m_freeblock st) \<le> unat (m_freeblock st1)" using e by (simp add: extends_def)
  have *: "mk_ready spare (rinode j ?st) ?st \<and> file_size j ?st \<le> MAXFILE * BSIZE \<and> allocated (m_img ?st) (rinode j ?st) (file_size j ?st)"
    if j: "ino_ok j" for j
  proof (cases "j = i")
    case True
    note k = kept_blocks [of "m_img st1" din "m_img ?st", OF f(4)]
    show ?thesis using True f(1,3) k(3) [of "unat (m_freeblock st1)" "unat (m_freeblock st1)"] k(4) r fr al by (simp add: mk_ready_def)
  next
    case False
    note k = kept_blocks [of "m_img st" "rinode j st" "m_img ?st", OF f(5) [OF j False, unfolded blocks_of_def]]
    have "inode_ok (m_img ?st) (unat (m_freeblock st1)) (rinode j st)"
      using k(3) [OF _ _ le] image_okD(1) [OF im j] by (auto simp: mk_ready_def)
    then show ?thesis using f(2) [OF j False] k(4) image_okD(2,3) [OF im j] r fr by (simp add: mk_ready_def file_size_def)
  qed
  have new: "blocks_of i ?st \<inter> blocks_of j ?st = {}" if j: "ino_ok j" "j \<noteq> i" for j
  proof -
    have "owned (m_img st1) din \<subseteq> blocks_of i st \<union> {b. unat (m_freeblock st) \<le> unat b}" using e by (simp add: extends_def blocks_of_def)
    moreover have "\<forall>b\<in>blocks_of j st. unat b < unat (m_freeblock st)"
      using image_okD(1) [OF im j(1)] owned_bounds by (auto simp: mk_ready_def blocks_of_def)
    ultimately show ?thesis using image_okD(4) [OF im i j(1)] g(3) g(4) [OF j] j(2) by fastforce
  qed
  have "blocks_of k ?st \<inter> blocks_of j ?st = {}" if "ino_ok k" "ino_ok j" "k \<noteq> j" for k j
    using new image_okD(4) [OF im that(1,2,3)] g(4) that by (cases "k = i"; cases "j = i") (auto simp: Int_commute)
  then show ?thesis using * unfolding image_ok_def by blast
qed

text \<open>The contract of \<open>iappend\<close>.\<close>

lemma iappend_ok:
  assumes im: "image_ok (append_cost (file_size i st) (length p) + spare) st" and i: "ino_ok i"
    and z: "file_size i st + length p \<le> MAXFILE * BSIZE"
  shows "\<exists>st'. iappend i p st = Some st' \<and> image_ok spare st' \<and> file_of i st' = file_of i st @ p \<and>
    file_size i st' = file_size i st + length p \<and> i_type (rinode i st') = i_type (rinode i st) \<and>
    (\<forall>j. ino_ok j \<longrightarrow> j \<noteq> i \<longrightarrow> file_of j st' = file_of j st \<and> rinode j st' = rinode j st) \<and>
    (\<forall>b. b \<noteq> 0 \<longrightarrow> unat b < 32 \<or> unat b = 45 \<longrightarrow> m_img st' b = m_img st b) \<and> m_freeinode st' = m_freeinode st"
proof -
  let ?z = "file_size i st + length p"
  note r = image_okD [OF im i]
  obtain din st1 where l: "iappend_from (rinode i st) (file_size i st) p st = Some (din, ?z, st1)" "mk_ready spare din st1"
      "extends (rinode i st) st din st1" "allocated (m_img st1) din ?z"
      "file_bytes (m_img st1) din ?z = file_bytes (m_img st) (rinode i st) (file_size i st) @ p"
    using iappend_from_ok [OF r(1,3) z] by blast
  define st' where "st' = winode i (din\<lparr>i_size := of_nat ?z\<rparr>) st1"
  have a: "appended spare ?z i st din st1" using l z by (simp add: appended_def)
  note f = appended_rinode [OF im i a, folded st'_def] and g = appended_files [OF im i a, folded st'_def]
  have "iappend i p st = Some st'" using l(1) by (simp add: iappend_def Let_def file_size_def st'_def)
  moreover have "image_ok spare st'" unfolding st'_def by (rule appended_ok [OF im i a])
  moreover have "file_of i st' = file_of i st @ p" using g(1) l(5) by (simp add: file_of_def)
  moreover have "i_type (rinode i st') = i_type (rinode i st)"
    using f(1) l(3) by (simp add: extends_def) (metis inode.select_convs(5) inode.surjective inode.update_convs(10))
  moreover have "m_img st' b = m_img st b" if "b \<noteq> 0" "unat b < 32 \<or> unat b = 45" for b
  proof -
    have "b \<noteq> IBLOCK i mkfs_sb" "unat b < nmeta" using IBLOCK_less [OF i] that(2) by (auto simp: layout)
    then show ?thesis using extends_metadata [OF r(1) l(3) that(1)] by (simp add: st'_def winode_other)
  qed
  moreover have "m_freeinode st' = m_freeinode st" using l(3) by (simp add: st'_def extends_def)
  ultimately show ?thesis using f(2,3) g(2) by blast
qed

end
