(* ===== verification/Mkfs_Image.thy ===== *)
theory Mkfs_Image
  imports Mkfs_Append
begin

text \<open>
  What \<open>main\<close> of \<^verbatim>\<open>mkfs/mkfs.c\<close> builds: new inodes, the files one after the other, the root
  directory, the superblock and the bitmap.
\<close>

section \<open>Small appends\<close>

lemma image_ok_spare:
  assumes "image_ok n st"
  shows "image_ok m st \<longleftrightarrow> unat (m_freeblock st) + m \<le> FSSIZE"
proof -
  have "ino_ok 0" by (simp add: ino_ok_def NINODES_def)
  then show ?thesis using assms unfolding image_ok_def mk_ready_def by blast
qed

lemma image_metadata: "image_ok n st \<Longrightarrow> nmeta \<le> unat (m_freeblock st)"
  using image_okD(1) [of n st 0] by (simp add: mk_ready_def ino_ok_def NINODES_def)

text \<open>What an append leaves alone.\<close>

definition untouched :: "u32 \<Rightarrow> mkst \<Rightarrow> mkst \<Rightarrow> bool" where
  "untouched i st st' \<longleftrightarrow> i_type (rinode i st') = i_type (rinode i st) \<and> m_freeinode st' = m_freeinode st \<and>
     (\<forall>j. ino_ok j \<longrightarrow> j \<noteq> i \<longrightarrow> file_of j st' = file_of j st \<and> rinode j st' = rinode j st) \<and>
     (\<forall>b. b \<noteq> 0 \<longrightarrow> unat b < 32 \<or> unat b = 45 \<longrightarrow> m_img st' b = m_img st b)"

lemma untouched_trans: "untouched i st st1 \<Longrightarrow> untouched i st1 st2 \<Longrightarrow> untouched i st st2"
  by (simp add: untouched_def)

lemma untouched_refl: "untouched i st st"
  by (simp add: untouched_def)

lemma iappend_small:
  assumes im: "image_ok 4 st" and i: "ino_ok i" and p: "length p \<le> BSIZE" and z: "file_size i st + length p \<le> MAXFILE * BSIZE"
  shows "\<exists>st'. iappend i p st = Some st' \<and> image_ok 0 st' \<and> file_of i st' = file_of i st @ p \<and>
    file_size i st' = file_size i st + length p \<and> untouched i st st' \<and> unat (m_freeblock st') \<le> unat (m_freeblock st) + 4"
proof -
  let ?c = "append_cost (file_size i st) (length p)"
  define spare where "spare = FSSIZE - ?c - unat (m_freeblock st)"
  have c: "?c \<le> 4" by (rule append_cost_small [OF p])
  moreover have f: "unat (m_freeblock st) + 4 \<le> FSSIZE" using im image_ok_spare [OF im] by simp
  ultimately have s: "unat (m_freeblock st) + (?c + spare) \<le> FSSIZE" "FSSIZE \<le> unat (m_freeblock st) + 4 + spare" by (simp_all add: spare_def)
  have "image_ok (?c + spare) st" using s(1) image_ok_spare [OF im, of "?c + spare"] by simp
  then obtain st' where st': "iappend i p st = Some st'" "image_ok spare st'" "file_of i st' = file_of i st @ p"
      "file_size i st' = file_size i st + length p" "untouched i st st'"
    using iappend_ok [OF _ i z, of spare] unfolding untouched_def by blast
  have u: "unat (m_freeblock st') + spare \<le> FSSIZE" using st'(2) image_ok_spare [OF st'(2)] by blast
  moreover from u have "image_ok 0 st'" using image_ok_spare [OF st'(2), of 0] by simp
  ultimately show ?thesis using st' s(2) by (intro exI [of _ st']) simp
qed

lemma append_bufs_ok:
  assumes "image_ok (4 * length bs) st" "ino_ok i" "\<forall>b\<in>set bs. length b \<le> BSIZE" "file_size i st + length (concat bs) \<le> MAXFILE * BSIZE"
  shows "\<exists>st'. append_bufs i bs st = Some st' \<and> image_ok 0 st' \<and> file_of i st' = file_of i st @ concat bs \<and>
    untouched i st st' \<and> unat (m_freeblock st') \<le> unat (m_freeblock st) + 4 * length bs"
  using assms
proof (induction bs arbitrary: st)
  case Nil
  then show ?case by (simp add: untouched_refl)
next
  case (Cons b bs)
  have f: "unat (m_freeblock st) + 4 * length (b # bs) \<le> FSSIZE" using Cons.prems(1) image_ok_spare [OF Cons.prems(1)] by blast
  then have "image_ok 4 st" using image_ok_spare [OF Cons.prems(1), of 4] by simp
  then obtain st1 where s1: "iappend i b st = Some st1" "image_ok 0 st1" "file_of i st1 = file_of i st @ b"
      "file_size i st1 = file_size i st + length b" "untouched i st st1" "unat (m_freeblock st1) \<le> unat (m_freeblock st) + 4"
    using iappend_small [of st i b] Cons.prems(2-4) by auto
  have "image_ok (4 * length bs) st1" using image_ok_spare [OF s1(2)] s1(6) f by simp
  then obtain st2 where s2: "append_bufs i bs st1 = Some st2" "image_ok 0 st2" "file_of i st2 = file_of i st1 @ concat bs"
      "untouched i st1 st2" "unat (m_freeblock st2) \<le> unat (m_freeblock st1) + 4 * length bs"
    using Cons.IH [of st1] Cons.prems(2-4) s1(4) by auto
  then show ?case using s1 untouched_trans [OF s1(5) s2(4)] by simp
qed

section \<open>New inodes\<close>

lemma zero_addr: "\<forall>k\<le>NDIRECT. i_addrs din k = 0 \<Longrightarrow> addr_of img din f = 0"
  by (simp add: addr_of_def)

lemma zero_owned: "\<forall>k\<le>NDIRECT. i_addrs din k = 0 \<Longrightarrow> owned img din = {} \<and> inode_ok img n din"
  by (auto simp: owned_def inode_ok_def zero_addr)

lemma winode_others:
  assumes "image_ok n st" "ino_ok i" "ino_ok j" "j \<noteq> i"
  shows "rinode j (winode i r st) = rinode j st" "file_of j (winode i r st) = file_of j st" "blocks_of j (winode i r st) = blocks_of j st"
    "mk_ready n (rinode j st) (winode i r st)" "allocated (m_img (winode i r st)) (rinode j st) (file_size j st)"
proof -
  note im = image_okD [OF assms(1,3)]
  have "b \<in> owned (m_img st) (rinode j st) \<Longrightarrow> m_img (winode i r st) b = m_img st b" for b
    using im(1) owned_bounds by (intro winode_data [OF assms(2)]) (auto simp: mk_ready_def)
  note k = kept_blocks [of "m_img st" "rinode j st" "m_img (winode i r st)", OF this]
  show e: "rinode j (winode i r st) = rinode j st" using rinode_winode [OF assms(2,3)] assms(4) by simp
  then show "file_of j (winode i r st) = file_of j st" "blocks_of j (winode i r st) = blocks_of j st"
    using k(2) k(5) [OF _ im(3,2)] by (simp_all add: file_of_def file_size_def blocks_of_def)
  show "allocated (m_img (winode i r st)) (rinode j st) (file_size j st)" using k(4) im(3) by blast
  show "mk_ready n (rinode j st) (winode i r st)"
    using im(1) k(3) [of "unat (m_freeblock st)" "unat (m_freeblock st)"] winode_fresh [OF assms(2)] by (simp add: mk_ready_def)
qed

lemma rinode_freeinode [simp]: "rinode i (st\<lparr>m_freeinode := k\<rparr>) = rinode i st"
  by (simp add: rinode_def rsect_def)

lemma image_ok_freeinode [simp]: "image_ok n (st\<lparr>m_freeinode := k\<rparr>) = image_ok n st" "file_of i (st\<lparr>m_freeinode := k\<rparr>) = file_of i st"
  by (simp_all add: image_ok_def mk_ready_def file_size_def blocks_of_def file_of_def)

lemma mk_ialloc_ok:
  assumes im: "image_ok n st" and i: "ino_ok (m_freeinode st)" and t: "mk_ialloc ty st = (inum, st')"
  shows "inum = m_freeinode st" "image_ok n st'" "m_freeinode st' = inum + 1" "m_freeblock st' = m_freeblock st"
    "file_of inum st' = []" "file_size inum st' = 0" "i_type (rinode inum st') = ty" "\<And>j. ino_ok j \<Longrightarrow> j \<noteq> inum \<Longrightarrow> file_of j st' = file_of j st \<and> rinode j st' = rinode j st"
    "\<And>b. unat b < 32 \<or> unat b = 45 \<Longrightarrow> m_img st' b = m_img st b"
proof -
  define r where "r = zero_inode\<lparr>i_type := ty, i_nlink := 1, i_size := 0\<rparr>"
  define st0 where "st0 = st\<lparr>m_freeinode := m_freeinode st + 1\<rparr>"
  have st': "st' = winode inum r st0" and inum: "inum = m_freeinode st" using t by (auto simp: mk_ialloc_def Let_def r_def st0_def)
  have im0: "image_ok n st0" using im by (simp add: st0_def)
  have i: "ino_ok inum" using i inum by simp
  show "inum = m_freeinode st" by (rule inum)
  show f: "m_freeinode st' = inum + 1" "m_freeblock st' = m_freeblock st" by (simp_all add: st' st0_def inum)
  have ri: "rinode inum st' = r"
    using rinode_winode [OF i i, of r st0] by (simp add: st' r_def zero_inode_def fun_eq_iff cong: if_cong)
  have z: "\<forall>k\<le>NDIRECT. i_addrs (rinode inum st') k = 0" by (simp add: ri r_def zero_inode_def)
  show sz: "file_size inum st' = 0" "i_type (rinode inum st') = ty" by (simp_all add: file_size_def ri r_def)
  then show "file_of inum st' = []" by (simp add: file_of_def file_bytes_def)
  note o = winode_others [OF im0 i, where r = r, folded st']
  show "file_of j st' = file_of j st \<and> rinode j st' = rinode j st" if "ino_ok j" "j \<noteq> inum" for j
    using o(1,2) [OF that] by (simp add: st0_def)
  have "blocks_of inum st' = {}" using zero_owned [OF z] by (simp add: blocks_of_def)
  moreover have "mk_ready n (rinode inum st') st'"
    using zero_owned [OF z] im0 image_okD(1) [OF im0 i] winode_fresh [OF i] by (simp add: mk_ready_def st')
  moreover have "allocated img din 0" for img din by (simp add: allocated_def)
  moreover have "file_size j st' = file_size j st0" if "ino_ok j" "j \<noteq> inum" for j using o(1) [OF that] by (simp add: file_size_def)
  ultimately show "image_ok n st'"
    using o image_okD(2,4) [OF im0] sz(1) unfolding image_ok_def by (metis Int_empty_left Int_empty_right le0)
  show "m_img st' b = m_img st b" if "unat b < 32 \<or> unat b = 45" for b
    using IBLOCK_less [OF i] that by (subst st', subst winode_other) (auto simp: st0_def)
qed

section \<open>Adding the files\<close>

primrec root_entries :: "u32 \<Rightarrow> (string \<times> byte list list) list \<Rightarrow> byte list" where
  "root_entries i [] = []"
| "root_entries i (f # fs) = mk_dirent i (bytes_of (the (shortname (fst f)))) @ root_entries (i + 1) fs"

definition file_ok :: "string \<times> byte list list \<Rightarrow> bool" where
  "file_ok f \<longleftrightarrow> shortname (fst f) \<noteq> None \<and> (\<forall>b\<in>set (snd f). length b \<le> BSIZE) \<and> length (concat (snd f)) \<le> MAXFILE * BSIZE"

definition files_cost :: "(string \<times> byte list list) list \<Rightarrow> nat" where
  "files_cost fs = (\<Sum>f\<leftarrow>fs. 4 + 4 * length (snd f))"

lemma length_mk_dirent: "length (mk_dirent i name) = 16"
  by (simp add: mk_dirent_def Let_def DIRSIZ_def)

lemma length_file_of: "length (file_of i st) = file_size i st"
  by (simp add: file_of_def file_bytes_def)

text \<open>One file: an inode, an entry of the root directory, the contents.\<close>

lemma add_file_ok:
  assumes im: "image_ok (4 + 4 * length (snd f)) st" and f: "file_ok f"
    and i: "1 < unat (m_freeinode st)" "ino_ok (m_freeinode st)" and z: "file_size ROOTINO st + 16 \<le> MAXFILE * BSIZE"
  defines "inum \<equiv> m_freeinode st"
  shows "\<exists>st'. add_files (f # fs) st = add_files fs st' \<and> image_ok 0 st' \<and>
    file_of ROOTINO st' = file_of ROOTINO st @ mk_dirent inum (bytes_of (the (shortname (fst f)))) \<and>
    i_type (rinode ROOTINO st') = i_type (rinode ROOTINO st) \<and> m_freeinode st' = inum + 1 \<and>
    file_of inum st' = concat (snd f) \<and> i_type (rinode inum st') = T_FILE \<and>
    unat (m_freeblock st') \<le> unat (m_freeblock st) + 4 + 4 * length (snd f) \<and>
    (\<forall>j. ino_ok j \<longrightarrow> j \<noteq> ROOTINO \<longrightarrow> j \<noteq> inum \<longrightarrow> file_of j st' = file_of j st \<and> rinode j st' = rinode j st) \<and>
    (\<forall>b. b \<noteq> 0 \<longrightarrow> unat b < 32 \<or> unat b = 45 \<longrightarrow> m_img st' b = m_img st b)"
proof -
  obtain name where name: "shortname (fst f) = Some name" using f by (auto simp: file_ok_def)
  obtain n st1 where t: "mk_ialloc T_FILE st = (n, st1)" by fastforce
  note a = mk_ialloc_ok [OF im i(2) t]
  have n: "n = inum" "ino_ok n" "ino_ok ROOTINO" "n \<noteq> ROOTINO" using a(1) i by (auto simp: inum_def ROOTINO_def ino_ok_def NINODES_def)
  have r1: "file_size ROOTINO st1 = file_size ROOTINO st" using a(8) [of ROOTINO] n by (simp add: file_size_def)
  let ?e = "mk_dirent n (bytes_of name)"
  have fr: "unat (m_freeblock st) + (4 + 4 * length (snd f)) \<le> FSSIZE" using im image_ok_spare [OF im] by blast
  have "image_ok 4 st1" using image_ok_spare [OF a(2), of 4] a(4) fr by simp
  then obtain st2 where s2: "iappend ROOTINO ?e st1 = Some st2" "image_ok 0 st2" "file_of ROOTINO st2 = file_of ROOTINO st1 @ ?e"
      "untouched ROOTINO st1 st2" "unat (m_freeblock st2) \<le> unat (m_freeblock st1) + 4"
    using iappend_small [of st1 ROOTINO ?e] n r1 z by (auto simp: length_mk_dirent layout)
  have u2: "file_of n st2 = file_of n st1" "rinode n st2 = rinode n st1" using s2(4) n by (auto simp: untouched_def)
  have "image_ok (4 * length (snd f)) st2" using image_ok_spare [OF s2(2)] s2(5) a(4) fr by simp
  moreover have "file_size n st2 = 0" using a(6) u2(2) by (simp add: file_size_def)
  ultimately obtain st3 where s3: "append_bufs n (snd f) st2 = Some st3" "image_ok 0 st3" "file_of n st3 = file_of n st2 @ concat (snd f)"
      "untouched n st2 st3" "unat (m_freeblock st3) \<le> unat (m_freeblock st2) + 4 * length (snd f)"
    using append_bufs_ok [of "snd f" st2 n] f n by (auto simp: file_ok_def)
  have ro: "file_of ROOTINO st3 = file_of ROOTINO st2" "rinode ROOTINO st3 = rinode ROOTINO st2"
    using s3(4) n by (auto simp: untouched_def)
  have others: "file_of j st3 = file_of j st \<and> rinode j st3 = rinode j st" if j: "ino_ok j" "j \<noteq> ROOTINO" "j \<noteq> n" for j
    using a(8) [OF j(1,3)] s2(4) s3(4) j unfolding untouched_def by metis
  have meta: "m_img st3 b = m_img st b" if b: "b \<noteq> 0" "unat b < 32 \<or> unat b = 45" for b
    using a(9) [OF b(2)] s2(4) s3(4) b unfolding untouched_def by metis
  have "add_files (f # fs) st = add_files fs st3" using name t s2(1) s3(1) by simp
  moreover have "file_of ROOTINO st3 = file_of ROOTINO st @ ?e" using ro(1) s2(3) a(8) [of ROOTINO] n by simp
  moreover have "i_type (rinode ROOTINO st3) = i_type (rinode ROOTINO st)" using ro(2) s2(4) a(8) [of ROOTINO] n by (simp add: untouched_def)
  moreover have "m_freeinode st3 = n + 1" "i_type (rinode n st3) = T_FILE" using s2(4) s3(4) a(3,7) u2 by (simp_all add: untouched_def)
  moreover have "file_of n st3 = concat (snd f)" using s3(3) u2(1) a(5) by simp
  moreover have "unat (m_freeblock st3) \<le> unat (m_freeblock st) + 4 + 4 * length (snd f)" using s3(5) s2(5) a(4) by simp
  ultimately show ?thesis using s3(2) others meta name unfolding n(1) by (intro exI [of _ st3]) simp
qed

lemma files_cost_Cons: "files_cost (f # fs) = 4 + 4 * length (snd f) + files_cost fs"
  by (simp add: files_cost_def)

lemma add_files_ok:
  assumes "image_ok (files_cost fs) st" "\<forall>f\<in>set fs. file_ok f" "1 < unat (m_freeinode st)" "unat (m_freeinode st) + length fs \<le> NINODES"
    "file_size ROOTINO st + 16 * length fs \<le> MAXFILE * BSIZE"
  shows "\<exists>st'. add_files fs st = Some st' \<and> image_ok 0 st' \<and>
    file_of ROOTINO st' = file_of ROOTINO st @ root_entries (m_freeinode st) fs \<and> i_type (rinode ROOTINO st') = i_type (rinode ROOTINO st) \<and>
    (\<forall>k<length fs. file_of (m_freeinode st + of_nat k) st' = concat (snd (fs ! k)) \<and> i_type (rinode (m_freeinode st + of_nat k) st') = T_FILE) \<and>
    (\<forall>j. ino_ok j \<longrightarrow> j \<noteq> ROOTINO \<longrightarrow> unat j < unat (m_freeinode st) \<longrightarrow> file_of j st' = file_of j st \<and> rinode j st' = rinode j st) \<and>
    (\<forall>b. b \<noteq> 0 \<longrightarrow> unat b < 32 \<or> unat b = 45 \<longrightarrow> m_img st' b = m_img st b) \<and>
    unat (m_freeblock st') \<le> unat (m_freeblock st) + files_cost fs"
  using assms
proof (induction fs arbitrary: st)
  case Nil
  have "image_ok 0 st" using image_ok_spare [OF Nil.prems(1)] Nil.prems(1) by (simp add: files_cost_def)
  then show ?case by (simp add: files_cost_def)
next
  case (Cons f fs)
  let ?i = "m_freeinode st"
  have fr: "unat (m_freeblock st) + files_cost (f # fs) \<le> FSSIZE" using Cons.prems(1) image_ok_spare [OF Cons.prems(1)] by blast
  have im: "image_ok (4 + 4 * length (snd f)) st"
    using image_ok_spare [OF Cons.prems(1), of "4 + 4 * length (snd f)"] fr by (simp add: files_cost_Cons)
  have i: "ino_ok ?i" "?i \<noteq> ROOTINO" "unat (?i + 1) = Suc (unat ?i)"
    using Cons.prems(3,4) by (auto simp: ino_ok_def ROOTINO_def NINODES_def unat_word_ariths)
  obtain st1 where s1: "add_files (f # fs) st = add_files fs st1" "image_ok 0 st1"
      "file_of ROOTINO st1 = file_of ROOTINO st @ mk_dirent ?i (bytes_of (the (shortname (fst f))))"
      "i_type (rinode ROOTINO st1) = i_type (rinode ROOTINO st)" "m_freeinode st1 = ?i + 1"
      "file_of ?i st1 = concat (snd f)" "i_type (rinode ?i st1) = T_FILE"
      "unat (m_freeblock st1) \<le> unat (m_freeblock st) + 4 + 4 * length (snd f)"
      "\<forall>j. ino_ok j \<longrightarrow> j \<noteq> ROOTINO \<longrightarrow> j \<noteq> ?i \<longrightarrow> file_of j st1 = file_of j st \<and> rinode j st1 = rinode j st"
      "\<forall>b. b \<noteq> 0 \<longrightarrow> unat b < 32 \<or> unat b = 45 \<longrightarrow> m_img st1 b = m_img st b"
    using add_file_ok [OF im, of fs] Cons.prems(2,3,5) i(1) by (simp del: add_files.simps) blast
  have z: "file_size ROOTINO st1 = file_size ROOTINO st + 16" using s1(3) length_file_of [of ROOTINO] by (simp flip: length_file_of add: length_mk_dirent)
  have "image_ok (files_cost fs) st1" using image_ok_spare [OF s1(2)] s1(8) fr by (simp add: files_cost_Cons)
  then obtain st2 where s2: "add_files fs st1 = Some st2" "image_ok 0 st2"
      "file_of ROOTINO st2 = file_of ROOTINO st1 @ root_entries (?i + 1) fs" "i_type (rinode ROOTINO st2) = i_type (rinode ROOTINO st1)"
      "\<forall>k<length fs. file_of (?i + 1 + of_nat k) st2 = concat (snd (fs ! k)) \<and> i_type (rinode (?i + 1 + of_nat k) st2) = T_FILE"
      "\<forall>j. ino_ok j \<longrightarrow> j \<noteq> ROOTINO \<longrightarrow> unat j < Suc (unat ?i) \<longrightarrow> file_of j st2 = file_of j st1 \<and> rinode j st2 = rinode j st1"
      "\<forall>b. b \<noteq> 0 \<longrightarrow> unat b < 32 \<or> unat b = 45 \<longrightarrow> m_img st2 b = m_img st1 b"
      "unat (m_freeblock st2) \<le> unat (m_freeblock st1) + files_cost fs"
    using Cons.IH [of st1] Cons.prems(2-5) z i(3) unfolding s1(5) by auto
  have "file_of (?i + of_nat k) st2 = concat (snd ((f # fs) ! k)) \<and> i_type (rinode (?i + of_nat k) st2) = T_FILE" if "k < length (f # fs)" for k
  proof (cases k)
    case 0
    then show ?thesis using s2(6) i(1,2) s1(6,7) by simp
  next
    case (Suc m)
    then show ?thesis using s2(5) that by (simp add: ac_simps)
  qed
  moreover have "file_of j st2 = file_of j st \<and> rinode j st2 = rinode j st" if j: "ino_ok j" "j \<noteq> ROOTINO" "unat j < unat ?i" for j
  proof -
    have "j \<noteq> ?i" using j(3) by auto
    then show ?thesis using s2(6) s1(9) j by simp
  qed
  ultimately show ?case
    using s1(1,3,4,8,10) s2(1-4,7,8) by (intro exI [of _ st2]) (simp add: files_cost_Cons del: add_files.simps)
qed

section \<open>The bitmap and the superblock\<close>

lemma bit_clear_bit: "bit_clear d k \<longleftrightarrow> \<not> bit (d (k div 8)) (k mod 8)"
proof -
  have e: "x AND push_bit n 1 = 0 \<longleftrightarrow> \<not> bit x n" if "n < 8" for x :: byte and n
  proof
    assume "x AND push_bit n 1 = 0"
    then have "bit (x AND push_bit n 1) n = bit (0 :: byte) n" by simp
    then show "\<not> bit x n" using that by (simp add: bit_simps)
  next
    assume "\<not> bit x n"
    then show "x AND push_bit n 1 = 0" by (intro bit_eqI) (auto simp: bit_simps)
  qed
  show ?thesis unfolding bit_clear_def by (rule e) simp
qed

lemma bit_clear_mark_used: "bit_clear (mark_used j d) k \<longleftrightarrow> k \<noteq> j \<and> bit_clear d k"
proof (cases "k div 8 = j div 8")
  case True
  have "bit (push_bit (j mod 8) 1 :: byte) (k mod 8) \<longleftrightarrow> k mod 8 = j mod 8" by (auto simp: bit_simps)
  moreover have "k mod 8 = j mod 8 \<longleftrightarrow> k = j" using True div_mult_mod_eq [of k 8] div_mult_mod_eq [of j 8] by metis
  ultimately show ?thesis using True by (auto simp: bit_clear_bit mark_used_def bit_or_iff)
qed (auto simp: bit_clear_bit mark_used_def)

lemma bit_clear_marked: "bit_clear (fold mark_used ks d) k \<longleftrightarrow> k \<notin> set ks \<and> bit_clear d k"
  by (induction ks arbitrary: d) (auto simp: bit_clear_mark_used)

lemma mk_balloc_marked:
  "used < BPB \<Longrightarrow> mk_balloc used st = Some (wsect 45 (fold mark_used [0..<used] zero_block) st)"
  by (simp add: mk_balloc_def mark_used_def [abs_def] mkfs_sb_fields BPB_def)

lemma parse_put_sb: "parse_sb (put_sb v d) = v"
  by (simp add: parse_sb_def put_sb_def get32_put32_same get32_put32_other)

section \<open>The whole image\<close>

definition mkfs_start :: mkst where
  "mkfs_start = wsect 1 (put_sb mkfs_sb zero_block) \<lparr>m_img = (\<lambda>sec. zero_block), m_freeinode = 1, m_freeblock = of_nat nmeta\<rparr>"

lemma mkfs_start_ok: "image_ok 1954 mkfs_start" "m_freeblock mkfs_start = 46" "m_freeinode mkfs_start = 1" "m_img mkfs_start 1 = put_sb mkfs_sb zero_block"
proof -
  show f: "m_freeblock mkfs_start = 46" "m_freeinode mkfs_start = 1" "m_img mkfs_start 1 = put_sb mkfs_sb zero_block"
    by (simp_all add: mkfs_start_def wsect_def layout)
  have r: "rinode i mkfs_start = zero_inode" if "ino_ok i" for i
  proof -
    have "IBLOCK i mkfs_sb \<noteq> 1" using IBLOCK_less [OF that] by auto
    then have "m_img mkfs_start (IBLOCK i mkfs_sb) = zero_block" by (simp add: mkfs_start_def wsect_def)
    moreover have "get16 zero_block k = 0" for k by (simp add: get16_def zero_block_def)
    ultimately show ?thesis by (simp add: rinode_def rsect_def get_dinode_def zero_inode_def cong: if_cong)
  qed
  have z: "\<forall>k\<le>NDIRECT. i_addrs zero_inode k = 0" by (simp add: zero_inode_def)
  have "fresh (m_img mkfs_start) 46" by (auto simp: fresh_def mkfs_start_def wsect_def)
  then show "image_ok 1954 mkfs_start"
    using zero_owned [OF z] unfolding image_ok_def mk_ready_def blocks_of_def file_size_def f
    by (auto simp: r allocated_def layout) (simp_all add: zero_inode_def)
qed

lemma metadata_write:
  assumes im: "image_ok n st" and j: "ino_ok j" and d: "\<And>b. nmeta \<le> unat b \<Longrightarrow> m_img st' b = m_img st b"
    and r: "rinode j st' = (rinode j st)\<lparr>i_size := z\<rparr>"
  shows "blocks_of j st' = blocks_of j st" "file_bytes (m_img st') (rinode j st') (file_size j st) = file_of j st"
proof -
  have "b \<in> owned (m_img st) (rinode j st) \<Longrightarrow> m_img st' b = m_img st b" for b
    using image_okD(1) [OF im j] owned_bounds by (intro d) (auto simp: mk_ready_def)
  note k = kept_blocks [of "m_img st" "rinode j st" "m_img st'", OF this]
  show "blocks_of j st' = blocks_of j st" "file_bytes (m_img st') (rinode j st') (file_size j st) = file_of j st"
    using k(2) k(5) [OF _ image_okD(3,2) [OF im j]] by (simp_all add: r blocks_of_def file_of_def)
qed

text \<open>The steps before the bitmap.\<close>

lemma mkfs_before_bitmap:
  assumes fs: "\<forall>f\<in>set fs. file_ok f" "length fs + 2 \<le> NINODES" "nmeta + 8 + files_cost fs \<le> FSSIZE"
  shows "\<exists>st. mkfs_main fs = (let st = fix_root st in mk_balloc (unat (m_freeblock st)) st) \<and> image_ok 0 st \<and>
    m_img st 1 = put_sb mkfs_sb zero_block \<and> i_type (rinode ROOTINO st) = T_DIR \<and>
    file_of ROOTINO st = mk_dirent ROOTINO (bytes_of ''.'') @ mk_dirent ROOTINO (bytes_of ''..'') @ root_entries 2 fs \<and>
    (\<forall>k<length fs. file_of (2 + of_nat k) st = concat (snd (fs ! k)) \<and> i_type (rinode (2 + of_nat k) st) = T_FILE) \<and>
    unat (m_freeblock st) \<le> nmeta + 8 + files_cost fs"
proof -
  obtain n st1 where t: "mk_ialloc T_DIR mkfs_start = (n, st1)" by fastforce
  have r: "ino_ok ROOTINO" by (simp add: ino_ok_def ROOTINO_def NINODES_def)
  note a = mk_ialloc_ok [OF mkfs_start_ok(1) _ t]
  have n: "n = ROOTINO" and i1: "ino_ok (m_freeinode mkfs_start)"
    using t r by (auto simp: mkfs_start_ok(3) ROOTINO_def mk_ialloc_def Let_def)
  note a = a [OF i1, unfolded n]
  let ?d = "mk_dirent ROOTINO (bytes_of ''.'')" and ?dd = "mk_dirent ROOTINO (bytes_of ''..'')"
  have u1: "unat (m_freeblock st1) = nmeta" using a(4) by (simp add: mkfs_start_ok(2) layout)
  have "image_ok 4 st1" using image_ok_spare [OF a(2), of 4] u1 by (simp add: layout)
  then obtain st2 where s2: "iappend ROOTINO ?d st1 = Some st2" "image_ok 0 st2" "file_of ROOTINO st2 = ?d"
      "file_size ROOTINO st2 = 16" "untouched ROOTINO st1 st2" "unat (m_freeblock st2) \<le> nmeta + 4"
    using iappend_small [of st1 ROOTINO ?d] r a(5,6) u1 by (auto simp: length_mk_dirent layout)
  have "image_ok 4 st2" using image_ok_spare [OF s2(2), of 4] s2(6) by (simp add: layout)
  then obtain st3 where s3: "iappend ROOTINO ?dd st2 = Some st3" "image_ok 0 st3" "file_of ROOTINO st3 = ?d @ ?dd"
      "file_size ROOTINO st3 = 32" "untouched ROOTINO st2 st3" "unat (m_freeblock st3) \<le> nmeta + 8"
    using iappend_small [of st2 ROOTINO ?dd] r s2(3,4,6) by (auto simp: length_mk_dirent layout)
  note u = untouched_trans [OF s2(5) s3(5)]
  have i3: "m_freeinode st3 = 2" "i_type (rinode ROOTINO st3) = T_DIR" "m_img st3 1 = put_sb mkfs_sb zero_block"
    using u a(3,7) a(9) [of 1] mkfs_start_ok(4) by (simp_all add: untouched_def ROOTINO_def)
  have "image_ok (files_cost fs) st3" using image_ok_spare [OF s3(2)] s3(6) fs(3) by (simp add: layout)
  then obtain st4 where s4: "add_files fs st3 = Some st4" "image_ok 0 st4" "file_of ROOTINO st4 = file_of ROOTINO st3 @ root_entries 2 fs"
      "i_type (rinode ROOTINO st4) = T_DIR" "m_img st4 1 = m_img st3 1" "unat (m_freeblock st4) \<le> unat (m_freeblock st3) + files_cost fs"
      "\<forall>k<length fs. file_of (2 + of_nat k) st4 = concat (snd (fs ! k)) \<and> i_type (rinode (2 + of_nat k) st4) = T_FILE"
    using add_files_ok [of fs st3] fs(1,2) s3(4) unfolding i3(1,2) by (auto simp: layout NINODES_def)
  have "mkfs_main fs = (let st = fix_root st4 in mk_balloc (unat (m_freeblock st)) st)"
    using t s2(1) s3(1) s4(1) n by (simp add: mkfs_main_def flip: mkfs_start_def)
  then show ?thesis using s4 s3(3,6) i3 by (intro exI [of _ st4]) simp
qed

text \<open>The last two steps: the size of the root directory is rounded up and the bitmap written.\<close>

lemma mkfs_finish:
  assumes im: "image_ok 0 st" and u: "unat (m_freeblock st) < BPB"
  defines "st' \<equiv> wsect 45 (fold mark_used [0..<unat (m_freeblock st)] zero_block) (fix_root st)"
  shows "(let st = fix_root st in mk_balloc (unat (m_freeblock st)) st) = Some st'"
    "file_bytes (m_img st') (rinode ROOTINO st') (file_size ROOTINO st) = file_of ROOTINO st"
    "i_type (rinode ROOTINO st') = i_type (rinode ROOTINO st)"
    "\<And>j. ino_ok j \<Longrightarrow> blocks_of j st' = blocks_of j st" "\<And>b. unat b < 32 \<Longrightarrow> m_img st' b = m_img st b"
    "\<And>j. ino_ok j \<Longrightarrow> j \<noteq> ROOTINO \<Longrightarrow> file_of j st' = file_of j st \<and> rinode j st' = rinode j st"
    "m_freeblock st' = m_freeblock st" "m_img st' 45 = fold mark_used [0..<unat (m_freeblock st)] zero_block"
proof -
  obtain z where f: "fix_root st = winode ROOTINO ((rinode ROOTINO st)\<lparr>i_size := z\<rparr>) st" by (auto simp: fix_root_def Let_def)
  have r: "ino_ok ROOTINO" by (simp add: ino_ok_def ROOTINO_def NINODES_def)
  show "(let st = fix_root st in mk_balloc (unat (m_freeblock st)) st) = Some st'" "m_freeblock st' = m_freeblock st"
    "m_img st' 45 = fold mark_used [0..<unat (m_freeblock st)] zero_block"
    using mk_balloc_marked [OF u, of "fix_root st"] by (simp_all add: f st'_def wsect_def Let_def)
  have "IBLOCK j mkfs_sb \<noteq> 45" if "ino_ok j" for j using IBLOCK_less [OF that] by auto
  then have ri: "rinode j st' = rinode j (fix_root st)" if "ino_ok j" for j
    using that by (intro rinode_cong) (simp add: st'_def wsect_def)
  have root: "rinode ROOTINO st' = (rinode ROOTINO st)\<lparr>i_size := z\<rparr>"
    using rinode_written [OF r, where din = "rinode ROOTINO st" and st = st and a = "i_addrs (rinode ROOTINO st)"] by (simp add: ri [OF r] f)
  have other: "rinode j st' = (rinode j st)\<lparr>i_size := i_size (rinode j st)\<rparr>" if "ino_ok j" "j \<noteq> ROOTINO" for j
    using winode_others(1) [OF im r that] ri [OF that(1)] by (simp add: f)
  have d: "m_img st' b = m_img st b" if "nmeta \<le> unat b" for b
    using that winode_data [OF r that] by (auto simp: st'_def wsect_def f layout)
  note m = metadata_write [OF im _ d]
  show "blocks_of j st' = blocks_of j st" if "ino_ok j" for j
    using m(1) [OF r _ root] m(1) [OF that _ other [OF that]] by (cases "j = ROOTINO") simp_all
  show "i_type (rinode ROOTINO st') = i_type (rinode ROOTINO st)"
    "file_bytes (m_img st') (rinode ROOTINO st') (file_size ROOTINO st) = file_of ROOTINO st" using root m(2) [OF r _ root] by simp_all
  show "m_img st' b = m_img st b" if "unat b < 32" for b
  proof -
    have "b \<noteq> IBLOCK ROOTINO mkfs_sb" "b \<noteq> 45" using IBLOCK_less [OF r] that by auto
    then show ?thesis by (simp add: st'_def f wsect_def winode_other)
  qed
  show "file_of j st' = file_of j st \<and> rinode j st' = rinode j st" if j: "ino_ok j" "j \<noteq> ROOTINO" for j
    using m(2) [OF j(1) _ other [OF j]] other [OF j] by (simp add: file_of_def file_size_def)
qed



end
