(* ===== verification/Machine.thy ===== *)
theory Machine
  imports Riscv
begin

text \<open>
  The RISC-V hart as the kernel uses it: its integer and control registers, the accessors of
  \<^verbatim>\<open>kernel/riscv.h\<close>, the instructions that occur in the assembly files, and the two returns from a trap.
  Memory is read and written in double words under the translation in force, which is a parameter of the hart: \<open>h_xlate\<close> says
  where a virtual address lies under a value of \<open>satp\<close>. Stale TLB entries are not represented, so that \<open>sfence.vma\<close>
  changes nothing. \<open>h_delegable\<close> holds the interrupts that the hardware lets machine mode delegate.
\<close>

unbundle bit_operations_syntax

section \<open>Registers and memory\<close>

datatype reg = Zero | Ra | Sp | Gp | Tp | T0 | T1 | T2 | T3 | T4 | T5 | T6
  | S0 | S1 | S2 | S3 | S4 | S5 | S6 | S7 | S8 | S9 | S10 | S11 | A0 | A1 | A2 | A3 | A4 | A5 | A6 | A7

datatype csr = Mhartid | Mstatus | Mepc | Medeleg | Mideleg | Mie | Mip | Mtvec | Mscratch | Mcounteren | Pmpcfg0 | Pmpaddr0 | Time
  | Sstatus | Sie | Sip | Sepc | Stvec | Sscratch | Scause | Stval | Satp

datatype priv = UserMode | SupervisorMode | MachineMode

record hart =
  h_regs :: "reg \<Rightarrow> u64"
  h_csrs :: "csr \<Rightarrow> u64"
  h_mode :: priv
  h_pc :: u64
  h_mem :: "u64 \<Rightarrow> u64"
  h_xlate :: "u64 \<Rightarrow> u64 \<Rightarrow> u64"
  h_delegable :: u64

definition get_reg :: "reg \<Rightarrow> hart \<Rightarrow> u64" where
  "get_reg r h = (if r = Zero then 0 else h_regs h r)"

definition set_reg :: "reg \<Rightarrow> u64 \<Rightarrow> hart \<Rightarrow> hart" where
  "set_reg r x h = (if r = Zero then h else h\<lparr>h_regs := (h_regs h)(r := x)\<rparr>)"

definition paddr :: "hart \<Rightarrow> u64 \<Rightarrow> u64" where
  "paddr h a = (if h_mode h = MachineMode then a else h_xlate h (h_csrs h Satp) a)"

definition load_d :: "u64 \<Rightarrow> hart \<Rightarrow> u64" where
  "load_d a h = h_mem h (paddr h a)"

definition store_d :: "u64 \<Rightarrow> u64 \<Rightarrow> hart \<Rightarrow> hart" where
  "store_d a x h = h\<lparr>h_mem := (h_mem h)(paddr h a := x)\<rparr>"

section \<open>Constants of riscv.h\<close>

definition MSTATUS_MPP_MASK :: u64 where "MSTATUS_MPP_MASK = push_bit 11 3"

definition MSTATUS_MPP_M :: u64 where "MSTATUS_MPP_M = push_bit 11 3"

definition MSTATUS_MPP_S :: u64 where "MSTATUS_MPP_S = push_bit 11 1"

definition MSTATUS_MPP_U :: u64 where "MSTATUS_MPP_U = push_bit 11 0"

definition MSTATUS_MIE :: u64 where "MSTATUS_MIE = push_bit 3 1"

definition SSTATUS_SPP :: u64 where "SSTATUS_SPP = push_bit 8 1"

definition SSTATUS_SPIE :: u64 where "SSTATUS_SPIE = push_bit 5 1"

definition SSTATUS_UPIE :: u64 where "SSTATUS_UPIE = push_bit 4 1"

definition SSTATUS_SIE :: u64 where "SSTATUS_SIE = push_bit 1 1"

definition SSTATUS_UIE :: u64 where "SSTATUS_UIE = push_bit 0 1"

definition SIE_SEIE :: u64 where "SIE_SEIE = push_bit 9 1"

definition SIE_STIE :: u64 where "SIE_STIE = push_bit 5 1"

definition SIE_SSIE :: u64 where "SIE_SSIE = push_bit 1 1"

definition MIE_MEIE :: u64 where "MIE_MEIE = push_bit 11 1"

definition MIE_MTIE :: u64 where "MIE_MTIE = push_bit 7 1"

definition MIE_MSIE :: u64 where "MIE_MSIE = push_bit 3 1"

definition SATP_SV39 :: u64 where "SATP_SV39 = push_bit 60 8"

section \<open>Control registers\<close>

text \<open>
  \<open>sstatus\<close> shows the supervisor bits of \<open>mstatus\<close>; \<open>sie\<close> and \<open>sip\<close> show the delegated
  bits of \<open>mie\<close> and \<open>mip\<close>, of which supervisor software may change the pending software interrupt. The lowest bit of a program
  counter is always clear, and only what the hardware can delegate is delegated.
\<close>

definition sstatus_mask :: u64 where
  "sstatus_mask = 0x80000003000DE762"

definition MPIE_bit :: u64 where "MPIE_bit = push_bit 7 1"

definition read_csr :: "csr \<Rightarrow> hart \<Rightarrow> u64" where
  "read_csr c h = (case c of
       Sstatus \<Rightarrow> h_csrs h Mstatus AND sstatus_mask
     | Sie \<Rightarrow> h_csrs h Mie AND h_csrs h Mideleg
     | Sip \<Rightarrow> h_csrs h Mip AND h_csrs h Mideleg
     | _ \<Rightarrow> h_csrs h c)"

definition upd_csr :: "csr \<Rightarrow> u64 \<Rightarrow> hart \<Rightarrow> hart" where
  "upd_csr c x h = h\<lparr>h_csrs := (h_csrs h)(c := x)\<rparr>"

definition masked :: "u64 \<Rightarrow> u64 \<Rightarrow> u64 \<Rightarrow> u64" where
  "masked m old x = (old AND NOT m) OR (x AND m)"

definition write_csr :: "csr \<Rightarrow> u64 \<Rightarrow> hart \<Rightarrow> hart" where
  "write_csr c x h = (case c of
       Sstatus \<Rightarrow> upd_csr Mstatus (masked sstatus_mask (h_csrs h Mstatus) x) h
     | Sie \<Rightarrow> upd_csr Mie (masked (h_csrs h Mideleg) (h_csrs h Mie) x) h
     | Sip \<Rightarrow> upd_csr Mip (masked (h_csrs h Mideleg AND 2) (h_csrs h Mip) x) h
     | Mideleg \<Rightarrow> upd_csr Mideleg (x AND h_delegable h) h
     | Mepc \<Rightarrow> upd_csr Mepc (x AND NOT 1) h
     | Sepc \<Rightarrow> upd_csr Sepc (x AND NOT 1) h
     | Mhartid \<Rightarrow> h
     | Time \<Rightarrow> h
     | _ \<Rightarrow> upd_csr c x h)"

section \<open>The accessors of riscv.h\<close>

definition r_mhartid :: "hart \<Rightarrow> u64" where "r_mhartid = read_csr Mhartid"

definition r_mstatus :: "hart \<Rightarrow> u64" where "r_mstatus = read_csr Mstatus"

definition w_mstatus :: "u64 \<Rightarrow> hart \<Rightarrow> hart" where "w_mstatus = write_csr Mstatus"

definition w_mepc :: "u64 \<Rightarrow> hart \<Rightarrow> hart" where "w_mepc = write_csr Mepc"

definition r_sstatus :: "hart \<Rightarrow> u64" where "r_sstatus = read_csr Sstatus"

definition w_sstatus :: "u64 \<Rightarrow> hart \<Rightarrow> hart" where "w_sstatus = write_csr Sstatus"

definition r_sip :: "hart \<Rightarrow> u64" where "r_sip = read_csr Sip"

definition w_sip :: "u64 \<Rightarrow> hart \<Rightarrow> hart" where "w_sip = write_csr Sip"

definition r_sie :: "hart \<Rightarrow> u64" where "r_sie = read_csr Sie"

definition w_sie :: "u64 \<Rightarrow> hart \<Rightarrow> hart" where "w_sie = write_csr Sie"

definition r_mie :: "hart \<Rightarrow> u64" where "r_mie = read_csr Mie"

definition w_mie :: "u64 \<Rightarrow> hart \<Rightarrow> hart" where "w_mie = write_csr Mie"

definition w_sepc :: "u64 \<Rightarrow> hart \<Rightarrow> hart" where "w_sepc = write_csr Sepc"

definition r_sepc :: "hart \<Rightarrow> u64" where "r_sepc = read_csr Sepc"

definition r_medeleg :: "hart \<Rightarrow> u64" where "r_medeleg = read_csr Medeleg"

definition w_medeleg :: "u64 \<Rightarrow> hart \<Rightarrow> hart" where "w_medeleg = write_csr Medeleg"

definition r_mideleg :: "hart \<Rightarrow> u64" where "r_mideleg = read_csr Mideleg"

definition w_mideleg :: "u64 \<Rightarrow> hart \<Rightarrow> hart" where "w_mideleg = write_csr Mideleg"

definition w_stvec :: "u64 \<Rightarrow> hart \<Rightarrow> hart" where "w_stvec = write_csr Stvec"

definition r_stvec :: "hart \<Rightarrow> u64" where "r_stvec = read_csr Stvec"

definition w_mtvec :: "u64 \<Rightarrow> hart \<Rightarrow> hart" where "w_mtvec = write_csr Mtvec"

definition w_pmpcfg0 :: "u64 \<Rightarrow> hart \<Rightarrow> hart" where "w_pmpcfg0 = write_csr Pmpcfg0"

definition w_pmpaddr0 :: "u64 \<Rightarrow> hart \<Rightarrow> hart" where "w_pmpaddr0 = write_csr Pmpaddr0"

definition w_satp :: "u64 \<Rightarrow> hart \<Rightarrow> hart" where "w_satp = write_csr Satp"

definition r_satp :: "hart \<Rightarrow> u64" where "r_satp = read_csr Satp"

definition w_mscratch :: "u64 \<Rightarrow> hart \<Rightarrow> hart" where "w_mscratch = write_csr Mscratch"

definition r_scause :: "hart \<Rightarrow> u64" where "r_scause = read_csr Scause"

definition r_stval :: "hart \<Rightarrow> u64" where "r_stval = read_csr Stval"

definition w_mcounteren :: "u64 \<Rightarrow> hart \<Rightarrow> hart" where "w_mcounteren = write_csr Mcounteren"

definition r_mcounteren :: "hart \<Rightarrow> u64" where "r_mcounteren = read_csr Mcounteren"

definition r_time :: "hart \<Rightarrow> u64" where "r_time = read_csr Time"

definition r_sp :: "hart \<Rightarrow> u64" where "r_sp = get_reg Sp"

definition r_tp :: "hart \<Rightarrow> u64" where "r_tp = get_reg Tp"

definition w_tp :: "u64 \<Rightarrow> hart \<Rightarrow> hart" where "w_tp = set_reg Tp"

definition r_ra :: "hart \<Rightarrow> u64" where "r_ra = get_reg Ra"

definition sfence_vma :: "hart \<Rightarrow> hart" where "sfence_vma h = h"

definition hw_intr_on :: "hart \<Rightarrow> hart" where
  "hw_intr_on h = w_sstatus (r_sstatus h OR SSTATUS_SIE) h"

definition hw_intr_off :: "hart \<Rightarrow> hart" where
  "hw_intr_off h = w_sstatus (r_sstatus h AND NOT SSTATUS_SIE) h"

definition hw_intr_get :: "hart \<Rightarrow> bool" where
  "hw_intr_get h \<longleftrightarrow> r_sstatus h AND SSTATUS_SIE \<noteq> 0"

section \<open>Instructions\<close>

text \<open>
  The instructions in the assembly files. \<open>La\<close> loads the address of a symbol, \<open>Call\<close> jumps to one with the return address
  in \<open>ra\<close>. The program counter is set by the jumps and returns only; code between them runs in sequence.
\<close>

datatype instr = Sd reg int reg | Ld reg int reg | Addi reg reg int | Add reg reg reg | Mul reg reg reg | Li reg u64 | La reg u64
  | Csrr reg csr | Csrw csr reg | Csrrw reg csr reg | Sfence_vma | Jr reg | Ret_ra | Call u64 u64 | Ecall | Sret | Mret

definition do_sret :: "hart \<Rightarrow> hart" where
  "do_sret h = (let x = h_csrs h Mstatus;
       y = masked SSTATUS_SIE x (if x AND SSTATUS_SPIE = 0 then 0 else SSTATUS_SIE);
       z = (y OR SSTATUS_SPIE) AND NOT SSTATUS_SPP
     in (upd_csr Mstatus z h)\<lparr>h_mode := (if x AND SSTATUS_SPP = 0 then UserMode else SupervisorMode), h_pc := h_csrs h Sepc\<rparr>)"

definition mpp_mode :: "u64 \<Rightarrow> priv" where
  "mpp_mode x = (if x AND MSTATUS_MPP_MASK = MSTATUS_MPP_M then MachineMode
     else if x AND MSTATUS_MPP_MASK = MSTATUS_MPP_S then SupervisorMode else UserMode)"

definition do_mret :: "hart \<Rightarrow> hart" where
  "do_mret h = (let x = h_csrs h Mstatus;
       y = masked MSTATUS_MIE x (if x AND MPIE_bit = 0 then 0 else MSTATUS_MIE);
       z = masked MSTATUS_MPP_MASK (y OR MPIE_bit) MSTATUS_MPP_U
     in (upd_csr Mstatus z h)\<lparr>h_mode := mpp_mode x, h_pc := h_csrs h Mepc\<rparr>)"

text \<open>A trap into supervisor mode, taken by the hardware; \<open>ecall\<close> from user mode has cause 8.\<close>

definition trap_s :: "u64 \<Rightarrow> hart \<Rightarrow> hart" where
  "trap_s cause h = (let x = h_csrs h Mstatus;
       y = masked SSTATUS_SPIE x (if x AND SSTATUS_SIE = 0 then 0 else SSTATUS_SPIE);
       z = masked SSTATUS_SPP (y AND NOT SSTATUS_SIE) (if h_mode h = UserMode then 0 else SSTATUS_SPP)
     in (upd_csr Scause cause (upd_csr Sepc (h_pc h) (upd_csr Mstatus z h)))\<lparr>h_mode := SupervisorMode, h_pc := h_csrs h Stvec\<rparr>)"

primrec exec_instr :: "instr \<Rightarrow> hart \<Rightarrow> hart" where
  "exec_instr (Sd r off b) h = store_d (get_reg b h + of_int off) (get_reg r h) h"
| "exec_instr (Ld r off b) h = set_reg r (load_d (get_reg b h + of_int off) h) h"
| "exec_instr (Addi d r k) h = set_reg d (get_reg r h + of_int k) h"
| "exec_instr (Add d r q) h = set_reg d (get_reg r h + get_reg q h) h"
| "exec_instr (Mul d r q) h = set_reg d (get_reg r h * get_reg q h) h"
| "exec_instr (Li d x) h = set_reg d x h"
| "exec_instr (La d x) h = set_reg d x h"
| "exec_instr (Csrr d c) h = set_reg d (read_csr c h) h"
| "exec_instr (Csrw c r) h = write_csr c (get_reg r h) h"
| "exec_instr (Csrrw d c r) h = (let x = read_csr c h in set_reg d x (write_csr c (get_reg r h) h))"
| "exec_instr Sfence_vma h = h"
| "exec_instr (Jr r) h = h\<lparr>h_pc := get_reg r h\<rparr>"
| "exec_instr Ret_ra h = h\<lparr>h_pc := get_reg Ra h\<rparr>"
| "exec_instr (Call f ret) h = (set_reg Ra ret h)\<lparr>h_pc := f\<rparr>"
| "exec_instr Ecall h = trap_s 8 h"
| "exec_instr Sret h = do_sret h"
| "exec_instr Mret h = do_mret h"

definition run_code :: "instr list \<Rightarrow> hart \<Rightarrow> hart" where
  "run_code = fold exec_instr"

end
