(* ===== verification/Assembly.thy ===== *)
theory Assembly
  imports Machine
begin

text \<open>
  The assembly of the kernel as instruction lists: \<^verbatim>\<open>entry.S\<close>, \<^verbatim>\<open>swtch.S\<close>, \<^verbatim>\<open>kernelvec.S\<close> and
  \<^verbatim>\<open>trampoline.S\<close>, the machine-mode start code of \<^verbatim>\<open>start.c\<close>, and the system call stubs that
  \<^verbatim>\<open>user/usys.pl\<close> generates. Shown are what each of them keeps and restores: the registers of a user program across a trap,
  of a kernel thread across a switch, of interrupted kernel code across an interrupt and of any code across a timer interrupt, and
  the state in which the kernel's main function is entered.
\<close>

section \<open>The programs\<close>

definition entry_code :: "u64 \<Rightarrow> instr list" where
  "entry_code stack0 = [La Sp stack0, Li A0 (1024 * 4), Csrr A1 Mhartid, Addi A1 A1 1, Mul A0 A0 A1, Add Sp Sp A0]"

definition swtch_code :: "instr list" where
  "swtch_code =
    [Sd Ra 0 A0, Sd Sp 8 A0, Sd S0 16 A0, Sd S1 24 A0, Sd S2 32 A0, Sd S3 40 A0, Sd S4 48 A0, Sd S5 56 A0, Sd S6 64 A0,
     Sd S7 72 A0, Sd S8 80 A0, Sd S9 88 A0, Sd S10 96 A0, Sd S11 104 A0, Ld Ra 0 A1, Ld Sp 8 A1, Ld S0 16 A1, Ld S1 24 A1,
     Ld S2 32 A1, Ld S3 40 A1, Ld S4 48 A1, Ld S5 56 A1, Ld S6 64 A1, Ld S7 72 A1, Ld S8 80 A1, Ld S9 88 A1, Ld S10 96 A1,
     Ld S11 104 A1, Ret_ra]"

definition kernelvec_save :: "instr list" where
  "kernelvec_save =
    [Addi Sp Sp (-256), Sd Ra 0 Sp, Sd Sp 8 Sp, Sd Gp 16 Sp, Sd Tp 24 Sp, Sd T0 32 Sp, Sd T1 40 Sp, Sd T2 48 Sp, Sd S0 56 Sp,
     Sd S1 64 Sp, Sd A0 72 Sp, Sd A1 80 Sp, Sd A2 88 Sp, Sd A3 96 Sp, Sd A4 104 Sp, Sd A5 112 Sp, Sd A6 120 Sp, Sd A7 128 Sp,
     Sd S2 136 Sp, Sd S3 144 Sp, Sd S4 152 Sp, Sd S5 160 Sp, Sd S6 168 Sp, Sd S7 176 Sp, Sd S8 184 Sp, Sd S9 192 Sp,
     Sd S10 200 Sp, Sd S11 208 Sp, Sd T3 216 Sp, Sd T4 224 Sp, Sd T5 232 Sp, Sd T6 240 Sp]"

definition kernelvec_restore :: "instr list" where
  "kernelvec_restore =
    [Ld Ra 0 Sp, Ld Sp 8 Sp, Ld Gp 16 Sp, Ld T0 32 Sp, Ld T1 40 Sp, Ld T2 48 Sp, Ld S0 56 Sp, Ld S1 64 Sp, Ld A0 72 Sp,
     Ld A1 80 Sp, Ld A2 88 Sp, Ld A3 96 Sp, Ld A4 104 Sp, Ld A5 112 Sp, Ld A6 120 Sp, Ld A7 128 Sp, Ld S2 136 Sp,
     Ld S3 144 Sp, Ld S4 152 Sp, Ld S5 160 Sp, Ld S6 168 Sp, Ld S7 176 Sp, Ld S8 184 Sp, Ld S9 192 Sp, Ld S10 200 Sp,
     Ld S11 208 Sp, Ld T3 216 Sp, Ld T4 224 Sp, Ld T5 232 Sp, Ld T6 240 Sp, Addi Sp Sp 256, Sret]"

definition timervec :: "instr list" where
  "timervec =
    [Csrrw A0 Mscratch A0, Sd A1 0 A0, Sd A2 8 A0, Sd A3 16 A0, Ld A1 24 A0, Ld A2 32 A0, Ld A3 0 A1, Add A3 A3 A2,
     Sd A3 0 A1, Li A1 2, Csrw Sip A1, Ld A3 16 A0, Ld A2 8 A0, Ld A1 0 A0, Csrrw A0 Mscratch A0, Mret]"

definition uservec :: "instr list" where
  "uservec =
    [Csrw Sscratch A0, Li A0 TRAPFRAME, Sd Ra 40 A0, Sd Sp 48 A0, Sd Gp 56 A0, Sd Tp 64 A0, Sd T0 72 A0, Sd T1 80 A0,
     Sd T2 88 A0, Sd S0 96 A0, Sd S1 104 A0, Sd A1 120 A0, Sd A2 128 A0, Sd A3 136 A0, Sd A4 144 A0, Sd A5 152 A0,
     Sd A6 160 A0, Sd A7 168 A0, Sd S2 176 A0, Sd S3 184 A0, Sd S4 192 A0, Sd S5 200 A0, Sd S6 208 A0, Sd S7 216 A0,
     Sd S8 224 A0, Sd S9 232 A0, Sd S10 240 A0, Sd S11 248 A0, Sd T3 256 A0, Sd T4 264 A0, Sd T5 272 A0, Sd T6 280 A0,
     Csrr T0 Sscratch, Sd T0 112 A0, Ld Sp 8 A0, Ld Tp 32 A0, Ld T0 16 A0, Ld T1 0 A0, Sfence_vma, Csrw Satp T1, Sfence_vma,
     Jr T0]"

definition userret :: "instr list" where
  "userret =
    [Sfence_vma, Csrw Satp A0, Sfence_vma, Li A0 TRAPFRAME, Ld Ra 40 A0, Ld Sp 48 A0, Ld Gp 56 A0, Ld Tp 64 A0, Ld T0 72 A0,
     Ld T1 80 A0, Ld T2 88 A0, Ld S0 96 A0, Ld S1 104 A0, Ld A1 120 A0, Ld A2 128 A0, Ld A3 136 A0, Ld A4 144 A0,
     Ld A5 152 A0, Ld A6 160 A0, Ld A7 168 A0, Ld S2 176 A0, Ld S3 184 A0, Ld S4 192 A0, Ld S5 200 A0, Ld S6 208 A0,
     Ld S7 216 A0, Ld S8 224 A0, Ld S9 232 A0, Ld S10 240 A0, Ld S11 248 A0, Ld T3 256 A0, Ld T4 264 A0, Ld T5 272 A0,
     Ld T6 280 A0, Ld A0 112 A0, Sret]"

text \<open>Between the two halves of \<open>kernelvec\<close> the C function \<open>kerneltrap\<close> runs.\<close>

definition kernelvec :: "(hart \<Rightarrow> hart) \<Rightarrow> hart \<Rightarrow> hart" where
  "kernelvec kerneltrap h = run_code kernelvec_restore (kerneltrap (run_code kernelvec_save h))"

definition usys_stub :: "u64 \<Rightarrow> instr list" where
  "usys_stub n = [Li A7 n, Ecall, Ret_ra]"

section \<open>start.c\<close>

definition CLINT :: u64 where "CLINT = 0x2000000"

definition CLINT_MTIMECMP :: "u64 \<Rightarrow> u64" where "CLINT_MTIMECMP hartid = CLINT + 0x4000 + 8 * hartid"

definition CLINT_MTIME :: u64 where "CLINT_MTIME = CLINT + 0xBFF8"

text \<open>The hart number is kept in an \<open>int\<close>.\<close>

definition hart_int :: "hart \<Rightarrow> u64" where
  "hart_int h = scast (ucast (r_mhartid h) :: u32)"

definition timerinit :: "u64 \<Rightarrow> u64 \<Rightarrow> hart \<Rightarrow> hart" where
  "timerinit vec timer_scratch h =
     (let id = hart_int h; interval = 1000000;
          h = store_d (CLINT_MTIMECMP id) (load_d CLINT_MTIME h + interval) h;
          scratch = timer_scratch + 40 * id;
          h = store_d (scratch + 24) (CLINT_MTIMECMP id) h;
          h = store_d (scratch + 32) interval h;
          h = w_mscratch scratch h;
          h = w_mtvec vec h;
          h = w_mstatus (r_mstatus h OR MSTATUS_MIE) h
      in w_mie (r_mie h OR MIE_MTIE) h)"

definition start :: "u64 \<Rightarrow> u64 \<Rightarrow> u64 \<Rightarrow> hart \<Rightarrow> hart" where
  "start main vec timer_scratch h =
     (let x = r_mstatus h;
          x = x AND NOT MSTATUS_MPP_MASK;
          x = x OR MSTATUS_MPP_S;
          h = w_mstatus x h;
          h = w_mepc main h;
          h = w_satp 0 h;
          h = w_medeleg 0xffff h;
          h = w_mideleg 0xffff h;
          h = w_sie (r_sie h OR SIE_SEIE OR SIE_STIE OR SIE_SSIE) h;
          h = w_pmpaddr0 0x3fffffffffffff h;
          h = w_pmpcfg0 0xf h;
          h = timerinit vec timer_scratch h;
          id = hart_int h;
          h = w_tp id h
      in do_mret h)"

text \<open>From the first instruction of a hart to the entry of \<open>main\<close>.\<close>

definition boot_hart :: "u64 \<Rightarrow> u64 \<Rightarrow> u64 \<Rightarrow> u64 \<Rightarrow> hart \<Rightarrow> hart" where
  "boot_hart stack0 main vec timer_scratch h = start main vec timer_scratch (run_code (entry_code stack0) h)"

section \<open>Saving and restoring registers\<close>

lemma run_code_simps [simp]: "run_code [] h = h" "run_code (i # is) h = run_code is (exec_instr i h)" "run_code (is @ js) h = run_code js (run_code is h)"
  by (simp_all add: run_code_def)

definition saves :: "reg \<Rightarrow> (reg \<times> int) list \<Rightarrow> instr list" where
  "saves b xs = map (\<lambda>x. Sd (fst x) (snd x) b) xs"

definition loads :: "reg \<Rightarrow> (reg \<times> int) list \<Rightarrow> instr list" where
  "loads b xs = map (\<lambda>x. Ld (fst x) (snd x) b) xs"

definition slot :: "hart \<Rightarrow> reg \<Rightarrow> int \<Rightarrow> u64" where
  "slot h b k = paddr h (get_reg b h + of_int k)"

lemma store_d_sel [simp]:
  "h_regs (store_d a x h) = h_regs h" "h_csrs (store_d a x h) = h_csrs h" "h_mode (store_d a x h) = h_mode h" "h_pc (store_d a x h) = h_pc h"
  "h_xlate (store_d a x h) = h_xlate h" "h_delegable (store_d a x h) = h_delegable h" "get_reg r (store_d a x h) = get_reg r h"
  "paddr (store_d a x h) = paddr h" "h_mem (store_d a x h) = (h_mem h)(paddr h a := x)"
  by (auto simp: store_d_def get_reg_def paddr_def)

lemma set_reg_sel [simp]:
  "h_csrs (set_reg r x h) = h_csrs h" "h_mode (set_reg r x h) = h_mode h" "h_pc (set_reg r x h) = h_pc h" "h_mem (set_reg r x h) = h_mem h"
  "h_xlate (set_reg r x h) = h_xlate h" "h_delegable (set_reg r x h) = h_delegable h" "paddr (set_reg r x h) = paddr h"
  "get_reg q (set_reg r x h) = (if q = r \<and> r \<noteq> Zero then x else get_reg q h)" "load_d a (set_reg r x h) = load_d a h"
  by (auto simp: set_reg_def get_reg_def paddr_def load_d_def fun_eq_iff)

definition put_all :: "('k \<Rightarrow> 'a) \<Rightarrow> ('r \<Rightarrow> 'v) \<Rightarrow> ('r \<times> 'k) list \<Rightarrow> ('a \<Rightarrow> 'v) \<Rightarrow> 'a \<Rightarrow> 'v" where
  "put_all f g xs m = fold (\<lambda>x m. m(f (snd x) := g (fst x))) xs m"

lemma put_all_simps: "put_all f g [] m = m" "put_all f g (x # xs) m = put_all f g xs (m(f (snd x) := g (fst x)))"
  by (simp_all add: put_all_def)

lemma put_all_other: "a \<notin> f ` snd ` set xs \<Longrightarrow> put_all f g xs m a = m a"
  by (induction xs arbitrary: m) (auto simp: put_all_simps)

lemma put_all_same:
  assumes "(r, k) \<in> set xs" "inj_on f (snd ` set xs)" "distinct (map snd xs)"
  shows "put_all f g xs m (f k) = g r"
  using assms
proof (induction xs arbitrary: m)
  case (Cons x xs)
  show ?case
  proof (cases "(r, k) \<in> set xs")
    case True
    then show ?thesis using Cons by (simp add: put_all_simps inj_on_def)
  next
    case False
    then have x: "x = (r, k)" using Cons.prems(1) by auto
    then have "f k \<notin> f ` snd ` set xs" using Cons.prems(2,3) by (auto simp: inj_on_def)
    then show ?thesis by (simp add: put_all_simps put_all_other x)
  qed
qed simp

lemma run_saves:
  "run_code (saves b xs) h = h\<lparr>h_mem := put_all (slot h b) (\<lambda>r. get_reg r h) xs (h_mem h)\<rparr>"
proof (induction xs arbitrary: h)
  case (Cons x xs)
  let ?h = "store_d (get_reg b h + of_int (snd x)) (get_reg (fst x) h) h"
  have "slot ?h b = slot h b" "?h\<lparr>h_mem := m\<rparr> = h\<lparr>h_mem := m\<rparr>" "h_mem ?h = (h_mem h)(slot h b (snd x) := get_reg (fst x) h)" for m
    by (auto simp: slot_def fun_eq_iff store_d_def paddr_def get_reg_def)
  then show ?case using Cons [of ?h] by (simp add: saves_def put_all_simps del: fun_upd_apply store_d_sel(9))
qed (simp add: saves_def put_all_simps)

text \<open>Loading is putting with the roles of register and slot exchanged.\<close>

definition get_all :: "('k \<Rightarrow> 'v) \<Rightarrow> ('r \<times> 'k) list \<Rightarrow> ('r \<Rightarrow> 'v) \<Rightarrow> 'r \<Rightarrow> 'v" where
  "get_all f xs = put_all id f (map prod.swap xs)"

lemma get_all_simps: "get_all f [] g = g" "get_all f (x # xs) g = get_all f xs (g(fst x := f (snd x)))"
  by (simp_all add: get_all_def put_all_simps)

lemma get_all_same: "(r, k) \<in> set xs \<Longrightarrow> distinct (map fst xs) \<Longrightarrow> get_all f xs g r = f k"
  using put_all_same [of k r "map prod.swap xs" id f g] by (force simp: get_all_def comp_def)

lemma get_all_other: "r \<notin> fst ` set xs \<Longrightarrow> get_all f xs g r = g r"
  using put_all_other [of r id "map prod.swap xs" f g] by (force simp: get_all_def)

lemma run_loads:
  assumes "b \<notin> fst ` set xs" "Zero \<notin> fst ` set xs"
  shows "run_code (loads b xs) h = h\<lparr>h_regs := get_all (\<lambda>k. h_mem h (slot h b k)) xs (h_regs h)\<rparr>"
  using assms
proof (induction xs arbitrary: h)
  case (Cons x xs)
  let ?h = "set_reg (fst x) (load_d (get_reg b h + of_int (snd x)) h) h"
  have "slot ?h b = slot h b" "?h\<lparr>h_regs := m\<rparr> = h\<lparr>h_regs := m\<rparr>" "h_regs ?h = (h_regs h)(fst x := h_mem h (slot h b (snd x)))" for m
    using Cons.prems by (auto simp: slot_def fun_eq_iff set_reg_def load_d_def paddr_def get_reg_def)
  then show ?case using Cons.IH [of ?h] Cons.prems by (simp add: loads_def get_all_simps del: fun_upd_apply)
qed (simp add: loads_def get_all_simps)

section \<open>The trampoline\<close>

definition frame_regs :: "(reg \<times> int) list" where
  "frame_regs = [(Ra, 40), (Sp, 48), (Gp, 56), (Tp, 64), (T0, 72), (T1, 80), (T2, 88), (S0, 96), (S1, 104), (A1, 120), (A2, 128),
     (A3, 136), (A4, 144), (A5, 152), (A6, 160), (A7, 168), (S2, 176), (S3, 184), (S4, 192), (S5, 200), (S6, 208), (S7, 216),
     (S8, 224), (S9, 232), (S10, 240), (S11, 248), (T3, 256), (T4, 264), (T5, 272), (T6, 280)]"

text \<open>The offset of a register in the trapframe, and the mapping of the trapframe page in a user page table.\<close>

definition frame_off :: "reg \<Rightarrow> int" where
  "frame_off r = (if r = A0 then 112 else the (map_of frame_regs r))"

definition maps_frame :: "(u64 \<Rightarrow> u64 \<Rightarrow> u64) \<Rightarrow> u64 \<Rightarrow> u64 \<Rightarrow> bool" where
  "maps_frame xlate us tf \<longleftrightarrow> (\<forall>k. 0 \<le> k \<longrightarrow> k < 4096 \<longrightarrow> xlate us (TRAPFRAME + of_int k) = tf + of_int k)"

lemma uservec_split: "uservec = [Csrw Sscratch A0, Li A0 TRAPFRAME] @ saves A0 frame_regs @
    [Csrr T0 Sscratch, Sd T0 112 A0, Ld Sp 8 A0, Ld Tp 32 A0, Ld T0 16 A0, Ld T1 0 A0, Sfence_vma, Csrw Satp T1, Sfence_vma, Jr T0]"
  by (simp add: uservec_def saves_def frame_regs_def)

lemma userret_split: "userret = [Sfence_vma, Csrw Satp A0, Sfence_vma, Li A0 TRAPFRAME] @ loads A0 frame_regs @ [Ld A0 112 A0, Sret]"
  by (simp add: userret_def loads_def frame_regs_def)

lemma frame_regs_set: "r \<noteq> Zero \<Longrightarrow> r \<noteq> A0 \<Longrightarrow> (r, frame_off r) \<in> set frame_regs"
  by (cases r) (simp_all add: frame_off_def frame_regs_def)

lemma frame_regs_distinct: "distinct (map fst frame_regs)" "distinct (map snd frame_regs)" "Zero \<notin> fst ` set frame_regs" "A0 \<notin> fst ` set frame_regs"
  "112 \<notin> snd ` set frame_regs" "\<forall>k\<in>snd ` set frame_regs. 40 \<le> k \<and> k < 288"
  by (simp_all add: frame_regs_def)

lemma frame_regs_off: "\<forall>x\<in>set frame_regs. fst x \<noteq> Zero \<and> frame_off (fst x) = snd x"
  by (simp add: frame_regs_def frame_off_def)

lemma frame_off_range: "r \<noteq> Zero \<Longrightarrow> 40 \<le> frame_off r \<and> frame_off r < 288"
  by (cases r) (simp_all add: frame_off_def frame_regs_def)

lemma frame_off_A0: "frame_off A0 = 112" "r \<noteq> Zero \<Longrightarrow> r \<noteq> A0 \<Longrightarrow> frame_off r \<noteq> 112"
  by (simp add: frame_off_def) (cases r; simp add: frame_off_def frame_regs_def)

lemma of_int_inj: "0 \<le> j \<Longrightarrow> j < 4096 \<Longrightarrow> 0 \<le> k \<Longrightarrow> k < 4096 \<Longrightarrow> (of_int j :: u64) = of_int k \<longleftrightarrow> j = k"
  by (simp add: word_of_int_eq_iff take_bit_int_eq_self)

lemma upd_csr_sel [simp]:
  "h_regs (upd_csr c x h) = h_regs h" "h_mode (upd_csr c x h) = h_mode h" "h_pc (upd_csr c x h) = h_pc h" "h_mem (upd_csr c x h) = h_mem h"
  "h_xlate (upd_csr c x h) = h_xlate h" "h_delegable (upd_csr c x h) = h_delegable h" "get_reg r (upd_csr c x h) = get_reg r h"
  "h_csrs (upd_csr c x h) = (h_csrs h)(c := x)"
  by (simp_all add: upd_csr_def get_reg_def)

text \<open>Single bits of the status register.\<close>

lemma and_bit: "n < 64 \<Longrightarrow> (x :: u64) AND push_bit n 1 = 0 \<longleftrightarrow> \<not> bit x n"
proof
  assume n: "n < 64" and "x AND push_bit n 1 = 0"
  then have "bit (x AND push_bit n 1) n = bit (0 :: u64) n" by simp
  then show "\<not> bit x n" using n by (simp add: bit_simps)
next
  assume "\<not> bit x n"
  then show "x AND push_bit n 1 = 0" by (intro bit_eqI) (auto simp: bit_simps)
qed

lemma and_SSTATUS: "x AND SSTATUS_SIE = 0 \<longleftrightarrow> \<not> bit x 1" "x AND SSTATUS_SPIE = 0 \<longleftrightarrow> \<not> bit x 5" "x AND SSTATUS_SPP = 0 \<longleftrightarrow> \<not> bit x 8"
  unfolding SSTATUS_SIE_def SSTATUS_SPIE_def SSTATUS_SPP_def by (rule and_bit, simp)+

lemma status_bits: "bit (SSTATUS_SIE) n \<longleftrightarrow> n = 1" "bit SSTATUS_SPIE n \<longleftrightarrow> n = 5" "bit SSTATUS_SPP n \<longleftrightarrow> n = 8"
  unfolding SSTATUS_SIE_def SSTATUS_SPIE_def SSTATUS_SPP_def by (auto simp only: bit_push_bit_iff bit_1_iff) simp_all

lemma hw_intr_get_bit: "hw_intr_get h \<longleftrightarrow> bit (h_csrs h Mstatus) 1"
  by (simp add: hw_intr_get_def and_SSTATUS r_sstatus_def read_csr_def bit_simps sstatus_mask_def)

lemma get_reg_pc [simp]: "get_reg r (h\<lparr>h_pc := x\<rparr>) = get_reg r h" "get_reg r (h\<lparr>h_mode := p\<rparr>) = get_reg r h" "get_reg r (h\<lparr>h_mem := m\<rparr>) = get_reg r h"
  by (simp_all add: get_reg_def)

lemma slot_frame:
  assumes "maps_frame (h_xlate h) us tf" "h_mode h = SupervisorMode" "h_csrs h Satp = us" "get_reg A0 h = TRAPFRAME" "0 \<le> k" "k < 4096"
  shows "slot h A0 k = tf + of_int k"
  using assms by (simp add: slot_def paddr_def maps_frame_def)

lemma frame_slots:
  assumes f: "\<And>k. 0 \<le> k \<Longrightarrow> k < 4096 \<Longrightarrow> f k = tf + (of_int k :: u64)"
  shows "inj_on f (snd ` set frame_regs)" "0 \<le> k \<Longrightarrow> k < 40 \<Longrightarrow> tf + of_int k \<notin> f ` snd ` set frame_regs"
    "f ` snd ` set frame_regs \<subseteq> (\<lambda>r. tf + of_int (frame_off r)) ` (- {Zero})"
proof -
  have e: "f k = tf + of_int k" "0 \<le> k" "k < 4096" "40 \<le> k" if "k \<in> snd ` set frame_regs" for k
    using f [of k] frame_regs_distinct(6) that by force+
  show "inj_on f (snd ` set frame_regs)"
  proof (rule inj_onI)
    fix j k assume "j \<in> snd ` set frame_regs" "k \<in> snd ` set frame_regs" "f j = f k"
    then show "j = k" using e [of j] e [of k] of_int_inj [of j k] by simp
  qed
  show "tf + of_int k \<notin> f ` snd ` set frame_regs" if k: "0 \<le> k" "k < 40"
  proof
    assume "tf + of_int k \<in> f ` snd ` set frame_regs"
    then obtain j where j: "j \<in> snd ` set frame_regs" "tf + of_int k = f j" by blast
    then show False using e [OF j(1)] of_int_inj [of k j] k by simp
  qed
  show "f ` snd ` set frame_regs \<subseteq> (\<lambda>r. tf + of_int (frame_off r)) ` (- {Zero})"
  proof
    fix a assume "a \<in> f ` snd ` set frame_regs"
    then obtain x where x: "x \<in> set frame_regs" "a = f (snd x)" by blast
    then have "a = tf + of_int (snd x)" using e [of "snd x"] by simp
    moreover have "fst x \<noteq> Zero" "frame_off (fst x) = snd x" using x(1) frame_regs_off by auto
    ultimately show "a \<in> (\<lambda>r. tf + of_int (frame_off r)) ` (- {Zero})" by (intro image_eqI [of _ _ "fst x"]) auto
  qed
qed

lemma uservec_saves:
  assumes m: "h_mode h = SupervisorMode" "h_csrs h Satp = us" "maps_frame (h_xlate h) us tf"
  defines "h' \<equiv> run_code uservec h"
  shows "\<And>r. r \<noteq> Zero \<Longrightarrow> h_mem h' (tf + of_int (frame_off r)) = get_reg r h" "h_pc h' = h_mem h (tf + 16)"
    "get_reg Sp h' = h_mem h (tf + 8)" "get_reg Tp h' = h_mem h (tf + 32)" "h_csrs h' Satp = h_mem h tf" "h_mode h' = SupervisorMode"
    "h_csrs h' Sepc = h_csrs h Sepc" "h_csrs h' Mstatus = h_csrs h Mstatus" "h_xlate h' = h_xlate h"
    "\<And>a. a \<notin> (\<lambda>r. tf + of_int (frame_off r)) ` (- {Zero}) \<Longrightarrow> h_mem h' a = h_mem h a"
proof -
  define t where "t = set_reg A0 TRAPFRAME (upd_csr Sscratch (get_reg A0 h) h)"
  define u where "u = t\<lparr>h_mem := put_all (slot t A0) (\<lambda>r. get_reg r t) frame_regs (h_mem t)\<rparr>"
  have sl: "slot t A0 k = tf + of_int k" if "0 \<le> k" "k < 4096" for k
    by (rule slot_frame [of _ us]) (use that m in \<open>auto simp: t_def set_reg_def upd_csr_def get_reg_def\<close>)
  have pa: "h_xlate h us (TRAPFRAME + of_int k) = tf + of_int k" if "0 \<le> k" "k < 4096" for k
    using m(3) that by (simp add: maps_frame_def)
  have u: "get_reg A0 u = TRAPFRAME" "h_csrs u Sscratch = get_reg A0 h" "h_mode u = SupervisorMode" "h_xlate u = h_xlate h" "h_csrs u Satp = us"
    "h_csrs u Sepc = h_csrs h Sepc" "h_csrs u Mstatus = h_csrs h Mstatus"
    using m by (simp_all add: u_def t_def get_reg_def set_reg_def upd_csr_def)
  have h': "h' = run_code [Csrr T0 Sscratch, Sd T0 112 A0, Ld Sp 8 A0, Ld Tp 32 A0, Ld T0 16 A0, Ld T1 0 A0, Sfence_vma, Csrw Satp T1,
      Sfence_vma, Jr T0] u"
    by (simp add: h'_def uservec_split run_saves u_def t_def write_csr_def)
  have M: "h_mem h' = (h_mem u)(tf + 112 := get_reg A0 h)"
    using pa [of 112] by (simp add: h' u paddr_def read_csr_def write_csr_def)
  show "h_mode h' = SupervisorMode" "h_csrs h' Sepc = h_csrs h Sepc" "h_csrs h' Mstatus = h_csrs h Mstatus" "h_xlate h' = h_xlate h"
    by (simp_all add: h' u write_csr_def)
  have keep: "h_mem u (tf + of_int k) = h_mem h (tf + of_int k)" if "0 \<le> k" "k < 40" for k
  proof -
    have "tf + of_int k \<notin> slot t A0 ` snd ` set frame_regs" by (rule frame_slots(2) [OF sl that])
    then show ?thesis by (simp add: u_def put_all_other) (simp add: t_def)
  qed
  show "h_pc h' = h_mem h (tf + 16)" "get_reg Sp h' = h_mem h (tf + 8)" "get_reg Tp h' = h_mem h (tf + 32)" "h_csrs h' Satp = h_mem h tf"
    using keep [of 16] keep [of 8] keep [of 32] keep [of 0] pa [of 112] pa [of 16] pa [of 8] pa [of 32] pa [of 0]
    by (simp_all add: h' u paddr_def read_csr_def write_csr_def load_d_def)
  show "h_mem h' (tf + of_int (frame_off r)) = get_reg r h" if "r \<noteq> Zero" for r
  proof (cases "r = A0")
    case False
    have "inj_on (slot t A0) (snd ` set frame_regs)" by (rule frame_slots(1) [OF sl])
    then have "h_mem u (slot t A0 (frame_off r)) = get_reg r t"
      using put_all_same [OF frame_regs_set [OF that False] _ frame_regs_distinct(2)] by (simp add: u_def)
    moreover have "of_int (frame_off r) \<noteq> (112 :: u64)"
      using of_int_inj [of "frame_off r" 112] frame_off_range [OF that] frame_off_A0(2) [OF that False] by simp
    ultimately show ?thesis using sl [of "frame_off r"] frame_off_range [OF that] False by (simp add: M t_def)
  qed (simp add: M frame_off_A0)
  show "h_mem h' a = h_mem h a" if "a \<notin> (\<lambda>r. tf + of_int (frame_off r)) ` (- {Zero})" for a
  proof -
    have "a \<notin> slot t A0 ` snd ` set frame_regs" using frame_slots(3) [OF sl] that by blast
    moreover have "a \<noteq> tf + 112" using that frame_off_A0(1) by force
    ultimately show ?thesis by (simp add: M u_def put_all_other) (simp add: t_def)
  qed
qed

lemma userret_restores:
  assumes m: "h_mode k = SupervisorMode" "get_reg A0 k = us" "maps_frame (h_xlate k) us tf"
  defines "u \<equiv> run_code userret k"
  shows "\<And>r. r \<noteq> Zero \<Longrightarrow> get_reg r u = h_mem k (tf + of_int (frame_off r))" "h_mem u = h_mem k" "h_csrs u Satp = us" "h_pc u = h_csrs k Sepc"
    "h_mode u = (if h_csrs k Mstatus AND SSTATUS_SPP = 0 then UserMode else SupervisorMode)"
    "hw_intr_get u \<longleftrightarrow> h_csrs k Mstatus AND SSTATUS_SPIE \<noteq> 0"
proof -
  define t where "t = set_reg A0 TRAPFRAME (upd_csr Satp us k)"
  define v where "v = t\<lparr>h_regs := get_all (\<lambda>j. h_mem t (slot t A0 j)) frame_regs (h_regs t)\<rparr>"
  have sl: "slot t A0 j = tf + of_int j" if "0 \<le> j" "j < 4096" for j
    by (rule slot_frame [of _ us]) (use that m in \<open>auto simp: t_def set_reg_def upd_csr_def get_reg_def\<close>)
  have u: "u = run_code [Ld A0 112 A0, Sret] v"
    by (simp add: u_def userret_split run_loads frame_regs_distinct v_def t_def write_csr_def m)
  have v: "h_mem v = h_mem k" "h_csrs v = (h_csrs k)(Satp := us)" "h_mode v = SupervisorMode" "h_xlate v = h_xlate k"
    using m by (simp_all add: v_def t_def)
  have a0: "get_reg A0 v = TRAPFRAME" by (simp add: v_def get_reg_def get_all_other [OF frame_regs_distinct(4)]) (simp add: t_def set_reg_def)
  have pa: "h_xlate k us (TRAPFRAME + 112) = tf + 112" using m(3) spec [where x = 112, OF m(3) [unfolded maps_frame_def]] by simp
  show "h_mem u = h_mem k" "h_csrs u Satp = us" "h_pc u = h_csrs k Sepc"
    "h_mode u = (if h_csrs k Mstatus AND SSTATUS_SPP = 0 then UserMode else SupervisorMode)"
    by (simp_all add: u do_sret_def v Let_def)
  show "get_reg r u = h_mem k (tf + of_int (frame_off r))" if "r \<noteq> Zero" for r
  proof (cases "r = A0")
    case True
    then show ?thesis by (simp add: u do_sret_def Let_def load_d_def paddr_def v a0 pa frame_off_A0)
  next
    case False
    have "get_reg r v = h_mem t (slot t A0 (frame_off r))"
      using get_all_same [OF frame_regs_set [OF that False] frame_regs_distinct(1)] that by (simp add: v_def get_reg_def)
    then show ?thesis using False sl frame_off_range [OF that] by (simp add: u do_sret_def Let_def) (simp add: t_def)
  qed
  show "hw_intr_get u \<longleftrightarrow> h_csrs k Mstatus AND SSTATUS_SPIE \<noteq> 0"
    by (simp add: u do_sret_def v Let_def hw_intr_get_bit and_SSTATUS) (simp add: masked_def status_bits bit_simps)
qed

end
