(* ===== verification/Switching.thy ===== *)
theory Switching
  imports Assembly
begin

text \<open>
  What the assembly keeps: the registers of a user program across a trap and the return from it, of a kernel thread across
  \<open>swtch\<close>, and of interrupted kernel code across \<open>kernelvec\<close>.
\<close>

section \<open>The trampoline, there and back\<close>

text \<open>
  C12. A trap from user mode through \<open>uservec\<close> and a later return through \<open>userret\<close>: the trap saves the interrupted
  program counter and enters the kernel on its own stack and page table, and on return to user mode every register whose slot
  in the trapframe the kernel left alone has the value it had when the trap was taken, whatever else the kernel did.
\<close>

theorem trampoline_round_trip:
  fixes cause :: u64
  assumes user: "h_mode h = UserMode" "h_csrs h Satp = us" "maps_frame (h_xlate h) us tf"
  defines "h1 \<equiv> run_code uservec (trap_s cause h)"
  assumes kernel: "h_mode k = SupervisorMode" "get_reg A0 k = us" "h_xlate k = h_xlate h"
    and spp: "h_csrs k Mstatus AND SSTATUS_SPP = 0" and spie: "h_csrs k Mstatus AND SSTATUS_SPIE \<noteq> 0"
  shows "h_mode h1 = SupervisorMode \<and> h_csrs h1 Sepc = h_pc h \<and> h_csrs h1 Satp = h_mem h tf \<and> get_reg Sp h1 = h_mem h (tf + 8) \<and>
    h_pc h1 = h_mem h (tf + 16) \<and> get_reg Tp h1 = h_mem h (tf + 32) \<and> \<not> hw_intr_get h1 \<and>
    h_mode (run_code userret k) = UserMode \<and> h_csrs (run_code userret k) Satp = us \<and> h_pc (run_code userret k) = h_csrs k Sepc \<and>
    hw_intr_get (run_code userret k) \<and>
    (\<forall>r. h_mem k (tf + of_int (frame_off r)) = h_mem h1 (tf + of_int (frame_off r)) \<longrightarrow> get_reg r (run_code userret k) = get_reg r h)"
proof -
  let ?t = "trap_s cause h"
  have t: "h_mode ?t = SupervisorMode" "h_csrs ?t Satp = us" "maps_frame (h_xlate ?t) us tf" "h_mem ?t = h_mem h" "get_reg r ?t = get_reg r h"
    "h_csrs ?t Sepc = h_pc h" for r
    using user by (simp_all add: trap_s_def Let_def)
  have off: "\<not> bit (h_csrs ?t Mstatus) 1"
    by (simp add: trap_s_def Let_def masked_def bit_simps status_bits)
  note s = uservec_saves [OF t(1-3), folded h1_def] and u = userret_restores [OF kernel(1,2), of tf]
  have k: "maps_frame (h_xlate k) us tf" using user(3) kernel(3) by simp
  have "get_reg r (run_code userret k) = get_reg r h" if "h_mem k (tf + of_int (frame_off r)) = h_mem h1 (tf + of_int (frame_off r))" for r
  proof (cases "r = Zero")
    case True
    then show ?thesis by (simp add: get_reg_def)
  next
    case False
    then show ?thesis using u(1) [OF k False] s(1) [OF False] t(5) that by simp
  qed
  then show ?thesis using s t off u(2-6) [OF k] spp spie by (simp add: hw_intr_get_bit)
qed

theorem trampoline_round_trip_witness:
  "\<exists>h k. h_mode h = UserMode \<and> h_mem k = h_mem (run_code uservec (trap_s 8 h)) \<and> get_reg S3 h = 7 \<and> get_reg S3 k = 0 \<and>
     get_reg S3 (run_code userret k) = 7 \<and> h_mode (run_code userret k) = UserMode"
proof -
  define h where "h = \<lparr>h_regs = (\<lambda>_. 7), h_csrs = (\<lambda>_. 0), h_mode = UserMode, h_pc = 64, h_mem = (\<lambda>_. 0), h_xlate = (\<lambda>_ a. a), h_delegable = 0\<rparr>"
  define k where "k = h\<lparr>h_regs := (\<lambda>_. 0), h_csrs := (\<lambda>_. 0)(Mstatus := SSTATUS_SPIE), h_mode := SupervisorMode,
    h_mem := h_mem (run_code uservec (trap_s 8 h))\<rparr>"
  have m: "maps_frame (h_xlate h) 0 TRAPFRAME" by (simp add: maps_frame_def h_def)
  have hk: "h_mode h = UserMode" "h_csrs h Satp = 0" "h_mode k = SupervisorMode" "get_reg A0 k = 0" "h_xlate k = h_xlate h"
    "h_csrs k Mstatus AND SSTATUS_SPP = 0" "h_csrs k Mstatus AND SSTATUS_SPIE \<noteq> 0"
    by (simp_all add: h_def k_def get_reg_def and_SSTATUS status_bits) (simp add: SSTATUS_SPIE_def)
  have "get_reg S3 (run_code userret k) = get_reg S3 h" "h_mode (run_code userret k) = UserMode"
    using trampoline_round_trip [OF hk(1,2) m hk(3-7), of 8] by (simp_all add: k_def)
  then show ?thesis using hk(1) by (intro exI [of _ h] exI [of _ k]) (simp add: h_def k_def get_reg_def)
qed

section \<open>Switching kernel threads\<close>

definition ctx_regs :: "(reg \<times> int) list" where
  "ctx_regs = [(Ra, 0), (Sp, 8), (S0, 16), (S1, 24), (S2, 32), (S3, 40), (S4, 48), (S5, 56), (S6, 64), (S7, 72), (S8, 80), (S9, 88),
     (S10, 96), (S11, 104)]"

lemma swtch_split: "swtch_code = saves A0 ctx_regs @ loads A1 ctx_regs @ [Ret_ra]"
  by (simp add: swtch_code_def saves_def loads_def ctx_regs_def)

lemma ctx_regs_distinct: "distinct (map fst ctx_regs)" "distinct (map snd ctx_regs)" "Zero \<notin> fst ` set ctx_regs" "A0 \<notin> fst ` set ctx_regs"
  "A1 \<notin> fst ` set ctx_regs" "(Ra, 0) \<in> set ctx_regs" "\<forall>k\<in>snd ` set ctx_regs. 0 \<le> k \<and> k < 112"
  by (simp_all add: ctx_regs_def)

definition at_ctx :: "hart \<Rightarrow> reg \<Rightarrow> u64 \<Rightarrow> bool" where
  "at_ctx h b c \<longleftrightarrow> (\<forall>j. 0 \<le> j \<longrightarrow> j < 112 \<longrightarrow> slot h b j = c + of_int j)"

lemma at_ctx_slots:
  assumes "at_ctx h b c"
  shows "inj_on (slot h b) (snd ` set ctx_regs)" "slot h b ` snd ` set ctx_regs = (\<lambda>j. c + of_int j) ` snd ` set ctx_regs"
proof -
  have e: "slot h b j = c + of_int j" "0 \<le> j" "j < 4096" if "j \<in> snd ` set ctx_regs" for j
    using assms ctx_regs_distinct(7) that by (auto simp: at_ctx_def)
  show "inj_on (slot h b) (snd ` set ctx_regs)"
  proof (rule inj_onI)
    fix i j assume "i \<in> snd ` set ctx_regs" "j \<in> snd ` set ctx_regs" "slot h b i = slot h b j"
    then show "i = j" using e [of i] e [of j] of_int_inj [of i j] by simp
  qed
  show "slot h b ` snd ` set ctx_regs = (\<lambda>j. c + of_int j) ` snd ` set ctx_regs" by (rule image_cong) (simp_all add: e)
qed

lemma swtch_saves:
  assumes "at_ctx h A0 c" "(r, j) \<in> set ctx_regs"
  shows "h_mem (run_code swtch_code h) (c + of_int j) = get_reg r h"
proof -
  have "slot h A0 j = c + of_int j" using assms ctx_regs_distinct(7) by (force simp: at_ctx_def)
  then show ?thesis
    using put_all_same [OF assms(2) at_ctx_slots(1) [OF assms(1)] ctx_regs_distinct(2), of "\<lambda>r. get_reg r h" "h_mem h"]
    by (simp add: swtch_split run_saves run_loads ctx_regs_distinct)
qed

lemma swtch_loads:
  assumes c: "at_ctx k A1 c" "at_ctx k A0 d" and sep: "\<And>i j. i \<in> snd ` set ctx_regs \<Longrightarrow> j \<in> snd ` set ctx_regs \<Longrightarrow> d + of_int i \<noteq> c + (of_int j :: u64)"
    and r: "(r, j) \<in> set ctx_regs"
  shows "get_reg r (run_code swtch_code k) = h_mem k (c + of_int j)" "h_pc (run_code swtch_code k) = h_mem k c"
proof -
  define t where "t = k\<lparr>h_mem := put_all (slot k A0) (\<lambda>r. get_reg r k) ctx_regs (h_mem k)\<rparr>"
  have run: "run_code swtch_code k = run_code [Ret_ra] (t\<lparr>h_regs := get_all (\<lambda>j. h_mem t (slot t A1 j)) ctx_regs (h_regs t)\<rparr>)"
    by (simp add: swtch_split run_saves run_loads ctx_regs_distinct t_def)
  have g: "get_all (\<lambda>j. h_mem t (slot t A1 j)) ctx_regs (h_regs t) q = h_mem k (c + of_int i)" if q: "(q, i) \<in> set ctx_regs" for q i
  proof -
    have i: "i \<in> snd ` set ctx_regs" using q by force
    have "slot t A1 i = slot k A1 i" by (simp add: t_def slot_def paddr_def)
    also have "\<dots> = c + of_int i" using c(1) i ctx_regs_distinct(7) unfolding at_ctx_def by blast
    finally have "slot t A1 i = c + of_int i" .
    moreover have "c + of_int i \<notin> slot k A0 ` snd ` set ctx_regs"
    proof
      assume "c + of_int i \<in> slot k A0 ` snd ` set ctx_regs"
      then obtain l where "l \<in> snd ` set ctx_regs" "c + of_int i = d + of_int l" unfolding at_ctx_slots(2) [OF c(2)] by blast
      then show False using sep [of l i] i by simp
    qed
    moreover have "get_all (\<lambda>j. h_mem t (slot t A1 j)) ctx_regs (h_regs t) q = h_mem t (slot t A1 i)"
      by (rule get_all_same [OF q ctx_regs_distinct(1)])
    ultimately show ?thesis by (simp add: t_def put_all_other)
  qed
  have "q \<noteq> Zero" if "(q, i) \<in> set ctx_regs" for q i using that ctx_regs_distinct(3) by force
  then show "get_reg r (run_code swtch_code k) = h_mem k (c + of_int j)" using g [OF r] r by (simp add: run get_reg_def)
  show "h_pc (run_code swtch_code k) = h_mem k c" using g [OF ctx_regs_distinct(6)] by (simp add: run get_reg_def)
qed

text \<open>
  C13. A kernel thread that calls \<open>swtch\<close> is resumed exactly where it left: when any hart later switches to the context that
  was saved, and nobody wrote to it in between, the call of \<open>swtch\<close> returns there with the stack pointer and all callee-saved registers
  as they were.
\<close>

theorem swtch_resumes:
  assumes "at_ctx h A0 c" "at_ctx k A1 c" "at_ctx k A0 d"
    and "\<forall>j\<in>snd ` set ctx_regs. h_mem k (c + of_int j) = h_mem (run_code swtch_code h) (c + of_int j)"
    and "\<forall>i\<in>snd ` set ctx_regs. \<forall>j\<in>snd ` set ctx_regs. d + of_int i \<noteq> c + (of_int j :: u64)"
  shows "h_pc (run_code swtch_code k) = get_reg Ra h \<and> (\<forall>r\<in>fst ` set ctx_regs. get_reg r (run_code swtch_code k) = get_reg r h)"
proof -
  note l = swtch_loads [OF assms(2,3) assms(5) [rule_format]]
  have "get_reg r (run_code swtch_code k) = get_reg r h" if "(r, j) \<in> set ctx_regs" for r j
  proof -
    have "j \<in> snd ` set ctx_regs" using that by force
    then show ?thesis using l(1) [OF _ _ that] assms(4) swtch_saves [OF assms(1) that] by simp
  qed
  moreover have "0 \<in> snd ` set ctx_regs" using ctx_regs_distinct(6) by force
  then have "h_pc (run_code swtch_code k) = get_reg Ra h"
    using l(2) [OF _ _ ctx_regs_distinct(6)] assms(4) swtch_saves [OF assms(1) ctx_regs_distinct(6)] by auto
  ultimately show ?thesis by auto
qed

theorem swtch_resumes_witness:
  "\<exists>h k. get_reg S3 h = 7 \<and> get_reg S3 k = 0 \<and> get_reg Ra h = 7 \<and> get_reg S3 (run_code swtch_code k) = 7 \<and> h_pc (run_code swtch_code k) = 7"
proof -
  define h where "h = \<lparr>h_regs = (\<lambda>_. 7)(A0 := 0x1000), h_csrs = (\<lambda>_. 0), h_mode = SupervisorMode, h_pc = 64, h_mem = (\<lambda>_. 0),
    h_xlate = (\<lambda>_ a. a), h_delegable = 0\<rparr>"
  define k where "k = h\<lparr>h_regs := (\<lambda>_. 0)(A0 := 0x2000, A1 := 0x1000), h_mem := h_mem (run_code swtch_code h)\<rparr>"
  have c: "at_ctx h A0 0x1000" "at_ctx k A1 0x1000" "at_ctx k A0 0x2000"
    by (simp_all add: at_ctx_def slot_def paddr_def h_def k_def get_reg_def)
  have "\<forall>i\<in>snd ` set ctx_regs. \<forall>j\<in>snd ` set ctx_regs. 0x2000 + of_int i \<noteq> 0x1000 + (of_int j :: u64)" by (simp add: ctx_regs_def)
  moreover have "\<forall>j\<in>snd ` set ctx_regs. h_mem k (0x1000 + of_int j) = h_mem (run_code swtch_code h) (0x1000 + of_int j)" by (simp add: k_def)
  ultimately have "h_pc (run_code swtch_code k) = get_reg Ra h" "\<forall>r\<in>fst ` set ctx_regs. get_reg r (run_code swtch_code k) = get_reg r h"
    using swtch_resumes [OF c] by blast+
  moreover from this(2) have "get_reg S3 (run_code swtch_code k) = get_reg S3 h" by (auto simp: ctx_regs_def)
  ultimately show ?thesis by (intro exI [of _ h] exI [of _ k]) (simp add: h_def k_def get_reg_def)
qed

section \<open>Interrupts in the kernel\<close>

definition kv_regs :: "(reg \<times> int) list" where
  "kv_regs = [(Gp, 16), (T0, 32), (T1, 40), (T2, 48), (S0, 56), (S1, 64), (A0, 72), (A1, 80), (A2, 88), (A3, 96), (A4, 104), (A5, 112),
     (A6, 120), (A7, 128), (S2, 136), (S3, 144), (S4, 152), (S5, 160), (S6, 168), (S7, 176), (S8, 184), (S9, 192), (S10, 200),
     (S11, 208), (T3, 216), (T4, 224), (T5, 232), (T6, 240)]"

definition kv_saved :: "(reg \<times> int) list" where
  "kv_saved = (Ra, 0) # (Sp, 8) # (Gp, 16) # (Tp, 24) # tl kv_regs"

lemma kernelvec_split:
  "kernelvec_save = Addi Sp Sp (-256) # saves Sp kv_saved"
  "kernelvec_restore = [Ld Ra 0 Sp, Ld Sp 8 Sp] @ loads Sp kv_regs @ [Addi Sp Sp 256, Sret]"
  by (simp_all add: kernelvec_save_def kernelvec_restore_def saves_def loads_def kv_regs_def kv_saved_def)

lemma kv_regs_distinct: "distinct (map fst kv_regs)" "distinct (map snd kv_saved)" "Zero \<notin> fst ` set kv_regs" "Sp \<notin> fst ` set kv_regs"
  "Ra \<notin> fst ` set kv_regs" "Tp \<notin> fst ` set kv_regs" "\<forall>k\<in>snd ` set kv_saved. 0 \<le> k \<and> k < 256" "set kv_regs \<subseteq> set kv_saved" "(Ra, 0) \<in> set kv_saved" "(Sp, 8) \<in> set kv_saved"
  by (simp_all add: kv_regs_def kv_saved_def)

lemma kv_regs_all: "r \<notin> {Zero, Sp, Ra, Tp} \<Longrightarrow> \<exists>j. (r, j) \<in> set kv_regs"
  by (cases r) (simp_all add: kv_regs_def)

definition kv_frame :: "hart \<Rightarrow> u64 \<Rightarrow> u64 \<Rightarrow> bool" where
  "kv_frame h sp c \<longleftrightarrow> (\<forall>j. 0 \<le> j \<longrightarrow> j < 256 \<longrightarrow> paddr h (sp + of_int j) = c + of_int j)"

lemma kernelvec_saves:
  assumes "kv_frame h (get_reg Sp h - 256) c"
  defines "x \<equiv> run_code kernelvec_save h"
  shows "get_reg Sp x = get_reg Sp h - 256" "(Sp, 8) \<in> set kv_saved \<Longrightarrow> h_mem x (c + 8) = get_reg Sp h - 256"
    "(r, j) \<in> set kv_saved \<Longrightarrow> r \<noteq> Sp \<Longrightarrow> h_mem x (c + of_int j) = get_reg r h"
proof -
  define t where "t = set_reg Sp (get_reg Sp h + of_int (- 256)) h"
  have x: "x = t\<lparr>h_mem := put_all (slot t Sp) (\<lambda>r. get_reg r t) kv_saved (h_mem t)\<rparr>"
    by (simp add: x_def kernelvec_split run_saves t_def)
  have sl: "slot t Sp j = c + of_int j" "0 \<le> j" "j < 4096" if "j \<in> snd ` set kv_saved" for j
  proof -
    have "0 \<le> j \<and> j < 256" using kv_regs_distinct(7) that by blast
    then show "slot t Sp j = c + of_int j" "0 \<le> j" "j < 4096" using assms(1) by (auto simp: kv_frame_def slot_def t_def)
  qed
  have inj: "inj_on (slot t Sp) (snd ` set kv_saved)"
  proof (rule inj_onI)
    fix i j assume "i \<in> snd ` set kv_saved" "j \<in> snd ` set kv_saved" "slot t Sp i = slot t Sp j"
    then show "i = j" using sl [of i] sl [of j] of_int_inj [of i j] by simp
  qed
  have st: "h_mem x (c + of_int j) = get_reg r t" if "(r, j) \<in> set kv_saved" for r j
    using put_all_same [OF that inj kv_regs_distinct(2), of "\<lambda>r. get_reg r t" "h_mem t"] sl(1) [of j] that by (force simp: x)
  show "get_reg Sp x = get_reg Sp h - 256" by (simp add: x t_def)
  show "h_mem x (c + 8) = get_reg Sp h - 256" if "(Sp, 8) \<in> set kv_saved" using st [OF that] by (simp add: t_def)
  show "h_mem x (c + of_int j) = get_reg r h" if "(r, j) \<in> set kv_saved" "r \<noteq> Sp" using st [OF that(1)] that(2) by (simp add: t_def)
qed

lemma kernelvec_restores:
  assumes f: "kv_frame y sp c" and sp: "get_reg Sp y = sp" "h_mem y (c + 8) = sp"
  defines "z \<equiv> run_code kernelvec_restore y"
  shows "(r, j) \<in> set kv_regs \<Longrightarrow> get_reg r z = h_mem y (c + of_int j)" "get_reg Ra z = h_mem y c" "get_reg Sp z = sp + 256"
    "get_reg Tp z = get_reg Tp y" "h_mem z = h_mem y" "h_pc z = h_csrs y Sepc"
    "h_mode z = (if h_csrs y Mstatus AND SSTATUS_SPP = 0 then UserMode else SupervisorMode)"
proof -
  define t where "t = set_reg Ra (h_mem y c) y"
  define u where "u = t\<lparr>h_regs := get_all (\<lambda>j. h_mem t (slot t Sp j)) kv_regs (h_regs t)\<rparr>"
  have pa: "paddr y sp = c" "paddr y (sp + 8) = c + 8"
    using f [unfolded kv_frame_def, rule_format, of 0] f [unfolded kv_frame_def, rule_format, of 8] by simp_all
  have same: "set_reg Sp sp t = t" using sp(1) by (auto simp: t_def set_reg_def get_reg_def fun_upd_idem_iff)
  have z: "z = run_code [Addi Sp Sp 256, Sret] u"
    using pa sp same by (simp add: z_def kernelvec_split load_d_def) (simp add: t_def [symmetric] run_loads kv_regs_distinct u_def)
  have g: "get_all (\<lambda>j. h_mem t (slot t Sp j)) kv_regs (h_regs t) q = h_mem y (c + of_int i)" if "(q, i) \<in> set kv_regs" for q i
  proof -
    have "0 \<le> i \<and> i < 256" using kv_regs_distinct(7,8) that by force
    then have "slot t Sp i = c + of_int i" using f sp by (simp add: slot_def t_def kv_frame_def)
    then show ?thesis using get_all_same [OF that kv_regs_distinct(1), of "\<lambda>j. h_mem t (slot t Sp j)"] by (simp add: t_def)
  qed
  have o: "get_all (\<lambda>j. h_mem t (slot t Sp j)) kv_regs (h_regs t) q = h_regs t q" if "q \<in> {Sp, Ra, Tp}" for q
    using that kv_regs_distinct(4) kv_regs_distinct(5) kv_regs_distinct(6) by (intro get_all_other) (elim insertE, simp_all)
  show "get_reg r z = h_mem y (c + of_int j)" if r: "(r, j) \<in> set kv_regs"
  proof -
    have "r \<noteq> Zero" "r \<noteq> Sp" using r kv_regs_distinct(3,4) by force+
    then show ?thesis using g [OF r] by (simp add: z do_sret_def Let_def) (simp add: u_def get_reg_def)
  qed
  show "get_reg Ra z = h_mem y c" "get_reg Sp z = sp + 256" "get_reg Tp z = get_reg Tp y"
    using o sp by (simp_all add: z do_sret_def Let_def) (simp_all add: u_def get_reg_def t_def set_reg_def)
  show "h_mem z = h_mem y" "h_pc z = h_csrs y Sepc" "h_mode z = (if h_csrs y Mstatus AND SSTATUS_SPP = 0 then UserMode else SupervisorMode)"
    by (simp_all add: z do_sret_def Let_def u_def t_def)
qed

text \<open>
  C16. An interrupt in the kernel is invisible to the interrupted code: \<open>kernelvec\<close> around any \<open>kerneltrap\<close> that returns with its
  stack pointer and leaves the frame on the stack alone brings back every register but \<open>tp\<close>, which keeps the number of the hart the thread now
  runs on, and goes on at \<open>sepc\<close>.
\<close>

theorem kernelvec_transparent:
  fixes kerneltrap :: "hart \<Rightarrow> hart"
  assumes "kv_frame h (get_reg Sp h - 256) c"
  defines "x \<equiv> run_code kernelvec_save h"
  defines "y \<equiv> kerneltrap x"
  assumes "get_reg Sp y = get_reg Sp x" "kv_frame y (get_reg Sp y) c" "\<forall>j\<in>snd ` set kv_saved. h_mem y (c + of_int j) = h_mem x (c + of_int j)"
  shows "(\<forall>r. r \<noteq> Tp \<longrightarrow> get_reg r (kernelvec kerneltrap h) = get_reg r h) \<and> get_reg Tp (kernelvec kerneltrap h) = get_reg Tp y \<and>
    h_mem (kernelvec kerneltrap h) = h_mem y \<and> h_pc (kernelvec kerneltrap h) = h_csrs y Sepc \<and>
    (h_csrs y Mstatus AND SSTATUS_SPP \<noteq> 0 \<longrightarrow> h_mode (kernelvec kerneltrap h) = SupervisorMode)"
proof -
  note s = kernelvec_saves [OF assms(1), folded x_def]
  have in8: "8 \<in> snd ` set kv_saved" "0 \<in> snd ` set kv_saved" using kv_regs_distinct(9,10) by force+
  have sp: "get_reg Sp y = get_reg Sp h - 256" "h_mem y (c + 8) = get_reg Sp h - 256"
    using assms(4,6) s(1) s(2) [OF kv_regs_distinct(10)] in8 by force+
  note z = kernelvec_restores [OF _ sp]
  have k: "kernelvec kerneltrap h = run_code kernelvec_restore y" by (simp add: kernelvec_def x_def y_def)
  have f: "kv_frame y (get_reg Sp h - 256) c" using assms(5) sp(1) by simp
  have "get_reg r (run_code kernelvec_restore y) = get_reg r h" if r: "r \<noteq> Tp" for r
  proof -
    consider "r = Zero" | "r = Sp" | "r = Ra" | j where "(r, j) \<in> set kv_regs" using kv_regs_all [of r] r by blast
    then show ?thesis
    proof cases
      case 3
      have "h_mem y c = h_mem x c" using assms(6) in8(2) by force
      then show ?thesis using 3 z(2) [OF f] s(3) [OF kv_regs_distinct(9)] by simp
    next
      case 4
      then have "r \<noteq> Sp" "j \<in> snd ` set kv_saved" "(r, j) \<in> set kv_saved" using kv_regs_distinct(4,8) by force+
      then show ?thesis using z(1) [OF f 4] s(3) [of r j] assms(6) by simp
    qed (use z(3) [OF f] in \<open>simp_all add: get_reg_def\<close>)
  qed
  then show ?thesis using z(4-7) [OF f] unfolding k by simp
qed

theorem kernelvec_transparent_witness:
  "\<exists>h. get_reg A5 h = 7 \<and> get_reg A5 (set_reg A5 0 (run_code kernelvec_save h)) = 0 \<and> get_reg A5 (kernelvec (set_reg A5 0) h) = 7"
proof -
  define h where "h = \<lparr>h_regs = (\<lambda>_. 7)(Sp := 0x1000), h_csrs = (\<lambda>_. 0), h_mode = SupervisorMode, h_pc = 64, h_mem = (\<lambda>_. 0),
    h_xlate = (\<lambda>_ a. a), h_delegable = 0\<rparr>"
  have f: "kv_frame h (get_reg Sp h - 256) 0xF00" by (simp add: kv_frame_def paddr_def h_def get_reg_def)
  let ?y = "set_reg A5 0 (run_code kernelvec_save h)"
  have "get_reg Sp ?y = 0xF00" using kernelvec_saves(1) [OF f] by simp (simp add: h_def get_reg_def)
  moreover have "paddr ?y a = a" for a by (simp add: kernelvec_split run_saves paddr_def) (simp add: h_def)
  ultimately have "kv_frame ?y (get_reg Sp ?y) 0xF00" by (simp add: kv_frame_def)
  then have "get_reg A5 (kernelvec (set_reg A5 0) h) = get_reg A5 h"
    using kernelvec_transparent [OF f, of "set_reg A5 0"] by simp
  then show ?thesis by (intro exI [of _ h]) (simp, simp add: h_def get_reg_def)
qed

end
