(* ===== verification/Boot.thy ===== *)
theory Boot
  imports Assembly
begin

text \<open>
  The machine-mode side: the timer interrupt handler \<open>timervec\<close>, and the way of a hart from \<^verbatim>\<open>entry.S\<close> through
  \<open>start\<close> to \<open>main\<close>, which sets up what \<open>timervec\<close> needs.
\<close>

section \<open>Timer interrupts\<close>

lemma get_reg_Zero [simp]: "get_reg Zero h = 0"
  by (simp add: get_reg_def)

text \<open>
  The scratch area that \<open>timervec\<close> finds through \<open>mscratch\<close>: three double words to save registers, the address of the compare
  register and the interval.
\<close>

definition timer_area :: "u64 \<Rightarrow> u64 \<Rightarrow> u64 \<Rightarrow> hart \<Rightarrow> bool" where
  "timer_area sc cmp interval h \<longleftrightarrow> h_csrs h Mscratch = sc \<and> h_mem h (sc + 24) = cmp \<and> h_mem h (sc + 32) = interval \<and>
     cmp \<notin> {sc, sc + 8, sc + 16, sc + 24, sc + 32}"

lemma timervec_ok:
  assumes m: "h_mode h = MachineMode" and a: "timer_area sc cmp interval h"
  defines "h' \<equiv> run_code timervec h"
  shows "get_reg r h' = get_reg r h" "timer_area sc cmp interval h'" "h_mem h' cmp = h_mem h cmp + interval"
    "b \<notin> {sc, sc + 8, sc + 16, cmp} \<Longrightarrow> h_mem h' b = h_mem h b" "h_pc h' = h_csrs h Mepc" "h_mode h' = mpp_mode (h_csrs h Mstatus)"
    "bit (h_csrs h Mideleg) 1 \<Longrightarrow> bit (read_csr Sip h') 1"
proof -
  have f: "h_csrs h Mscratch = sc" "h_mem h (sc + 24) = cmp" "h_mem h (sc + 32) = interval"
    "cmp \<noteq> sc" "cmp \<noteq> sc + 8" "cmp \<noteq> sc + 16" "cmp \<noteq> sc + 24" "cmp \<noteq> sc + 32" using a by (auto simp: timer_area_def)
  have p: "paddr h b = b" for b using m by (simp add: paddr_def)
  have p': "paddr (upd_csr c x k) = paddr k" if "c \<noteq> Satp" for c x k using that by (auto simp: paddr_def fun_eq_iff)
  have M: "h_mem h' = (h_mem h)(sc := get_reg A1 h, sc + 8 := get_reg A2 h, sc + 16 := get_reg A3 h, cmp := h_mem h cmp + interval)"
    by (simp add: h'_def timervec_def read_csr_def write_csr_def Let_def load_d_def p p' f do_mret_def)
  show "h_mem h' cmp = h_mem h cmp + interval" "b \<notin> {sc, sc + 8, sc + 16, cmp} \<Longrightarrow> h_mem h' b = h_mem h b" by (simp_all add: M)
  show "h_pc h' = h_csrs h Mepc" "h_mode h' = mpp_mode (h_csrs h Mstatus)"
    by (simp_all add: h'_def timervec_def read_csr_def write_csr_def Let_def do_mret_def)
  have "h_csrs h' Mscratch = sc"
    by (simp add: h'_def timervec_def read_csr_def write_csr_def Let_def load_d_def p p' f do_mret_def)
  then show "timer_area sc cmp interval h'" using f by (simp add: timer_area_def M)
  show "get_reg r h' = get_reg r h"
    by (cases r) (simp_all add: h'_def timervec_def read_csr_def write_csr_def Let_def load_d_def p p' f f(4-6) [symmetric] do_mret_def)
  show "bit (read_csr Sip h') 1" if "bit (h_csrs h Mideleg) 1"
    using that by (simp add: h'_def timervec_def read_csr_def write_csr_def Let_def load_d_def p p' f do_mret_def masked_def bit_simps)
qed

section \<open>Booting a hart\<close>

lemma store_Mode [simp]: "h_mode (write_csr c x h) = h_mode h" "h_mem (write_csr c x h) = h_mem h" "get_reg r (write_csr c x h) = get_reg r h"
  by (simp_all add: write_csr_def split: csr.split)

lemma paddr_machine: "h_mode h = MachineMode \<Longrightarrow> paddr h a = a"
  by (simp add: paddr_def)

lemma hart_int_small: "unat (r_mhartid h) < 8 \<Longrightarrow> hart_int h = r_mhartid h"
proof -
  assume a: "unat (r_mhartid h) < 8"
  define n where "n = unat (r_mhartid h)"
  have x: "r_mhartid h = of_nat n" by (simp add: n_def)
  have "n = 0 \<or> n = 1 \<or> n = 2 \<or> n = 3 \<or> n = 4 \<or> n = 5 \<or> n = 6 \<or> n = 7" using a by (auto simp: n_def)
  then show ?thesis unfolding hart_int_def x by (elim disjE) simp_all
qed

lemmas csr_access = w_mstatus_def w_mepc_def w_satp_def w_medeleg_def w_mideleg_def w_sie_def w_pmpaddr0_def w_pmpcfg0_def w_mscratch_def
  w_mtvec_def w_mie_def w_tp_def r_mstatus_def r_sie_def r_mie_def r_mhartid_def

lemma timerinit_csrs:
  "h_csrs (timerinit vec scr h) = (h_csrs h)(Mscratch := scr + 40 * hart_int h, Mtvec := vec, Mstatus := h_csrs h Mstatus OR MSTATUS_MIE,
     Mie := h_csrs h Mie OR MIE_MTIE)"
  by (simp add: timerinit_def Let_def csr_access write_csr_def read_csr_def hart_int_def)

lemma timerinit_mem:
  assumes "h_mode h = MachineMode"
  shows "h_mem (timerinit vec scr h) = (h_mem h)(CLINT_MTIMECMP (hart_int h) := h_mem h CLINT_MTIME + 1000000,
     scr + 40 * hart_int h + 24 := CLINT_MTIMECMP (hart_int h), scr + 40 * hart_int h + 32 := 1000000)"
  using assms by (simp add: timerinit_def Let_def csr_access paddr_machine load_d_def)

lemma mode_bits: "bit MSTATUS_MPP_MASK n \<longleftrightarrow> n = 11 \<or> n = 12" "bit MSTATUS_MPP_S n \<longleftrightarrow> n = 11" "bit MSTATUS_MIE n \<longleftrightarrow> n = 3"
  "bit MIE_MTIE n \<longleftrightarrow> n = 7" "bit SIE_SEIE n \<longleftrightarrow> n = 9" "bit SIE_STIE n \<longleftrightarrow> n = 5" "bit SIE_SSIE n \<longleftrightarrow> n = 1"
proof -
  have e: "bit (push_bit m 1 :: u64) n \<longleftrightarrow> n = m" if "m < 64" for m using that by (auto simp only: bit_push_bit_iff bit_1_iff) simp_all
  have "(push_bit 11 3 :: u64) = push_bit 11 1 OR push_bit 12 1" by simp
  then show "bit MSTATUS_MPP_MASK n \<longleftrightarrow> n = 11 \<or> n = 12" using e [of 11] e [of 12] unfolding MSTATUS_MPP_MASK_def by (simp only: bit_or_iff)
  show "bit MSTATUS_MPP_S n \<longleftrightarrow> n = 11" "bit MSTATUS_MIE n \<longleftrightarrow> n = 3" "bit MIE_MTIE n \<longleftrightarrow> n = 7" "bit SIE_SEIE n \<longleftrightarrow> n = 9"
    "bit SIE_STIE n \<longleftrightarrow> n = 5" "bit SIE_SSIE n \<longleftrightarrow> n = 1"
    unfolding MSTATUS_MPP_S_def MSTATUS_MIE_def MIE_MTIE_def SIE_SEIE_def SIE_STIE_def SIE_SSIE_def by (rule e, simp)+
qed

lemma clear_bit0: "x AND 1 = 0 \<Longrightarrow> x AND NOT 1 = (x :: u64)"
proof (rule bit_word_eqI)
  fix n assume "x AND 1 = 0"
  then have "\<not> bit x 0" using and_bit [of 0 x] by simp
  then show "bit (x AND NOT 1) n = bit x n" if "n < LENGTH(64)" using that by (cases "n = 0") (auto simp: bit_simps)
qed

lemma timerinit_reg [simp]: "get_reg r (timerinit vec scr h) = get_reg r h" "h_mode (timerinit vec scr h) = h_mode h"
  by (simp_all add: timerinit_def Let_def csr_access)

lemma mpp_supervisor: "mpp_mode (((x AND NOT MSTATUS_MPP_MASK) OR MSTATUS_MPP_S) OR MSTATUS_MIE) = SupervisorMode"
proof -
  have "(((x AND NOT MSTATUS_MPP_MASK) OR MSTATUS_MPP_S) OR MSTATUS_MIE) AND MSTATUS_MPP_MASK = MSTATUS_MPP_S"
  proof (rule bit_word_eqI)
    fix n :: nat assume "n < LENGTH(64)"
    have m: "bit MSTATUS_MPP_MASK n \<longleftrightarrow> n = 11 \<or> n = 12" "bit MSTATUS_MPP_S n \<longleftrightarrow> n = 11" "bit MSTATUS_MIE n \<longleftrightarrow> n = 3"
      by (rule mode_bits)+
    then show "bit ((((x AND NOT MSTATUS_MPP_MASK) OR MSTATUS_MPP_S) OR MSTATUS_MIE) AND MSTATUS_MPP_MASK) n = bit MSTATUS_MPP_S n"
      by (auto simp: bit_simps)
  qed
  moreover have "MSTATUS_MPP_S \<noteq> MSTATUS_MPP_M" by (simp add: MSTATUS_MPP_S_def MSTATUS_MPP_M_def)
  ultimately show ?thesis by (simp add: mpp_mode_def)
qed

lemma entry_sp:
  "run_code (entry_code stack0) h = h\<lparr>h_regs := (h_regs h)(Sp := stack0 + 4096 * (h_csrs h Mhartid + 1), A0 := 4096 * (h_csrs h Mhartid + 1), A1 := h_csrs h Mhartid + 1)\<rparr>"
  by (simp add: entry_code_def read_csr_def set_reg_def get_reg_def fun_upd_twist)

definition before_timer :: "u64 \<Rightarrow> hart \<Rightarrow> hart" where
  "before_timer main h = h\<lparr>h_csrs := (h_csrs h)(Mstatus := (h_csrs h Mstatus AND NOT MSTATUS_MPP_MASK) OR MSTATUS_MPP_S, Mepc := main AND NOT 1, Satp := 0,
     Medeleg := 0xffff, Mideleg := 0xffff AND h_delegable h,
     Mie := masked (0xffff AND h_delegable h) (h_csrs h Mie)
       (h_csrs h Mie AND (0xffff AND h_delegable h) OR SIE_SEIE OR SIE_STIE OR SIE_SSIE),
     Pmpaddr0 := 0x3fffffffffffff, Pmpcfg0 := 0xf)\<rparr>"

lemma start_split:
  "start main vec scr h = (let h = timerinit vec scr (before_timer main h) in do_mret (w_tp (hart_int h) h))"
  by (simp add: start_def before_timer_def csr_access write_csr_def read_csr_def Let_def upd_csr_def)



text \<open>
  C15. The timer interrupt handler is invisible to whatever it interrupts: it changes no register, touches only its scratch area
  and the compare register, which it moves one interval ahead so that the next interrupt will come, raises a supervisor
  software interrupt, and returns to the interrupted instruction in the interrupted mode, ready for the next time.
\<close>

theorem timervec_transparent:
  assumes "h_mode h = MachineMode" "timer_area sc cmp interval h" "bit (h_csrs h Mideleg) 1"
  shows "(\<forall>r. get_reg r (run_code timervec h) = get_reg r h) \<and> timer_area sc cmp interval (run_code timervec h) \<and>
    h_mem (run_code timervec h) cmp = h_mem h cmp + interval \<and>
    (\<forall>b. b \<notin> {sc, sc + 8, sc + 16, cmp} \<longrightarrow> h_mem (run_code timervec h) b = h_mem h b) \<and>
    bit (read_csr Sip (run_code timervec h)) 1 \<and>
    h_pc (run_code timervec h) = h_csrs h Mepc \<and> h_mode (run_code timervec h) = mpp_mode (h_csrs h Mstatus)"
  using timervec_ok [OF assms(1,2)] assms(3) by blast

theorem timervec_transparent_witness:
  "\<exists>h. get_reg A3 h = 7 \<and> get_reg A3 (run_code timervec h) = 7 \<and> h_mem h 0x2004000 = 100 \<and> h_mem (run_code timervec h) 0x2004000 = 1000100 \<and>
     h_mode (run_code timervec h) = UserMode"
proof -
  define h where "h = \<lparr>h_regs = (\<lambda>_. 7), h_csrs = (\<lambda>_. 0)(Mscratch := 0x80001000, Mideleg := 2), h_mode = MachineMode, h_pc = 0,
    h_mem = (\<lambda>_. 0)(0x80001018 := 0x2004000, 0x80001020 := 1000000, 0x2004000 := 100), h_xlate = (\<lambda>_ a. a), h_delegable = 0\<rparr>"
  have h: "h_mode h = MachineMode" "timer_area 0x80001000 0x2004000 1000000 h" "bit (h_csrs h Mideleg) 1"
    by (simp_all add: h_def timer_area_def)
  have "get_reg A3 (run_code timervec h) = get_reg A3 h" "h_mem (run_code timervec h) 0x2004000 = h_mem h 0x2004000 + 1000000"
    "h_mode (run_code timervec h) = mpp_mode (h_csrs h Mstatus)" using timervec_transparent [OF h] by blast+
  moreover have "get_reg A3 h = 7" "h_mem h 0x2004000 = 100" "mpp_mode (h_csrs h Mstatus) = UserMode"
    by (simp_all add: h_def get_reg_def mpp_mode_def MSTATUS_MPP_M_def MSTATUS_MPP_S_def)
  ultimately show ?thesis by (intro exI [of _ h]) simp
qed

section \<open>Interrupt enabling\<close>

text \<open>The accessors of \<open>riscv.h\<close> implement the flag that the spin locks use, and change nothing else.\<close>

lemma hw_intr: "hw_intr_get (hw_intr_on h)" "\<not> hw_intr_get (hw_intr_off h)" "n < 64 \<Longrightarrow> n \<noteq> 1 \<Longrightarrow> bit (h_csrs (hw_intr_on h) Mstatus) n = bit (h_csrs h Mstatus) n"
  "n < 64 \<Longrightarrow> n \<noteq> 1 \<Longrightarrow> bit (h_csrs (hw_intr_off h) Mstatus) n = bit (h_csrs h Mstatus) n"
  by (auto simp: hw_intr_get_bit hw_intr_on_def hw_intr_off_def w_sstatus_def r_sstatus_def write_csr_def read_csr_def masked_def bit_simps
      status_bits sstatus_mask_def)

end
