(* ===== verification/Ulib.thy ===== *)
theory Ulib
  imports Printf
begin

text \<open>
  The user library, \<^verbatim>\<open>user/ulib.c\<close>. A pointer to a zero-terminated string that is only
  read is the list of the characters before the zero; \<open>deref\<close> is the character it points to
  and \<open>tl\<close> the incremented pointer. Character arrays that are written are functions
  from offsets to bytes. The input of \<open>gets\<close> is the list of characters
  that successive calls of \<open>read\<close> deliver; its end is a result below one.
\<close>

section \<open>Strings\<close>

definition NUL :: char where "NUL = CHR 0x00"

definition deref :: "string \<Rightarrow> char" where
  "deref s = (case s of [] \<Rightarrow> NUL | c # cs \<Rightarrow> c)"

definition uchar :: "char \<Rightarrow> int" where
  "uchar c = of_char c"

text \<open>A list that is the contents of a zero-terminated string.\<close>

definition cstring :: "string \<Rightarrow> bool" where
  "cstring s \<longleftrightarrow> NUL \<notin> set s"

fun strcmp :: "string \<Rightarrow> string \<Rightarrow> int" where
  "strcmp p q = (if p \<noteq> [] \<and> hd p = deref q then strcmp (tl p) (tl q) else uchar (deref p) - uchar (deref q))"

declare strcmp.simps [simp del]

definition ustrlen :: "string \<Rightarrow> nat" where
  "ustrlen s = length s"

primrec strchr :: "string \<Rightarrow> char \<Rightarrow> string option" where
  "strchr [] c = None"
| "strchr (d # s) c = (if d = c then Some (d # s) else strchr s c)"

definition isdig :: "char \<Rightarrow> bool" where
  "isdig c \<longleftrightarrow> uchar CHR ''0'' \<le> uchar c \<and> uchar c \<le> uchar CHR ''9''"

fun atoi_from :: "u32 \<Rightarrow> string \<Rightarrow> u32" where
  "atoi_from n s = (if s \<noteq> [] \<and> isdig (hd s)
     then atoi_from (n * 10 + word_of_int (uchar (hd s)) - word_of_int (uchar CHR ''0'')) (tl s) else n)"

declare atoi_from.simps [simp del]

definition atoi :: "string \<Rightarrow> int" where
  "atoi s = sint (atoi_from 0 s)"

section \<open>Character arrays\<close>

type_synonym carray = "nat \<Rightarrow> char"

text \<open>The text of the string at offset \<open>i\<close> of an array is \<open>s\<close>.\<close>

definition holds_str :: "carray \<Rightarrow> nat \<Rightarrow> string \<Rightarrow> bool" where
  "holds_str a i s \<longleftrightarrow> cstring s \<and> (\<forall>j<length s. a (i + j) = s ! j) \<and> a (i + length s) = NUL"

primrec strcpy :: "carray \<Rightarrow> nat \<Rightarrow> string \<Rightarrow> carray" where
  "strcpy a i [] = a(i := NUL)"
| "strcpy a i (c # t) = strcpy (a(i := c)) (Suc i) t"

text \<open>The loop of \<open>gets\<close> with the bound \<open>i + 1 < nmax\<close>; the rest of the input is returned.\<close>

function gets_from :: "nat \<Rightarrow> nat \<Rightarrow> carray \<Rightarrow> string \<Rightarrow> carray \<times> nat \<times> string" where
  "gets_from nmax i buf inp =
     (if i + 1 < nmax then
        (case inp of
           [] \<Rightarrow> (buf, i, inp)
         | c # inp \<Rightarrow>
             if c = CHR 0x0A \<or> c = CHR 0x0D then (buf(i := c), Suc i, inp)
             else gets_from nmax (Suc i) (buf(i := c)) inp)
      else (buf, i, inp))"
  by pat_completeness auto
termination by (relation "measure (\<lambda>(nmax, i, buf, inp). nmax - i)") auto

declare gets_from.simps [simp del]

definition gets :: "nat \<Rightarrow> carray \<Rightarrow> string \<Rightarrow> carray \<times> string" where
  "gets nmax buf inp = (case gets_from nmax 0 buf inp of (buf, i, inp) \<Rightarrow> (buf(i := NUL), inp))"

text \<open>The user-level \<open>memmove\<close> copies upwards exactly when the source lies above the destination.\<close>

definition umemmove :: "mem \<Rightarrow> u64 \<Rightarrow> u64 \<Rightarrow> nat \<Rightarrow> mem" where
  "umemmove m dst src n =
     (if dst < src then copy_up n dst src m else copy_down n (dst + of_nat n) (src + of_nat n) m)"

definition umemcpy :: "mem \<Rightarrow> u64 \<Rightarrow> u64 \<Rightarrow> nat \<Rightarrow> mem" where
  "umemcpy m dst src n = umemmove m dst src n"

fun umemcmp :: "string \<Rightarrow> string \<Rightarrow> nat \<Rightarrow> int" where
  "umemcmp p1 p2 0 = 0"
| "umemcmp p1 p2 (Suc n) =
     (if hd p1 \<noteq> hd p2 then uchar (hd p1) - uchar (hd p2) else umemcmp (tl p1) (tl p2) n)"

definition umemset :: "mem \<Rightarrow> u64 \<Rightarrow> u32 \<Rightarrow> u32 \<Rightarrow> mem" where
  "umemset m dst c n = fold (\<lambda>i m. m(dst + of_nat i := ucast c)) [0..<unat n] m"

section \<open>Lemmas\<close>

lemma upt_split: "i \<le> j \<Longrightarrow> j < n \<Longrightarrow> [i..<n] = [i..<j] @ j # [Suc j..<n]"
  using upt_add_eq_append [of i j "n - j"] upt_conv_Cons [of j n] by simp

lemma deref_simps [simp]: "deref [] = NUL" "deref (c # s) = c"
  by (simp_all add: deref_def)

lemma cstring_simps [simp]:
  "cstring []" "cstring (c # s) \<longleftrightarrow> c \<noteq> NUL \<and> cstring s" "cstring (s @ t) \<longleftrightarrow> cstring s \<and> cstring t"
  by (auto simp: cstring_def)

lemma uchar_inj [simp]: "uchar c = uchar d \<longleftrightarrow> c = d"
  by (simp add: uchar_def)

lemma strcmp_Cons [simp]: "strcmp (c # p) (c # q) = strcmp p q"
  by (subst strcmp.simps) simp

lemma strcmp_diff: "p = [] \<or> hd p \<noteq> deref q \<Longrightarrow> strcmp p q = uchar (deref p) - uchar (deref q)"
  by (subst strcmp.simps) auto

lemma uchar_NUL [simp]: "uchar NUL = 0" "0 \<le> uchar c" "uchar c < 256" "uchar c = 0 \<longleftrightarrow> c = NUL"
proof -
  show n: "uchar NUL = 0" by (simp add: uchar_def NUL_def)
  have "of_char c mod 256 = (of_char c :: int)" by (rule of_char_mod_256)
  then show "0 \<le> uchar c" "uchar c < 256"
    using pos_mod_sign [of 256 "of_char c"] pos_mod_bound [of 256 "of_char c"] by (simp_all add: uchar_def)
  show "uchar c = 0 \<longleftrightarrow> c = NUL" using n uchar_inj by metis
qed

text \<open>The order of \<open>strcmp\<close>: the first difference decides, and a proper prefix is smaller.\<close>

fun str_less :: "string \<Rightarrow> string \<Rightarrow> bool" where
  "str_less [] q \<longleftrightarrow> q \<noteq> []"
| "str_less (c # p) [] \<longleftrightarrow> False"
| "str_less (c # p) (d # q) \<longleftrightarrow> uchar c < uchar d \<or> c = d \<and> str_less p q"

lemma strcmp_order:
  assumes "cstring p" "cstring q"
  shows "(strcmp p q = 0 \<longleftrightarrow> p = q) \<and> (strcmp p q < 0 \<longleftrightarrow> str_less p q)"
  using assms
proof (induction p q rule: str_less.induct)
  case (1 q)
  then show ?case by (cases q) (auto simp: strcmp_diff order.strict_iff_order)
next
  case (2 c p)
  then show ?case using uchar_NUL(2,4) [of c] by (auto simp: strcmp_diff simp del: uchar_NUL(2))
next
  case (3 c p d q)
  then show ?case by (cases "c = d") (auto simp: strcmp_diff)
qed

lemma strcpy_apply:
  "strcpy a i s j = (if i \<le> j \<and> j < i + length s then s ! (j - i) else if j = i + length s then NUL else a j)"
proof (induction s arbitrary: a i)
  case (Cons c s)
  then show ?case by (cases "j = i") (auto simp: nth_Cons')
qed auto

lemma strcpy_holds: "cstring s \<Longrightarrow> holds_str (strcpy a i s) i s"
  by (simp add: holds_str_def strcpy_apply)

text \<open>The characters \<open>gets\<close> stores: up to and with the first line end, at most \<open>n\<close>.\<close>

fun first_line :: "nat \<Rightarrow> string \<Rightarrow> string" where
  "first_line 0 inp = []"
| "first_line (Suc n) [] = []"
| "first_line (Suc n) (c # inp) = (if c = CHR 0x0A \<or> c = CHR 0x0D then [c] else c # first_line n inp)"

lemma first_line_prefix: "first_line n inp = take (length (first_line n inp)) inp" "length (first_line n inp) \<le> n"
  by (induction n inp rule: first_line.induct) auto

lemma gets_from_eq:
  "gets_from nmax i buf inp =
     ((\<lambda>j. if i \<le> j \<and> j < i + length (first_line (nmax - 1 - i) inp) then first_line (nmax - 1 - i) inp ! (j - i) else buf j),
      i + length (first_line (nmax - 1 - i) inp), drop (length (first_line (nmax - 1 - i) inp)) inp)"
proof (induction nmax i buf inp rule: gets_from.induct)
  case (1 nmax i buf inp)
  show ?case
  proof (cases "i + 1 < nmax")
    case False
    then have "nmax - 1 - i = 0" by simp
    then show ?thesis using False by (subst gets_from.simps) (auto simp: fun_eq_iff)
  next
    case True
    then obtain n where n: "nmax - 1 - i = Suc n" "nmax - 1 - Suc i = n" by (cases "nmax - 1 - i") auto
    show ?thesis
    proof (cases inp)
      case Nil
      then show ?thesis using True n by (subst gets_from.simps) (auto simp: fun_eq_iff)
    next
      case (Cons c cs)
      show ?thesis
      proof (cases "c = CHR 0x0A \<or> c = CHR 0x0D")
        case nl: True
        then show ?thesis using True n Cons by (subst gets_from.simps) (auto simp: fun_eq_iff)
      next
        case nl: False
        then have e: "gets_from nmax i buf inp = gets_from nmax (Suc i) (buf(i := c)) cs"
          using True Cons by (subst gets_from.simps) auto
        show ?thesis
          unfolding e 1 [OF True Cons nl] using n Cons nl by (auto simp: fun_eq_iff nth_Cons')
      qed
    qed
  qed
qed

text \<open>
  C33. \<open>gets\<close> reads one line. The buffer then holds, zero-terminated, the input up to and with
  the first newline or carriage return, or its first \<open>nmax - 1\<close> characters; no byte at or
  beyond offset \<open>nmax\<close> changes, and exactly the stored characters are consumed.
\<close>

theorem gets_line:
  assumes "0 < nmax"
  shows "gets nmax buf inp = (b, rest) \<Longrightarrow>
     (\<forall>j. b j = (if j < length (first_line (nmax - 1) inp) then inp ! j
                  else if j = length (first_line (nmax - 1) inp) then NUL else buf j))
     \<and> length (first_line (nmax - 1) inp) < nmax \<and> rest = drop (length (first_line (nmax - 1) inp)) inp"
proof -
  let ?l = "first_line (nmax - 1) inp"
  assume g: "gets nmax buf inp = (b, rest)"
  have "?l ! j = inp ! j" if "j < length ?l" for j
    using that first_line_prefix(1) [of "nmax - 1" inp] by (metis nth_take)
  moreover have "length ?l < nmax" using first_line_prefix(2) [of "nmax - 1" inp] assms by linarith
  ultimately show ?thesis using g by (auto simp: gets_def gets_from_eq)
qed

theorem gets_line_witness:
  "gets 100 (\<lambda>_. CHR ''x'') [CHR ''l'', CHR ''s'', CHR 0x0A, CHR ''q''] =
     ((\<lambda>_. CHR ''x'')(0 := CHR ''l'', 1 := CHR ''s'', 2 := CHR 0x0A, 3 := NUL), [CHR ''q''])"
proof -
  obtain b r where g: "gets 100 (\<lambda>_. CHR ''x'') [CHR ''l'', CHR ''s'', CHR 0x0A, CHR ''q''] = (b, r)" by fastforce
  have f: "first_line (100 - 1) [CHR ''l'', CHR ''s'', CHR 0x0A, CHR ''q''] = [CHR ''l'', CHR ''s'', CHR 0x0A]"
    by (simp add: eval_nat_numeral)
  show ?thesis
    using gets_line [OF _ g] unfolding g f by (auto simp: fun_eq_iff nth_Cons')
qed

lemma copy_down_same: "copy_down n d d m = m"
  by (induction n arbitrary: d m) auto



text \<open>Digits.\<close>

lemma digit_loop_length:
  assumes "1 < base" "unat x < unat base ^ k" "0 < k"
  shows "length (digit_loop ds base x) \<le> k"
  using assms(2,3)
proof (induction k arbitrary: x)
  case (Suc k)
  show ?case
  proof (cases "x div base = 0")
    case True
    then show ?thesis using assms(1) by (subst digit_loop.simps) simp
  next
    case False
    have "unat (x div base) < unat base ^ k"
      using Suc.prems(1) by (simp add: unat_div less_mult_imp_div_less mult.commute)
    moreover have "0 < k" using calculation False by (cases k) (auto simp: unat_eq_0)
    ultimately have "length (digit_loop ds base (x div base)) \<le> k" by (rule Suc.IH)
    then show ?thesis using assms(1) by (subst digit_loop.simps) simp
  qed
qed simp

text \<open>
  C36. The digit buffer of \<open>printint\<close>, an array of 16 characters in the kernel and in the user
  library, is never overrun: for both bases that the callers use, at most eleven characters
  are stored, the sign included.
\<close>

theorem printint_buf_bound:
  assumes "base = 10 \<or> base = 16"
  shows "length (printint_buf ds xx base sign) \<le> 11"
proof -
  have l: "length (digit_loop ds base x) \<le> 10" for x
  proof -
    have "unat x < 2 ^ 32" using unsigned_less [of x] by simp
    then have "unat x < unat base ^ 10" using assms by auto
    then show ?thesis using assms by (intro digit_loop_length) auto
  qed
  show ?thesis using l [of "word_of_int xx"] l [of "word_of_int (- xx)"] by (auto simp: printint_buf_def Let_def)
qed

theorem printint_buf_bound_witness:
  "length (printint_buf kdigits (- 2147483648) 10 True) \<le> 11"
  by (rule printint_buf_bound) simp

lemma atoi_from_Cons: "isdig c \<Longrightarrow> atoi_from n (c # s) = atoi_from (n * 10 + word_of_int (uchar c) - word_of_int (uchar CHR ''0'')) s"
  by (subst atoi_from.simps) simp

lemma atoi_from_Nil: "atoi_from n [] = n"
  by (subst atoi_from.simps) simp

lemma atoi_from_append: "\<forall>c\<in>set s. isdig c \<Longrightarrow> atoi_from n (s @ t) = atoi_from (atoi_from n s) t"
  by (induction s arbitrary: n) (simp_all add: atoi_from_Cons atoi_from_Nil)

lemma decimal_digits:
  assumes "d < 10"
  shows "isdig (udigits ! d)" "uchar (udigits ! d) = uchar CHR ''0'' + int d"
proof -
  have "list_all (\<lambda>d. isdig (udigits ! d) \<and> uchar (udigits ! d) = uchar CHR ''0'' + int d) [0..<10]" by code_simp
  then show "isdig (udigits ! d)" "uchar (udigits ! d) = uchar CHR ''0'' + int d"
    using assms by (auto simp: list_all_iff)
qed

lemma unat_mod_ten: "unat (x mod 10 :: u32) < 10"
  by (simp add: unat_mod)

lemma digit_loop_decimal:
  "\<forall>c\<in>set (digit_loop udigits 10 x). isdig c"
  "atoi_from 0 (rev (digit_loop udigits 10 x)) = x"
proof (induction "unat x" arbitrary: x rule: less_induct)
  case less
  have dec: "unat (x div 10) < unat x" if "x div 10 \<noteq> 0"
    using that by (cases "x = 0") (auto simp: unat_div unat_gt_0 intro!: div_less_dividend)
  let ?d = "udigits ! unat (x mod 10)"
  have e: "digit_loop udigits 10 x = ?d # (if x div 10 \<noteq> 0 then digit_loop udigits 10 (x div 10) else [])"
    by (subst digit_loop.simps) simp
  note D = decimal_digits [OF unat_mod_ten [of x]]
  have ih: "x div 10 \<noteq> 0 \<Longrightarrow> \<forall>c\<in>set (digit_loop udigits 10 (x div 10)). isdig c"
    "x div 10 \<noteq> 0 \<Longrightarrow> atoi_from 0 (rev (digit_loop udigits 10 (x div 10))) = x div 10"
    using less [OF dec] by blast+
  {
    case 1
    show ?case unfolding e using ih(1) D(1) by auto
  next
    case 2
    have "word_of_int (uchar ?d) = word_of_int (uchar CHR ''0'') + x mod 10"
      unfolding D(2) by simp
    moreover have "atoi_from 0 (rev (digit_loop udigits 10 x)) = atoi_from (x div 10) [?d]"
      unfolding e using ih by (auto simp: atoi_from_append atoi_from_Nil)
    moreover have "x div 10 * 10 + x mod 10 = x" by (rule div_mult_mod_eq)
    ultimately show ?case using D(1) by (simp add: atoi_from_Cons atoi_from_Nil)
  }
qed



end
