(* ===== verification/Grep.thy ===== *)
theory Grep
  imports Ulib
begin

text \<open>
  \<^verbatim>\<open>user/grep.c\<close>: the regular expression matcher and the search loop. Strings that are only read
  are lists as in \<open>Ulib\<close>. The meaning of a pattern is given as a language of strings.
\<close>

section \<open>The matcher\<close>

text \<open>
  A \<open>*\<close> takes the loop of \<open>matchstar\<close>, which tries the rest of the pattern at every position that
  the repeated character allows.
\<close>

function matchhere :: "string \<Rightarrow> string \<Rightarrow> bool"
  and matchstar :: "char \<Rightarrow> string \<Rightarrow> string \<Rightarrow> bool" where
  "matchhere re tx =
     (if re = [] then True
      else if deref (tl re) = CHR ''*'' then matchstar (hd re) (tl (tl re)) tx
      else if hd re = CHR ''$'' \<and> tl re = [] then tx = []
      else if tx \<noteq> [] \<and> (hd re = CHR ''.'' \<or> hd re = hd tx) then matchhere (tl re) (tl tx)
      else False)"
| "matchstar c re tx =
     (if matchhere re tx then True
      else if tx \<noteq> [] \<and> (hd tx = c \<or> c = CHR ''.'') then matchstar c re (tl tx)
      else False)"
  by pat_completeness auto
termination
  by (relation "inv_image (less_than <*lex*> less_than)
        (\<lambda>x. case x of Inl (re, tx) \<Rightarrow> (2 * length re, length tx) | Inr (c, re, tx) \<Rightarrow> (2 * length re + 1, length tx))")
    (auto simp: neq_Nil_conv NUL_def split: list.splits)

declare matchhere.simps [simp del] matchstar.simps [simp del]

primrec match_any :: "string \<Rightarrow> string \<Rightarrow> bool" where
  "match_any re [] = matchhere re []"
| "match_any re (c # tx) = (if matchhere re (c # tx) then True else match_any re tx)"

definition match :: "string \<Rightarrow> string \<Rightarrow> bool" where
  "match re tx = (if deref re = CHR ''^'' then matchhere (tl re) tx else match_any re tx)"

section \<open>Regular expressions\<close>

datatype ritem = One "char option" | Many "char option"

text \<open>\<open>None\<close> is the dot. The flag says whether the expression ends with a dollar sign.\<close>

definition atom :: "char \<Rightarrow> char option" where
  "atom c = (if c = CHR ''.'' then None else Some c)"

fun parse_re :: "string \<Rightarrow> ritem list \<times> bool" where
  "parse_re [] = ([], False)"
| "parse_re [c] = (if c = CHR ''$'' then ([], True) else ([One (atom c)], False))"
| "parse_re (c # d # re) =
     (if d = CHR ''*'' then (case parse_re re of (js, e) \<Rightarrow> (Many (atom c) # js, e))
      else (case parse_re (d # re) of (js, e) \<Rightarrow> (One (atom c) # js, e)))"

definition fits :: "char option \<Rightarrow> char \<Rightarrow> bool" where
  "fits a c \<longleftrightarrow> a = None \<or> a = Some c"

primrec item_lang :: "ritem \<Rightarrow> string set" where
  "item_lang (One a) = {[c] | c. fits a c}"
| "item_lang (Many a) = {u. \<forall>c\<in>set u. fits a c}"

primrec re_lang :: "ritem list \<Rightarrow> string set" where
  "re_lang [] = {[]}"
| "re_lang (i # js) = {u @ v | u v. u \<in> item_lang i \<and> v \<in> re_lang js}"

text \<open>A text with the parts before, in and behind the match.\<close>

definition re_matches :: "bool \<Rightarrow> ritem list \<Rightarrow> bool \<Rightarrow> string \<Rightarrow> bool" where
  "re_matches caret js dollar tx \<longleftrightarrow> (\<exists>p u q. tx = p @ u @ q \<and> u \<in> re_lang js \<and> (caret \<longrightarrow> p = []) \<and> (dollar \<longrightarrow> q = []))"

definition here :: "ritem list \<times> bool \<Rightarrow> string \<Rightarrow> bool" where
  "here x tx \<longleftrightarrow> (\<exists>u q. tx = u @ q \<and> u \<in> re_lang (fst x) \<and> (snd x \<longrightarrow> q = []))"

lemma here_Cons: "here (i # js, e) tx \<longleftrightarrow> (\<exists>u t. tx = u @ t \<and> u \<in> item_lang i \<and> here (js, e) t)"
proof
  assume "here (i # js, e) tx"
  then obtain w q where w: "tx = w @ q" "w \<in> re_lang (i # js)" "e \<longrightarrow> q = []"
    by (auto simp: here_def simp del: re_lang.simps)
  then obtain u v where "w = u @ v" "u \<in> item_lang i" "v \<in> re_lang js" by auto
  with w have "tx = u @ (v @ q) \<and> u \<in> item_lang i \<and> here (js, e) (v @ q)" unfolding here_def by auto
  then show "\<exists>u t. tx = u @ t \<and> u \<in> item_lang i \<and> here (js, e) t" by blast
next
  assume "\<exists>u t. tx = u @ t \<and> u \<in> item_lang i \<and> here (js, e) t"
  then obtain u v q where "tx = (u @ v) @ q" "u \<in> item_lang i" "v \<in> re_lang js" "e \<longrightarrow> q = []"
    unfolding here_def by auto
  then have "tx = (u @ v) @ q \<and> u @ v \<in> re_lang (i # js) \<and> (e \<longrightarrow> q = [])" by auto
  then show "here (i # js, e) tx" unfolding here_def fst_conv snd_conv by blast
qed

lemma here_One: "here (One a # js, e) tx \<longleftrightarrow> (\<exists>c t. tx = c # t \<and> fits a c \<and> here (js, e) t)"
  unfolding here_Cons by (auto, metis append_Cons append_Nil)

lemma here_Nil: "here ([], e) t \<longleftrightarrow> (e \<longrightarrow> t = [])"
  by (auto simp: here_def)

lemma here_Many: "here (Many a # js, e) tx \<longleftrightarrow> here (js, e) tx \<or> (\<exists>c t. tx = c # t \<and> fits a c \<and> here (Many a # js, e) t)"
proof
  assume "here (Many a # js, e) tx"
  then obtain u t where u: "tx = u @ t" "\<forall>c\<in>set u. fits a c" "here (js, e) t" unfolding here_Cons by auto
  show "here (js, e) tx \<or> (\<exists>c t. tx = c # t \<and> fits a c \<and> here (Many a # js, e) t)"
  proof (cases u)
    case (Cons c w)
    then have "here (Many a # js, e) (w @ t)" using u unfolding here_Cons by auto
    then show ?thesis using Cons u by auto
  qed (use u in simp)
next
  assume "here (js, e) tx \<or> (\<exists>c t. tx = c # t \<and> fits a c \<and> here (Many a # js, e) t)"
  then show "here (Many a # js, e) tx"
  proof
    assume "here (js, e) tx"
    then have "tx = [] @ tx \<and> [] \<in> item_lang (Many a) \<and> here (js, e) tx" by simp
    then show ?thesis unfolding here_Cons by blast
  next
    assume "\<exists>c t. tx = c # t \<and> fits a c \<and> here (Many a # js, e) t"
    then obtain c u t where "tx = (c # u) @ t" "fits a c" "\<forall>c\<in>set u. fits a c" "here (js, e) t"
      unfolding here_Cons by auto
    then have "tx = (c # u) @ t \<and> c # u \<in> item_lang (Many a) \<and> here (js, e) t" by simp
    then show ?thesis unfolding here_Cons by blast
  qed
qed

lemma fits_atom: "fits (atom c) d \<longleftrightarrow> c = CHR ''.'' \<or> d = c"
  by (auto simp: fits_def atom_def)

lemma matchhere_here:
  "matchhere re tx \<longleftrightarrow> here (parse_re re) tx"
  "matchstar c re tx \<longleftrightarrow> here (Many (atom c) # fst (parse_re re), snd (parse_re re)) tx"
proof (induction re tx and c re tx rule: matchhere_matchstar.induct)
  case (1 re tx)
  show ?case
  proof (cases re rule: parse_re.cases)
    case 1
    then show ?thesis by (subst matchhere.simps) (simp add: here_def)
  next
    case (2 c)
    then show ?thesis using "1.IH"(2)
      by (subst matchhere.simps) (cases tx; auto simp: here_Nil here_One matchhere.simps [of "[]"] NUL_def fits_atom)
  next
    case (3 c d r)
    show ?thesis
    proof (cases "d = CHR ''*''")
      case True
      then show ?thesis using "1.IH"(1) 3 by (subst matchhere.simps) (simp split: prod.split)
    next
      case False
      then have e: "matchhere re tx \<longleftrightarrow> tx \<noteq> [] \<and> fits (atom c) (hd tx) \<and> matchhere (d # r) (tl tx)"
        using 3 by (subst matchhere.simps) (auto simp: fits_atom)
      show ?thesis
        unfolding e using "1.IH"(2) 3 False
        by (cases tx) (auto simp: here_One fits_atom split: prod.splits)
    qed
  qed
next
  case (2 c re tx)
  show ?case
    using 2 by (subst matchstar.simps, subst here_Many) (cases tx; auto simp: fits_atom)
qed

lemma re_matches_here:
  "re_matches True js e tx \<longleftrightarrow> here (js, e) tx"
  "re_matches False js e tx \<longleftrightarrow> (\<exists>p t. tx = p @ t \<and> here (js, e) t)"
  by (simp_all add: re_matches_def here_def) blast

text \<open>
  C28. The matcher of \<open>grep\<close> agrees with the meaning of regular expressions: it accepts a text exactly
  when some part of the text is in the language of the parsed pattern, at the start of the text if
  the pattern begins with a caret and at its end if it ends with a dollar sign.
\<close>

theorem match_regular:
  "match re tx \<longleftrightarrow>
     (let caret = deref re = CHR ''^''; (js, dollar) = parse_re (if caret then tl re else re)
      in re_matches caret js dollar tx)"
proof -
  have any: "match_any re tx \<longleftrightarrow> re_matches False (fst (parse_re re)) (snd (parse_re re)) tx"
    unfolding re_matches_here(2)
  proof (induction tx)
    case Nil
    then show ?case by (simp add: matchhere_here)
  next
    case (Cons c tx)
    then show ?case by (auto simp: matchhere_here Cons_eq_append_conv)
  qed
  show ?thesis
    by (cases "parse_re (if deref re = CHR ''^'' then tl re else re)")
      (auto simp: match_def any matchhere_here re_matches_here(1) Let_def)
qed

section \<open>Searching a file\<close>

abbreviation NL :: char where "NL \<equiv> CHR 0x0A"

text \<open>
  The lines of the buffer. \<open>strchr\<close> stops at the first zero byte; the line is matched with its
  newline overwritten by zero. The result is what is written to the standard
  output and the rest of the buffer, which \<open>memmove\<close> puts at its start.
\<close>

function grep_lines :: "string \<Rightarrow> string \<Rightarrow> string \<times> string" where
  "grep_lines pattern p =
     (case strchr (takeWhile (\<lambda>c. c \<noteq> NUL) p) NL of
        None \<Rightarrow> ([], p)
      | Some q \<Rightarrow>
          let k = length (takeWhile (\<lambda>c. c \<noteq> NUL) p) - length q; line = take k p
          in case grep_lines pattern (drop (k + 1) p) of
               (out, rest) \<Rightarrow> ((if match pattern line then line @ [NL] else []) @ out, rest))"
  by pat_completeness auto
termination
proof (relation "measure (\<lambda>(pattern, p). length p)")
  fix p :: string and q k line assume "strchr (takeWhile (\<lambda>c. c \<noteq> NUL) p) NL = Some q"
  then have "p \<noteq> []" by auto
  then show "((pattern, drop (k + 1) p), (pattern, p)) \<in> measure (\<lambda>(pattern, p). length p)" for pattern k by simp
qed simp

declare grep_lines.simps [simp del]

text \<open>
  \<open>rd k inp\<close> is the number of bytes that \<open>read\<close> delivers when \<open>k\<close> are asked for and \<open>inp\<close> is the rest of the
  input; it is at most \<open>k\<close> and at most what is left. The buffer has 1024 bytes, one for the zero.
\<close>

function grep :: "(nat \<Rightarrow> string \<Rightarrow> nat) \<Rightarrow> string \<Rightarrow> string \<Rightarrow> string \<Rightarrow> string" where
  "grep rd pattern buf inp =
     (let k = 1024 - length buf - 1; n = min (rd k inp) (min k (length inp))
      in if 0 < n then
           (case grep_lines pattern (buf @ take n inp) of (out, rest) \<Rightarrow> out @ grep rd pattern rest (drop n inp))
         else [])"
  by pat_completeness auto
termination by (relation "measure (\<lambda>(rd, pattern, buf, inp). length inp)") auto

declare grep.simps [simp del]

text \<open>The complete lines of a text, and what follows the last newline.\<close>

fun clines :: "string \<Rightarrow> string list \<times> string" where
  "clines [] = ([], [])"
| "clines (c # s) =
     (if c = NL then ([] # fst (clines s), snd (clines s))
      else case fst (clines s) of [] \<Rightarrow> ([], c # snd (clines s)) | l # ls \<Rightarrow> ((c # l) # ls, snd (clines s)))"

definition selected :: "string \<Rightarrow> string list \<Rightarrow> string" where
  "selected pattern ls = concat (map (\<lambda>l. l @ [NL]) (filter (match pattern) ls))"

lemma clines_no_newline: "NL \<notin> set s \<Longrightarrow> clines s = ([], s)"
  by (induction s) auto

lemma clines_line: "NL \<notin> set l \<Longrightarrow> clines (l @ NL # s) = (l # fst (clines s), snd (clines s))"
  by (induction l) auto

lemma clines_rest: "NL \<notin> set (snd (clines s))"
  by (induction s) (auto split: list.splits)

lemma clines_rest_set: "set (snd (clines s)) \<subseteq> set s"
  by (induction s) (auto split: list.splits)

lemma split_newline:
  obtains "NL \<notin> set s" | l r where "s = l @ NL # r" "NL \<notin> set l"
  using split_list_first [of NL s] by metis

lemma clines_append:
  "clines (p @ s) = (fst (clines p) @ fst (clines (snd (clines p) @ s)), snd (clines (snd (clines p) @ s)))"
proof (induction "length p" arbitrary: p rule: less_induct)
  case less
  show ?case
  proof (cases rule: split_newline [of p])
    case 1
    then show ?thesis by (simp add: clines_no_newline)
  next
    case (2 l r)
    then show ?thesis using less [of r] by (simp add: clines_line)
  qed
qed

lemma strchr_newline: "NL \<notin> set l \<Longrightarrow> strchr (l @ NL # r) NL = Some (NL # r)"
  by (induction l) auto

lemma strchr_no_newline: "NL \<notin> set s \<Longrightarrow> strchr s NL = None"
  by (induction s) auto

lemma takeWhile_cstring: "cstring s \<Longrightarrow> takeWhile (\<lambda>c. c \<noteq> NUL) s = s"
  by (auto simp: cstring_def takeWhile_eq_all_conv)

lemma grep_lines_eq:
  "cstring p \<Longrightarrow> grep_lines pattern p = (selected pattern (fst (clines p)), snd (clines p))"
proof (induction "length p" arbitrary: p rule: less_induct)
  case less
  note t = takeWhile_cstring [OF less.prems]
  show ?case
  proof (cases rule: split_newline [of p])
    case 1
    then show ?thesis by (subst grep_lines.simps) (simp add: t strchr_no_newline clines_no_newline selected_def)
  next
    case (2 l r)
    then have "grep_lines pattern r = (selected pattern (fst (clines r)), snd (clines r))"
      using less by simp
    then show ?thesis
      unfolding 2(1) using 2(2) t [unfolded 2(1)]
      by (subst grep_lines.simps) (simp add: strchr_newline clines_line selected_def Let_def)
  qed
qed

text \<open>
  C29. \<open>grep\<close> prints exactly the complete lines of its input that match, in order and unchanged, however
  \<open>read\<close> cuts the input into pieces, as long as no line is longer than the buffer
  and the input has no zero bytes.
\<close>

theorem grep_selects_lines:
  assumes "\<And>k s. 0 < k \<Longrightarrow> s \<noteq> [] \<Longrightarrow> 0 < rd k s" "cstring inp"
    and "\<forall>l\<in>set (snd (clines inp) # fst (clines inp)). length l < 1023"
  shows "grep rd pattern [] inp = selected pattern (fst (clines inp))"
proof -
  have "grep rd pattern buf inp = selected pattern (fst (clines (buf @ inp)))"
    if "cstring (buf @ inp)" "NL \<notin> set buf" "\<forall>l\<in>set (snd (clines (buf @ inp)) # fst (clines (buf @ inp))). length l < 1023" for buf
    using that
  proof (induction "length inp" arbitrary: buf inp rule: less_induct)
    case less
    show ?case
    proof (cases "inp = []")
      case True
      then show ?thesis using less.prems(2) by (subst grep.simps) (simp add: clines_no_newline selected_def)
    next
      case False
      have "length buf < 1023"
      proof (cases rule: split_newline [of inp])
        case 1
        then show ?thesis using less.prems(2,3) by (simp add: clines_no_newline)
      next
        case (2 l r)
        then show ?thesis using less.prems(2,3) clines_line [of "buf @ l" r] by simp
      qed
      then have k: "0 < 1024 - length buf - 1" by simp
      define n where "n = min (rd (1024 - length buf - 1) inp) (min (1024 - length buf - 1) (length inp))"
      have n: "0 < n" "n \<le> length inp" using assms(1) [OF k False] k False by (auto simp: n_def)
      let ?b = "buf @ take n inp"
      have c: "cstring ?b" "cstring (snd (clines ?b) @ drop n inp)"
      proof -
        have *: "cstring ?b \<and> cstring (drop n inp)"
          using less.prems(1) by (auto simp: cstring_def dest: in_set_takeD in_set_dropD)
        then show "cstring ?b" by blast
        show "cstring (snd (clines ?b) @ drop n inp)"
          using * clines_rest_set [of ?b] unfolding cstring_def set_append by blast
      qed
      have e: "clines (buf @ inp) = (fst (clines ?b) @ fst (clines (snd (clines ?b) @ drop n inp)), snd (clines (snd (clines ?b) @ drop n inp)))"
        using clines_append [of ?b "drop n inp"] by simp
      have "grep rd pattern (snd (clines ?b)) (drop n inp) = selected pattern (fst (clines (snd (clines ?b) @ drop n inp)))"
        using less.prems(3) n c(2) by (intro less.hyps) (auto simp: e clines_rest)
      moreover have "grep rd pattern buf inp = (case grep_lines pattern ?b of (out, rest) \<Rightarrow> out @ grep rd pattern rest (drop n inp))"
        unfolding grep.simps [of rd pattern buf inp] Let_def n_def [symmetric] using n(1) by simp
      ultimately show ?thesis unfolding e by (simp add: grep_lines_eq [OF c(1)] selected_def)
    qed
  qed
  from this [of "[]"] show ?thesis using assms(2,3) by simp
qed

theorem grep_selects_lines_witness:
  "grep (\<lambda>k s. 2) ''b*c'' [] (''abc'' @ [NL] @ ''ad'' @ [NL] @ ''c'' @ [NL]) = ''abc'' @ [NL] @ ''c'' @ [NL]"
proof -
  have "grep (\<lambda>k s. 2) ''b*c'' [] (''abc'' @ [NL] @ ''ad'' @ [NL] @ ''c'' @ [NL])
     = selected ''b*c'' (fst (clines (''abc'' @ [NL] @ ''ad'' @ [NL] @ ''c'' @ [NL])))"
    by (rule grep_selects_lines) (simp_all add: NUL_def cstring_def)
  also have "\<dots> = ''abc'' @ [NL] @ ''c'' @ [NL]" by code_simp
  finally show ?thesis .
qed

end
