(* ===== verification/Umalloc.thy ===== *)
theory Umalloc
  imports Prelude
begin

text \<open>
  The memory allocator of user programs, \<^verbatim>\<open>user/umalloc.c\<close>: a circular list of free blocks in the order of their addresses that
  starts at the static variable \<open>base\<close>. \<open>free\<close> finds the place of a block and joins it with its neighbours, \<open>malloc\<close> takes the first block that
  is large enough and asks the system for more memory when there is none.
\<close>

section \<open>The allocator\<close>

text \<open>
  Addresses are counted in headers of 16 bytes. \<open>u_ptr\<close> and \<open>u_size\<close> are the two fields of the header at an address; \<open>BASE\<close> is the
  address of the static variable \<open>base\<close>, 0 the null pointer, and \<open>u_brk\<close> the end of the data segment. A size is a natural number: by
  the invariant \<open>ulist\<close> no free block ends behind the break, so the \<open>uint\<close> of the source does not wrap below 2 ^ 32 units, which is 64 gigabytes.
\<close>

record umem =
  u_ptr :: "nat \<Rightarrow> nat"
  u_size :: "nat \<Rightarrow> nat"
  freep :: nat
  u_brk :: nat

definition BASE :: nat where "BASE = 1"

definition set_ptr :: "nat \<Rightarrow> nat \<Rightarrow> umem \<Rightarrow> umem" where
  "set_ptr p x st = st\<lparr>u_ptr := (u_ptr st)(p := x)\<rparr>"

definition set_size :: "nat \<Rightarrow> nat \<Rightarrow> umem \<Rightarrow> umem" where
  "set_size p x st = st\<lparr>u_size := (u_size st)(p := x)\<rparr>"

text \<open>The search of \<open>free\<close> for the block in front of \<open>bp\<close>.\<close>

partial_function (option) free_from :: "nat \<Rightarrow> nat \<Rightarrow> umem \<Rightarrow> nat option" where
  "free_from bp p st =
     (if p < bp \<and> bp < u_ptr st p then Some p
      else if u_ptr st p \<le> p \<and> (p < bp \<or> bp < u_ptr st p) then Some p
      else free_from bp (u_ptr st p) st)"

definition ufree :: "nat \<Rightarrow> umem \<Rightarrow> umem option" where
  "ufree ap st =
     (let bp = ap - 1
      in case free_from bp (freep st) st of
           None \<Rightarrow> None
         | Some p \<Rightarrow>
             let st = (if bp + u_size st bp = u_ptr st p
                       then let q = u_ptr st p; st = set_size bp (u_size st bp + u_size st q) st in set_ptr bp (u_ptr st q) st
                       else set_ptr bp (u_ptr st p) st);
                 st = (if p + u_size st p = bp
                       then let st = set_size p (u_size st p + u_size st bp) st in set_ptr p (u_ptr st bp) st
                       else set_ptr p bp st)
             in Some (st\<lparr>freep := p\<rparr>))"

text \<open>
  The system call: given the number of bytes, an \<open>int\<close>, and the end of the data segment, \<open>sbrk\<close> gives the new end, or \<open>None\<close> when it fails.
\<close>

definition morecore :: "(int \<Rightarrow> nat \<Rightarrow> nat option) \<Rightarrow> nat \<Rightarrow> umem \<Rightarrow> (nat \<times> umem) option" where
  "morecore sbrk nu st =
     (let nu = (if nu < 4096 then 4096 else nu); n = sint (word_of_int (16 * int nu) :: u32)
      in case sbrk n (u_brk st) of
           None \<Rightarrow> Some (0, st)
         | Some b \<Rightarrow>
             let hp = u_brk st; st = set_size hp nu (st\<lparr>u_brk := b\<rparr>)
             in case ufree (hp + 1) st of None \<Rightarrow> None | Some st \<Rightarrow> Some (freep st, st))"

partial_function (option) malloc_from :: "(int \<Rightarrow> nat \<Rightarrow> nat option) \<Rightarrow> nat \<Rightarrow> nat \<Rightarrow> nat \<Rightarrow> umem \<Rightarrow> (nat \<times> umem) option" where
  "malloc_from sbrk nunits prevp p st =
     (if nunits \<le> u_size st p then
        if u_size st p = nunits then Some (p + 1, (set_ptr prevp (u_ptr st p) st)\<lparr>freep := prevp\<rparr>)
        else let st = set_size p (u_size st p - nunits) st; p = p + u_size st p; st = set_size p nunits st
             in Some (p + 1, st\<lparr>freep := prevp\<rparr>)
      else if p = freep st then
        case morecore sbrk nunits st of
          None \<Rightarrow> None
        | Some (q, st) \<Rightarrow> if q = 0 then Some (0, st) else malloc_from sbrk nunits q (u_ptr st q) st
      else malloc_from sbrk nunits p (u_ptr st p) st)"

definition units :: "nat \<Rightarrow> nat" where
  "units nbytes = (nbytes + 16 - 1) div 16 + 1"

definition malloc :: "(int \<Rightarrow> nat \<Rightarrow> nat option) \<Rightarrow> nat \<Rightarrow> umem \<Rightarrow> (nat \<times> umem) option" where
  "malloc sbrk nbytes st =
     (let nunits = units nbytes;
          st = (if freep st = 0 then set_size BASE 0 ((set_ptr BASE BASE st)\<lparr>freep := BASE\<rparr>) else st);
          prevp = freep st
      in malloc_from sbrk nunits prevp (u_ptr st prevp) st)"

section \<open>The free list\<close>

fun linked :: "(nat \<Rightarrow> nat) \<Rightarrow> nat list \<Rightarrow> nat \<Rightarrow> bool" where
  "linked f [] e \<longleftrightarrow> False"
| "linked f [x] e \<longleftrightarrow> f x = e"
| "linked f (x # y # zs) e \<longleftrightarrow> f x = y \<and> linked f (y # zs) e"

definition spaced :: "(nat \<Rightarrow> nat) \<Rightarrow> nat list \<Rightarrow> bool" where
  "spaced sz xs \<longleftrightarrow> sorted_wrt (\<lambda>a b. a < b \<and> a + sz a \<le> b) xs"

definition ulist :: "umem \<Rightarrow> nat list \<Rightarrow> bool" where
  "ulist st xs \<longleftrightarrow> xs \<noteq> [] \<and> hd xs = BASE \<and> linked (u_ptr st) xs BASE \<and> spaced (u_size st) xs \<and> u_size st BASE = 0 \<and>
     (\<forall>x\<in>set xs. x \<noteq> BASE \<longrightarrow> 0 < u_size st x) \<and> freep st \<in> set xs \<and> (\<forall>x\<in>set xs. x + u_size st x \<le> u_brk st)"

definition block :: "umem \<Rightarrow> nat \<Rightarrow> nat set" where
  "block st x = {x..<x + u_size st x}"

definition free_units :: "umem \<Rightarrow> nat list \<Rightarrow> nat set" where
  "free_units st xs = (\<Union>x\<in>set xs. block st x)"

lemma linked_append: "xs \<noteq> [] \<Longrightarrow> ys \<noteq> [] \<Longrightarrow> linked f (xs @ ys) e \<longleftrightarrow> linked f xs (hd ys) \<and> linked f ys e"
  by (induction f xs e rule: linked.induct) (auto simp: neq_Nil_conv)

lemma linked_next: "linked f (xs @ p # ys) e \<Longrightarrow> f p = (if ys = [] then e else hd ys)"
  by (induction xs) (auto simp: neq_Nil_conv elim: linked.elims)

lemma linked_cong: "(\<And>x. x \<in> set xs \<Longrightarrow> f x = g x) \<Longrightarrow> linked f xs e = linked g xs e"
  by (induction f xs e rule: linked.induct) auto

lemma linked_split: "linked f (as @ p # bs) e \<longleftrightarrow> (as = [] \<or> linked f as p) \<and> (if bs = [] then f p = e else f p = hd bs \<and> linked f bs e)"
proof -
  have "linked f (p # bs) e \<longleftrightarrow> (if bs = [] then f p = e else f p = hd bs \<and> linked f bs e)" by (cases bs) auto
  then show ?thesis using linked_append [of as "p # bs" f e] by (cases "as = []") auto
qed

lemma spaced_split: "spaced sz (as @ p # bs) \<longleftrightarrow> spaced sz as \<and> spaced sz bs \<and>
    (\<forall>a\<in>set as. a < p \<and> a + sz a \<le> p) \<and> (\<forall>b\<in>set bs. p < b \<and> p + sz p \<le> b) \<and> (\<forall>a\<in>set as. \<forall>b\<in>set bs. a < b \<and> a + sz a \<le> b)"
  by (auto simp: spaced_def sorted_wrt_append)

lemma spaced_cong: "(\<And>x. x \<in> set xs \<Longrightarrow> f x = g x) \<Longrightarrow> spaced f xs = spaced g xs"
  unfolding spaced_def by (induction xs) auto

lemma spaced_distinct: "spaced sz xs \<Longrightarrow> distinct xs"
  by (induction xs) (auto simp: spaced_def)

lemma ulist_split:
  assumes "ulist st xs" "bp \<notin> set xs" "BASE < bp"
  obtains as p bs where "xs = as @ p # bs" "\<forall>a\<in>set as. a < bp" "p < bp" "\<forall>b\<in>set bs. bp < b" "as = [] \<longleftrightarrow> p = BASE"
proof -
  have so: "sorted_wrt (<) xs" using assms(1) unfolding ulist_def spaced_def by (auto elim: sorted_wrt_mono_rel [rotated])
  let ?l = "takeWhile (\<lambda>x. x < bp) xs" and ?r = "dropWhile (\<lambda>x. x < bp) xs"
  have xs: "xs = ?l @ ?r" by simp
  have ne: "?l \<noteq> []" using assms(1,3) by (cases xs) (auto simp: ulist_def)
  have "\<forall>b\<in>set ?r. bp < b"
  proof (cases ?r)
    case (Cons c cs)
    then have c: "bp < c" using hd_dropWhile [of "\<lambda>x. x < bp" xs] assms(2) xs by (metis linorder_neqE_nat list.distinct(1) list.sel(1) set_append Un_iff list.set_intros(1))
    moreover have "sorted_wrt (<) ?r" using so xs by (metis sorted_wrt_append)
    ultimately show ?thesis using Cons by auto
  next
    case Nil
    then show ?thesis by (simp only: list.set ball_empty)
  qed
  moreover have l: "?l = butlast ?l @ [last ?l]" using ne by simp
  moreover have "\<forall>a\<in>set ?l. a < bp" by (auto dest: set_takeWhileD)
  moreover have "butlast ?l = [] \<longleftrightarrow> last ?l = BASE"
  proof -
    have "hd ?l = BASE" using ne assms(1) by (cases xs) (auto simp: ulist_def)
    moreover have "distinct ?l" using so by (auto simp: strict_sorted_iff intro: distinct_takeWhile)
    ultimately show ?thesis using l ne by (cases ?l rule: rev_cases; cases "butlast ?l") auto
  qed
  ultimately show ?thesis using that [of "butlast ?l" "last ?l" ?r] xs ne by (metis append.assoc append_Cons append_Nil in_set_butlastD last_in_set)
qed


lemma free_from_walk:
  assumes "linked (u_ptr st) ys e" "\<And>y. y \<in> set ys \<Longrightarrow> free_from bp y st = free_from bp (u_ptr st y) st"
  shows "free_from bp (hd ys) st = free_from bp e st"
  using assms by (induction "u_ptr st" ys e rule: linked.induct) auto

lemma free_from_finds:
  assumes u: "ulist st (as @ p # bs)" and lt: "\<forall>a\<in>set as. a < bp" "p < bp" "\<forall>b\<in>set bs. bp < b" and b: "BASE < bp" "as = [] \<longleftrightarrow> p = BASE"
    and q: "q \<in> set (as @ p # bs)"
  shows "free_from bp q st = Some p"
proof -
  have l: "as = [] \<or> linked (u_ptr st) as p" "if bs = [] then u_ptr st p = BASE else u_ptr st p = hd bs \<and> linked (u_ptr st) bs BASE"
    using u by (auto simp: ulist_def linked_split)
  have sp: "spaced (u_size st) (as @ p # bs)" using u by (simp add: ulist_def)
  then have "\<forall>a\<in>set as. a < p" by (simp add: spaced_split)
  moreover have "as \<noteq> [] \<Longrightarrow> BASE \<in> set as" using u by (cases as) (auto simp: ulist_def)
  ultimately have bp: "BASE \<le> p" using b(2) by (cases "as = []") auto
  have p: "free_from bp p st = Some p" using l(2) lt b bp by (subst free_from.simps) (auto split: if_splits simp: neq_Nil_conv)
  have a: "free_from bp y st = free_from bp (u_ptr st y) st" if y: "y \<in> set as" for y
  proof -
    obtain as1 as2 where as: "as = as1 @ y # as2" using y by (meson split_list)
    have "u_ptr st y = (if as2 = [] then p else hd as2)" using l(1) as linked_next [of "u_ptr st" as1 y as2 p] by auto
    then have "u_ptr st y < bp" "y < u_ptr st y" using sp lt as by (auto simp: spaced_split neq_Nil_conv)
    then show ?thesis by (subst free_from.simps) auto
  qed
  have c: "free_from bp y st = free_from bp (u_ptr st y) st" if y: "y \<in> set bs" for y
  proof -
    obtain bs1 bs2 where bs: "bs = bs1 @ y # bs2" using y by (meson split_list)
    have "u_ptr st y = (if bs2 = [] then BASE else hd bs2)" using l(2) bs linked_next [of "u_ptr st" bs1 y bs2 BASE] by (auto split: if_splits)
    moreover have "bs2 \<noteq> [] \<Longrightarrow> y < hd bs2" using sp bs by (auto simp: spaced_split neq_Nil_conv)
    moreover have "bp < y" using y lt by simp
    ultimately show ?thesis using b(1) by (subst free_from.simps) (auto split: if_splits)
  qed
  have base: "free_from bp BASE st = Some p"
  proof (cases "as = []")
    case False
    then have "hd as = BASE" using u by (cases as) (auto simp: ulist_def)
    then show ?thesis using free_from_walk [OF _ a, of as p] l(1) False p by auto
  qed (use b p in auto)
  consider "q = p" | as1 as2 where "as = as1 @ q # as2" | bs1 bs2 where "bs = bs1 @ q # bs2" using q by (auto dest: split_list)
  then show ?thesis
  proof cases
    case 2
    then have "linked (u_ptr st) (q # as2) p" using l(1) linked_append [of as1 "q # as2"] by (cases "as1 = []") auto
    then show ?thesis using free_from_walk [of st "q # as2" p bp] a 2 p by auto
  next
    case 3
    then have "linked (u_ptr st) (q # bs2) BASE" using l(2) linked_append [of bs1 "q # bs2"] by (cases "bs1 = []") auto
    then show ?thesis using free_from_walk [of st "q # bs2" BASE bp] c 3 base by auto
  qed (use p in simp)
qed

text \<open>What \<open>free\<close> makes of the header of \<open>bp\<close>, and then of the one in front of it.\<close>

definition join_next :: "nat \<Rightarrow> nat list \<Rightarrow> umem \<Rightarrow> nat list \<times> umem" where
  "join_next bp bs st =
     (if bs \<noteq> [] \<and> bp + u_size st bp = hd bs
      then (tl bs, set_ptr bp (hd (tl bs @ [BASE])) (set_size bp (u_size st bp + u_size st (hd bs)) st))
      else (bs, set_ptr bp (hd (bs @ [BASE])) st))"

definition join_prev :: "nat \<Rightarrow> nat \<Rightarrow> nat list \<Rightarrow> umem \<Rightarrow> nat list \<times> umem" where
  "join_prev p bp bs st =
     (if p + u_size st p = bp then (p # bs, set_ptr p (hd (bs @ [BASE])) (set_size p (u_size st p + u_size st bp) st))
      else (p # bp # bs, set_ptr p bp st))"

lemma set_sel [simp]:
  "u_ptr (set_ptr p x st) = (u_ptr st)(p := x)" "u_size (set_ptr p x st) = u_size st" "freep (set_ptr p x st) = freep st" "u_brk (set_ptr p x st) = u_brk st"
  "u_size (set_size p x st) = (u_size st)(p := x)" "u_ptr (set_size p x st) = u_ptr st" "freep (set_size p x st) = freep st" "u_brk (set_size p x st) = u_brk st"
  by (simp_all add: set_ptr_def set_size_def)

lemma ufree_joins:
  assumes u: "ulist st (as @ p # bs)" and lt: "\<forall>a\<in>set as. a < bp" "p < bp" "\<forall>b\<in>set bs. bp < b" and b: "BASE < bp" "as = [] \<longleftrightarrow> p = BASE"
    and sz: "0 < u_size st bp" and j: "join_next bp bs st = (cs, st1)" "join_prev p bp cs st1 = (ds, st2)"
  shows "ufree (bp + 1) st = Some (st2\<lparr>freep := p\<rparr>)"
proof -
  have "freep st \<in> set (as @ p # bs)" using u by (simp add: ulist_def)
  then have f: "free_from bp (freep st) st = Some p" by (rule free_from_finds [OF u lt b])
  have l: "if bs = [] then u_ptr st p = BASE else u_ptr st p = hd bs \<and> linked (u_ptr st) bs BASE" using u by (simp add: ulist_def linked_split)
  have q: "u_ptr st (hd bs) = hd (tl bs @ [BASE])" if ne: "bs \<noteq> []"
  proof -
    obtain c cs where "bs = c # cs" using ne by (cases bs) auto
    then show ?thesis using l by (cases cs) auto
  qed
  have m: "bp + u_size st bp = u_ptr st p \<longleftrightarrow> bs \<noteq> [] \<and> bp + u_size st bp = hd bs" using l b(1) by (auto split: if_splits)
  have n: "u_ptr st p = hd (bs @ [BASE])" using l by (cases bs) auto
  have h: "hd bs \<noteq> bp" if "bs \<noteq> []" using lt(3) that by auto
  have pp: "p \<noteq> bp" using lt(2) by simp
  have st1: "st1 = (if bp + u_size st bp = u_ptr st p
      then let r = u_ptr st p; t = set_size bp (u_size st bp + u_size st r) st in set_ptr bp (u_ptr t r) t else set_ptr bp (u_ptr st p) st)"
    using j(1) m n q h by (auto simp: join_next_def split: if_splits)
  have c: "u_ptr st1 bp = hd (cs @ [BASE])" using j(1) by (auto simp: join_next_def split: if_splits)
  then have st2: "st2 = (if p + u_size st1 p = bp then let t = set_size p (u_size st1 p + u_size st1 bp) st1 in set_ptr p (u_ptr t bp) t else set_ptr p bp st1)"
    using j(2) by (auto simp: join_prev_def split: if_splits)
  show ?thesis unfolding ufree_def using f st1 st2 by (simp add: Let_def)
qed


text \<open>A tail of the free list.\<close>

definition tail_ok :: "umem \<Rightarrow> nat list \<Rightarrow> bool" where
  "tail_ok st xs \<longleftrightarrow> linked (u_ptr st) xs BASE \<and> spaced (u_size st) xs \<and> (\<forall>x\<in>set xs. x + u_size st x \<le> u_brk st)"

lemma free_units_Cons: "free_units st (x # xs) = block st x \<union> free_units st xs"
  by (simp add: free_units_def)

lemma free_units_cong: "(\<And>x. x \<in> set xs \<Longrightarrow> u_size st x = u_size st' x) \<Longrightarrow> free_units st xs = free_units st' xs"
  by (simp add: free_units_def block_def)

lemma linked_Cons: "linked f (x # xs) e \<longleftrightarrow> f x = hd (xs @ [e]) \<and> (xs = [] \<or> linked f xs e)"
  by (cases xs) auto

lemma spaced_Cons: "spaced sz (x # xs) \<longleftrightarrow> (\<forall>y\<in>set xs. x < y \<and> x + sz x \<le> y) \<and> spaced sz xs"
  by (simp add: spaced_def)

lemma tail_ok_Cons: "tail_ok st (x # xs) \<longleftrightarrow> u_ptr st x = hd (xs @ [BASE]) \<and> (\<forall>y\<in>set xs. x < y \<and> x + u_size st x \<le> y) \<and>
    x + u_size st x \<le> u_brk st \<and> (xs = [] \<or> tail_ok st xs)"
  by (auto simp: tail_ok_def linked_Cons spaced_Cons) (simp add: spaced_def)

lemma tail_ok_cong:
  assumes "\<And>x. x \<in> set xs \<Longrightarrow> u_ptr st' x = u_ptr st x \<and> u_size st' x = u_size st x" "u_brk st' = u_brk st"
  shows "tail_ok st' xs = tail_ok st xs"
  using assms linked_cong [of xs "u_ptr st'" "u_ptr st" BASE] spaced_cong [of xs "u_size st'" "u_size st"] by (simp add: tail_ok_def)

lemma join_next_ok:
  assumes bs: "bs = [] \<or> tail_ok st bs" and lt: "\<forall>b\<in>set bs. bp < b" and gap: "bs = [] \<or> bp + u_size st bp \<le> hd bs"
    and brk: "bp + u_size st bp \<le> u_brk st" and j: "join_next bp bs st = (cs, st1)"
  shows "tail_ok st1 (bp # cs)" "free_units st1 (bp # cs) = block st bp \<union> free_units st bs" "u_size st bp \<le> u_size st1 bp"
    "\<And>x. x \<noteq> bp \<Longrightarrow> u_ptr st1 x = u_ptr st x \<and> u_size st1 x = u_size st x" "u_brk st1 = u_brk st" "set cs \<subseteq> set bs"
proof -
  show f: "\<And>x. x \<noteq> bp \<Longrightarrow> u_ptr st1 x = u_ptr st x \<and> u_size st1 x = u_size st x" "u_brk st1 = u_brk st" "u_size st bp \<le> u_size st1 bp"
    using j by (auto simp: join_next_def split: if_splits)
  show sub: "set cs \<subseteq> set bs" using j by (cases bs) (auto simp: join_next_def split: if_splits)
  then have nb: "x \<noteq> bp" if "x \<in> set cs" for x using lt that by auto
  have t: "tail_ok st1 cs = tail_ok st cs" "free_units st1 cs = free_units st cs"
    using tail_ok_cong [of cs st1 st] free_units_cong [of cs st1 st] f nb by auto
  consider (m) q where "bs = q # cs" "bp + u_size st bp = q" "u_ptr st1 bp = hd (cs @ [BASE])" "u_size st1 bp = u_size st bp + u_size st q"
    | (n) "cs = bs" "u_ptr st1 bp = hd (cs @ [BASE])" "u_size st1 bp = u_size st bp"
    using j by (cases bs) (auto simp: join_next_def split: if_splits)
  then have "tail_ok st1 (bp # cs) \<and> free_units st1 (bp # cs) = block st bp \<union> free_units st bs"
  proof cases
    case m
    have "block st1 bp = block st bp \<union> block st q" using m by (auto simp: block_def)
    moreover have "tail_ok st1 (bp # cs)" using m bs lt t(1) f(2) by (auto simp: tail_ok_Cons)
    ultimately show ?thesis using m(1) t(2) by (auto simp: free_units_Cons)
  next
    case n
    have "\<forall>y\<in>set cs. hd cs \<le> y" using bs n(1) by (cases cs) (auto simp: tail_ok_Cons less_imp_le)
    then have "\<forall>y\<in>set cs. bp + u_size st bp \<le> y" using gap n(1) by (cases cs) force+
    then have "tail_ok st1 (bp # cs)" using n bs lt t(1) f(2) brk by (auto simp: tail_ok_Cons)
    moreover have "block st1 bp = block st bp" using n by (simp add: block_def)
    ultimately show ?thesis using n(1) t(2) by (simp add: free_units_Cons)
  qed
  then show "tail_ok st1 (bp # cs)" "free_units st1 (bp # cs) = block st bp \<union> free_units st bs" by auto
qed

lemma join_prev_ok:
  assumes t: "tail_ok st (bp # cs)" and p: "p < bp" "p + u_size st p \<le> bp" and j: "join_prev p bp cs st = (ds, st')"
  shows "tail_ok st' ds" "free_units st' ds = block st p \<union> free_units st (bp # cs)" "hd ds = p" "ds \<noteq> []" "set ds \<subseteq> insert p (insert bp (set cs))"
    "\<And>x. x \<noteq> p \<Longrightarrow> u_ptr st' x = u_ptr st x \<and> u_size st' x = u_size st x" "u_brk st' = u_brk st" "u_size st p \<le> u_size st' p" "\<exists>x\<in>set ds. u_size st bp \<le> u_size st' x"
proof -
  show f: "\<And>x. x \<noteq> p \<Longrightarrow> u_ptr st' x = u_ptr st x \<and> u_size st' x = u_size st x" "u_brk st' = u_brk st" "u_size st p \<le> u_size st' p"
    using j by (auto simp: join_prev_def split: if_splits)
  show "hd ds = p" "ds \<noteq> []" "set ds \<subseteq> insert p (insert bp (set cs))" "\<exists>x\<in>set ds. u_size st bp \<le> u_size st' x"
    using j p(1) by (auto simp: join_prev_def split: if_splits)
  have "x \<noteq> p" if "x \<in> set (bp # cs)" for x using t p(1) that by (auto simp: tail_ok_Cons)
  then have c: "tail_ok st' (bp # cs) = tail_ok st (bp # cs)" "free_units st' (bp # cs) = free_units st (bp # cs)"
      "tail_ok st' cs = tail_ok st cs" "free_units st' cs = free_units st cs"
    using tail_ok_cong [of "bp # cs" st' st] free_units_cong [of "bp # cs" st' st] tail_ok_cong [of cs st' st] free_units_cong [of cs st' st] f by auto
  have y: "\<forall>y\<in>set cs. p < y \<and> bp + u_size st bp \<le> y \<and> bp < y" "bp + u_size st bp \<le> u_brk st" "cs = [] \<or> tail_ok st cs"
    "u_ptr st bp = hd (cs @ [BASE])" using t p(1) by (auto simp: tail_ok_Cons)
  consider (m) "p + u_size st p = bp" "ds = p # cs" "u_ptr st' p = hd (cs @ [BASE])" "u_size st' p = u_size st p + u_size st bp"
    | (n) "ds = p # bp # cs" "u_ptr st' p = bp" "u_size st' p = u_size st p"
    using j by (auto simp: join_prev_def split: if_splits)
  then have "tail_ok st' ds \<and> free_units st' ds = block st p \<union> free_units st (bp # cs)"
  proof cases
    case m
    have "block st' p = block st p \<union> block st bp" using m by (auto simp: block_def)
    moreover have "tail_ok st' ds" using m y c(3) f(2) by (auto simp: tail_ok_Cons)
    ultimately show ?thesis using m(2) c(4) by (auto simp: free_units_Cons)
  next
    case n
    have "block st' p = block st p" using n by (simp add: block_def)
    moreover have "tail_ok st' (p # bp # cs)" using n y p c(1) t f(2) by (subst tail_ok_Cons) auto
    ultimately show ?thesis using n(1) c(2) by (simp add: free_units_Cons)
  qed
  then show "tail_ok st' ds" "free_units st' ds = block st p \<union> free_units st (bp # cs)" by auto
qed

lemma ulist_append:
  "ulist st (as @ p # bs) \<longleftrightarrow> tail_ok st (p # bs) \<and> (as = [] \<or> linked (u_ptr st) as p) \<and> spaced (u_size st) as \<and>
     (\<forall>a\<in>set as. \<forall>x\<in>set (p # bs). a < x \<and> a + u_size st a \<le> x) \<and> hd (as @ [p]) = BASE \<and> u_size st BASE = 0 \<and>
     (\<forall>x\<in>set (as @ p # bs). x \<noteq> BASE \<longrightarrow> 0 < u_size st x) \<and> freep st \<in> set (as @ p # bs) \<and> (\<forall>x\<in>set as. x + u_size st x \<le> u_brk st)"
proof -
  have l: "linked (u_ptr st) (as @ p # bs) BASE \<longleftrightarrow> (as = [] \<or> linked (u_ptr st) as p) \<and> linked (u_ptr st) (p # bs) BASE"
    using linked_append [of as "p # bs"] by (cases "as = []") auto
  have s: "spaced (u_size st) (as @ p # bs) \<longleftrightarrow> spaced (u_size st) as \<and> spaced (u_size st) (p # bs) \<and>
      (\<forall>a\<in>set as. \<forall>x\<in>set (p # bs). a < x \<and> a + u_size st a \<le> x)"
    by (auto simp: spaced_def sorted_wrt_append)
  have "hd (as @ p # bs) = hd (as @ [p])" by (cases as) auto
  then show ?thesis unfolding ulist_def tail_ok_def l s by auto
qed

text \<open>The free list around a block that is given back.\<close>

lemma ulist_around:
  assumes u: "ulist st xs" and b: "BASE < bp" and sz: "0 < u_size st bp" and dis: "block st bp \<inter> free_units st xs = {}"
  obtains as p bs where "xs = as @ p # bs" "\<forall>a\<in>set as. a < bp" "p < bp" "\<forall>b\<in>set bs. bp < b" "as = [] \<longleftrightarrow> p = BASE"
    "bs = [] \<or> bp + u_size st bp \<le> hd bs" "p + u_size st p \<le> bp"
proof -
  have pos: "0 < u_size st x" if "x \<in> set xs" "x \<noteq> BASE" for x using u that by (simp add: ulist_def)
  have mem: "x \<in> free_units st xs" if "x \<in> set xs" "x \<noteq> BASE" for x using pos [OF that] that by (auto simp: free_units_def block_def)
  have bin: "bp \<in> block st bp" using sz by (simp add: block_def)
  then have nin: "bp \<notin> set xs" using mem dis b by blast
  obtain as p bs where xs: "xs = as @ p # bs" and lt: "\<forall>a\<in>set as. a < bp" "p < bp" "\<forall>b\<in>set bs. bp < b" and e: "as = [] \<longleftrightarrow> p = BASE"
    by (rule ulist_split [OF u nin b])
  have "bp + u_size st bp \<le> hd bs" if ne: "bs \<noteq> []"
  proof -
    have h: "hd bs \<in> set xs" "hd bs \<noteq> BASE" "bp < hd bs" using ne lt b xs by (auto simp: neq_Nil_conv)
    then have "hd bs \<notin> block st bp" using mem dis by blast
    then show ?thesis using h(3) by (auto simp: block_def)
  qed
  moreover have "bp \<notin> block st p" using dis bin xs by (auto simp: free_units_def)
  then have "p + u_size st p \<le> bp" using lt(2) by (auto simp: block_def)
  ultimately show ?thesis using that [OF xs lt e] by blast
qed

lemma ufree_ok:
  assumes u: "ulist st xs" and b: "BASE < bp" and sz: "0 < u_size st bp" and dis: "block st bp \<inter> free_units st xs = {}"
    and brk: "bp + u_size st bp \<le> u_brk st"
  shows "\<exists>st' xs'. ufree (bp + 1) st = Some st' \<and> ulist st' xs' \<and> free_units st' xs' = free_units st xs \<union> block st bp \<and> u_brk st' = u_brk st \<and>
    (\<forall>x. x \<notin> set xs \<longrightarrow> x \<noteq> bp \<longrightarrow> u_size st' x = u_size st x) \<and> set xs' \<subseteq> insert bp (set xs) \<and> (\<exists>x\<in>set xs'. u_size st bp \<le> u_size st' x)"
proof -
  obtain as p bs where xs: "xs = as @ p # bs" and lt: "\<forall>a\<in>set as. a < bp" "p < bp" "\<forall>b\<in>set bs. bp < b" and e: "as = [] \<longleftrightarrow> p = BASE"
    and gap: "bs = [] \<or> bp + u_size st bp \<le> hd bs" and pb: "p + u_size st p \<le> bp" by (rule ulist_around [OF u b sz dis])
  obtain cs st1 where j1: "join_next bp bs st = (cs, st1)" by fastforce
  obtain ds st2 where j2: "join_prev p bp cs st1 = (ds, st2)" by fastforce
  note ul = u [unfolded xs ulist_append]
  have "bs = [] \<or> tail_ok st bs" using ul by (auto simp: tail_ok_Cons)
  note n = join_next_ok [OF this lt(3) gap brk j1]
  have p1: "u_size st1 p = u_size st p" "u_size st1 BASE = 0" using n(4) lt(2) b ul by auto
  note q = join_prev_ok [OF n(1) lt(2) pb [folded p1(1)] j2]
  define st' where "st' = st2\<lparr>freep := p\<rparr>"
  have f: "u_ptr st' = u_ptr st2" "u_size st' = u_size st2" "u_brk st' = u_brk st2" "freep st' = p" by (simp_all add: st'_def)
  have t: "tail_ok st' ds" "free_units st' ds = free_units st2 ds" using q(1) by (simp_all add: tail_ok_def f free_units_def block_def)
  have keep: "u_ptr st' x = u_ptr st x \<and> u_size st' x = u_size st x" if "x \<noteq> p" "x \<noteq> bp" for x using q(6) n(4) that f by simp
  have ka: "a \<noteq> p \<and> a \<noteq> bp" if "a \<in> set as" for a using ul lt(1) that by auto
  have sa: "linked (u_ptr st') as p = linked (u_ptr st) as p" "spaced (u_size st') as = spaced (u_size st) as" "free_units st' as = free_units st as"
    using linked_cong [of as "u_ptr st'" "u_ptr st" p] spaced_cong [of as "u_size st'" "u_size st"] free_units_cong [of as st' st] keep ka by auto
  obtain es where ds: "ds = p # es" using q(3,4) by (cases ds) auto
  have sub: "set ds \<subseteq> insert p (insert bp (set bs))" using q(5) n(6) by auto
  have base: "u_size st' BASE = 0"
    using j2 p1 f b keep [of BASE] ul by (cases "p = BASE") (auto simp: join_prev_def)
  have pos: "0 < u_size st' x" if x: "x \<in> set (as @ ds)" "x \<noteq> BASE" for x
  proof -
    consider "x = p" | "x = bp" | "x \<in> set as \<union> set bs" "x \<noteq> p" "x \<noteq> bp" using x sub by auto
    then show ?thesis
    proof cases
      case 1
      then show ?thesis using q(8) p1(1) ul x(2) f by auto
    next
      case 2
      then show ?thesis using q(6) [of bp] n(3) sz lt(2) f by auto
    next
      case 3
      then show ?thesis using keep ul x(2) by auto
    qed
  qed
  have cross: "a < x \<and> a + u_size st' a \<le> x" if "a \<in> set as" "x \<in> set ds" for a x
  proof -
    have "x = p \<or> x = bp \<or> x \<in> set bs" using that sub by auto
    moreover have "u_size st' a = u_size st a" "a < p" "a + u_size st a \<le> p" using keep ka that ul by auto
    ultimately show ?thesis using ul that lt(2) by auto
  qed
  have "ulist st' (as @ p # es)"
    unfolding ulist_append using t(1) ul sa cross base pos f q(7) n(5) ka keep by (auto simp: ds)
  moreover have "free_units st' (as @ p # es) = free_units st xs \<union> block st bp"
    using t(2) sa(3) q(2) n(2) p1(1) by (auto simp: free_units_def ds xs block_def)
  moreover have "\<exists>x\<in>set (as @ ds). u_size st bp \<le> u_size st' x" using q(9) n(3) f by (auto intro: le_trans)
  moreover have "ufree (bp + 1) st = Some st'" unfolding st'_def by (rule ufree_joins [OF u [unfolded xs] lt b e sz j1 j2])
  ultimately show ?thesis
    using keep q(7) n(5) f sub xs by (intro exI [of _ st'] exI [of _ "as @ p # es"]) (auto simp: ds)
qed

section \<open>Allocation\<close>

text \<open>The branch of \<open>malloc\<close> that has found a block.\<close>

definition malloc_take :: "nat \<Rightarrow> nat \<Rightarrow> nat \<Rightarrow> umem \<Rightarrow> nat \<times> umem" where
  "malloc_take n q p st =
     (if u_size st p = n then (p + 1, (set_ptr q (u_ptr st p) st)\<lparr>freep := q\<rparr>)
      else let r = p + (u_size st p - n) in (r + 1, (set_size r n (set_size p (u_size st p - n) st))\<lparr>freep := q\<rparr>))"

lemma malloc_from_unfold:
  "malloc_from sbrk n q p st =
     (if n \<le> u_size st p then Some (malloc_take n q p st)
      else if p = freep st then
        case morecore sbrk n st of
          None \<Rightarrow> None
        | Some (x, st) \<Rightarrow> if x = 0 then Some (0, st) else malloc_from sbrk n x (u_ptr st x) st
      else malloc_from sbrk n p (u_ptr st p) st)"
  by (subst malloc_from.simps) (simp add: malloc_take_def Let_def)

lemma malloc_scan:
  assumes "linked (u_ptr st) (q # vs) e" "vs \<noteq> []" "last vs = freep st" "freep st \<notin> set (butlast vs)"
  shows "(\<exists>x p. x \<in> set (q # butlast vs) \<and> u_ptr st x = p \<and> n \<le> u_size st p \<and> malloc_from sbrk n q (hd vs) st = Some (malloc_take n x p st)) \<or>
    (\<forall>v\<in>set vs. u_size st v < n) \<and> malloc_from sbrk n q (hd vs) st = (case morecore sbrk n st of
          None \<Rightarrow> None
        | Some (x, st) \<Rightarrow> if x = 0 then Some (0, st) else malloc_from sbrk n x (u_ptr st x) st)"
  using assms
proof (induction vs arbitrary: q)
  case (Cons v vs)
  have qv: "u_ptr st q = v" using Cons.prems(1) by (cases vs) auto
  show ?case
  proof (cases "n \<le> u_size st v")
    case True
    then have "malloc_from sbrk n q v st = Some (malloc_take n q v st)" by (subst malloc_from_unfold) simp
    then show ?thesis using True qv by auto
  next
    case False
    show ?thesis
    proof (cases "vs = []")
      case True
      then have "v = freep st" using Cons.prems(3) by simp
      then show ?thesis using False True by (subst (2) malloc_from_unfold) simp
    next
      case ne: False
      then have v: "v \<noteq> freep st" using Cons.prems(4) by auto
      have l: "linked (u_ptr st) (v # vs) e" "u_ptr st v = hd vs" using Cons.prems(1) ne by (cases vs; auto)+
      have m: "malloc_from sbrk n q v st = malloc_from sbrk n v (hd vs) st" using False v l(2) by (subst malloc_from_unfold) simp
      show ?thesis using Cons.IH [OF l(1) ne] Cons.prems(3,4) ne False m by auto
    qed
  qed
qed simp

lemma ulist_next:
  assumes "ulist st xs" "x \<in> set xs" "u_ptr st x = p" "p \<noteq> BASE"
  obtains as bs where "xs = as @ x # p # bs"
proof -
  obtain as es where xs: "xs = as @ x # es" using assms(2) by (meson split_list)
  have "u_ptr st x = (if es = [] then BASE else hd es)" using assms(1) xs linked_next [of "u_ptr st" as x es BASE] by (simp add: ulist_def)
  then show ?thesis using that assms(3,4) xs by (cases es) (auto split: if_splits)
qed

lemma ulist_visit:
  assumes u: "ulist st xs"
  obtains vs e where "linked (u_ptr st) (freep st # vs) e" "vs \<noteq> []" "last vs = freep st" "freep st \<notin> set (butlast vs)" "set vs = set xs" "hd vs = u_ptr st (freep st)"
proof -
  let ?f = "freep st"
  obtain as bs where xs: "xs = as @ ?f # bs" using u by (metis ulist_def split_list)
  note ul = u [unfolded xs ulist_append]
  have lb: "linked (u_ptr st) (?f # bs) BASE" using ul by (simp add: tail_ok_def)
  have d: "distinct xs" using u spaced_distinct by (auto simp: ulist_def)
  have la: "linked (u_ptr st) (as @ [?f]) (u_ptr st ?f)" "hd (as @ [?f]) = BASE" using ul linked_append [of as "[?f]"] by (cases "as = []"; auto)+
  have "linked (u_ptr st) ((?f # bs) @ as @ [?f]) (u_ptr st ?f)" using linked_append [of "?f # bs" "as @ [?f]"] lb la by auto
  moreover have "?f \<notin> set (butlast (bs @ as @ [?f]))" using d xs by (auto simp: butlast_append)
  moreover have "hd (bs @ as @ [?f]) = u_ptr st ?f" using calculation(1) linked_next [of "u_ptr st" "[]" ?f "bs @ as @ [?f]"] by simp
  ultimately show ?thesis using that [of "bs @ as @ [?f]"] xs by auto
qed

lemma spaced_mono: "spaced f xs \<Longrightarrow> (\<And>x. x \<in> set xs \<Longrightarrow> g x \<le> f x) \<Longrightarrow> spaced g xs"
proof (induction xs)
  case (Cons x xs)
  have "x + g x \<le> y" if "y \<in> set xs" for y using Cons.prems that by (auto simp: spaced_def intro: le_trans [OF add_left_mono])
  then show ?case using Cons by (auto simp: spaced_def)
qed (simp add: spaced_def)

lemma spaced_disjoint:
  assumes "spaced (u_size st) xs" "x \<in> set xs" "y \<in> set xs" "x \<noteq> y"
  shows "block st x \<inter> block st y = {}"
proof -
  have "x + u_size st x \<le> y \<or> y + u_size st y \<le> x"
    using assms unfolding spaced_def by (induction xs) auto
  then show ?thesis by (auto simp: block_def)
qed

lemma free_units_remove:
  assumes "spaced (u_size st) (as @ p # bs)"
  shows "free_units st (as @ p # bs) - block st p = free_units st (as @ bs)"
proof -
  have "block st x \<inter> block st p = {}" if "x \<in> set (as @ bs)" for x
  proof (rule spaced_disjoint [OF assms])
    show "x \<noteq> p" using spaced_distinct [OF assms] that by auto
  qed (use that in auto)
  then show ?thesis by (auto simp: free_units_def)
qed

lemma take_exact:
  assumes u: "ulist st (as @ q # p # bs)"
  defines "st' \<equiv> (set_ptr q (u_ptr st p) st)\<lparr>freep := q\<rparr>"
  shows "ulist st' (as @ q # bs)" "free_units st' (as @ q # bs) = free_units st (as @ q # p # bs) - block st p"
proof -
  note ul = u [unfolded ulist_append]
  have f: "u_size st' = u_size st" "u_brk st' = u_brk st" "freep st' = q" "u_ptr st' = (u_ptr st)(q := u_ptr st p)" by (simp_all add: st'_def)
  have sp: "spaced (u_size st) (as @ q # p # bs)" using u by (simp add: ulist_def)
  note d = spaced_distinct [OF sp]
  have tq: "tail_ok st (q # p # bs)" using ul by blast
  then have p: "u_ptr st p = hd (bs @ [BASE])" "bs = [] \<or> tail_ok st bs" by (auto simp: tail_ok_Cons)
  have "tail_ok st' bs = tail_ok st bs" by (rule tail_ok_cong) (use d f in auto)
  then have "tail_ok st' (q # bs)" using tq p f by (auto simp: tail_ok_Cons)
  moreover have "linked (u_ptr st') as q = linked (u_ptr st) as q" by (rule linked_cong) (use d f in auto)
  ultimately show "ulist st' (as @ q # bs)" unfolding ulist_append f(1-3) using ul by auto
  have "spaced (u_size st) ((as @ [q]) @ p # bs)" using u by (simp add: ulist_def)
  from free_units_remove [OF this] show "free_units st' (as @ q # bs) = free_units st (as @ q # p # bs) - block st p"
    using f by (simp add: free_units_def block_def)
qed

lemma take_split:
  assumes u: "ulist st (as @ q # p # bs)" and n: "0 < n" "n < u_size st p"
  defines "r \<equiv> p + (u_size st p - n)"
  defines "st' \<equiv> (set_size r n (set_size p (u_size st p - n) st))\<lparr>freep := q\<rparr>"
  shows "ulist st' (as @ q # p # bs)" "free_units st' (as @ q # p # bs) = free_units st (as @ q # p # bs) - {r..<r + n}"
proof -
  let ?xs = "as @ q # p # bs"
  have sp: "spaced (u_size st) ?xs" using u by (simp add: ulist_def)
  have "x \<le> p \<or> p + u_size st p \<le> x" if "x \<in> set ?xs" for x using sp that by (auto simp: spaced_def sorted_wrt_append)
  then have r: "r \<notin> set ?xs" using n by (auto simp: r_def) fastforce+
  have f: "u_ptr st' = u_ptr st" "u_brk st' = u_brk st" "freep st' = q" by (simp_all add: st'_def)
  have sz: "u_size st' x = (if x = p then u_size st p - n else u_size st x)" if "x \<in> set ?xs" for x
    using r that by (auto simp: st'_def r_def)
  then have le: "u_size st' x \<le> u_size st x" if "x \<in> set ?xs" for x using that by auto
  have base: "p \<noteq> BASE" "BASE \<in> set ?xs" using u n(2) by (cases as; auto simp: ulist_def)+
  show "ulist st' ?xs"
    unfolding ulist_def
  proof (intro conjI ballI impI)
    show "spaced (u_size st') ?xs" by (rule spaced_mono [OF sp le])
    show "0 < u_size st' x" if "x \<in> set ?xs" "x \<noteq> BASE" for x using sz [OF that(1)] u n that by (auto simp: ulist_def)
    show "x + u_size st' x \<le> u_brk st'" if "x \<in> set ?xs" for x using le [OF that] u that f by (auto simp: ulist_def intro: le_trans [OF add_left_mono])
    show "u_size st' BASE = 0" using sz [OF base(2)] base(1) u by (simp add: ulist_def)
  qed (use u f in \<open>auto simp: ulist_def\<close>)
  have b: "block st' p = block st p - {r..<r + n}" using sz [of p] n by (auto simp: block_def r_def)
  have "spaced (u_size st) ((as @ [q]) @ p # bs)" using sp by simp
  note rem = free_units_remove [OF this]
  have rn: "{r..<r + n} \<subseteq> block st p" using n by (auto simp: block_def r_def)
  have d: "distinct ?xs" using sp spaced_distinct by blast
  have "free_units st' ((as @ [q]) @ bs) = free_units st ((as @ [q]) @ bs)"
    using d sz by (intro free_units_cong) auto
  then have "free_units st' ?xs = block st' p \<union> (free_units st ?xs - block st p)" using rem by (auto simp: free_units_def)
  moreover have "block st p \<subseteq> free_units st ?xs" by (auto simp: free_units_def)
  ultimately show "free_units st' ?xs = free_units st ?xs - {r..<r + n}" using b rn by blast
qed

text \<open>\<open>r\<close> is a new block of \<open>n\<close> units, taken out of the free units \<open>F\<close>.\<close>

definition taken :: "nat \<Rightarrow> nat \<Rightarrow> nat set \<Rightarrow> umem \<Rightarrow> umem \<Rightarrow> bool" where
  "taken n r F st st' \<longleftrightarrow> BASE < r - 1 \<and> u_size st' (r - 1) = n \<and> {r - 1..<r - 1 + n} \<subseteq> F \<and> u_brk st' = u_brk st \<and>
     (\<exists>xs. ulist st' xs \<and> free_units st' xs = F - {r - 1..<r - 1 + n}) \<and> (\<forall>x. x \<notin> F \<longrightarrow> u_size st' x = u_size st x)"

lemma ulist_BASE: "ulist st xs \<Longrightarrow> x \<in> set xs \<Longrightarrow> BASE \<le> x"
  by (cases xs) (auto simp: ulist_def spaced_def)

lemma take_ok:
  assumes u: "ulist st xs" and x: "x \<in> set xs" "u_ptr st x = p" and n: "0 < n" "n \<le> u_size st p"
  shows "\<exists>r st'. malloc_take n x p st = (r, st') \<and> taken n r (free_units st xs) st st'"
proof -
  have pb: "p \<noteq> BASE" using u n by (auto simp: ulist_def)
  obtain as bs where xs: "xs = as @ x # p # bs" by (rule ulist_next [OF u x pb])
  have lt: "BASE < p" using ulist_BASE [OF u, of p] pb xs by auto
  have bl: "block st p \<subseteq> free_units st xs" by (auto simp: free_units_def xs)
  show ?thesis
  proof (cases "u_size st p = n")
    case True
    then show ?thesis
      using take_exact [OF u [unfolded xs]] bl lt unfolding taken_def malloc_take_def xs by (fastforce simp: block_def)
  next
    case False
    then have l: "n < u_size st p" using n by simp
    let ?r = "p + (u_size st p - n)"
    let ?st = "(set_size ?r n (set_size p (u_size st p - n) st))\<lparr>freep := x\<rparr>"
    note s = take_split [OF u [unfolded xs] n(1) l]
    have m: "malloc_take n x p st = (?r + 1, ?st)" using False by (simp add: malloc_take_def Let_def)
    have "p \<in> free_units st xs" "?r \<in> free_units st xs" using bl n l by (auto simp: block_def)
    then have "u_size ?st y = u_size st y" if "y \<notin> free_units st xs" for y using that by auto
    moreover have "{?r..<?r + n} \<subseteq> block st p" using l by (auto simp: block_def)
    then have "{?r..<?r + n} \<subseteq> free_units st xs" using bl by blast
    ultimately have "taken n (?r + 1) (free_units st xs) st ?st" using s lt unfolding taken_def xs by auto
    then show ?thesis using m by blast
  qed
qed

lemma malloc_pass:
  assumes u: "ulist st xs" and n: "0 < n"
  shows "(\<exists>r st'. malloc_from sbrk n (freep st) (u_ptr st (freep st)) st = Some (r, st') \<and> taken n r (free_units st xs) st st') \<or>
    (\<forall>v\<in>set xs. u_size st v < n) \<and> malloc_from sbrk n (freep st) (u_ptr st (freep st)) st = (case morecore sbrk n st of
          None \<Rightarrow> None
        | Some (x, st) \<Rightarrow> if x = 0 then Some (0, st) else malloc_from sbrk n x (u_ptr st x) st)"
proof -
  obtain vs e where v: "linked (u_ptr st) (freep st # vs) e" "vs \<noteq> []" "last vs = freep st" "freep st \<notin> set (butlast vs)" "set vs = set xs"
      "hd vs = u_ptr st (freep st)" by (rule ulist_visit [OF u])
  have sub: "x \<in> set xs" if "x \<in> set (freep st # butlast vs)" for x using that v(2,3,5) last_in_set [OF v(2)] by (auto dest: in_set_butlastD)
  from malloc_scan [OF v(1-4), of n sbrk] show ?thesis
  proof (elim disjE exE conjE, goal_cases)
    case (1 x p)
    then show ?thesis using take_ok [OF u sub _ n, of x p] v(6) by auto
  next
    case 2
    then show ?thesis using v(5,6) by simp
  qed
qed

definition sbrk_grows :: "(int \<Rightarrow> nat \<Rightarrow> nat option) \<Rightarrow> bool" where
  "sbrk_grows sbrk \<longleftrightarrow> (\<forall>k b b'. sbrk (16 * int k) b = Some b' \<longrightarrow> b' = b + k)"

lemma ulist_grow:
  assumes "ulist st xs" "BASE < u_brk st" "u_brk st \<le> b"
  shows "ulist (set_size (u_brk st) nu (st\<lparr>u_brk := b\<rparr>)) xs" "free_units (set_size (u_brk st) nu (st\<lparr>u_brk := b\<rparr>)) xs = free_units st xs" "u_brk st \<notin> set xs"
    "free_units st xs \<subseteq> {..<u_brk st}"
proof -
  show n: "u_brk st \<notin> set xs"
  proof
    assume m: "u_brk st \<in> set xs"
    then have "u_brk st + u_size st (u_brk st) \<le> u_brk st" using assms(1) unfolding ulist_def by blast
    moreover have "0 < u_size st (u_brk st)" using assms(1,2) m unfolding ulist_def by auto
    ultimately show False by simp
  qed
  let ?st = "set_size (u_brk st) nu (st\<lparr>u_brk := b\<rparr>)"
  have "u_size ?st x = u_size st x" if "x \<in> set xs" for x using n that by auto
  then show "free_units ?st xs = free_units st xs" by (rule free_units_cong)
  have "spaced (u_size ?st) xs = spaced (u_size st) xs" by (rule spaced_cong) (use n in auto)
  moreover have "x + u_size st x \<le> b" if "x \<in> set xs" for x using assms(1,3) that by (auto simp: ulist_def intro: le_trans)
  ultimately show "ulist ?st xs" using assms n by (auto simp: ulist_def)
  show "free_units st xs \<subseteq> {..<u_brk st}" using assms(1) by (fastforce simp: ulist_def free_units_def block_def)
qed


lemma sint_of_int: "- (2 ^ 31) \<le> z \<Longrightarrow> z < 2 ^ 31 \<Longrightarrow> sint (word_of_int z :: u32) = z"
  by (simp add: signed_of_int signed_take_bit_int_eq_self)

lemma sint_small: "k < 2 ^ 27 \<Longrightarrow> sint (word_of_int (16 * int k) :: u32) = 16 * int k"
  by (rule sint_of_int) simp_all

lemma morecore_ok:
  assumes u: "ulist st xs" and b: "BASE < u_brk st" and g: "sbrk_grows sbrk" and n: "n < 2 ^ 27"
  defines "nu \<equiv> (if n < 4096 then 4096 else n)"
  shows "sbrk (16 * int nu) (u_brk st) = None \<and> morecore sbrk n st = Some (0, st) \<or>
    (\<exists>st' xs'. morecore sbrk n st = Some (freep st', st') \<and> freep st' \<noteq> 0 \<and> ulist st' xs' \<and> u_brk st' = u_brk st + nu \<and>
       free_units st' xs' = free_units st xs \<union> {u_brk st..<u_brk st + nu} \<and> (\<exists>x\<in>set xs'. n \<le> u_size st' x) \<and>
       (\<forall>x. x \<notin> free_units st xs \<longrightarrow> x < u_brk st \<longrightarrow> u_size st' x = u_size st x))"
proof (cases "sbrk (16 * int nu) (u_brk st)")
  case None
  have "sint (word_of_int (16 * int nu) :: u32) = 16 * int nu" using n by (intro sint_small) (simp add: nu_def)
  then show ?thesis using None by (simp add: morecore_def nu_def Let_def)
next
  case (Some e)
  have nu: "sint (word_of_int (16 * int nu) :: u32) = 16 * int nu" "0 < nu" "n \<le> nu" using n sint_small [of nu] by (auto simp: nu_def)
  have e: "e = u_brk st + nu" using g Some by (auto simp: sbrk_grows_def)
  let ?h = "u_brk st" let ?st = "set_size ?h nu (st\<lparr>u_brk := e\<rparr>)"
  note w = ulist_grow(1,2) [OF u b, of e nu] ulist_grow(3,4) [OF u b, of e]
  have "block ?st ?h \<inter> free_units ?st xs = {}" using w e by (auto simp: block_def)
  then obtain st' xs' where f: "ufree (?h + 1) ?st = Some st'" "ulist st' xs'" "free_units st' xs' = free_units ?st xs \<union> block ?st ?h"
      "u_brk st' = u_brk ?st" "\<forall>x. x \<notin> set xs \<longrightarrow> x \<noteq> ?h \<longrightarrow> u_size st' x = u_size ?st x" "\<exists>x\<in>set xs'. u_size ?st ?h \<le> u_size st' x"
    using ufree_ok [of ?st xs ?h] w(1) e b nu(2) by auto
  have m: "morecore sbrk n st = Some (freep st', st')" using Some nu(1) f(1) e by (simp add: morecore_def nu_def [symmetric] Let_def)
  have z: "freep st' \<noteq> 0" using f(2) ulist_BASE [OF f(2), of "freep st'"] by (auto simp: ulist_def BASE_def)
  have "u_size st' x = u_size st x" if x: "x \<notin> free_units st xs" "x < ?h" for x
  proof (cases "x = BASE \<and> x \<in> set xs")
    case True
    then show ?thesis using f(2) u by (simp add: ulist_def)
  next
    case False
    then have "x \<notin> set xs" using x(1) u by (fastforce simp: ulist_def free_units_def block_def)
    then show ?thesis using f(5) x(2) by auto
  qed
  moreover have "\<exists>x\<in>set xs'. n \<le> u_size st' x" using f(6) nu(3) by (auto intro: le_trans)
  ultimately show ?thesis using m z f(2,3,4) w e by (intro disjI2 exI [of _ st'] exI [of _ xs']) (auto simp: block_def)
qed

section \<open>The contract\<close>

text \<open>The free units of a heap; before the first call there are none.\<close>

definition free_list :: "umem \<Rightarrow> nat set \<Rightarrow> bool" where
  "free_list st F \<longleftrightarrow> (\<exists>xs. ulist st xs \<and> free_units st xs = F)"

definition heap :: "umem \<Rightarrow> nat set \<Rightarrow> bool" where
  "heap st F \<longleftrightarrow> BASE < u_brk st \<and> (freep st = 0 \<and> F = {} \<or> free_list st F)"

text \<open>A call that returned \<open>r\<close>: the block comes from the free units and those the break has passed, and the rest of them are free.\<close>

definition got :: "nat \<Rightarrow> nat \<Rightarrow> nat set \<Rightarrow> umem \<Rightarrow> umem \<Rightarrow> bool" where
  "got n r F st st' \<longleftrightarrow> u_brk st \<le> u_brk st' \<and> BASE < r - 1 \<and> u_size st' (r - 1) = n \<and> {r - 1..<r - 1 + n} \<subseteq> F \<union> {u_brk st..<u_brk st'} \<and>
     free_list st' (F \<union> {u_brk st..<u_brk st'} - {r - 1..<r - 1 + n}) \<and> (\<forall>x. x \<notin> F \<longrightarrow> x < u_brk st \<longrightarrow> x \<noteq> BASE \<longrightarrow> u_size st' x = u_size st x)"

lemma malloc_from_ok:
  assumes u: "ulist st xs" and b: "BASE < u_brk st" and g: "sbrk_grows sbrk" and n: "0 < n" "n < 2 ^ 27"
  shows "malloc_from sbrk n (freep st) (u_ptr st (freep st)) st = Some (0, st) \<and> sbrk (16 * int (if n < 4096 then 4096 else n)) (u_brk st) = None \<or>
    (\<exists>r st'. malloc_from sbrk n (freep st) (u_ptr st (freep st)) st = Some (r, st') \<and> got n r (free_units st xs) st st')"
  (is "?fail \<or> ?ok")
proof -
  define nu where "nu = (if n < 4096 then 4096 else n)"
  from malloc_pass [OF u n(1), of sbrk] consider
      (hit) r st' where "malloc_from sbrk n (freep st) (u_ptr st (freep st)) st = Some (r, st')" "taken n r (free_units st xs) st st'"
    | (miss) "malloc_from sbrk n (freep st) (u_ptr st (freep st)) st = (case morecore sbrk n st of
          None \<Rightarrow> None | Some (x, st) \<Rightarrow> if x = 0 then Some (0, st) else malloc_from sbrk n x (u_ptr st x) st)" by blast
  then show ?thesis
  proof cases
    case hit
    then have "got n r (free_units st xs) st st'" using b by (auto simp: got_def taken_def free_list_def)
    then show ?thesis using hit(1) by blast
  next
    case miss
    show ?thesis
      using morecore_ok [OF u b g n(2), folded nu_def]
    proof (elim disjE exE conjE)
      assume "sbrk (16 * int nu) (u_brk st) = None" "morecore sbrk n st = Some (0, st)"
      then show ?thesis using miss by (simp add: nu_def)
    next
      fix st1 xs1
      assume m: "morecore sbrk n st = Some (freep st1, st1)" "freep st1 \<noteq> 0" and u1: "ulist st1 xs1" and g1: "u_brk st1 = u_brk st + nu"
        "free_units st1 xs1 = free_units st xs \<union> {u_brk st..<u_brk st + nu}" and x: "\<exists>x\<in>set xs1. n \<le> u_size st1 x"
        and k: "\<forall>x. x \<notin> free_units st xs \<longrightarrow> x < u_brk st \<longrightarrow> u_size st1 x = u_size st x"
      from malloc_pass [OF u1 n(1), of sbrk] x
      obtain r st' where r: "malloc_from sbrk n (freep st1) (u_ptr st1 (freep st1)) st1 = Some (r, st')" "taken n r (free_units st1 xs1) st1 st'"
        by fastforce
      have "got n r (free_units st xs) st st'" using b r(2) g1 k by (auto simp: got_def taken_def free_list_def)
      then show ?thesis using miss m r(1) by auto
    qed
  qed
qed

lemma malloc_ok:
  assumes h: "heap st F" and g: "sbrk_grows sbrk" and n: "units nbytes < 2 ^ 27"
  shows "(\<exists>st'. malloc sbrk nbytes st = Some (0, st') \<and> free_list st' F \<and> u_brk st' = u_brk st \<and> (\<forall>x. x \<noteq> BASE \<longrightarrow> u_size st' x = u_size st x) \<and>
      sbrk (16 * int (if units nbytes < 4096 then 4096 else units nbytes)) (u_brk st) = None) \<or>
    (\<exists>r st'. malloc sbrk nbytes st = Some (r, st') \<and> got (units nbytes) r F st st')"
proof -
  define st0 where "st0 = (if freep st = 0 then set_size BASE 0 ((set_ptr BASE BASE st)\<lparr>freep := BASE\<rparr>) else st)"
  have s0: "u_brk st0 = u_brk st" "\<forall>x. x \<noteq> BASE \<longrightarrow> u_size st0 x = u_size st x" by (auto simp: st0_def)
  obtain xs where xs: "ulist st0 xs" "free_units st0 xs = F"
  proof (cases "freep st = 0")
    case True
    have "F = {}" using h True ulist_BASE [of st _ "freep st"] by (auto simp: heap_def free_list_def ulist_def BASE_def)
    moreover have "ulist st0 [BASE]" using h True by (auto simp: ulist_def spaced_def st0_def heap_def)
    moreover have "free_units st0 [BASE] = {}" using True by (simp add: free_units_def block_def st0_def)
    ultimately show ?thesis using that by blast
  next
    case False
    then show ?thesis using h that by (auto simp: heap_def free_list_def st0_def)
  qed
  have b: "BASE < u_brk st0" using h s0 by (simp add: heap_def)
  have m: "malloc sbrk nbytes st = malloc_from sbrk (units nbytes) (freep st0) (u_ptr st0 (freep st0)) st0" by (simp add: malloc_def st0_def Let_def)
  have pos: "0 < units nbytes" by (simp add: units_def)
  have hp: "free_list st0 F" using xs by (auto simp: free_list_def)
  show ?thesis
    using malloc_from_ok [OF xs(1) b g pos n] xs(2) hp s0 unfolding m by (auto simp: got_def)
qed

section \<open>A program that allocates and frees\<close>

text \<open>
  The calls of a program. It keeps the pointers it was given with the sizes it asked for, in the order it got them; \<open>UFree i\<close> gives
  back the \<open>i\<close>th of those it holds.
\<close>

datatype ucall = UMalloc nat | UFree nat

fun run_calls :: "(int \<Rightarrow> nat \<Rightarrow> nat option) \<Rightarrow> ucall list \<Rightarrow> (nat \<times> nat) list \<Rightarrow> umem \<Rightarrow> ((nat \<times> nat) list \<times> umem) option" where
  "run_calls sbrk [] live st = Some (live, st)"
| "run_calls sbrk (UMalloc n # cs) live st =
     (case malloc sbrk n st of
        None \<Rightarrow> None
      | Some (r, st) \<Rightarrow> run_calls sbrk cs (if r = 0 then live else live @ [(r, n)]) st)"
| "run_calls sbrk (UFree i # cs) live st =
     (if i < length live
      then case ufree (fst (live ! i)) st of
             None \<Rightarrow> None
           | Some st \<Rightarrow> run_calls sbrk cs (take i live @ drop (Suc i) live) st
      else run_calls sbrk cs live st)"

definition span :: "nat \<times> nat \<Rightarrow> nat set" where
  "span b = {fst b - 1..<fst b - 1 + units (snd b)}"

definition spans :: "(nat \<times> nat) list \<Rightarrow> nat set" where
  "spans live = (\<Union>b\<in>set live. span b)"

definition apart :: "(nat \<times> nat) list \<Rightarrow> bool" where
  "apart live \<longleftrightarrow> sorted_wrt (\<lambda>b c. span b \<inter> span c = {}) live"

definition owned :: "nat \<Rightarrow> (nat \<times> nat) list \<Rightarrow> umem \<Rightarrow> bool" where
  "owned b live st \<longleftrightarrow> heap st ({b..<u_brk st} - spans live) \<and> (live = [] \<or> free_list st ({b..<u_brk st} - spans live)) \<and> BASE < b \<and> b \<le> u_brk st \<and>
     spans live \<subseteq> {b..<u_brk st} \<and> apart live \<and> (\<forall>c\<in>set live. BASE < fst c - 1 \<and> u_size st (fst c - 1) = units (snd c))"

lemma spans_simps [simp]: "spans [] = {}" "spans (c # live) = span c \<union> spans live" "spans (live @ live') = spans live \<union> spans live'"
  by (auto simp: spans_def)

lemma apart_append: "apart (xs @ ys) \<longleftrightarrow> apart xs \<and> apart ys \<and> spans xs \<inter> spans ys = {}"
  by (auto simp: apart_def sorted_wrt_append spans_def)

lemma apart_Cons: "apart (c # ys) \<longleftrightarrow> span c \<inter> spans ys = {} \<and> apart ys"
  by (auto simp: apart_def spans_def)

lemma span_start: "fst c - 1 \<in> span c"
  by (simp add: span_def units_def)

lemma spans_start: "c \<in> set live \<Longrightarrow> fst c - 1 \<in> spans live"
  unfolding spans_def using span_start [of c] by blast

lemma owned_malloc:
  assumes o: "owned b live st" and g: "sbrk_grows sbrk" and n: "units n < 2 ^ 27"
  shows "\<exists>r st'. malloc sbrk n st = Some (r, st') \<and> owned b (if r = 0 then live else live @ [(r, n)]) st' \<and> u_brk st \<le> u_brk st'"
proof -
  let ?F = "{b..<u_brk st} - spans live"
  have h: "heap st ?F" using o by (simp add: owned_def)
  have s: "fst c - 1 \<notin> ?F" "fst c - 1 < u_brk st" "fst c - 1 \<noteq> BASE" if "c \<in> set live" for c
  proof -
    have "fst c - 1 \<in> spans live" using that by (rule spans_start)
    then show "fst c - 1 \<notin> ?F" "fst c - 1 < u_brk st" "fst c - 1 \<noteq> BASE" using o that by (auto simp: owned_def)
  qed
  from malloc_ok [OF h g n] show ?thesis
  proof (elim disjE exE conjE)
    fix st'
    assume m: "malloc sbrk n st = Some (0, st')" and f: "free_list st' ?F" and e: "u_brk st' = u_brk st" "\<forall>x. x \<noteq> BASE \<longrightarrow> u_size st' x = u_size st x"
    have "owned b live st'" using o f e s by (auto simp: owned_def heap_def)
    then show ?thesis using m e by simp
  next
    fix r st'
    assume m: "malloc sbrk n st = Some (r, st')" and gt: "got (units n) r ?F st st'"
    have r: "r \<noteq> 0" using gt by (auto simp: got_def)
    have sp: "span (r, n) \<subseteq> ?F \<union> {u_brk st..<u_brk st'}" "u_brk st \<le> u_brk st'" "BASE < r - 1" "u_size st' (r - 1) = units n"
      and f: "free_list st' (?F \<union> {u_brk st..<u_brk st'} - span (r, n))" and k: "\<forall>x. x \<notin> ?F \<longrightarrow> x < u_brk st \<longrightarrow> x \<noteq> BASE \<longrightarrow> u_size st' x = u_size st x"
      using gt by (auto simp: got_def span_def)
    have b: "b \<le> u_brk st" "BASE < b" "spans live \<subseteq> {b..<u_brk st}" "apart live" using o by (auto simp: owned_def)
    have F: "?F \<union> {u_brk st..<u_brk st'} - span (r, n) = {b..<u_brk st'} - spans (live @ [(r, n)])" using b sp(2) by auto
    have d: "spans live \<inter> span (r, n) = {}" using sp(1) b(3) by fastforce
    have a: "apart (live @ [(r, n)])" using b(4) d by (simp add: apart_append apart_Cons) (simp add: apart_def)
    have sz: "\<forall>c\<in>set (live @ [(r, n)]). BASE < fst c - 1 \<and> u_size st' (fst c - 1) = units (snd c)" using o k s sp(3,4) by (auto simp: owned_def)
    have w: "spans (live @ [(r, n)]) \<subseteq> {b..<u_brk st'}" using b(1,3) sp(1,2) by fastforce
    have "owned b (live @ [(r, n)]) st'" using f [unfolded F] a sz w b(1,2) sp(2) by (simp add: owned_def heap_def)
    then show ?thesis using m r sp(2) by simp
  qed
qed

lemma owned_free:
  assumes o: "owned b (as @ c # bs) st"
  shows "\<exists>st'. ufree (fst c) st = Some st' \<and> owned b (as @ bs) st' \<and> u_brk st' = u_brk st"
proof -
  let ?F = "{b..<u_brk st} - spans (as @ c # bs)"
  obtain xs where u: "ulist st xs" "free_units st xs = ?F" using o by (auto simp: owned_def free_list_def)
  have c: "BASE < fst c - 1" "u_size st (fst c - 1) = units (snd c)" "span c \<subseteq> {b..<u_brk st}" using o by (auto simp: owned_def)
  have bl: "block st (fst c - 1) = span c" unfolding block_def span_def c(2) by simp
  have brk: "fst c - 1 + u_size st (fst c - 1) \<le> u_brk st" 
  proof -
    have "fst c - 1 + units (snd c) - 1 \<in> span c" by (simp add: span_def units_def)
    then have "fst c - 1 + units (snd c) - 1 < u_brk st" using c(3) by auto
    then show ?thesis using c(2) by (simp add: units_def)
  qed
  have "block st (fst c - 1) \<inter> free_units st xs = {}" unfolding bl u(2) by auto
  then obtain st' xs' where f: "ufree (fst c) st = Some st'" "ulist st' xs'" "free_units st' xs' = ?F \<union> span c" "u_brk st' = u_brk st"
      "\<forall>x. x \<notin> set xs \<longrightarrow> x \<noteq> fst c - 1 \<longrightarrow> u_size st' x = u_size st x"
    using ufree_ok [OF u(1) c(1) _ _ brk] c(1,2) unfolding bl u(2) by (auto simp: units_def)
  have ap: "apart (as @ bs)" "span c \<inter> spans (as @ bs) = {}" using o by (auto simp: owned_def apart_append apart_Cons)
  have F: "?F \<union> span c = {b..<u_brk st'} - spans (as @ bs)" using ap(2) c(3) f(4) by auto
  have sz: "u_size st' (fst d - 1) = units (snd d)" "BASE < fst d - 1" if d: "d \<in> set (as @ bs)" for d
  proof -
    have m: "fst d - 1 \<in> spans (as @ bs)" using d by (rule spans_start)
    have z: "BASE < fst d - 1" "u_size st (fst d - 1) = units (snd d)" using o d by (auto simp: owned_def)
    have "fst d - 1 \<notin> free_units st xs" using m unfolding u(2) by auto
    then have "fst d - 1 \<notin> set xs" using z by (auto simp: free_units_def block_def units_def)
    moreover have "fst d - 1 \<noteq> fst c - 1" using m ap(2) span_start [of c] by auto
    ultimately show "u_size st' (fst d - 1) = units (snd d)" "BASE < fst d - 1" using f(5) z by auto
  qed
  have fl: "free_list st' ({b..<u_brk st'} - spans (as @ bs))" using f(2,3) F by (auto simp: free_list_def)
  have "owned b (as @ bs) st'" using fl ap(1) sz o f(4) by (auto simp: owned_def heap_def)
  then show ?thesis using f(1,4) by blast
qed

lemma run_calls_owned:
  assumes "sbrk_grows sbrk"
  shows "owned b live st \<Longrightarrow> \<forall>n. UMalloc n \<in> set cs \<longrightarrow> units n < 2 ^ 27 \<Longrightarrow>
    \<exists>live' st'. run_calls sbrk cs live st = Some (live', st') \<and> owned b live' st'"
proof (induction cs arbitrary: live st)
  case (Cons c cs)
  show ?case
  proof (cases c)
    case (UMalloc n)
    then show ?thesis using owned_malloc [OF Cons.prems(1) assms, of n] Cons.IH Cons.prems(2) by fastforce
  next
    case (UFree i)
    show ?thesis
    proof (cases "i < length live")
      case True
      then have "owned b (take i live @ live ! i # drop (Suc i) live) st" using Cons.prems(1) by (simp add: id_take_nth_drop [symmetric])
      from owned_free [OF this] show ?thesis using Cons.IH Cons.prems(2) UFree True by fastforce
    qed (use UFree Cons in simp)
  qed
qed simp

text \<open>
  C24. A program that calls \<open>malloc\<close> and \<open>free\<close> in any order, freeing only blocks it holds, always gets an answer from each call. At any
  time the blocks it holds do not overlap and lie between the first break and the present one, each has room for the bytes it was asked for behind
  its header, and every other unit between the two breaks is on the free list: none is lost and none is there twice.
\<close>

theorem umalloc_partition:
  assumes "freep st = 0" "BASE < u_brk st" "sbrk_grows sbrk" "\<forall>n. UMalloc n \<in> set cs \<longrightarrow> units n < 2 ^ 27"
  shows "\<exists>live st'. run_calls sbrk cs [] st = Some (live, st') \<and> apart live \<and> spans live \<subseteq> {u_brk st..<u_brk st'} \<and>
    (\<forall>(r, n)\<in>set live. BASE < r - 1 \<and> u_size st' (r - 1) = units n \<and> 16 * r + n \<le> 16 * (r - 1 + units n)) \<and>
    heap st' ({u_brk st..<u_brk st'} - spans live)"
proof -
  have "owned (u_brk st) [] st" using assms(1,2) by (simp add: owned_def heap_def apart_def)
  from run_calls_owned [OF assms(3) this assms(4)]
  obtain live st' where r: "run_calls sbrk cs [] st = Some (live, st')" and o: "owned (u_brk st) live st'" by blast
  have "BASE < fst c - 1 \<and> u_size st' (fst c - 1) = units (snd c) \<and> 16 * fst c + snd c \<le> 16 * (fst c - 1 + units (snd c))" if "c \<in> set live" for c
  proof -
    have "BASE < fst c - 1" "u_size st' (fst c - 1) = units (snd c)" using o that by (auto simp: owned_def)
    moreover have "snd c \<le> 16 * ((snd c + 15) div 16)" by linarith
    ultimately show ?thesis by (simp add: units_def)
  qed
  then have "\<forall>(r, n)\<in>set live. BASE < r - 1 \<and> u_size st' (r - 1) = units n \<and> 16 * r + n \<le> 16 * (r - 1 + units n)" by fastforce
  then show ?thesis using r o unfolding owned_def by blast
qed

definition limit_sbrk :: "int \<Rightarrow> nat \<Rightarrow> nat option" where
  "limit_sbrk n b = (if b + nat n div 16 \<le> 10000 then Some (b + nat n div 16) else None)"

theorem umalloc_partition_witness:
  "\<exists>live st'. run_calls limit_sbrk [UMalloc 100, UMalloc 70000, UFree 0, UMalloc 300000] [] \<lparr>u_ptr = \<lambda>_. 0, u_size = \<lambda>_. 0, freep = 0, u_brk = 64\<rparr>
      = Some (live, st') \<and> apart live \<and> spans live \<subseteq> {64..<u_brk st'} \<and>
    (\<forall>(r, n)\<in>set live. BASE < r - 1 \<and> u_size st' (r - 1) = units n \<and> 16 * r + n \<le> 16 * (r - 1 + units n)) \<and>
    heap st' ({64..<u_brk st'} - spans live)"
  using umalloc_partition [of "\<lparr>u_ptr = \<lambda>_. 0, u_size = \<lambda>_. 0, freep = 0, u_brk = 64\<rparr>" limit_sbrk "[UMalloc 100, UMalloc 70000, UFree 0, UMalloc 300000]"]
  by (simp add: limit_sbrk_def BASE_def sbrk_grows_def units_def nat_mult_distrib)

text \<open>
  \<open>sbrk\<close> takes an \<open>int\<close>: the request of 2 ^ 28 units for 4294967280 bytes is the number 0 there, the break stays, and \<open>malloc\<close> returns
  a block that lies behind it.
\<close>

lemma malloc_truncated:
  "\<exists>st'. malloc limit_sbrk 4294967280 \<lparr>u_ptr = \<lambda>_. 0, u_size = \<lambda>_. 0, freep = 0, u_brk = 64\<rparr> = Some (65, st') \<and> u_brk st' = 64"
  by (simp add: malloc_def units_def malloc_from.simps morecore_def limit_sbrk_def ufree_def free_from.simps Let_def BASE_def set_ptr_def set_size_def)

end
