(* ===== verification/Ucmds.thy ===== *)
theory Ucmds
  imports Ulib Fs
begin

text \<open>
  User commands that read files and directories: \<^verbatim>\<open>user/wc.c\<close>, \<^verbatim>\<open>user/cat.c\<close>,
  \<^verbatim>\<open>user/echo.c\<close>, \<^verbatim>\<open>user/ls.c\<close> and \<^verbatim>\<open>user/find.c\<close>. The results of system calls are
  parameters: the buffers that \<open>read\<close> fills, or the record \<open>ufs\<close> of what \<open>open\<close>, \<open>fstat\<close>
  and directory reads answer for a path.
\<close>

section \<open>wc\<close>

record wcst =
  wc_l :: u32
  wc_w :: u32
  wc_c :: u32
  wc_inword :: bool

definition wc_space :: string where
  "wc_space = [CHR '' '', CHR 0x0D, CHR 0x09, CHR 0x0A, CHR 0x0B]"

definition wc_byte :: "char \<Rightarrow> wcst \<Rightarrow> wcst" where
  "wc_byte ch s =
     (let s = s\<lparr>wc_c := wc_c s + 1\<rparr>;
          s = (if ch = CHR 0x0A then s\<lparr>wc_l := wc_l s + 1\<rparr> else s)
      in if strchr wc_space ch \<noteq> None then s\<lparr>wc_inword := False\<rparr>
         else if \<not> wc_inword s then s\<lparr>wc_w := wc_w s + 1, wc_inword := True\<rparr>
         else s)"

text \<open>The successive results of \<open>read\<close>, and whether the last one was an error. \<open>None\<close> is the exit with status 1.\<close>

definition wc :: "string list \<Rightarrow> bool \<Rightarrow> string \<Rightarrow> string option" where
  "wc chunks err name =
     (let s = fold (fold wc_byte) chunks \<lparr>wc_l = 0, wc_w = 0, wc_c = 0, wc_inword = False\<rparr>
      in if err then None
         else vprintf False (''%d %d %d %s'' @ [CHR 0x0A])
                [ArgInt (sint (wc_l s)), ArgInt (sint (wc_w s)), ArgInt (sint (wc_c s)), ArgStr (Some name)])"


section \<open>cat and echo\<close>

text \<open>
  \<open>cat\<close> gets the successive buffers that \<open>read\<close> fills, whether the last \<open>read\<close> failed, and
  the number of bytes \<open>write\<close> accepts of a buffer. The result is the list of buffers
  handed to \<open>write\<close> and the exit status when the program ends early.
\<close>

fun cat :: "(string \<Rightarrow> int) \<Rightarrow> string list \<Rightarrow> bool \<Rightarrow> string list \<times> int option" where
  "cat wr [] err = ([], if err then Some 1 else None)"
| "cat wr (b # bs) err =
     (if wr b \<noteq> int (length b) then ([b], Some 1)
      else (let (out, st) = cat wr bs err in (b # out, st)))"

fun echo :: "string list \<Rightarrow> string" where
  "echo [] = []"
| "echo (a # rest) = a @ (if rest \<noteq> [] then '' '' else [CHR 0x0A]) @ echo rest"

section \<open>ls and find\<close>

text \<open>The last component of a path: the loop walks back from the end to a slash.\<close>

primrec after_slash :: "nat \<Rightarrow> string \<Rightarrow> string" where
  "after_slash 0 path = (if path \<noteq> [] \<and> path ! 0 = CHR ''/'' then drop 1 path else path)"
| "after_slash (Suc i) path =
     (if Suc i < length path \<and> path ! Suc i = CHR ''/'' then drop (Suc (Suc i)) path else after_slash i path)"

definition ls_fmtname :: "string \<Rightarrow> string" where
  "ls_fmtname path =
     (let p = after_slash (ustrlen path) path
      in if DIRSIZ \<le> ustrlen p then p else p @ replicate (DIRSIZ - ustrlen p) CHR '' '')"

definition find_fmtname :: "string \<Rightarrow> string" where
  "find_fmtname path =
     (let p = after_slash (ustrlen path) path
      in if DIRSIZ \<le> ustrlen p then p else take (ustrlen p) p)"

text \<open>
  The file system as a program sees it through \<open>open\<close>, \<open>fstat\<close> and the directory
  entries that \<open>read\<close> returns: inode number and the \<open>DIRSIZ\<close> bytes of the name.
\<close>

record ufs =
  u_open :: "string \<Rightarrow> bool"
  u_fstat :: "string \<Rightarrow> stat option"
  u_dir :: "string \<Rightarrow> (u16 \<times> string) list"

text \<open>\<open>stat\<close> of the user library opens the path and asks for the descriptor.\<close>

definition ustat :: "ufs \<Rightarrow> string \<Rightarrow> stat option" where
  "ustat f n = (if u_open f n then u_fstat f n else None)"

definition cname :: "string \<Rightarrow> string" where
  "cname nm = takeWhile (\<lambda>c. c \<noteq> NUL) (take DIRSIZ nm)"

definition PATHBUF :: nat where "PATHBUF = 512"

definition say :: "string \<Rightarrow> fmtarg list \<Rightarrow> string" where
  "say fmt as = (case vprintf False fmt as of Some s \<Rightarrow> s | None \<Rightarrow> [])"

definition ls_entry :: "ufs \<Rightarrow> string \<Rightarrow> u16 \<times> string \<Rightarrow> string" where
  "ls_entry f path de =
     (if fst de = 0 then []
      else let buf = path @ ''/'' @ cname (snd de)
           in case ustat f buf of
                None \<Rightarrow> say (''ls: cannot stat %s'' @ [CHR 0x0A]) [ArgStr (Some buf)]
              | Some st \<Rightarrow> say (''%s %d %d %d'' @ [CHR 0x0A])
                  [ArgStr (Some (ls_fmtname buf)), ArgInt (sint (st_type st)), ArgInt (sint (st_ino st)),
                   ArgInt (sint (ucast (st_size st) :: u32))])"

definition ls :: "ufs \<Rightarrow> string \<Rightarrow> string" where
  "ls f path =
     (if \<not> u_open f path then say (''ls: cannot open %s'' @ [CHR 0x0A]) [ArgStr (Some path)]
      else case u_fstat f path of
        None \<Rightarrow> say (''ls: cannot stat %s'' @ [CHR 0x0A]) [ArgStr (Some path)]
      | Some st \<Rightarrow>
          if st_type st = T_DEVICE \<or> st_type st = T_FILE
          then say (''%s %d %d %l'' @ [CHR 0x0A])
                 [ArgStr (Some (ls_fmtname path)), ArgInt (sint (st_type st)), ArgInt (sint (st_ino st)),
                  ArgPtr (st_size st)]
          else if st_type st = T_DIR
          then (if PATHBUF < ustrlen path + 1 + DIRSIZ + 1 then ''ls: path too long'' @ [CHR 0x0A]
                else concat (map (ls_entry f path) (u_dir f path)))
          else [])"

definition find_skips :: "u16 \<times> string \<Rightarrow> bool" where
  "find_skips de \<longleftrightarrow> fst de = 0 \<or> strcmp (cname (snd de)) ''.'' = 0 \<or> strcmp (cname (snd de)) ''..'' = 0"

text \<open>
  The strings that \<open>find\<close> prints, each with the descriptor it goes to. It calls itself on paths that grow by at least the slash,
  and refuses those that do not fit its buffer.
\<close>

function find :: "ufs \<Rightarrow> string \<Rightarrow> string \<Rightarrow> (nat \<times> string) list" where
  "find f path str =
     (if \<not> u_open f path then [(2, say (''find: cannot open %s'' @ [CHR 0x0A]) [ArgStr (Some path)])]
      else case u_fstat f path of
        None \<Rightarrow> [(2, say (''find: cannot stat1 %s'' @ [CHR 0x0A]) [ArgStr (Some path)])]
      | Some st \<Rightarrow>
          if st_type st = T_DEVICE \<or> st_type st = T_FILE
          then (if strcmp str (find_fmtname path) = 0 then [(1, say (''%s'' @ [CHR 0x0A]) [ArgStr (Some path)])] else [])
          else if st_type st = T_DIR
          then (if PATHBUF < ustrlen path + 1 + DIRSIZ + 1 then [(1, ''find: path too long'' @ [CHR 0x0A])]
                else concat (map (\<lambda>de.
                       if find_skips de then []
                       else let buf = path @ ''/'' @ cname (snd de)
                            in case ustat f buf of
                                 None \<Rightarrow> [(1, say (''find: cannot stat %s'' @ [CHR 0x0A]) [ArgStr (Some buf)])]
                               | Some st \<Rightarrow> find f buf str) (u_dir f path)))
          else [])"
  by pat_completeness auto
termination
  by (relation "measure (\<lambda>(f, path, str). PATHBUF - length path)") (auto simp: PATHBUF_def ustrlen_def DIRSIZ_def)

declare find.simps [simp del]

section \<open>Word counts\<close>

abbreviation is_space :: "char \<Rightarrow> bool" where
  "is_space c \<equiv> c \<in> set wc_space"

text \<open>The maximal runs of characters that are not white space.\<close>

function words_of :: "string \<Rightarrow> string list" where
  "words_of s = (case dropWhile is_space s of
       [] \<Rightarrow> []
     | c # r \<Rightarrow> (c # takeWhile (\<lambda>c. \<not> is_space c) r) # words_of (dropWhile (\<lambda>c. \<not> is_space c) r))"
  by pat_completeness auto
termination
proof (relation "measure length", goal_cases)
  case (2 s c r)
  have "length (c # r) \<le> length s"
    using length_dropWhile_le [of is_space s] 2 by simp
  then show ?case using length_dropWhile_le [of "\<lambda>c. \<not> is_space c" r] by simp
qed simp

declare words_of.simps [simp del]

lemma words_of_space: "is_space c \<Longrightarrow> words_of (c # s) = words_of s"
  by (subst (1 2) words_of.simps) simp

lemma words_of_word:
  "\<not> is_space c \<Longrightarrow> words_of (c # s) = (c # takeWhile (\<lambda>c. \<not> is_space c) s) # words_of (dropWhile (\<lambda>c. \<not> is_space c) s)"
  by (subst words_of.simps) simp

lemma words_of_Nil: "words_of [] = []"
  by (subst words_of.simps) simp

lemma strchr_None: "strchr s c = None \<longleftrightarrow> c \<notin> set s"
  by (induction s) auto

lemma wc_byte_simps:
  "wc_c (wc_byte c s) = wc_c s + 1"
  "wc_l (wc_byte c s) = wc_l s + (if c = CHR 0x0A then 1 else 0)"
  "wc_inword (wc_byte c s) = (\<not> is_space c)"
  "wc_w (wc_byte c s) = wc_w s + (if is_space c \<or> wc_inword s then 0 else 1)"
  by (auto simp: wc_byte_def Let_def strchr_None)

lemma wc_fold:
  "wc_c (fold wc_byte s st) = wc_c st + of_nat (length s)"
  "wc_l (fold wc_byte s st) = wc_l st + of_nat (count_list s CHR 0x0A)"
  "wc_w (fold wc_byte s st) =
     wc_w st + of_nat (length (words_of (if wc_inword st then dropWhile (\<lambda>c. \<not> is_space c) s else s)))"
  by (induction s arbitrary: st) (auto simp: wc_byte_simps words_of_Nil words_of_space words_of_word)

lemma fold_concat: "fold (fold f) xss = fold f (concat xss)"
  by (induction xss) (auto simp: fun_eq_iff)

lemma words_of_length: "length (words_of s) \<le> length s"
proof (induction s rule: length_induct)
  case (1 s)
  show ?case
  proof (cases s)
    case (Cons c r)
    have "length (words_of (dropWhile (\<lambda>c. \<not> is_space c) r)) \<le> length r"
      using 1 Cons length_dropWhile_le [of "\<lambda>c. \<not> is_space c" r]
      by (metis le_imp_less_Suc length_Cons order.trans)
    then show ?thesis using 1 Cons by (cases "is_space c") (auto simp: words_of_space words_of_word le_Suc_eq)
  qed (simp add: words_of_Nil)
qed

lemma sint_of_nat_small: "n < 2 ^ 31 \<Longrightarrow> sint (of_nat n :: u32) = int n"
  by (simp add: signed_of_nat signed_take_bit_int_eq_self)

abbreviation decimal :: "nat \<Rightarrow> string" where
  "decimal n \<equiv> uprintint (int n) 10 True"

text \<open>
  C34. However \<open>read\<close> cuts a file into buffers, \<open>wc\<close> prints its number of newlines, of words and of
  characters, where a word is a maximal run of characters that are not white space: words that cross
  the end of a buffer are counted once.
\<close>

theorem wc_counts:
  assumes "concat chunks = tx" and "length tx < 2 ^ 31"
  shows "wc chunks False name =
    Some (decimal (count_list tx CHR 0x0A) @ '' '' @ decimal (length (words_of tx)) @ '' '' @
          decimal (length tx) @ '' '' @ name @ [CHR 0x0A])"
proof -
  have "count_list tx CHR 0x0A < 2 ^ 31" "length (words_of tx) < 2 ^ 31"
    using assms(2) words_of_length [of tx] count_le_length [of tx "CHR 0x0A"] by simp_all
  then show ?thesis using assms
    by (simp add: wc_def fold_concat wc_fold sint_of_nat_small or_null_def)
qed

theorem wc_counts_witness:
  "wc [''ab c'', ''d'' @ [CHR 0x0A], ''e''] False ''f'' = Some (''1 3 7 f'' @ [CHR 0x0A])"
proof -
  have "words_of (''ab cd'' @ [CHR 0x0A] @ ''e'') = [''ab'', ''cd'', ''e'']"
    by (simp add: words_of.simps wc_space_def)
  then show ?thesis
    using wc_counts [of "[''ab c'', ''d'' @ [CHR 0x0A], ''e'']" _ "''f''", OF refl]
    by simp code_simp
qed

lemma cat_copies: "\<forall>b\<in>set bs. wr b = int (length b) \<Longrightarrow> cat wr bs False = (bs, None)"
  by (induction bs) auto

section \<open>Path names\<close>

definition last_component :: "string \<Rightarrow> string" where
  "last_component p = rev (takeWhile (\<lambda>c. c \<noteq> CHR ''/'') (rev p))"

lemma last_component_slash: "CHR ''/'' \<notin> set ys \<Longrightarrow> last_component (xs @ CHR ''/'' # ys) = ys"
  by (simp add: last_component_def takeWhile_append rev_swap)

lemma last_component_all: "CHR ''/'' \<notin> set p \<Longrightarrow> last_component p = p"
  by (auto simp: last_component_def rev_swap takeWhile_eq_all_conv)

lemma after_slash_eq:
  "CHR ''/'' \<notin> set (drop (Suc i) p) \<Longrightarrow> after_slash i p = last_component p"
proof (induction i)
  case 0
  then show ?case using last_component_slash [of "drop 1 p" "[]"]
    by (cases p) (auto simp: last_component_all)
next
  case (Suc i)
  show ?case
  proof (cases "Suc i < length p")
    case True
    then have d: "drop (Suc i) p = p ! Suc i # drop (Suc (Suc i)) p" by (simp add: Cons_nth_drop_Suc)
    then show ?thesis
      using Suc True last_component_slash [of "drop (Suc (Suc i)) p" "take (Suc i) p"]
        append_take_drop_id [of "Suc i" p] by auto
  next
    case False
    then show ?thesis using Suc by simp
  qed
qed

lemma find_fmtname_eq: "find_fmtname path = last_component path"
  by (simp add: find_fmtname_def ustrlen_def after_slash_eq Let_def)

text \<open>The paths that a search from \<open>root\<close> comes to: the entries of directories, but not their two dot entries.\<close>

inductive visits :: "ufs \<Rightarrow> string \<Rightarrow> string \<Rightarrow> bool" for f where
  start: "visits f root root"
| down: "visits f (path @ ''/'' @ cname (snd de)) p \<Longrightarrow> u_fstat f path = Some st \<Longrightarrow> st_type st = T_DIR \<Longrightarrow>
    de \<in> set (u_dir f path) \<Longrightarrow> fst de \<noteq> 0 \<Longrightarrow> cname (snd de) \<noteq> ''.'' \<Longrightarrow> cname (snd de) \<noteq> ''..'' \<Longrightarrow> visits f path p"

definition is_file :: "ufs \<Rightarrow> string \<Rightarrow> bool" where
  "is_file f p \<longleftrightarrow> (\<exists>st. u_fstat f p = Some st \<and> (st_type st = T_FILE \<or> st_type st = T_DEVICE))"

text \<open>The calls on a path succeed, and a directory path fits the buffer.\<close>

definition readable :: "ufs \<Rightarrow> string \<Rightarrow> bool" where
  "readable f p \<longleftrightarrow> u_open f p \<and>
     (case u_fstat f p of None \<Rightarrow> False | Some st \<Rightarrow> st_type st = T_DIR \<longrightarrow> length p + DIRSIZ + 2 \<le> PATHBUF)"

lemma cstring_cname: "cstring (cname nm)"
  by (auto simp: cstring_def cname_def dest: set_takeWhileD)

lemma strcmp_0: "cstring a \<Longrightarrow> cstring b \<Longrightarrow> strcmp a b = 0 \<longleftrightarrow> a = b"
  using strcmp_order by auto

lemma cstring_last_component: "cstring p \<Longrightarrow> cstring (last_component p)"
  by (auto simp: cstring_def last_component_def dest: set_takeWhileD)

lemma find_skips_iff: "find_skips de \<longleftrightarrow> fst de = 0 \<or> cname (snd de) = ''.'' \<or> cname (snd de) = ''..''"
  by (simp add: find_skips_def strcmp_0 cstring_cname NUL_def)

inductive_simps visits_iff: "visits f root p"

lemma file_types [simp]: "T_DIR \<noteq> T_FILE" "T_DIR \<noteq> T_DEVICE" "T_FILE \<noteq> T_DIR" "T_DEVICE \<noteq> T_DIR"
  by (simp_all add: T_DIR_def T_FILE_def T_DEVICE_def)

lemma say_line: "say (''%s'' @ [CHR 0x0A]) [ArgStr (Some p)] = p @ [CHR 0x0A]"
  by (simp add: say_def or_null_def)

lemmas say_line_simp = say_line [simplified]

abbreviation found :: "ufs \<Rightarrow> string \<Rightarrow> string \<Rightarrow> (nat \<times> string) set" where
  "found f root str \<equiv> (\<lambda>p. (1, p @ [CHR 0x0A])) ` {p. visits f root p \<and> is_file f p \<and> last_component p = str}"

lemma found_file:
  assumes "u_fstat f path = Some st" "st_type st \<noteq> T_DIR"
  shows "found f path str = (if is_file f path \<and> last_component path = str then {(1, path @ [CHR 0x0A])} else {})"
proof -
  have "visits f path p \<longleftrightarrow> p = path" for p using assms by (subst visits_iff) auto
  then show ?thesis by auto
qed

lemma found_dir:
  assumes "u_fstat f path = Some st" "st_type st = T_DIR"
  shows "found f path str =
    (\<Union>de \<in> {de \<in> set (u_dir f path). \<not> find_skips de}. found f (path @ ''/'' @ cname (snd de)) str)"
proof -
  have nf: "\<not> is_file f path" using assms by (auto simp: is_file_def)
  have v: "visits f path p \<longleftrightarrow> p = path \<or>
    (\<exists>de \<in> {de \<in> set (u_dir f path). \<not> find_skips de}. visits f (path @ ''/'' @ cname (snd de)) p)" for p
    using assms by (subst visits_iff) (auto simp: find_skips_iff)
  have "{p. visits f path p \<and> is_file f p \<and> last_component p = str} =
    (\<Union>de \<in> {de \<in> set (u_dir f path). \<not> find_skips de}.
       {p. visits f (path @ ''/'' @ cname (snd de)) p \<and> is_file f p \<and> last_component p = str})"
    unfolding v by (rule set_eqI) (use nf in blast)
  then show ?thesis by (simp only: image_UN)
qed

lemma visits_down:
  assumes "u_fstat f path = Some st" "st_type st = T_DIR" "de \<in> set (u_dir f path)" "\<not> find_skips de"
    "visits f (path @ ''/'' @ cname (snd de)) p"
  shows "visits f path p"
  by (rule visits.down [OF assms(5,1,2,3)]) (use assms(4) in \<open>simp_all add: find_skips_iff\<close>)

text \<open>
  C30. \<open>find\<close> returns, and when the calls it makes succeed it prints exactly the paths of
  the files and devices below its starting point whose last component is the name it looks for. A
  cycle of directories does not make it run forever, because paths that do not fit its buffer end the descent.
\<close>

theorem find_prints_matches:
  assumes "cstring root" "cstring str" "\<forall>p. visits f root p \<longrightarrow> readable f p"
  shows "set (find f root str) = found f root str"
  using assms
proof (induction f root str rule: find.induct)
  case (1 f path str)
  have r: "readable f path" using "1.prems"(3) visits.start by blast
  then obtain st where st: "u_open f path" "u_fstat f path = Some st"
    and fit: "st_type st = T_DIR \<Longrightarrow> \<not> PATHBUF < ustrlen path + 1 + DIRSIZ + 1"
    by (auto simp: readable_def ustrlen_def split: option.splits)
  show ?case
  proof (cases "st_type st = T_DIR")
    case False
    then show ?thesis
      unfolding found_file [OF st(2) False] using st "1.prems"
      by (subst find.simps) (auto simp: is_file_def find_fmtname_eq strcmp_0 cstring_last_component say_line_simp)
  next
    case True
    let ?sub = "\<lambda>de. path @ ''/'' @ cname (snd de)"
    have sub: "set (find f (?sub de) str) = found f (?sub de) str \<and> (\<exists>st. ustat f (?sub de) = Some st)"
      if de: "de \<in> set (u_dir f path)" "\<not> find_skips de" for de
    proof -
      have v: "visits f path p" if "visits f (?sub de) p" for p using visits_down [OF st(2) True de that] .
      then obtain st' where st': "ustat f (?sub de) = Some st'"
        using "1.prems"(3) visits.start [of f "?sub de"] by (auto simp: readable_def ustat_def split: option.splits)
      have "cstring (?sub de)" using "1.prems"(1) cstring_cname by (simp add: cstring_def NUL_def)
      then show ?thesis
        using "1.IH" [OF _ st(2) _ True _ de refl st'] st True fit v "1.prems"(2,3) st' by auto
    qed
    have "find f path str = concat (map (\<lambda>de. if find_skips de then [] else find f (?sub de) str) (u_dir f path))"
      using st True fit sub by (subst find.simps) (force simp: Let_def intro!: arg_cong [of _ _ concat])
    then have "set (find f path str) = (\<Union>de \<in> {de \<in> set (u_dir f path). \<not> find_skips de}. set (find f (?sub de) str))"
      by auto
    also have "\<dots> = found f path str"
      unfolding found_dir [OF st(2) True] using sub by (intro SUP_cong) blast+
    finally show ?thesis .
  qed
qed

definition tree_fs :: ufs where
  "tree_fs = \<lparr>u_open = (\<lambda>p. True),
     u_fstat = (\<lambda>p. Some \<lparr>st_dev = 1, st_ino = 1, st_type = (if p = ''d'' then T_DIR else T_FILE), st_nlink = 1, st_size = 0\<rparr>),
     u_dir = (\<lambda>p. [(1, ''.''), (2, ''a''), (0, ''b''), (3, ''b'')])\<rparr>"

theorem find_prints_matches_witness: "(1, ''d/b'' @ [CHR 0x0A]) \<in> set (find tree_fs ''d'' ''b'')"
proof -
  have "readable tree_fs p" for p
    by (simp add: readable_def tree_fs_def PATHBUF_def DIRSIZ_def)
  moreover have "visits tree_fs ''d'' ''d/b''"
    by (rule visits.down [where de = "(3, ''b'')"]) (auto simp: tree_fs_def cname_def DIRSIZ_def NUL_def intro: visits.start)
  ultimately show ?thesis
    using find_prints_matches [of "''d''" "''b''" tree_fs]
    by (simp add: NUL_def is_file_def last_component_def) (simp add: tree_fs_def)
qed

end
