(* ===== verification/Rhtest.thy ===== *)
theory Rhtest
  imports Ucmds
begin

text \<open>
  The test support of \<^verbatim>\<open>user/rhtest.c\<close> with its resizable strings, and the exercises
  \<^verbatim>\<open>user/arraylist.c\<close> and \<^verbatim>\<open>user/warmup.c\<close> with the tests they run.
\<close>

section \<open>Assertions\<close>

text \<open>
  A test program prints and goes on, leaves with a status, or uses memory outside its blocks (\<open>Wild\<close>).
  The string is what it printed so far. \<open>malloc\<close> always finds memory here.
\<close>

datatype 'a urun = Go 'a string | Exit int string | Wild string

fun ubind :: "'a urun \<Rightarrow> ('a \<Rightarrow> string \<Rightarrow> 'b urun) \<Rightarrow> 'b urun" where
  "ubind (Go x out) f = f x out"
| "ubind (Exit st out) f = Exit st out"
| "ubind (Wild out) f = Wild out"

definition need :: "'a option \<Rightarrow> string \<Rightarrow> 'a urun" where
  "need r out = (case r of Some x \<Rightarrow> Go x out | None \<Rightarrow> Wild out)"

definition rhassert :: "bool \<Rightarrow> string \<Rightarrow> int \<Rightarrow> string \<Rightarrow> unit urun" where
  "rhassert e fn line out =
     (if e then Go () (out @ say (''%s(%d): OK.'' @ [CHR 0x0A]) [ArgStr (Some fn), ArgInt line])
      else Exit 1 (out @ say (''%s(%d): Assertion FAILED.'' @ [CHR 0x0A]) [ArgStr (Some fn), ArgInt line]))"

definition rhassert_int_equals :: "int \<Rightarrow> int \<Rightarrow> string \<Rightarrow> int \<Rightarrow> string \<Rightarrow> unit urun" where
  "rhassert_int_equals actual expected fn line out =
     (if actual = expected then Go () (out @ say (''%s(%d): OK.'' @ [CHR 0x0A]) [ArgStr (Some fn), ArgInt line])
      else Exit 1 (out @ say (''%s(%d): Assertion FAILED: actual = %d, expected = %d'' @ [CHR 0x0A])
                           [ArgStr (Some fn), ArgInt line, ArgInt actual, ArgInt expected]))"

definition rhassert_ptr_equals :: "u64 \<Rightarrow> u64 \<Rightarrow> string \<Rightarrow> int \<Rightarrow> string \<Rightarrow> unit urun" where
  "rhassert_ptr_equals actual expected fn line out =
     (if actual = expected then Go () (out @ say (''%s(%d): OK.'' @ [CHR 0x0A]) [ArgStr (Some fn), ArgInt line])
      else Exit 1 (out @ say (''%s(%d): Assertion FAILED: actual = %p, expected = %p'' @ [CHR 0x0A])
                           [ArgStr (Some fn), ArgInt line, ArgPtr actual, ArgPtr expected]))"

definition rhassert_str_equals :: "string option \<Rightarrow> string option \<Rightarrow> string \<Rightarrow> int \<Rightarrow> string \<Rightarrow> unit urun" where
  "rhassert_str_equals actual expected fn line out =
     (if (case (actual, expected) of
            (None, None) \<Rightarrow> True | (Some a, Some b) \<Rightarrow> strcmp a b = 0 | _ \<Rightarrow> False)
      then Go () (out @ say (''%s(%d): OK.'' @ [CHR 0x0A]) [ArgStr (Some fn), ArgInt line])
      else Exit 1 (out @ say (''%s(%d): Assertion FAILED: actual = %s, expected = %s'' @ [CHR 0x0A])
                           [ArgStr (Some fn), ArgInt line, ArgStr actual, ArgStr expected]))"

section \<open>The array list\<close>

record arraylist =
  al_size :: int
  al_capacity :: int
  al_list :: "int list"

definition DEF_ARRAY_LIST_CAPACITY :: int where "DEF_ARRAY_LIST_CAPACITY = 4"

text \<open>A block that \<open>malloc\<close> returns has arbitrary contents, the function \<open>junk\<close>.\<close>

definition al_block :: "(nat \<Rightarrow> int) \<Rightarrow> int \<Rightarrow> int list" where
  "al_block junk n = map junk [0..<nat n]"

definition al_new :: "(nat \<Rightarrow> int) \<Rightarrow> arraylist" where
  "al_new junk = \<lparr>al_size = 0, al_capacity = DEF_ARRAY_LIST_CAPACITY, al_list = al_block junk DEF_ARRAY_LIST_CAPACITY\<rparr>"

text \<open>\<open>None\<close> is an access outside the block.\<close>

definition al_read :: "int list \<Rightarrow> int \<Rightarrow> int option" where
  "al_read xs i = (if 0 \<le> i \<and> i < int (length xs) then Some (xs ! nat i) else None)"

definition al_write :: "int list \<Rightarrow> int \<Rightarrow> int \<Rightarrow> int list option" where
  "al_write xs i v = (if 0 \<le> i \<and> i < int (length xs) then Some (xs[nat i := v]) else None)"

definition al_get_at :: "arraylist \<Rightarrow> int \<Rightarrow> int option" where
  "al_get_at al pos = (if al_size al \<le> pos then Some (- 1) else al_read (al_list al) pos)"

primrec al_copy :: "int list \<Rightarrow> nat list \<Rightarrow> int list \<Rightarrow> int list option" where
  "al_copy src [] dst = Some dst"
| "al_copy src (i # is) dst =
     (case al_read src (int i) of None \<Rightarrow> None
      | Some v \<Rightarrow> case al_write dst (int i) v of None \<Rightarrow> None | Some dst \<Rightarrow> al_copy src is dst)"

definition al_resize :: "(nat \<Rightarrow> int) \<Rightarrow> arraylist \<Rightarrow> arraylist option" where
  "al_resize junk al =
     (let newCap = 2 * al_capacity al
      in map_option (\<lambda>newList. al\<lparr>al_list := newList, al_capacity := newCap\<rparr>)
           (al_copy (al_list al) [0..<nat (al_size al)] (al_block junk newCap)))"

definition al_append :: "(nat \<Rightarrow> int) \<Rightarrow> int \<Rightarrow> arraylist \<Rightarrow> arraylist option" where
  "al_append junk val al =
     (case (if al_size al = al_capacity al then al_resize junk al else Some al) of
        None \<Rightarrow> None
      | Some al \<Rightarrow> map_option (\<lambda>xs. al\<lparr>al_list := xs, al_size := al_size al + 1\<rparr>)
                     (al_write (al_list al) (al_size al) val))"

definition al_print :: "arraylist \<Rightarrow> string" where
  "al_print al = ''['' @ concat (map (\<lambda>i. say ''%d, '' [ArgInt (al_list al ! i)]) [0..<nat (al_size al)]) @ '']'' @ [CHR 0x0A]"

text \<open>One step of the test program, an assertion or an append.\<close>

datatype al_step = Size int int | Cap int int | At int int int | Add int

primrec al_do :: "(nat \<Rightarrow> int) \<Rightarrow> al_step \<Rightarrow> arraylist \<Rightarrow> string \<Rightarrow> arraylist urun" where
  "al_do junk (Size n line) al out = ubind (rhassert_int_equals (al_size al) n ''main'' line out) (\<lambda>_ out. Go al out)"
| "al_do junk (Cap n line) al out = ubind (rhassert_int_equals (al_capacity al) n ''main'' line out) (\<lambda>_ out. Go al out)"
| "al_do junk (At i v line) al out =
     ubind (need (al_get_at al i) out) (\<lambda>x out.
     ubind (rhassert_int_equals x v ''main'' line out) (\<lambda>_ out. Go al out))"
| "al_do junk (Add v) al out = need (al_append junk v al) out"

primrec al_script :: "(nat \<Rightarrow> int) \<Rightarrow> al_step list \<Rightarrow> arraylist \<Rightarrow> string \<Rightarrow> arraylist urun" where
  "al_script junk [] al out = Go al out"
| "al_script junk (st # sts) al out = ubind (al_do junk st al out) (al_script junk sts)"

definition al_main :: "(nat \<Rightarrow> int) \<Rightarrow> unit urun" where
  "al_main junk =
     ubind (rhassert True ''main'' 165 []) (\<lambda>_ out.
     ubind (al_script junk
       [Size 0 166, Cap DEF_ARRAY_LIST_CAPACITY 167, Add 1, Add 2, Size 2 172, Cap DEF_ARRAY_LIST_CAPACITY 173,
        At 0 1 176, At 1 2 177, At 5 (- 1) 178, Add 3, Add 4, Size 4 183, Cap DEF_ARRAY_LIST_CAPACITY 184,
        Add 5, Size 5 188, Cap (2 * DEF_ARRAY_LIST_CAPACITY) 189,
        At 0 1 192, At 1 2 193, At 2 3 194, At 3 4 195, At 4 5 196] (al_new junk) out) (\<lambda>_ out. Exit 0 out))"

section \<open>Resizable strings\<close>

record rhstring =
  rs_length :: int
  rs_size :: int
  rs_buffer :: carray

definition RHSTRING_MAX :: int where "RHSTRING_MAX = 256"

definition rhstring_init :: "carray \<Rightarrow> rhstring" where
  "rhstring_init junk = \<lparr>rs_length = 0, rs_size = RHSTRING_MAX, rs_buffer = junk(0 := NUL)\<rparr>"

text \<open>The zero-terminated string at the start of a buffer of \<open>n\<close> bytes; a missing zero reads on.\<close>

definition buf_str :: "int \<Rightarrow> carray \<Rightarrow> string option" where
  "buf_str n buf = (let s = takeWhile (\<lambda>c. c \<noteq> NUL) (map buf [0..<nat n])
                    in if length s < nat n then Some s else None)"

text \<open>\<open>strcpy\<close> into a buffer of \<open>n\<close> bytes; \<open>None\<close> is a write behind its end.\<close>

definition buf_strcpy :: "int \<Rightarrow> carray \<Rightarrow> nat \<Rightarrow> string \<Rightarrow> carray option" where
  "buf_strcpy n buf i s = (if int (i + length s) < n then Some (strcpy buf i s) else None)"

definition rhstring_resize :: "carray \<Rightarrow> int \<Rightarrow> rhstring \<Rightarrow> rhstring option" where
  "rhstring_resize junk new_size str =
     (case buf_str (rs_size str) (rs_buffer str) of
        None \<Rightarrow> None
      | Some s \<Rightarrow>
          (case buf_strcpy new_size junk 0 s of
             None \<Rightarrow> None
           | Some buff \<Rightarrow>
               if 0 \<le> rs_length str \<and> rs_length str < new_size
               then Some (str\<lparr>rs_buffer := buff(nat (rs_length str) := NUL), rs_size := new_size\<rparr>) else None))"

definition rhstring_append :: "carray \<Rightarrow> string \<Rightarrow> rhstring \<Rightarrow> rhstring option" where
  "rhstring_append junk tx str =
     (let len = int (ustrlen tx)
      in case (if rs_size str \<le> rs_length str + len + 1
               then rhstring_resize junk (rs_length str + len + 1 + RHSTRING_MAX) str else Some str) of
           None \<Rightarrow> None
         | Some str \<Rightarrow>
             let str = str\<lparr>rs_length := rs_length str + len\<rparr>
             in case buf_str (rs_size str) (rs_buffer str) of
                  None \<Rightarrow> None
                | Some s \<Rightarrow> map_option (\<lambda>b. str\<lparr>rs_buffer := b\<rparr>)
                              (buf_strcpy (rs_size str) (rs_buffer str) (length s) tx))"

definition rhstring_append_char :: "carray \<Rightarrow> char \<Rightarrow> rhstring \<Rightarrow> rhstring option" where
  "rhstring_append_char junk ch str = rhstring_append junk (if ch = NUL then [] else [ch]) str"

section \<open>Warm-up exercises\<close>

definition add_with_pointers :: "(nat \<Rightarrow> u32) \<Rightarrow> nat \<Rightarrow> nat \<Rightarrow> u32" where
  "add_with_pointers m val1 val2 = m val1 + m val2"

definition ensure_correct_order :: "(nat \<Rightarrow> u32) \<Rightarrow> nat \<Rightarrow> nat \<Rightarrow> nat \<Rightarrow> u32" where
  "ensure_correct_order m small large =
     (if sint (m large) < sint (m small)
      then let temp = m small; m = m(small := m large) in m(large := temp)
      else m)"

definition special_equals :: "(nat \<Rightarrow> u32) \<Rightarrow> nat \<Rightarrow> nat \<Rightarrow> int" where
  "special_equals m val1 val2 = (if val1 = val2 then 2 else if m val1 = m val2 then 1 else 0)"

text \<open>The loop over both strings, which have the same length; a shorter second string is read as if it went on with zeros.\<close>

datatype which = First | Second | Neither

fun string_with_q :: "string \<Rightarrow> string \<Rightarrow> which" where
  "string_with_q [] s2 = Neither"
| "string_with_q (c # s1) s2 =
     (if c = CHR ''Q'' then First else if deref s2 = CHR ''Q'' then Second else string_with_q s1 (tl s2))"

text \<open>The variables of the tests have the addresses 0, 1 and 2.\<close>

definition test_add_with_pointers :: "string \<Rightarrow> unit urun" where
  "test_add_with_pointers out =
     (let m = (\<lambda>_. 0)(0 := 7, 1 := 11)
      in rhassert_int_equals (sint (add_with_pointers m 0 1)) 18 ''test_add_with_pointers'' 42 out)"

definition test_ensure_correct_order :: "string \<Rightarrow> unit urun" where
  "test_ensure_correct_order out =
     (let m = (\<lambda>_. 0)(0 := 7, 1 := 11); m1 = ensure_correct_order m 0 1; m2 = ensure_correct_order m1 1 0;
          fn = ''test_ensure_correct_order''
      in ubind (rhassert_int_equals (sint (m1 0)) 7 fn 66 out) (\<lambda>_ out.
         ubind (rhassert_int_equals (sint (m1 1)) 11 fn 67 out) (\<lambda>_ out.
         ubind (rhassert_int_equals (sint (m2 0)) 11 fn 70 out) (\<lambda>_ out.
         rhassert_int_equals (sint (m2 1)) 7 fn 71 out))))"

definition test_special_equals :: "string \<Rightarrow> unit urun" where
  "test_special_equals out =
     (let m = (\<lambda>_. 0)(0 := 7, 1 := 11, 2 := 11); fn = ''test_special_equals''
      in ubind (rhassert_int_equals (special_equals m 0 0) 2 fn 102 out) (\<lambda>_ out.
         ubind (rhassert_int_equals (special_equals m 1 2) 1 fn 103 out) (\<lambda>_ out.
         ubind (rhassert_int_equals (special_equals m 0 1) 0 fn 104 out) (\<lambda>_ out.
         rhassert_int_equals (special_equals m 0 2) 0 fn 105 out))))"

text \<open>The pointers are 1 for the first string, 2 for the second and 0 for none.\<close>

definition which_ptr :: "which \<Rightarrow> u64" where
  "which_ptr w = (case w of First \<Rightarrow> 1 | Second \<Rightarrow> 2 | Neither \<Rightarrow> 0)"

definition which_str :: "which \<Rightarrow> string \<Rightarrow> string \<Rightarrow> string option" where
  "which_str w s1 s2 = (case w of First \<Rightarrow> Some s1 | Second \<Rightarrow> Some s2 | Neither \<Rightarrow> None)"

definition test_string_with_q :: "string \<Rightarrow> unit urun" where
  "test_string_with_q out =
     (let fn = ''test_string_with_q''
      in ubind (rhassert_ptr_equals (which_ptr (string_with_q ''abQ'' ''abc'')) 1 fn 154 out) (\<lambda>_ out.
         ubind (rhassert_ptr_equals (which_ptr (string_with_q ''xyz'' ''abc'')) 0 fn 158 out) (\<lambda>_ out.
         ubind (rhassert_str_equals (which_str (string_with_q ''12345'' ''zzQzz'') ''12345'' ''zzQzz'') (Some ''zzQzz'') fn 161 out) (\<lambda>_ out.
         ubind (rhassert_str_equals (which_str (string_with_q ''Q2345'' ''zzzzz'') ''Q2345'' ''zzzzz'') (Some ''Q2345'') fn 164 out) (\<lambda>_ out.
         rhassert_ptr_equals (which_ptr (string_with_q [] [])) 0 fn 167 out)))))"

definition warmup_main :: "string list \<Rightarrow> unit urun" where
  "warmup_main argv =
     (if length argv < 2 then
        ubind (test_add_with_pointers []) (\<lambda>_ out.
        ubind (test_ensure_correct_order out) (\<lambda>_ out.
        ubind (test_special_equals out) (\<lambda>_ out.
        ubind (test_string_with_q out) (\<lambda>_ out. Exit 0 out))))
      else
        let opt = atoi (argv ! 1)
        in ubind (if opt = 1 then test_add_with_pointers []
                  else if opt = 2 then test_ensure_correct_order []
                  else if opt = 3 then test_special_equals []
                  else if opt = 4 then test_string_with_q []
                  else Exit 1 (say (''Unknown option %d'' @ [CHR 0x0A]) [ArgInt opt])) (\<lambda>_ out. Exit 0 out))"

section \<open>Growing buffers\<close>

text \<open>Both growing data structures append to an abstract list and never fail.\<close>

primrec append_all :: "('x \<Rightarrow> 'b \<Rightarrow> 'b option) \<Rightarrow> 'x list \<Rightarrow> 'b \<Rightarrow> 'b option" where
  "append_all app [] b = Some b"
| "append_all app (x # xs) b = (case app x b of None \<Rightarrow> None | Some b \<Rightarrow> append_all app xs b)"

locale append_buffer =
  fixes inv :: "'b \<Rightarrow> bool" and contents :: "'b \<Rightarrow> 'c list"
    and app :: "'x \<Rightarrow> 'b \<Rightarrow> 'b option" and added :: "'x \<Rightarrow> 'c list"
    and ok :: "'x \<Rightarrow> bool"
  assumes app_step: "inv b \<Longrightarrow> ok x \<Longrightarrow> \<exists>b'. app x b = Some b' \<and> inv b' \<and> contents b' = contents b @ added x"
begin

lemma app_all:
  "inv b \<Longrightarrow> \<forall>x\<in>set xs. ok x \<Longrightarrow> \<exists>b'. append_all app xs b = Some b' \<and> inv b' \<and> contents b' = contents b @ concat (map added xs)"
proof (induction xs arbitrary: b)
  case (Cons x xs)
  obtain c where c: "app x b = Some c" "inv c" "contents c = contents b @ added x" using app_step [of b x] Cons.prems by auto
  then show ?case using Cons.IH [of c] Cons.prems by auto
qed simp

end

subsection \<open>The array list\<close>

definition al_ok :: "arraylist \<Rightarrow> bool" where
  "al_ok al \<longleftrightarrow> 0 \<le> al_size al \<and> al_size al \<le> al_capacity al \<and> al_capacity al = int (length (al_list al)) \<and>
     4 \<le> al_capacity al \<and> al_capacity al \<le> max 4 (2 * al_size al)"

definition al_contents :: "arraylist \<Rightarrow> int list" where
  "al_contents al = take (nat (al_size al)) (al_list al)"

lemma al_copy_eq:
  "k + n \<le> length src \<Longrightarrow> length src \<le> length dst \<Longrightarrow>
   \<exists>d. al_copy src [k..<k + n] dst = Some d \<and> length d = length dst \<and>
       (\<forall>i<length dst. d ! i = (if k \<le> i \<and> i < k + n then src ! i else dst ! i))"
proof (induction n arbitrary: k dst)
  case (Suc n)
  have u: "[k..<k + Suc n] = k # [Suc k..<Suc k + n]" by (simp add: upt_conv_Cons)
  obtain d where d: "al_copy src [Suc k..<Suc k + n] (dst[k := src ! k]) = Some d" "length d = length dst"
    "\<forall>i<length dst. d ! i = (if Suc k \<le> i \<and> i < Suc k + n then src ! i else dst[k := src ! k] ! i)"
    using Suc.IH [of "Suc k" "dst[k := src ! k]"] Suc.prems by auto
  have "al_copy src [k..<k + Suc n] dst = Some d"
    unfolding u using d(1) Suc.prems by (simp add: al_read_def al_write_def)
  moreover have "d ! i = (if k \<le> i \<and> i < k + Suc n then src ! i else dst ! i)" if "i < length dst" for i
    using d(3) that by (cases "i = k") auto
  ultimately show ?case using d(2) by blast
qed simp

lemma length_al_block [simp]: "length (al_block junk n) = nat n"
  by (simp add: al_block_def)

lemma al_resize_ok:
  assumes "al_ok al" "al_size al = al_capacity al"
  shows "\<exists>xs. al_resize junk al = Some (al\<lparr>al_list := xs, al_capacity := 2 * al_capacity al\<rparr>) \<and>
    int (length xs) = 2 * al_capacity al \<and> take (nat (al_size al)) xs = al_contents al"
proof -
  have "0 + nat (al_size al) \<le> length (al_list al)" "length (al_list al) \<le> length (al_block junk (2 * al_capacity al))"
    using assms by (auto simp: al_ok_def)
  from al_copy_eq [OF this] obtain d
    where d: "al_copy (al_list al) [0..<nat (al_size al)] (al_block junk (2 * al_capacity al)) = Some d"
    "length d = nat (2 * al_capacity al)"
    "\<forall>i<nat (2 * al_capacity al). i < nat (al_size al) \<longrightarrow> d ! i = al_list al ! i"
    by auto
  have "take (nat (al_size al)) d = al_contents al"
    using assms d(2,3) by (auto simp: al_contents_def al_ok_def intro!: nth_equalityI)
  then show ?thesis using d assms by (auto simp: al_resize_def al_ok_def)
qed

lemma al_append_room:
  assumes "al_ok al" "al_size al < al_capacity al"
  shows "\<exists>al'. al_append junk v al = Some al' \<and> al_ok al' \<and> al_contents al' = al_contents al @ [v]"
proof -
  have "nat (al_size al + 1) = Suc (nat (al_size al))" "nat (al_size al) < length (al_list al)"
    using assms by (auto simp: al_ok_def)
  then show ?thesis using assms
    by (auto simp: al_append_def al_write_def al_ok_def al_contents_def take_Suc_conv_app_nth)
qed

lemma al_append_ok:
  assumes "al_ok al"
  shows "\<exists>al'. al_append junk v al = Some al' \<and> al_ok al' \<and> al_contents al' = al_contents al @ [v]"
proof (cases "al_size al < al_capacity al")
  case False
  then have full: "al_size al = al_capacity al" using assms by (simp add: al_ok_def)
  obtain xs where xs: "al_resize junk al = Some (al\<lparr>al_list := xs, al_capacity := 2 * al_capacity al\<rparr>)"
    "int (length xs) = 2 * al_capacity al" "take (nat (al_size al)) xs = al_contents al"
    using al_resize_ok [OF assms full] by blast
  let ?al = "al\<lparr>al_list := xs, al_capacity := 2 * al_capacity al\<rparr>"
  have "al_ok ?al" "al_size ?al < al_capacity ?al" "al_contents ?al = al_contents al"
    using assms full xs by (auto simp: al_ok_def al_contents_def)
  moreover have "al_size al \<noteq> 2 * al_capacity al" using full assms by (auto simp: al_ok_def)
  then have "al_append junk v al = al_append junk v ?al"
    using full xs(1) by (simp add: al_append_def)
  ultimately show ?thesis using al_append_room [of ?al junk v] by simp
qed (use al_append_room assms in blast)

interpretation al: append_buffer al_ok al_contents "\<lambda>(junk, v). al_append junk v" "\<lambda>(junk, v). [v]" "\<lambda>x. True"
  by unfold_locales (use al_append_ok in fastforce)

lemma al_new_ok: "al_ok (al_new junk)" "al_contents (al_new junk) = []"
  by (auto simp: al_ok_def al_new_def al_contents_def DEF_ARRAY_LIST_CAPACITY_def al_block_def)

lemma al_get_at_contents:
  "al_ok al \<Longrightarrow> 0 \<le> i \<Longrightarrow> al_get_at al i = Some (if nat i < length (al_contents al) then al_contents al ! nat i else - 1)"
  by (auto simp: al_get_at_def al_ok_def al_contents_def al_read_def)



lemma al_get_at_negative: "al_ok al \<Longrightarrow> al_get_at al (- 1) = None"
  by (simp add: al_get_at_def al_ok_def al_read_def)

lemma al_main_resize:
  "al_resize junk \<lparr>al_size = 4, al_capacity = 4, al_list = [a, b, c, d]\<rparr> =
   Some \<lparr>al_size = 4, al_capacity = 8, al_list = [a, b, c, d, junk 4, junk 5, junk 6, junk 7]\<rparr>"
  by (simp add: al_resize_def al_block_def al_read_def al_write_def eval_nat_numeral upt_rec)

lemma al_main_block: "al_block junk 4 = [junk 0, junk 1, junk 2, junk 3]"
  by (simp add: al_block_def eval_nat_numeral upt_rec)

lemma al_main_passes: "\<exists>out. al_main junk = Exit 0 out"
  by (simp add: al_main_def rhassert_def rhassert_int_equals_def al_new_def DEF_ARRAY_LIST_CAPACITY_def al_main_block
    al_append_def al_write_def need_def al_get_at_def al_read_def al_main_resize eval_nat_numeral)

section \<open>Resizable strings\<close>

definition rs_ok :: "rhstring \<Rightarrow> bool" where
  "rs_ok r \<longleftrightarrow> (\<exists>s. holds_str (rs_buffer r) 0 s \<and> rs_length r = int (length s) \<and> rs_length r < rs_size r)"

definition rs_str :: "rhstring \<Rightarrow> string" where
  "rs_str r = takeWhile (\<lambda>c. c \<noteq> NUL) (map (rs_buffer r) [0..<nat (rs_size r)])"

lemma buf_takeWhile:
  assumes "holds_str b 0 s" "length s < n"
  shows "takeWhile (\<lambda>c. c \<noteq> NUL) (map b [0..<n]) = s"
proof -
  have "[0..<n] = [0..<length s] @ length s # [Suc (length s)..<n]" using assms(2) by (intro upt_split) auto
  moreover have "map b [0..<length s] = s" using assms(1) by (auto simp: holds_str_def intro: nth_equalityI)
  moreover have "\<forall>c\<in>set s. c \<noteq> NUL" using assms(1) by (auto simp: holds_str_def cstring_def)
  ultimately show ?thesis using assms(1) by (simp add: takeWhile_append holds_str_def)
qed

lemma buf_str_holds: "holds_str b 0 s \<Longrightarrow> int (length s) < n \<Longrightarrow> buf_str n b = Some s"
  by (simp add: buf_str_def buf_takeWhile zless_nat_eq_int_zless)

lemma rs_okI:
  "holds_str (rs_buffer r) 0 s \<Longrightarrow> rs_length r = int (length s) \<Longrightarrow> int (length s) < rs_size r \<Longrightarrow> rs_ok r \<and> rs_str r = s"
  by (auto simp: rs_ok_def rs_str_def buf_takeWhile zless_nat_eq_int_zless)

lemma strcpy_append: "holds_str b 0 s \<Longrightarrow> cstring t \<Longrightarrow> holds_str (strcpy b (length s) t) 0 (s @ t)"
  by (auto simp: holds_str_def strcpy_apply cstring_def nth_append)

lemma rhstring_resize_ok:
  assumes "holds_str (rs_buffer r) 0 s" "rs_length r = int (length s)" "int (length s) < rs_size r" "int (length s) < n"
  shows "\<exists>r'. rhstring_resize junk n r = Some r' \<and> rs_size r' = n \<and> rs_length r' = int (length s) \<and>
    holds_str (rs_buffer r') 0 s"
proof -
  have "cstring s" using assms(1) by (simp add: holds_str_def)
  then have "holds_str ((strcpy junk 0 s)(length s := NUL)) 0 s"
    using strcpy_holds [of s junk 0] by (auto simp: holds_str_def)
  then show ?thesis
    using assms by (simp add: rhstring_resize_def buf_str_holds buf_strcpy_def)
qed

lemma rhstring_put_ok:
  assumes "holds_str (rs_buffer r) 0 s" "rs_length r = int (length s)" "int (length s + length tx) + 1 < rs_size r" "cstring tx"
  shows "\<exists>r'. rhstring_append junk tx r = Some r' \<and> rs_ok r' \<and> rs_str r' = s @ tx"
proof -
  let ?r = "r\<lparr>rs_length := int (length s + length tx), rs_buffer := strcpy (rs_buffer r) (length s) tx\<rparr>"
  have "rhstring_append junk tx r = Some ?r"
    using assms by (simp add: rhstring_append_def ustrlen_def buf_str_holds buf_strcpy_def)
  moreover have "rs_ok ?r \<and> rs_str ?r = s @ tx"
    using assms strcpy_append [OF assms(1,4)] by (intro rs_okI) auto
  ultimately show ?thesis by blast
qed

lemma rhstring_append_ok:
  assumes "rs_ok r" "cstring tx"
  shows "\<exists>r'. rhstring_append junk tx r = Some r' \<and> rs_ok r' \<and> rs_str r' = rs_str r @ tx"
proof -
  obtain s where s: "holds_str (rs_buffer r) 0 s" "rs_length r = int (length s)" "int (length s) < rs_size r"
    using assms(1) by (auto simp: rs_ok_def)
  then have str: "rs_str r = s" using rs_okI by blast
  show ?thesis
  proof (cases "rs_size r \<le> rs_length r + int (length tx) + 1")
    case True
    let ?n = "rs_length r + int (length tx) + 1 + RHSTRING_MAX"
    have "int (length s) < ?n" using s by (simp add: RHSTRING_MAX_def)
    then obtain q where q: "rhstring_resize junk ?n r = Some q" "rs_size q = ?n" "rs_length q = int (length s)"
      "holds_str (rs_buffer q) 0 s" using rhstring_resize_ok [OF s] by blast
    then have "rhstring_append junk tx r = rhstring_append junk tx q"
      using True s(2) by (simp add: rhstring_append_def ustrlen_def RHSTRING_MAX_def)
    then show ?thesis
      using rhstring_put_ok [OF q(4,3) _ assms(2)] q(2) s(2) str by (simp add: RHSTRING_MAX_def)
  next
    case False
    then show ?thesis using rhstring_put_ok [OF s(1,2) _ assms(2)] s(2) str by simp
  qed
qed

interpretation rs: append_buffer rs_ok rs_str "\<lambda>(junk, tx). rhstring_append junk tx" snd "\<lambda>x. cstring (snd x)"
  by unfold_locales (use rhstring_append_ok in fastforce)

lemma rhstring_init_ok: "rs_ok (rhstring_init junk) \<and> rs_str (rhstring_init junk) = []"
  by (rule rs_okI) (auto simp: rhstring_init_def holds_str_def RHSTRING_MAX_def)



section \<open>Warm-up exercises\<close>

lemma ensure_correct_order_sorts:
  "sint (ensure_correct_order m a b a) \<le> sint (ensure_correct_order m a b b)"
  "{ensure_correct_order m a b a, ensure_correct_order m a b b} = {m a, m b}"
  by (auto simp: ensure_correct_order_def Let_def)

lemma string_with_q_finds:
  "length s1 = length s2 \<Longrightarrow> \<not> (CHR ''Q'' \<in> set s1 \<and> CHR ''Q'' \<in> set s2) \<Longrightarrow>
   string_with_q s1 s2 = (if CHR ''Q'' \<in> set s1 then First else if CHR ''Q'' \<in> set s2 then Second else Neither)"
proof (induction s1 s2 rule: string_with_q.induct)
  case (2 c s1 s2)
  then show ?case by (cases s2) (auto split: if_splits)
qed simp

lemma warmup_main_passes: "length argv < 2 \<Longrightarrow> \<exists>out. warmup_main argv = Exit 0 out"
  by (simp add: warmup_main_def test_add_with_pointers_def test_ensure_correct_order_def test_special_equals_def
    test_string_with_q_def rhassert_int_equals_def rhassert_ptr_equals_def rhassert_str_equals_def which_ptr_def which_str_def
    add_with_pointers_def ensure_correct_order_def special_equals_def strcmp_order NUL_def Let_def)

end
