(* ===== verification/Sh.thy ===== *)
theory Sh
  imports Ucmds Sysfile
begin

text \<open>
  The shell, \<^verbatim>\<open>user/sh.c\<close>: tokens, the recursive-descent parser, zero-termination of the
  parsed strings, what \<open>runcmd\<close> does with the descriptors of its process, and the
  main loop. The line is a string without zeros; positions in it stand for
  the pointers of the parser. Nodes are always allocated.
\<close>

section \<open>Commands\<close>

text \<open>
  A parsed command. The parser stores a string as the pair of its start and end in the line;
  once \<open>nulterminate\<close> has run, the start alone denotes it.
\<close>

datatype 'a cmd =
    EXEC "'a list"
  | REDIR "'a cmd" 'a int int
  | PIPE "'a cmd" "'a cmd"
  | LIST "'a cmd" "'a cmd"
  | BACK "'a cmd"

type_synonym span = "nat \<times> nat"

definition MAXARGS :: nat where "MAXARGS = 10"

section \<open>Tokens\<close>

definition whitespace :: string where
  "whitespace = [CHR '' '', CHR 0x09, CHR 0x0D, CHR 0x0A, CHR 0x0B]"

definition symbols :: string where
  "symbols = ''<|>&;()''"

text \<open>The character at a position of the line; the line ends with a zero.\<close>

definition char_at :: "string \<Rightarrow> nat \<Rightarrow> char" where
  "char_at s i = (if i < length s then s ! i else NUL)"

text \<open>The two loops of \<open>gettoken\<close>, over white space and over the characters of a word.\<close>

function skip_space :: "string \<Rightarrow> nat \<Rightarrow> nat" where
  "skip_space s i = (if i < length s \<and> strchr whitespace (s ! i) \<noteq> None then skip_space s (Suc i) else i)"
  by pat_completeness auto
termination
  by (relation "measure (\<lambda>(s, i). length s - i)") auto

function skip_word :: "string \<Rightarrow> nat \<Rightarrow> nat" where
  "skip_word s i = (if i < length s \<and> strchr whitespace (s ! i) = None \<and> strchr symbols (s ! i) = None
                    then skip_word s (Suc i) else i)"
  by pat_completeness auto
termination
  by (relation "measure (\<lambda>(s, i). length s - i)") auto

declare skip_space.simps [simp del] skip_word.simps [simp del]

text \<open>The token, its span, and the position behind it. An \<open>a\<close> is a word and a \<open>+\<close> is \<open>>>\<close>.\<close>

definition gettoken :: "string \<Rightarrow> nat \<Rightarrow> char \<times> span \<times> nat" where
  "gettoken s i =
     (let q = skip_space s i; c = char_at s q;
          (ret, e) = (if c = NUL then (c, q)
                      else if c \<in> set ''|();&<'' then (c, Suc q)
                      else if c = CHR ''>'' then
                        (if char_at s (Suc q) = CHR ''>'' then (CHR ''+'', Suc (Suc q)) else (c, Suc q))
                      else (CHR ''a'', skip_word s q))
      in (ret, (q, e), skip_space s e))"

definition peek :: "string \<Rightarrow> nat \<Rightarrow> string \<Rightarrow> bool \<times> nat" where
  "peek s i toks = (let i = skip_space s i; c = char_at s i in (c \<noteq> NUL \<and> strchr toks c \<noteq> None, i))"

section \<open>The parser\<close>

text \<open>A command and the position behind it, or the message of \<open>panic\<close>, or no fuel left.\<close>

datatype pres = Parsed "span cmd" nat | Bad string | NoFuel

primrec pthen :: "pres \<Rightarrow> (span cmd \<Rightarrow> nat \<Rightarrow> pres) \<Rightarrow> pres" where
  "pthen (Parsed c i) f = f c i"
| "pthen (Bad m) f = Bad m"
| "pthen NoFuel f = NoFuel"

definition redir_mode :: "char \<Rightarrow> int \<times> int" where
  "redir_mode tok = (if tok = CHR ''<'' then (O_RDONLY, 0)
                     else if tok = CHR ''>'' then (O_WRONLY OR O_CREATE OR O_TRUNC, 1)
                     else (O_WRONLY OR O_CREATE, 1))"

lemma skip_space_ge: "i \<le> skip_space s i"
  by (induction s i rule: skip_space.induct) (subst skip_space.simps, auto)

lemma skip_word_ge: "i \<le> skip_word s i"
  by (induction s i rule: skip_word.induct) (subst skip_word.simps, auto)

lemma gettoken_ge: "gettoken s i = (t, (q, e), j) \<Longrightarrow> i \<le> q \<and> q \<le> e \<and> e \<le> j"
  using skip_space_ge [of i s] skip_space_ge [of e s] skip_word_ge [of q s]
  by (auto simp: gettoken_def Let_def split: if_splits)

lemma skip_word_progress: "q < length s \<Longrightarrow> s ! q \<notin> set whitespace \<Longrightarrow> s ! q \<notin> set symbols \<Longrightarrow> q < skip_word s q"
  by (subst skip_word.simps) (use skip_word_ge [of "Suc q" s] in \<open>auto simp: whitespace_def symbols_def Suc_le_eq\<close>)

lemma NUL_tokens [simp]: "NUL \<notin> set whitespace" "NUL \<notin> set symbols"
  by (simp_all add: NUL_def whitespace_def symbols_def)

lemma skip_space_stop: "skip_space s i < length s \<Longrightarrow> s ! skip_space s i \<notin> set whitespace"
proof (induction s i rule: skip_space.induct)
  case (1 s i)
  then show ?case
    by (cases "i < length s \<and> strchr whitespace (s ! i) \<noteq> None")
      (auto simp: skip_space.simps [of s i] strchr_None)
qed

lemma char_at_less: "char_at s i \<noteq> NUL \<Longrightarrow> i < length s"
  by (simp add: char_at_def split: if_splits)

lemma peek_less: "peek s i toks = (True, j) \<Longrightarrow> i \<le> j \<and> j < length s"
  using skip_space_ge [of i s] char_at_less [of s j] by (auto simp: peek_def Let_def)

lemma peek_ge: "peek s i toks = (b, j) \<Longrightarrow> i \<le> j"
  using skip_space_ge [of i s] by (auto simp: peek_def Let_def)

lemma gettoken_progress:
  assumes "gettoken s i = (t, (q, e), j)" "t \<noteq> NUL"
  shows "i < j" "q < length s" "q < e"
proof -
  have q: "q = skip_space s i" and j: "j = skip_space s e"
    using assms(1) by (auto simp: gettoken_def Let_def split: if_splits)
  have c: "char_at s q \<noteq> NUL" using assms by (auto simp: gettoken_def Let_def split: if_splits)
  then show "q < length s" by (rule char_at_less)
  moreover have "s ! q \<notin> set whitespace" using skip_space_stop calculation q by simp
  moreover have "s ! q \<notin> set symbols \<Longrightarrow> q < skip_word s q" using skip_word_progress calculation by blast
  ultimately show "q < e"
    using assms(1) c q by (auto simp: gettoken_def Let_def char_at_def symbols_def split: if_splits)
  then show "i < j" using skip_space_ge [of i s] skip_space_ge [of e s] q j by simp
qed

lemma gettoken_after_peek:
  assumes "peek s i toks = (True, j)" "gettoken s j = (t, (q, e), k)"
  shows "t \<noteq> NUL" "j < k"
proof -
  have "skip_space s j = j"
    using assms(1) skip_space_stop [of s i] char_at_less [of s j]
    by (subst skip_space.simps) (auto simp: peek_def Let_def strchr_None)
  then show "t \<noteq> NUL"
    using assms by (auto simp: gettoken_def peek_def Let_def NUL_def split: if_splits)
  then show "j < k" using gettoken_progress(1) [OF assms(2)] by simp
qed

lemma redir_progress:
  assumes "peek s i toks = (True, j)" "gettoken s j = (t, sp, k)" "gettoken s k = (t2, sp2, l)"
  shows "length s - l < length s - i"
proof -
  obtain q e q2 e2 where sp: "sp = (q, e)" "sp2 = (q2, e2)" by (metis surj_pair)
  show ?thesis
    using peek_less [OF assms(1)] gettoken_after_peek(2) [OF assms(1)] gettoken_ge [of s k] assms(2,3) sp by fastforce
qed

function parseredirs :: "string \<Rightarrow> span cmd \<Rightarrow> nat \<Rightarrow> pres" where
  "parseredirs s cmd i =
     (let (more, i) = peek s i ''<>''
      in if \<not> more then Parsed cmd i
         else let (tok, _, i) = gettoken s i; (tok2, qe, i) = gettoken s i
              in if tok2 \<noteq> CHR ''a'' then Bad ''missing file for redirection''
                 else let (mode, fd) = redir_mode tok in parseredirs s (REDIR cmd qe mode fd) i)"
  by pat_completeness auto
termination
  by (relation "measure (\<lambda>(s, cmd, i). length s - i)") (auto intro: redir_progress [OF sym sym sym])

declare parseredirs.simps [simp del]

text \<open>\<open>parseexec\<close> adds arguments to the \<open>EXEC\<close> node, which may already be below redirections.\<close>

primrec put_arg :: "'a \<Rightarrow> 'a cmd \<Rightarrow> 'a cmd" where
  "put_arg a (EXEC as) = EXEC (as @ [a])"
| "put_arg a (REDIR c f mode fd) = REDIR (put_arg a c) f mode fd"
| "put_arg a (PIPE l r) = PIPE l r"
| "put_arg a (LIST l r) = LIST l r"
| "put_arg a (BACK c) = BACK c"

function parse_args :: "string \<Rightarrow> nat \<Rightarrow> span cmd \<Rightarrow> nat \<Rightarrow> pres" where
  "parse_args s argc ret i =
     (let (stop, i) = peek s i ''|)&;''
      in if stop then Parsed ret i
         else let (tok, qe, i) = gettoken s i
              in if tok = NUL then Parsed ret i
                 else if tok \<noteq> CHR ''a'' then Bad ''syntax''
                 else let ret = put_arg qe ret; argc = argc + 1
                      in if MAXARGS \<le> argc then Bad ''too many args''
                         else pthen (parseredirs s ret i) (\<lambda>ret i. parse_args s argc ret i))"
  by pat_completeness auto
termination
  by (relation "measure (\<lambda>(s, argc, ret, i). MAXARGS - argc)") auto

declare parse_args.simps [simp del]

lemma amps_progress:
  assumes "peek s i toks = (True, j)" "gettoken s j = (t, sp, k)"
  shows "length s - k < length s - i"
proof -
  obtain q e where "sp = (q, e)" by (metis surj_pair)
  then show ?thesis
    using peek_less [OF assms(1)] gettoken_after_peek(2) [OF assms(1)] assms(2) by fastforce
qed

function parse_amps :: "string \<Rightarrow> span cmd \<Rightarrow> nat \<Rightarrow> span cmd \<times> nat" where
  "parse_amps s cmd i =
     (let (amp, i) = peek s i ''&''
      in if amp then let (_, _, i) = gettoken s i in parse_amps s (BACK cmd) i else (cmd, i))"
  by pat_completeness auto
termination
  by (relation "measure (\<lambda>(s, cmd, i). length s - i)") (auto intro: amps_progress [OF sym sym])

declare parse_amps.simps [simp del]

text \<open>The recursive descent; the first argument bounds the depth of the recursion.\<close>

fun parseline :: "nat \<Rightarrow> string \<Rightarrow> nat \<Rightarrow> pres"
  and parsepipe :: "nat \<Rightarrow> string \<Rightarrow> nat \<Rightarrow> pres"
  and parseexec :: "nat \<Rightarrow> string \<Rightarrow> nat \<Rightarrow> pres"
  and parseblock :: "nat \<Rightarrow> string \<Rightarrow> nat \<Rightarrow> pres" where
  "parseline 0 s i = NoFuel"
| "parseline (Suc n) s i =
     pthen (parsepipe n s i) (\<lambda>cmd i.
       let (cmd, i) = parse_amps s cmd i; (semi, i) = peek s i '';''
       in if semi then let (_, _, i) = gettoken s i in pthen (parseline n s i) (\<lambda>r i. Parsed (LIST cmd r) i)
          else Parsed cmd i)"
| "parsepipe 0 s i = NoFuel"
| "parsepipe (Suc n) s i =
     pthen (parseexec n s i) (\<lambda>cmd i.
       let (bar, i) = peek s i ''|''
       in if bar then let (_, _, i) = gettoken s i in pthen (parsepipe n s i) (\<lambda>r i. Parsed (PIPE cmd r) i)
          else Parsed cmd i)"
| "parseexec 0 s i = NoFuel"
| "parseexec (Suc n) s i =
     (let (block, i) = peek s i ''(''
      in if block then parseblock n s i
         else pthen (parseredirs s (EXEC []) i) (\<lambda>ret i. parse_args s 0 ret i))"
| "parseblock 0 s i = NoFuel"
| "parseblock (Suc n) s i =
     (let (block, i) = peek s i ''(''
      in if \<not> block then Bad ''parseblock''
         else let (_, _, i) = gettoken s i
              in pthen (parseline n s i) (\<lambda>cmd i.
                   let (close, i) = peek s i '')''
                   in if \<not> close then Bad ''syntax - missing )''
                      else let (_, _, i) = gettoken s i in parseredirs s cmd i))"

definition parse_fuel :: "string \<Rightarrow> nat" where
  "parse_fuel s = 4 * length s + 4"

primrec nulterminate :: "span cmd \<Rightarrow> carray \<Rightarrow> carray" where
  "nulterminate (EXEC argv) buf = fold (\<lambda>qe buf. buf(snd qe := NUL)) argv buf"
| "nulterminate (REDIR c qe mode fd) buf = (nulterminate c buf)(snd qe := NUL)"
| "nulterminate (PIPE l r) buf = nulterminate r (nulterminate l buf)"
| "nulterminate (LIST l r) buf = nulterminate r (nulterminate l buf)"
| "nulterminate (BACK c) buf = nulterminate c buf"

text \<open>The line as the array that holds it.\<close>

datatype parsed = Command "span cmd" carray | Panics string | Diverges

definition parsecmd :: "string \<Rightarrow> parsed" where
  "parsecmd s =
     (case parseline (parse_fuel s) s 0 of
        Parsed cmd i \<Rightarrow>
          (let (_, i) = peek s i []
           in if i \<noteq> length s then Panics ''syntax'' else Command cmd (nulterminate cmd (char_at s)))
      | Bad m \<Rightarrow> Panics m
      | NoFuel \<Rightarrow> Diverges)"

text \<open>The zero-terminated string at a position of an array of \<open>n\<close> characters.\<close>

definition str_at :: "nat \<Rightarrow> carray \<Rightarrow> nat \<Rightarrow> string" where
  "str_at n buf q = takeWhile (\<lambda>c. c \<noteq> NUL) (map buf [q..<n])"

definition strings_of :: "string \<Rightarrow> carray \<Rightarrow> span cmd \<Rightarrow> string cmd" where
  "strings_of s buf = map_cmd (\<lambda>qe. str_at (Suc (length s)) buf (fst qe))"

section \<open>Running commands\<close>

text \<open>
  The file descriptors of a process. A pipe is named by the path of forks that leads to the process which
  made it.
\<close>

datatype fobj = Opened string int | PipeRead "bool list" | PipeWrite "bool list" | Inherited nat

type_synonym fdtab = "nat \<Rightarrow> fobj option"

definition sh_close :: "nat \<Rightarrow> fdtab \<Rightarrow> fdtab" where
  "sh_close fd T = T(fd := None)"

text \<open>The kernel hands out the lowest free descriptor below \<open>NOFILE\<close>.\<close>

definition lowest :: "fdtab \<Rightarrow> nat option" where
  "lowest T = List.find (\<lambda>fd. T fd = None) [0..<NOFILE]"

definition sh_open :: "fobj \<Rightarrow> fdtab \<Rightarrow> (nat \<times> fdtab) option" where
  "sh_open x T = map_option (\<lambda>fd. (fd, T(fd \<mapsto> x))) (lowest T)"

definition sh_dup :: "nat \<Rightarrow> fdtab \<Rightarrow> fdtab" where
  "sh_dup fd T = (case T fd of None \<Rightarrow> T | Some x \<Rightarrow> (case sh_open x T of None \<Rightarrow> T | Some (_, T) \<Rightarrow> T))"

definition sh_pipe :: "bool list \<Rightarrow> fdtab \<Rightarrow> (nat \<times> nat \<times> fdtab) option" where
  "sh_pipe nm T = (case sh_open (PipeRead nm) T of None \<Rightarrow> None
     | Some (p0, T) \<Rightarrow> (case sh_open (PipeWrite nm) T of None \<Rightarrow> None | Some (p1, T) \<Rightarrow> Some (p0, p1, T)))"

text \<open>
  What a process does: it becomes another program, leaves with a status and a message on descriptor 2,
  forks, or waits for a child. A program that cannot be executed ends like \<open>Stop 0\<close> after its message.
\<close>

datatype run = Become "string list" fdtab | Stop int string | Forks run run | Waits run

text \<open>Which files can be opened in which mode, which programs executed, and which processes can fork.\<close>

record osys =
  o_open :: "string \<Rightarrow> int \<Rightarrow> bool"
  o_exec :: "string \<Rightarrow> bool"
  o_fork :: "bool list \<Rightarrow> bool"

definition sh_panic :: "string \<Rightarrow> run" where
  "sh_panic m = Stop 1 (m @ [CHR 0x0A])"

definition fork1 :: "osys \<Rightarrow> bool list \<Rightarrow> run \<Rightarrow> run \<Rightarrow> run" where
  "fork1 w nm child parent = (if o_fork w nm then Forks child parent else sh_panic ''fork'')"

primrec runcmd :: "osys \<Rightarrow> string cmd \<Rightarrow> bool list \<Rightarrow> fdtab \<Rightarrow> run" where
  "runcmd w (EXEC argv) nm T =
     (case argv of [] \<Rightarrow> Stop 1 []
      | p # _ \<Rightarrow> if o_exec w p then Become argv T else Stop 0 (''exec '' @ p @ '' failed'' @ [CHR 0x0A]))"
| "runcmd w (REDIR c file mode fd) nm T =
     (let T = sh_close (nat fd) T
      in case (if o_open w file mode then sh_open (Opened file mode) T else None) of
           None \<Rightarrow> Stop 1 (''open '' @ file @ '' failed'' @ [CHR 0x0A])
         | Some (_, T) \<Rightarrow> runcmd w c nm T)"
| "runcmd w (LIST l r) nm T = fork1 w nm (runcmd w l (True # nm) T) (Waits (runcmd w r (False # nm) T))"
| "runcmd w (PIPE l r) nm T =
     (case sh_pipe nm T of None \<Rightarrow> sh_panic ''pipe''
      | Some (p0, p1, T) \<Rightarrow>
          fork1 w nm
            (runcmd w l (True # nm) (sh_close p1 (sh_close p0 (sh_dup p1 (sh_close 1 T)))))
            (fork1 w (False # nm)
              (runcmd w r (True # False # nm) (sh_close p1 (sh_close p0 (sh_dup p0 (sh_close 0 T)))))
              (Waits (Waits (Stop 0 [])))))"
| "runcmd w (BACK c) nm T = fork1 w nm (runcmd w c (True # nm) T) (Stop 0 [])"

section \<open>The main loop\<close>

lemma lowest_Some: "lowest T = Some fd \<Longrightarrow> T fd = None \<and> fd < NOFILE \<and> (\<forall>d<fd. T d \<noteq> None)"
  by (auto simp: lowest_def find_Some_iff)

text \<open>The loop that opens the console until three descriptors are in use.\<close>

function sh_console :: "osys \<Rightarrow> fdtab \<Rightarrow> fdtab" where
  "sh_console w T =
     (case (if o_open w ''console'' O_RDWR then sh_open (Opened ''console'' O_RDWR) T else None) of
        None \<Rightarrow> T
      | Some (fd, T) \<Rightarrow> if 3 \<le> fd then sh_close fd T else sh_console w T)"
  by pat_completeness auto
termination
proof (relation "measure (\<lambda>(w, T). card {d. d < NOFILE \<and> T d = None})", goal_cases)
  case (2 w T p fd T')
  then have "lowest T = Some fd" "T' = T(fd \<mapsto> Opened ''console'' O_RDWR)"
    by (auto simp: sh_open_def split: if_splits)
  then have "{d. d < NOFILE \<and> T' d = None} = {d. d < NOFILE \<and> T d = None} - {fd}"
    "fd \<in> {d. d < NOFILE \<and> T d = None}" using lowest_Some by auto
  then have "card {d. d < NOFILE \<and> T' d = None} < card {d. d < NOFILE \<and> T d = None}"
    using card_Diff1_less [of "{d. d < NOFILE \<and> T d = None}" fd] by simp
  then show ?case by simp
qed simp

declare sh_console.simps [simp del]

datatype sh_act = Cd string | Run parsed

definition SHBUF :: nat where "SHBUF = 100"

text \<open>\<open>getcmd\<close> on the cleared buffer: the buffer and the rest of the input, nothing at the end of the input.\<close>

definition getcmd :: "string \<Rightarrow> (carray \<times> string) option" where
  "getcmd inp = (let (buf, rest) = gets SHBUF (\<lambda>i. NUL) inp in if buf 0 = NUL then None else Some (buf, rest))"

lemma first_line_Nil [simp]: "first_line n [] = []"
  by (cases n) auto

lemma getcmd_less: "getcmd inp = Some (buf, rest) \<Longrightarrow> length rest < length inp"
  by (cases inp) (auto simp: getcmd_def gets_def SHBUF_def gets_from_eq split: prod.splits if_splits)

function sh_main :: "string \<Rightarrow> sh_act list" where
  "sh_main inp =
     (case getcmd inp of
        None \<Rightarrow> []
      | Some (buf, inp) \<Rightarrow>
          (if buf 0 = CHR ''c'' \<and> buf 1 = CHR ''d'' \<and> buf 2 = CHR '' ''
           then Cd (str_at SHBUF (buf(length (str_at SHBUF buf 0) - 1 := NUL)) 3)
           else Run (parsecmd (str_at SHBUF buf 0))) # sh_main inp)"
  by pat_completeness auto
termination
  by (relation "measure length") (auto dest: getcmd_less [OF sym] getcmd_less)

declare sh_main.simps [simp del]

end
