(* ===== verification/Sh_Parse.thy ===== *)
theory Sh_Parse
  imports Sh
begin

text \<open>
  The parser of the shell returns on every line: positions grow with every token, so the fuel that bounds the depth of the
  recursion is enough, commands are well-formed, and zero-termination keeps the words apart.
\<close>

section \<open>Words\<close>

definition wordch :: "char \<Rightarrow> bool" where
  "wordch c \<longleftrightarrow> c \<notin> set whitespace \<and> c \<notin> set symbols"

text \<open>A maximal run of word characters.\<close>

definition word_span :: "string \<Rightarrow> span \<Rightarrow> bool" where
  "word_span s = (\<lambda>(q, e). q < e \<and> e \<le> length s \<and> (\<forall>k. q \<le> k \<and> k < e \<longrightarrow> wordch (s ! k)) \<and>
     (e < length s \<longrightarrow> \<not> wordch (s ! e)))"

lemma skip_word_step: "skip_word s i = (if i < length s \<and> wordch (s ! i) then skip_word s (Suc i) else i)"
  by (subst skip_word.simps) (simp add: wordch_def strchr_None)

lemma skip_space_step: "skip_space s i = (if i < length s \<and> s ! i \<in> set whitespace then skip_space s (Suc i) else i)"
  by (subst skip_space.simps) (simp add: strchr_None)

lemma skip_word_le: "i \<le> length s \<Longrightarrow> skip_word s i \<le> length s"
  by (induction s i rule: skip_word.induct) (subst skip_word.simps, auto)

lemma skip_word_all: "i \<le> k \<Longrightarrow> k < skip_word s i \<Longrightarrow> wordch (s ! k)"
proof (induction s i rule: skip_word.induct)
  case (1 s i)
  then show ?case
    by (cases "i < length s \<and> wordch (s ! i)"; cases "k = i") (auto simp: skip_word_step [of s i] wordch_def strchr_None)
qed

lemma skip_word_stop: "skip_word s i < length s \<Longrightarrow> \<not> wordch (s ! skip_word s i)"
proof (induction s i rule: skip_word.induct)
  case (1 s i)
  then show ?case
    by (cases "i < length s \<and> wordch (s ! i)") (auto simp: skip_word_step [of s i] wordch_def strchr_None)
qed

lemma skip_space_le: "i \<le> length s \<Longrightarrow> skip_space s i \<le> length s"
  by (induction s i rule: skip_space.induct) (subst skip_space.simps, auto)

lemma gettoken_word:
  assumes "gettoken s i = (CHR ''a'', (q, e), j)"
  shows "word_span s (q, e)"
proof -
  have q: "q = skip_space s i" and e: "e = skip_word s q"
    using assms by (auto simp: gettoken_def Let_def NUL_def split: if_splits)
  have "q < length s" "q < e" using gettoken_progress [OF assms] by (auto simp: NUL_def)
  then show ?thesis using skip_word_le [of q s] skip_word_all [of q _ s] skip_word_stop [of s q] e by (auto simp: word_span_def)
qed

lemma gettoken_le: "i \<le> length s \<Longrightarrow> gettoken s i = (t, (q, e), j) \<Longrightarrow> j \<le> length s"
  using skip_space_le [of i s] skip_word_le [of q s]
  by (auto simp: gettoken_def Let_def NUL_def char_at_def intro!: skip_space_le split: if_splits)

lemma peek_le: "i \<le> length s \<Longrightarrow> peek s i toks = (b, j) \<Longrightarrow> j \<le> length s"
  using skip_space_le by (auto simp: peek_def Let_def)

section \<open>Well-formed commands\<close>

text \<open>All strings are words, and no argument vector is full.\<close>

primrec args_ok :: "'a cmd \<Rightarrow> bool" where
  "args_ok (EXEC as) \<longleftrightarrow> length as < MAXARGS"
| "args_ok (REDIR c f mode fd) \<longleftrightarrow> args_ok c"
| "args_ok (PIPE l r) \<longleftrightarrow> args_ok l \<and> args_ok r"
| "args_ok (LIST l r) \<longleftrightarrow> args_ok l \<and> args_ok r"
| "args_ok (BACK c) \<longleftrightarrow> args_ok c"

definition cmd_ok :: "string \<Rightarrow> span cmd \<Rightarrow> bool" where
  "cmd_ok s c \<longleftrightarrow> args_ok c \<and> (\<forall>qe\<in>set_cmd c. word_span s qe)"

primrec argc_of :: "'a cmd \<Rightarrow> nat" where
  "argc_of (EXEC as) = length as"
| "argc_of (REDIR c f mode fd) = argc_of c"
| "argc_of (PIPE l r) = 0"
| "argc_of (LIST l r) = 0"
| "argc_of (BACK c) = 0"

lemma cmd_ok_simps [simp]:
  "cmd_ok s (EXEC as) \<longleftrightarrow> length as < MAXARGS \<and> (\<forall>qe\<in>set as. word_span s qe)"
  "cmd_ok s (REDIR c f mode fd) \<longleftrightarrow> cmd_ok s c \<and> word_span s f"
  "cmd_ok s (PIPE l r) \<longleftrightarrow> cmd_ok s l \<and> cmd_ok s r"
  "cmd_ok s (LIST l r) \<longleftrightarrow> cmd_ok s l \<and> cmd_ok s r"
  "cmd_ok s (BACK c) \<longleftrightarrow> cmd_ok s c"
  by (auto simp: cmd_ok_def)

lemma put_arg_ok:
  "cmd_ok s c \<Longrightarrow> word_span s qe \<Longrightarrow> Suc (argc_of c) < MAXARGS \<Longrightarrow> cmd_ok s (put_arg qe c)"
  by (induction c) auto

lemma argc_put_arg: "argc_of (put_arg a c) \<le> Suc (argc_of c)"
  by (induction c) auto

text \<open>What a successful parse step keeps: positions grow and stay in the line, commands stay well-formed.\<close>

definition good :: "string \<Rightarrow> nat \<Rightarrow> pres \<Rightarrow> bool" where
  "good s i r \<longleftrightarrow> r \<noteq> NoFuel \<and> (\<forall>c j. r = Parsed c j \<longrightarrow> i \<le> j \<and> j \<le> length s \<and> cmd_ok s c)"

lemma goodI: "i \<le> j \<Longrightarrow> j \<le> length s \<Longrightarrow> cmd_ok s c \<Longrightarrow> good s i (Parsed c j)"
  by (simp add: good_def)

lemma good_mono: "good s j r \<Longrightarrow> i \<le> j \<Longrightarrow> good s i r"
  by (fastforce simp: good_def)

lemma good_Bad [simp]: "good s i (Bad m)"
  by (simp add: good_def)

lemma good_pthen:
  assumes "good s i r" "\<And>c j. i \<le> j \<Longrightarrow> j \<le> length s \<Longrightarrow> cmd_ok s c \<Longrightarrow> good s j (f c j)"
  shows "good s i (pthen r f)"
proof (cases r)
  case (Parsed c j)
  then have "i \<le> j" "j \<le> length s" "cmd_ok s c" using assms(1) by (simp_all add: good_def)
  then show ?thesis using assms(2) [of j c] good_mono Parsed by simp
qed (use assms(1) in \<open>simp_all add: good_def\<close>)

lemma parseredirs_stop: "peek s i ''<>'' = (False, k) \<Longrightarrow> parseredirs s c i = Parsed c k"
  by (subst parseredirs.simps) simp

lemma parseredirs_go:
  "peek s i ''<>'' = (True, k) \<Longrightarrow> gettoken s k = (t, sp, k1) \<Longrightarrow> gettoken s k1 = (t2, qe, k2) \<Longrightarrow>
   parseredirs s c i = (if t2 \<noteq> CHR ''a'' then Bad ''missing file for redirection''
     else parseredirs s (REDIR c qe (fst (redir_mode t)) (snd (redir_mode t))) k2)"
  by (subst parseredirs.simps) (simp split: prod.splits)

lemma parseredirs_good:
  "i \<le> length s \<Longrightarrow> cmd_ok s c \<Longrightarrow>
   good s i (parseredirs s c i) \<and> (\<forall>d j. parseredirs s c i = Parsed d j \<longrightarrow> argc_of d = argc_of c)"
proof (induction "length s - i" arbitrary: c i rule: less_induct)
  case less
  obtain b k where p: "peek s i ''<>'' = (b, k)" by (metis surj_pair)
  note pk = peek_ge [OF p] peek_le [OF less.prems(1) p]
  show ?case
  proof (cases b)
    case True
    obtain t q' e' k1 t2 q e k2 where g: "gettoken s k = (t, (q', e'), k1)" "gettoken s k1 = (t2, (q, e), k2)"
      by (metis surj_pair)
    note k1 = gettoken_ge [OF g(1)] gettoken_le [OF pk(2) g(1)]
    note k2 = gettoken_ge [OF g(2)] gettoken_le [OF k1(2) g(2)]
    have p': "peek s i ''<>'' = (True, k)" using p True by simp
    have "word_span s (q, e)" if "t2 = CHR ''a''" using gettoken_word g(2) that by simp
    then show ?thesis
      using less.hyps [OF redir_progress [OF p' g], of "REDIR c (q, e) (fst (redir_mode t)) (snd (redir_mode t))"]
        less.prems(2) k2 k1 pk unfolding parseredirs_go [OF p' g]
      by (auto intro: good_mono)
  next
    case False
    then show ?thesis using less.prems(2) pk parseredirs_stop p by (auto intro: goodI)
  qed
qed

lemma parse_args_good:
  "i \<le> length s \<Longrightarrow> cmd_ok s c \<Longrightarrow> argc_of c \<le> argc \<Longrightarrow> good s i (parse_args s argc c i)"
proof (induction "MAXARGS - argc" arbitrary: argc c i rule: less_induct)
  case less
  obtain b k where p: "peek s i ''|)&;'' = (b, k)" by (metis surj_pair)
  obtain t q e k1 where g: "gettoken s k = (t, (q, e), k1)" by (metis surj_pair)
  note pk = peek_ge [OF p] peek_le [OF less.prems(1) p]
  note k1 = gettoken_ge [OF g] gettoken_le [OF pk(2) g]
  have eq: "parse_args s argc c i = (if b then Parsed c k else if t = NUL then Parsed c k1
      else if t \<noteq> CHR ''a'' then Bad ''syntax'' else if MAXARGS \<le> Suc argc then Bad ''too many args''
      else pthen (parseredirs s (put_arg (q, e) c) k1) (\<lambda>ret i. parse_args s (Suc argc) ret i))"
    using p g by (subst parse_args.simps) simp
  show ?case
  proof (cases "\<not> b \<and> t \<noteq> NUL \<and> t = CHR ''a'' \<and> \<not> MAXARGS \<le> Suc argc")
    case True
    then have ok: "cmd_ok s (put_arg (q, e) c)"
      using put_arg_ok less.prems gettoken_word g by auto
    then have r: "good s k1 (parseredirs s (put_arg (q, e) c) k1)"
      "parseredirs s (put_arg (q, e) c) k1 = Parsed d j \<Longrightarrow> argc_of d = argc_of (put_arg (q, e) c)" for d j
      using parseredirs_good [OF k1(2) ok] by auto
    have "good s k1 (pthen (parseredirs s (put_arg (q, e) c) k1) (\<lambda>ret i. parse_args s (Suc argc) ret i))"
    proof (cases "parseredirs s (put_arg (q, e) c) k1")
      case (Parsed d j)
      then have "k1 \<le> j" "j \<le> length s" "cmd_ok s d" "argc_of d \<le> Suc argc"
        using r argc_put_arg [of "(q, e)" c] less.prems(3) by (auto simp: good_def)
      moreover have "MAXARGS - Suc argc < MAXARGS - argc" using True by linarith
      ultimately show ?thesis using less.hyps [of "Suc argc" j d] Parsed good_mono by simp
    qed (use r in \<open>auto simp: good_def\<close>)
    then show ?thesis using True pk k1 unfolding eq by (auto intro: good_mono)
  next
    case False
    then show ?thesis using less.prems(2) pk k1 unfolding eq by (auto intro: goodI)
  qed
qed

lemma parse_amps_good:
  "i \<le> length s \<Longrightarrow> cmd_ok s c \<Longrightarrow> parse_amps s c i = (d, j) \<Longrightarrow> i \<le> j \<and> j \<le> length s \<and> cmd_ok s d"
proof (induction "length s - i" arbitrary: c i rule: less_induct)
  case less
  obtain b k where p: "peek s i ''&'' = (b, k)" by (metis surj_pair)
  obtain t q e k1 where g: "gettoken s k = (t, (q, e), k1)" by (metis surj_pair)
  note pk = peek_ge [OF p] peek_le [OF less.prems(1) p]
  note k1 = gettoken_ge [OF g] gettoken_le [OF pk(2) g]
  have eq: "parse_amps s c i = (if b then parse_amps s (BACK c) k1 else (c, k))"
    using p g by (subst parse_amps.simps) simp
  show ?case
  proof (cases b)
    case True
    then have "length s - k1 < length s - i" using amps_progress [of s i "''&''" k] p g by simp
    then show ?thesis using less.hyps [of k1 "BACK c"] less.prems k1 pk True eq by auto
  next
    case False
    then show ?thesis using less.prems pk eq by auto
  qed
qed

text \<open>A token that \<open>peek\<close> has seen is consumed.\<close>

lemma consume:
  assumes "i \<le> length s" "peek s i toks = (True, j)" "gettoken s j = (t, sp, k)"
  shows "i \<le> j" "j < k" "k \<le> length s"
proof -
  obtain q e where sp: "sp = (q, e)" by (metis surj_pair)
  show "i \<le> j" using peek_less [OF assms(2)] by simp
  show "j < k" using gettoken_after_peek(2) [OF assms(2)] assms(3) sp by blast
  show "k \<le> length s" using gettoken_le [of j s] peek_less [OF assms(2)] assms(3) sp by auto
qed

text \<open>A list or pipeline goes on with its right part behind the token that \<open>peek\<close> saw.\<close>

lemma good_right:
  assumes "i \<le> length s" "peek s i toks = (True, m)" "gettoken s m = (t, sp, l)"
    and "\<And>l. i < l \<Longrightarrow> l \<le> length s \<Longrightarrow> good s l (P l)" and "\<And>r. cmd_ok s r \<Longrightarrow> cmd_ok s (F r)"
  shows "good s i (pthen (P l) (\<lambda>r i. Parsed (F r) i))"
proof -
  note l = consume [OF assms(1-3)]
  have "good s l (P l)" using assms(4) l by simp
  then have "good s l (pthen (P l) (\<lambda>r i. Parsed (F r) i))"
    by (rule good_pthen) (use assms(5) in \<open>auto intro: goodI\<close>)
  then show ?thesis using l by (auto intro: good_mono)
qed

lemma parseline_good:
  assumes "i \<le> length s" "good s i (parsepipe n s i)" "\<And>l. i < l \<Longrightarrow> l \<le> length s \<Longrightarrow> good s l (parseline n s l)"
  shows "good s i (parseline (Suc n) s i)"
  unfolding parseline.simps
proof (rule good_pthen [OF assms(2)], goal_cases)
  case (1 c j)
  obtain d k where a: "parse_amps s c j = (d, k)" by (metis surj_pair)
  have k: "j \<le> k" "k \<le> length s" "cmd_ok s d" using parse_amps_good [OF 1(2,3) a] by auto
  obtain b m where p: "peek s k '';'' = (b, m)" by (metis surj_pair)
  obtain t sp l where g: "gettoken s m = (t, sp, l)" by (metis surj_pair)
  have "good s k (pthen (parseline n s l) (\<lambda>r i. Parsed (LIST d r) i))" if b
    using that p by (intro good_right [OF k(2) _ g]) (use assms(3) k 1 in auto)
  moreover have "k \<le> m" "m \<le> length s" using peek_ge [OF p] peek_le [OF k(2) p] by auto
  ultimately show ?case using a p g k by (auto intro: goodI good_mono)
qed

lemma parsepipe_good:
  assumes "i \<le> length s" "good s i (parseexec n s i)" "\<And>l. i < l \<Longrightarrow> l \<le> length s \<Longrightarrow> good s l (parsepipe n s l)"
  shows "good s i (parsepipe (Suc n) s i)"
  unfolding parsepipe.simps
proof (rule good_pthen [OF assms(2)], goal_cases)
  case (1 c j)
  obtain b m where p: "peek s j ''|'' = (b, m)" by (metis surj_pair)
  obtain t sp l where g: "gettoken s m = (t, sp, l)" by (metis surj_pair)
  have "good s j (pthen (parsepipe n s l) (\<lambda>r i. Parsed (PIPE c r) i))" if b
    using that p by (intro good_right [OF 1(2) _ g]) (use assms(3) 1 in auto)
  then show ?case using p g 1 peek_ge [OF p] peek_le [OF 1(2) p] by (auto intro: goodI)
qed

lemma parseexec_good:
  assumes "i \<le> length s" "\<And>j. i \<le> j \<Longrightarrow> j < length s \<Longrightarrow> good s j (parseblock n s j)"
  shows "good s i (parseexec (Suc n) s i)"
proof -
  obtain b j where p: "peek s i ''('' = (b, j)" by (metis surj_pair)
  note j = peek_ge [OF p] peek_le [OF assms(1) p]
  have ok: "cmd_ok s (EXEC [])" by (simp add: MAXARGS_def)
  have "good s j (parseblock n s j)" if b using assms(2) peek_less p that by auto
  moreover have "good s j (pthen (parseredirs s (EXEC []) j) (\<lambda>ret i. parse_args s 0 ret i))"
  proof (cases "parseredirs s (EXEC []) j")
    case (Parsed c k)
    then have "j \<le> k" "k \<le> length s" "cmd_ok s c" "argc_of c \<le> 0"
      using parseredirs_good [OF j(2) ok] by (auto simp: good_def)
    then show ?thesis using Parsed parse_args_good [of k s c 0] good_mono [of s k _ j] by simp
  qed (use parseredirs_good [OF j(2) ok] in \<open>auto simp: good_def\<close>)
  ultimately show ?thesis using p j by (auto intro: good_mono)
qed

lemma parseblock_good:
  assumes "i \<le> length s" "\<And>l. i < l \<Longrightarrow> l \<le> length s \<Longrightarrow> good s l (parseline n s l)"
  shows "good s i (parseblock (Suc n) s i)"
proof -
  obtain b j where p: "peek s i ''('' = (b, j)" by (metis surj_pair)
  obtain t sp l where g: "gettoken s j = (t, sp, l)" by (metis surj_pair)
  have l: "i < l" "l \<le> length s" if b using consume [OF assms(1) _ g, of "''(''"] p that by auto
  have "good s l (pthen (parseline n s l) (\<lambda>cmd i. let (close, i) = peek s i '')''
      in if \<not> close then Bad ''syntax - missing )'' else let (_, _, i) = gettoken s i in parseredirs s cmd i))" if b
  proof (rule good_pthen, goal_cases)
    case 1
    then show ?case using assms(2) l that by simp
  next
    case (2 c k)
    obtain b2 m where p2: "peek s k '')'' = (b2, m)" by (metis surj_pair)
    obtain t2 sp2 q where g2: "gettoken s m = (t2, sp2, q)" by (metis surj_pair)
    have "k < q" "q \<le> length s" if b2 using consume [OF 2(2) _ g2, of "'')''"] p2 that by auto
    then show ?case
      using p2 g2 parseredirs_good [of q s c] 2(3) good_mono [of s q _ k] by (cases b2) simp_all
  qed
  then have "good s i (pthen (parseline n s l) (\<lambda>cmd i. let (close, i) = peek s i '')''
      in if \<not> close then Bad ''syntax - missing )'' else let (_, _, i) = gettoken s i in parseredirs s cmd i))" if b
    using that l by (intro good_mono [of s l _ i]) auto
  then show ?thesis using p g by simp
qed

lemma parse_good:
  "i \<le> length s \<Longrightarrow>
     (4 * (length s - i) + 4 \<le> n \<longrightarrow> good s i (parseline n s i)) \<and>
     (4 * (length s - i) + 3 \<le> n \<longrightarrow> good s i (parsepipe n s i)) \<and>
     (4 * (length s - i) + 2 \<le> n \<longrightarrow> good s i (parseexec n s i)) \<and>
     (i < length s \<longrightarrow> 4 * (length s - i) + 1 \<le> n \<longrightarrow> good s i (parseblock n s i))"
proof (induction n arbitrary: i)
  case (Suc n)
  note IH = Suc.IH
  have line: "good s l (parseline n s l)" if "i < l" "l \<le> length s" "4 * (length s - i) \<le> n" for l
    using IH [of l] that by auto
  show ?case
    using Suc.prems IH line
    by (intro conjI impI parseline_good parsepipe_good parseexec_good parseblock_good) auto
qed simp

section \<open>Zero-termination\<close>

lemma nulterminate_apply:
  "nulterminate c buf k = (if k \<in> snd ` set_cmd c then NUL else buf k)"
proof (induction c arbitrary: buf)
  case (EXEC argv)
  show ?case by (induction argv arbitrary: buf) auto
qed auto

lemma str_at_word:
  assumes "cstring s" "word_span s (q, e)" "\<forall>qe\<in>D. word_span s qe" "(q, e) \<in> D"
    and buf: "\<And>k. buf k = (if k \<in> snd ` D then NUL else char_at s k)"
  shows "str_at (Suc (length s)) buf q = take (e - q) (drop q s)"
proof -
  have qe: "q < e" "e \<le> length s" using assms(2) by (auto simp: word_span_def)
  have keep: "buf k = s ! k" if "q \<le> k" "k < e" for k
  proof -
    have "wordch (s ! k)" using assms(2) that by (auto simp: word_span_def)
    moreover have "\<not> wordch (s ! e')" if "(q', e') \<in> D" "e' < length s" for q' e'
      using assms(3) that by (auto simp: word_span_def)
    ultimately have "k \<notin> snd ` D" using that qe by auto
    then show ?thesis using buf that qe by (simp add: char_at_def)
  qed
  have "e \<in> snd ` D" using assms(4) by force
  then have e: "buf e = NUL" using buf by simp
  have split: "[q..<Suc (length s)] = [q..<e] @ e # [Suc e..<Suc (length s)]"
    using qe by (intro upt_split) auto
  have "map buf [q..<e] = take (e - q) (drop q s)"
    using keep qe by (auto intro!: nth_equalityI)
  moreover have "\<forall>c\<in>set (take (e - q) (drop q s)). c \<noteq> NUL"
    using assms(1) by (auto simp: cstring_def dest!: in_set_takeD in_set_dropD)
  ultimately show ?thesis unfolding str_at_def split using e by (simp add: takeWhile_append)
qed

text \<open>The text of a span of the line.\<close>

definition span_text :: "string \<Rightarrow> span \<Rightarrow> string" where
  "span_text s = (\<lambda>(q, e). take (e - q) (drop q s))"

lemma parsecmd_result:
  "(\<exists>m. parsecmd s = Panics m) \<or> (\<exists>c. parsecmd s = Command c (nulterminate c (char_at s)) \<and> cmd_ok s c)"
proof -
  have "good s 0 (parseline (parse_fuel s) s 0)"
    using parse_good [of 0 s "parse_fuel s"] by (simp add: parse_fuel_def)
  then show ?thesis
    by (cases "parseline (parse_fuel s) s 0") (auto simp: parsecmd_def good_def split: prod.splits)
qed

lemma parsecmd_strings:
  assumes "cstring s" "parsecmd s = Command c buf"
  shows "strings_of s buf c = map_cmd (span_text s) c"
proof -
  have c: "cmd_ok s c" "buf = nulterminate c (char_at s)" using parsecmd_result [of s] assms(2) by auto
  have "str_at (Suc (length s)) buf (fst qe) = span_text s qe" if "qe \<in> set_cmd c" for qe
    using str_at_word [OF assms(1), of "fst qe" "snd qe" "set_cmd c" buf] that c
    by (auto simp: cmd_ok_def span_text_def nulterminate_apply split: prod.splits)
  then show ?thesis unfolding strings_of_def by (intro cmd.map_cong) auto
qed

text \<open>
  C26. The parser of the shell always returns: for every line it either stops with an error message or
  yields a command in which no argument vector is full, so that its final null pointer fits, and in which
  every string the program is given, after \<open>nulterminate\<close> has overwritten the line, is exactly
  a maximal run of word characters of the line.
\<close>

theorem shell_parser_total:
  assumes "cstring s"
  shows "(\<exists>m. parsecmd s = Panics m) \<or>
    (\<exists>c buf. parsecmd s = Command c buf \<and> args_ok c \<and> (\<forall>qe\<in>set_cmd c. word_span s qe) \<and>
       strings_of s buf c = map_cmd (span_text s) c)"
  using parsecmd_result [of s] parsecmd_strings [OF assms] by (auto simp: cmd_ok_def)

theorem shell_parser_total_witness:
  "\<exists>buf. parsecmd ''ls -l >f'' = Command (REDIR (EXEC [(0, 2), (3, 5)]) (7, 8) 0x601 1) buf \<and>
     strings_of ''ls -l >f'' buf (REDIR (EXEC [(0, 2), (3, 5)]) (7, 8) 0x601 1) = REDIR (EXEC [''ls'', ''-l'']) ''f'' 0x601 1"
proof -
  have "case parsecmd ''ls -l >f'' of Command c buf \<Rightarrow> c = REDIR (EXEC [(0, 2), (3, 5)]) (7, 8) 0x601 1 | _ \<Rightarrow> False"
    by code_simp
  then obtain buf where p: "parsecmd ''ls -l >f'' = Command (REDIR (EXEC [(0, 2), (3, 5)]) (7, 8) 0x601 1) buf"
    by (auto split: parsed.splits)
  then show ?thesis
    using shell_parser_total [of "''ls -l >f''"] by (simp add: NUL_def span_text_def)
qed

end
