(* ===== verification/Sh_Print.thy ===== *)
theory Sh_Print
  imports Sh_Parse
begin

text \<open>
  The parser against the grammar: the tokens of a line, the tokens of a command with the parentheses it needs, and the proof
  level by level that the parser reads a command back from its tokens.
\<close>

section \<open>Tokens of a line\<close>

datatype tok = Sym char | App | Word string

abbreviation ws :: "char \<Rightarrow> bool" where
  "ws c \<equiv> c \<in> set whitespace"

lemma dropWhile_Cons_length: "dropWhile P s = c # r \<Longrightarrow> length r < length s"
  using length_dropWhile_le [of P s] by simp

function tokens :: "string \<Rightarrow> tok list" where
  "tokens s = (case dropWhile ws s of
      [] \<Rightarrow> []
    | c # r \<Rightarrow>
        if c = CHR ''>'' \<and> r \<noteq> [] \<and> hd r = CHR ''>'' then App # tokens (tl r)
        else if c \<in> set symbols then Sym c # tokens r
        else Word (c # takeWhile wordch r) # tokens (dropWhile wordch r))"
  by pat_completeness auto
termination
proof (relation "measure length", goal_cases)
  case (2 s c r)
  then show ?case using dropWhile_Cons_length [OF 2(1)] by simp
next
  case (3 s c r)
  then show ?case using dropWhile_Cons_length [OF 3(1)] by simp
next
  case (4 s c r)
  then show ?case using dropWhile_Cons_length [OF 4(1)] length_dropWhile_le [of wordch r] by simp
qed simp

declare tokens.simps [simp del]

lemma tokens_dropWhile: "tokens (dropWhile ws s) = tokens s"
  by (subst (1 2) tokens.simps) simp

lemma drop_skip_space: "i \<le> length s \<Longrightarrow> drop (skip_space s i) s = dropWhile ws (drop i s)"
proof (induction s i rule: skip_space.induct)
  case (1 s i)
  show ?case
  proof (cases "i < length s")
    case True
    then have "drop i s = s ! i # drop (Suc i) s" by (simp add: Cons_nth_drop_Suc)
    then show ?thesis using 1 True by (auto simp: skip_space.simps [of s i] strchr_None)
  next
    case False
    then have "skip_space s i = i" by (simp add: skip_space.simps [of s i])
    then show ?thesis using False by simp
  qed
qed

lemma drop_skip_word: "i \<le> length s \<Longrightarrow> drop (skip_word s i) s = dropWhile wordch (drop i s)"
proof (induction s i rule: skip_word.induct)
  case (1 s i)
  show ?case
  proof (cases "i < length s")
    case True
    then have "drop i s = s ! i # drop (Suc i) s" by (simp add: Cons_nth_drop_Suc)
    then show ?thesis using 1 True by (auto simp: skip_word_step [of s i] wordch_def strchr_None)
  next
    case False
    then have "skip_word s i = i" by (simp add: skip_word_step [of s i])
    then show ?thesis using False by simp
  qed
qed

lemma take_skip_word:
  assumes "i \<le> length s"
  shows "take (skip_word s i - i) (drop i s) = takeWhile wordch (drop i s)"
proof -
  have "length (drop (skip_word s i) s) = length (dropWhile wordch (drop i s))" using drop_skip_word assms by simp
  moreover have "length (drop i s) = length (takeWhile wordch (drop i s)) + length (dropWhile wordch (drop i s))"
    by (metis length_append takeWhile_dropWhile_id)
  ultimately have "skip_word s i - i = length (takeWhile wordch (drop i s))"
    using skip_word_ge [of i s] skip_word_le [OF assms] assms by simp
  then show ?thesis by (metis takeWhile_eq_take)
qed

text \<open>The tokens left at a position.\<close>

abbreviation toks :: "string \<Rightarrow> nat \<Rightarrow> tok list" where
  "toks s i \<equiv> tokens (drop i s)"

lemma toks_skip [simp]: "i \<le> length s \<Longrightarrow> toks s (skip_space s i) = toks s i"
  by (simp add: drop_skip_space tokens_dropWhile)

lemma toks_unfold:
  assumes "i \<le> length s" "q = skip_space s i"
  shows "toks s i = (if q = length s then []
    else if s ! q = CHR ''>'' \<and> Suc q < length s \<and> s ! Suc q = CHR ''>'' then App # toks s (Suc (Suc q))
    else if s ! q \<in> set symbols then Sym (s ! q) # toks s (Suc q)
    else Word (take (skip_word s q - q) (drop q s)) # toks s (skip_word s q))"
proof (cases "q = length s")
  case True
  then have d: "dropWhile ws (drop i s) = []" using drop_skip_space assms by (metis drop_all order_refl)
  show ?thesis unfolding tokens.simps [of "drop i s"] d using True by simp
next
  case False
  then have q: "q < length s" using skip_space_le [OF assms(1)] assms(2) by simp
  then have d: "dropWhile ws (drop i s) = s ! q # drop (Suc q) s"
    using drop_skip_space [OF assms(1)] assms(2) by (simp add: Cons_nth_drop_Suc)
  have t: "tl (drop (Suc q) s) = drop (Suc (Suc q)) s" by (simp add: drop_Suc tl_drop)
  have nws: "\<not> ws (s ! q)" using skip_space_stop q assms(2) by simp
  have "take (skip_word s q - q) (drop q s) = takeWhile wordch (drop q s)" using take_skip_word q by simp
  moreover have "drop q s = s ! q # drop (Suc q) s" using q by (simp add: Cons_nth_drop_Suc)
  ultimately show ?thesis
    unfolding tokens.simps [of "drop i s"] d
    using False nws drop_skip_word [of q s] q t
    by (auto simp: hd_drop_conv_nth wordch_def)
qed


lemma cstring_nth: "cstring s \<Longrightarrow> q < length s \<Longrightarrow> s ! q \<noteq> NUL"
  using nth_mem by (fastforce simp: cstring_def)

text \<open>The first character of a token, and the result of \<open>gettoken\<close> for it.\<close>

fun tok_char :: "tok \<Rightarrow> char" where
  "tok_char (Sym c) = c"
| "tok_char App = CHR ''>''"
| "tok_char (Word w) = (if w = [] then NUL else hd w)"

fun tok_code :: "tok \<Rightarrow> char" where
  "tok_code (Sym c) = c"
| "tok_code App = CHR ''+''"
| "tok_code (Word w) = CHR ''a''"

lemma gettoken_toks:
  assumes "cstring s" "i \<le> length s" "toks s i = t # ts"
  obtains q e j where "gettoken s i = (tok_code t, (q, e), j)" "toks s j = ts" "j \<le> length s"
    "\<And>w. t = Word w \<Longrightarrow> span_text s (q, e) = w"
proof -
  define q where "q = skip_space s i"
  have q: "q < length s" using assms(3) toks_unfold [OF assms(2) q_def] skip_space_le [OF assms(2)] q_def
    by (auto simp: le_less split: if_splits)
  then have c: "char_at s q = s ! q" "s ! q \<noteq> NUL" using assms(1) cstring_nth by (auto simp: char_at_def)
  obtain t' q' e j where g': "gettoken s i = (t', (q', e), j)" by (metis surj_pair)
  then have j: "q' = q" "j = skip_space s e" by (auto simp: gettoken_def Let_def q_def split: if_splits)
  note g = g' [unfolded j(1)]
  have "e \<le> length s \<and> toks s e = ts \<and> t' = tok_code t \<and> (\<forall>w. t = Word w \<longrightarrow> span_text s (q, e) = w)"
    using g assms(3) c q toks_unfold [OF assms(2) q_def] skip_word_le [of q s]
    by (auto simp: gettoken_def Let_def q_def [symmetric] span_text_def symbols_def char_at_def NUL_def split: if_splits)
  then show ?thesis using that [of q e j] g j(2) skip_space_le [of e s] by auto
qed

lemma gettoken_end:
  assumes "i \<le> length s" "toks s i = []"
  obtains q e j where "gettoken s i = (NUL, (q, e), j)" "toks s j = []" "j \<le> length s"
proof -
  have "skip_space s i = length s" using toks_unfold [OF assms(1) refl] assms(2) by (auto split: if_splits)
  moreover have "skip_space s (length s) = length s" by (simp add: skip_space_step [of s "length s"])
  ultimately have "gettoken s i = (NUL, (length s, length s), length s)" by (simp add: gettoken_def char_at_def Let_def)
  moreover have "toks s (length s) = []" by (subst tokens.simps) simp
  ultimately show ?thesis using that by blast
qed

lemma peek_toks:
  assumes "cstring s" "i \<le> length s"
  obtains j where "peek s i cs = (toks s i \<noteq> [] \<and> tok_char (hd (toks s i)) \<in> set cs, j)" "toks s j = toks s i" "j \<le> length s"
proof -
  define q where "q = skip_space s i"
  have q: "q \<le> length s" "toks s q = toks s i" using skip_space_le assms(2) q_def by auto
  have "q < length s \<Longrightarrow> s ! q \<noteq> NUL" using assms(1) cstring_nth by simp
  moreover have "q < length s \<Longrightarrow> s ! q \<notin> set symbols \<Longrightarrow> q < skip_word s q"
    using skip_word_progress [of q s] skip_space_stop [of s i] q_def by simp
  ultimately have "peek s i cs = (toks s i \<noteq> [] \<and> tok_char (hd (toks s i)) \<in> set cs, q)"
    using toks_unfold [OF assms(2) q_def] q(1)
    by (auto simp: peek_def Let_def q_def [symmetric] strchr_None char_at_def hd_drop_conv_nth hd_take split: if_splits)
  then show ?thesis using that q by blast
qed

section \<open>Commands as tokens\<close>

definition valid_word :: "string \<Rightarrow> bool" where
  "valid_word w \<longleftrightarrow> w \<noteq> [] \<and> cstring w \<and> (\<forall>c\<in>set w. wordch c)"

text \<open>The redirection that stands for a mode and a descriptor.\<close>

definition redir_tok :: "int \<Rightarrow> int \<Rightarrow> tok" where
  "redir_tok mode fd = (if (mode, fd) = redir_mode CHR ''<'' then Sym CHR ''<''
     else if (mode, fd) = redir_mode CHR ''>'' then Sym CHR ''>'' else App)"

definition valid_redir :: "int \<Rightarrow> int \<Rightarrow> bool" where
  "valid_redir mode fd \<longleftrightarrow> (mode, fd) \<in> redir_mode ` {CHR ''<'', CHR ''>'', CHR ''+''}"

primrec valid_cmd :: "string cmd \<Rightarrow> bool" where
  "valid_cmd (EXEC as) \<longleftrightarrow> length as < MAXARGS \<and> (\<forall>a\<in>set as. valid_word a)"
| "valid_cmd (REDIR c f mode fd) \<longleftrightarrow> valid_cmd c \<and> valid_word f \<and> valid_redir mode fd"
| "valid_cmd (PIPE l r) \<longleftrightarrow> valid_cmd l \<and> valid_cmd r"
| "valid_cmd (LIST l r) \<longleftrightarrow> valid_cmd l \<and> valid_cmd r"
| "valid_cmd (BACK c) \<longleftrightarrow> valid_cmd c"

text \<open>
  The grammar has the levels of a line, of a command that may go to the background, of a pipeline and of a
  single command. A command is put in parentheses where a higher level is expected than its own.
\<close>

primrec level :: "'a cmd \<Rightarrow> nat" where
  "level (LIST l r) = 0"
| "level (BACK c) = 1"
| "level (PIPE l r) = 2"
| "level (EXEC as) = 3"
| "level (REDIR c f mode fd) = 3"

definition wrap :: "nat \<Rightarrow> nat \<Rightarrow> tok list \<Rightarrow> tok list" where
  "wrap k l ts = (if k \<le> l then ts else Sym CHR ''('' # ts @ [Sym CHR '')''])"

primrec cmd_tokens :: "string cmd \<Rightarrow> tok list" where
  "cmd_tokens (EXEC as) = map Word as"
| "cmd_tokens (REDIR c f mode fd) = wrap 3 (level c) (cmd_tokens c) @ [redir_tok mode fd, Word f]"
| "cmd_tokens (PIPE l r) = wrap 3 (level l) (cmd_tokens l) @ Sym CHR ''|'' # wrap 2 (level r) (cmd_tokens r)"
| "cmd_tokens (BACK c) = wrap 1 (level c) (cmd_tokens c) @ [Sym CHR ''&'']"
| "cmd_tokens (LIST l r) = wrap 1 (level l) (cmd_tokens l) @ Sym CHR '';'' # cmd_tokens r"

section \<open>Parsing tokens\<close>

abbreviation at_toks :: "string \<Rightarrow> nat \<Rightarrow> tok list \<Rightarrow> bool" where
  "at_toks s i ts \<equiv> i \<le> length s \<and> toks s i = ts"

text \<open>The tokens do not start with one of the given symbols, as \<open>peek\<close> sees them.\<close>

definition unlike :: "tok list \<Rightarrow> string \<Rightarrow> bool" where
  "unlike ts cs \<longleftrightarrow> (ts = [] \<or> tok_char (hd ts) \<notin> set cs)"

lemma peek_unlike:
  assumes "cstring s" "at_toks s i ts" "unlike ts cs"
  obtains j where "peek s i cs = (False, j)" "at_toks s j ts"
proof -
  have "i \<le> length s" using assms(2) by simp
  then obtain j where "peek s i cs = (toks s i \<noteq> [] \<and> tok_char (hd (toks s i)) \<in> set cs, j)" "toks s j = toks s i" "j \<le> length s"
    by (rule peek_toks [OF assms(1)])
  then show ?thesis using that [of j] assms(2,3) by (auto simp: unlike_def)
qed

lemma peek_like:
  assumes "cstring s" "at_toks s i (t # ts)" "tok_char t \<in> set cs"
  obtains j where "peek s i cs = (True, j)" "at_toks s j (t # ts)"
proof -
  have "i \<le> length s" using assms(2) by simp
  then obtain j where "peek s i cs = (toks s i \<noteq> [] \<and> tok_char (hd (toks s i)) \<in> set cs, j)" "toks s j = toks s i" "j \<le> length s"
    by (rule peek_toks [OF assms(1)])
  then show ?thesis using that [of j] assms(2,3) by simp
qed

lemma take_tok:
  assumes "cstring s" "at_toks s i (t # ts)"
  obtains qe j where "gettoken s i = (tok_code t, qe, j)" "at_toks s j ts" "\<And>w. t = Word w \<Longrightarrow> span_text s qe = w"
proof -
  have "i \<le> length s" "toks s i = t # ts" using assms(2) by auto
  then obtain q e j where "gettoken s i = (tok_code t, (q, e), j)" "toks s j = ts" "j \<le> length s"
    "\<And>w. t = Word w \<Longrightarrow> span_text s (q, e) = w" by (rule gettoken_toks [OF assms(1)]) blast
  then show ?thesis using that [of "(q, e)" j] by blast
qed

text \<open>Peeking at a symbol and taking it.\<close>

lemma eat:
  assumes "cstring s" "at_toks s i (t # ts)" "tok_char t \<in> set cs"
  obtains j qe k where "peek s i cs = (True, j)" "gettoken s j = (tok_code t, qe, k)" "at_toks s k ts" "i < k"
proof -
  obtain j where j: "peek s i cs = (True, j)" "at_toks s j (t # ts)" using peek_like [OF assms] by blast
  obtain qe k where k: "gettoken s j = (tok_code t, qe, k)" "at_toks s k ts" using take_tok [OF assms(1) j(2)] by blast
  have "i < k" using consume(1,2) [OF _ j(1) k(1)] assms(2) by simp
  then show ?thesis using that j k by blast
qed

lemma redirs_stop:
  assumes "cstring s" "at_toks s i ts" "unlike ts ''<>''"
  obtains k where "parseredirs s c i = Parsed c k" "at_toks s k ts"
proof -
  obtain k where "peek s i ''<>'' = (False, k)" "at_toks s k ts" using peek_unlike [OF assms] by blast
  then show ?thesis using that [of k] parseredirs_stop by blast
qed

lemma redir_tok_cases:
  assumes "valid_redir mode fd"
  shows "tok_char (redir_tok mode fd) \<in> set ''<>''" "redir_mode (tok_code (redir_tok mode fd)) = (mode, fd)"
  using assms by (auto simp: valid_redir_def redir_tok_def)

lemma redirs_step:
  assumes "cstring s" "at_toks s i (redir_tok mode fd # Word f # ts)" "valid_redir mode fd"
  obtains qe k where "parseredirs s c i = parseredirs s (REDIR c qe mode fd) k" "at_toks s k ts" "span_text s qe = f"
proof -
  note rt = redir_tok_cases [OF assms(3)]
  obtain j x l where j: "peek s i ''<>'' = (True, j)" "gettoken s j = (tok_code (redir_tok mode fd), x, l)"
    "at_toks s l (Word f # ts)"
    using eat [OF assms(1,2) rt(1)] by blast
  obtain qe k where k: "gettoken s l = (tok_code (Word f), qe, k)" "at_toks s k ts" "\<And>w. Word f = Word w \<Longrightarrow> span_text s qe = w"
    using take_tok [OF assms(1) j(3)] by blast
  then show ?thesis using that parseredirs_go [OF j(1,2) k(1), of c] rt(2) by simp
qed

subsection \<open>Single commands\<close>

definition stop3 :: "tok list \<Rightarrow> bool" where
  "stop3 ts \<longleftrightarrow> ts = [] \<or> hd ts \<in> Sym ` set ''|)&;''"

definition rest3 :: "tok list \<Rightarrow> bool" where
  "rest3 ts \<longleftrightarrow> stop3 ts \<or> hd ts \<in> {Sym CHR ''<'', Sym CHR ''>'', App}"

definition ends3 :: "string \<Rightarrow> (span cmd \<Rightarrow> nat \<Rightarrow> pres) \<Rightarrow> bool" where
  "ends3 s K \<longleftrightarrow> (\<forall>d k ts. at_toks s k ts \<longrightarrow> stop3 ts \<longrightarrow> (\<exists>k'. K d k = Parsed d k' \<and> at_toks s k' ts))"

text \<open>\<open>parseexec\<close> has read the tokens of a command and is about to look for redirections.\<close>

definition P3 :: "tok list \<Rightarrow> string cmd \<Rightarrow> bool" where
  "P3 ts c \<longleftrightarrow> (\<forall>s n i rest. cstring s \<longrightarrow> at_toks s i (ts @ rest) \<longrightarrow> rest3 rest \<longrightarrow> 4 * (length s - i) + 2 \<le> n \<longrightarrow>
     (\<exists>c' j K. parseexec n s i = pthen (parseredirs s c' j) K \<and> at_toks s j rest \<and>
        map_cmd (span_text s) c' = c \<and> ends3 s K))"

lemma map_put_arg: "map_cmd f (put_arg a c) = put_arg (f a) (map_cmd f c)"
  by (induction c) auto

lemma word_unlike: "valid_word w \<Longrightarrow> set cs \<subseteq> set symbols \<Longrightarrow> unlike (Word w # ts) cs"
  by (cases w) (auto simp: unlike_def valid_word_def wordch_def)

lemma stop3_unlike: "stop3 ts \<Longrightarrow> unlike ts ''<>''"
  by (auto simp: stop3_def unlike_def)

lemma ends3_args:
  assumes "cstring s"
  shows "ends3 s (\<lambda>ret i. parse_args s argc ret i)"
  unfolding ends3_def
proof (intro allI impI)
  fix d k ts assume k: "at_toks s k ts" and stop: "stop3 ts"
  show "\<exists>k'. parse_args s argc d k = Parsed d k' \<and> at_toks s k' ts"
  proof (cases ts)
    case Nil
    then obtain j where j: "peek s k ''|)&;'' = (False, j)" "at_toks s j ts"
      using peek_unlike [OF assms k, of "''|)&;''"] by (auto simp: unlike_def)
    then obtain q e l where "gettoken s j = (NUL, (q, e), l)" "at_toks s l []"
      using gettoken_end [of j s] Nil by blast
    then show ?thesis using j Nil by (subst parse_args.simps) simp
  next
    case (Cons t us)
    then have "tok_char t \<in> set ''|)&;''" using stop by (auto simp: stop3_def)
    then obtain j where "peek s k ''|)&;'' = (True, j)" "at_toks s j ts"
      using peek_like [OF assms k [unfolded Cons]] Cons by blast
    then show ?thesis by (subst parse_args.simps) simp
  qed
qed

lemma args_step:
  assumes "cstring s" "at_toks s i (Word w # ts)" "valid_word w" "Suc argc < MAXARGS"
  obtains qe k where "pthen (parseredirs s c i) (\<lambda>ret i. parse_args s argc ret i) =
      pthen (parseredirs s (put_arg qe c) k) (\<lambda>ret i. parse_args s (Suc argc) ret i)"
    "at_toks s k ts" "span_text s qe = w"
proof -
  obtain j where j: "parseredirs s c i = Parsed c j" "at_toks s j (Word w # ts)"
    using redirs_stop [OF assms(1,2)] word_unlike [OF assms(3), of "''<>''"] by (auto simp: symbols_def)
  obtain l where l: "peek s j ''|)&;'' = (False, l)" "at_toks s l (Word w # ts)"
    using peek_unlike [OF assms(1) j(2)] word_unlike [OF assms(3), of "''|)&;''"] by (auto simp: symbols_def)
  obtain qe k where k: "gettoken s l = (CHR ''a'', qe, k)" "at_toks s k ts" "\<And>v. Word w = Word v \<Longrightarrow> span_text s qe = v"
    using take_tok [OF assms(1) l(2)] by auto
  have "parse_args s argc c j = pthen (parseredirs s (put_arg qe c) k) (\<lambda>ret i. parse_args s (Suc argc) ret i)"
    using l(1) k(1) assms(4) by (subst parse_args.simps) (simp add: NUL_def)
  then show ?thesis using that j(1) k by simp
qed

lemma pthen_Parsed: "pthen r f = Parsed c j \<Longrightarrow> \<exists>d i. r = Parsed d i \<and> f d i = Parsed c j"
  by (cases r) auto

lemma eat_sym:
  assumes "cstring s" "at_toks s i (Sym c # ts)"
  obtains j qe k where "peek s i [c] = (True, j)" "gettoken s j = (c, qe, k)" "at_toks s k ts" "i < k"
proof -
  have "tok_char (Sym c) \<in> set [c]" by simp
  from eat [OF assms this] that show ?thesis by (metis tok_code.simps(1))
qed

lemma args_loop:
  assumes "cstring s" "at_toks s i (map Word vs @ rest)" "\<forall>w\<in>set vs. valid_word w" "argc + length vs < MAXARGS"
    "map_cmd (span_text s) c = EXEC us"
  shows "\<exists>c' j. pthen (parseredirs s c i) (\<lambda>ret i. parse_args s argc ret i) =
      pthen (parseredirs s c' j) (\<lambda>ret i. parse_args s (argc + length vs) ret i) \<and>
    at_toks s j rest \<and> map_cmd (span_text s) c' = EXEC (us @ vs)"
  using assms(2-)
proof (induction vs arbitrary: i argc c us)
  case Nil
  then show ?case by (intro exI [of _ c] exI [of _ i]) simp
next
  case (Cons w vs)
  have w: "at_toks s i (Word w # map Word vs @ rest)" "valid_word w" "Suc argc < MAXARGS" using Cons.prems by auto
  obtain qe k where k: "pthen (parseredirs s c i) (\<lambda>ret i. parse_args s argc ret i) =
      pthen (parseredirs s (put_arg qe c) k) (\<lambda>ret i. parse_args s (Suc argc) ret i)"
    "at_toks s k (map Word vs @ rest)" "span_text s qe = w"
    using args_step [OF assms(1) w] by blast
  have "map_cmd (span_text s) (put_arg qe c) = EXEC (us @ [w])" using Cons.prems(4) k(3) by (simp add: map_put_arg)
  then show ?case using Cons.IH [OF k(2), of "Suc argc" "put_arg qe c" "us @ [w]"] Cons.prems k(1) by simp
qed

lemma P3_EXEC:
  assumes "length vs < MAXARGS" "\<forall>w\<in>set vs. valid_word w"
  shows "P3 (map Word vs) (EXEC vs)"
  unfolding P3_def
proof (intro allI impI)
  fix s n i rest
  assume s: "cstring s" and i: "at_toks s i (map Word vs @ rest)" and rest: "rest3 rest" and n: "4 * (length s - i) + 2 \<le> n"
  obtain m where m: "n = Suc m" using n by (cases n) auto
  have "unlike (map Word vs @ rest) ''(''"
    using rest word_unlike [of _ "''(''"] assms(2)
    by (cases vs) (auto simp: rest3_def stop3_def unlike_def symbols_def)
  then obtain j where j: "peek s i ''('' = (False, j)" "at_toks s j (map Word vs @ rest)"
    using peek_unlike [OF s i] by blast
  obtain c' k where "pthen (parseredirs s (EXEC []) j) (\<lambda>ret i. parse_args s 0 ret i) =
      pthen (parseredirs s c' k) (\<lambda>ret i. parse_args s (length vs) ret i)"
    "at_toks s k rest" "map_cmd (span_text s) c' = EXEC vs"
    using args_loop [OF s j(2) assms(2), of 0 "EXEC []" "[]"] assms(1) by auto
  then show "\<exists>c' j K. parseexec n s i = pthen (parseredirs s c' j) K \<and> at_toks s j rest \<and>
      map_cmd (span_text s) c' = EXEC vs \<and> ends3 s K"
    using j(1) m ends3_args [OF s, of "length vs"] by auto
qed

lemma P3D:
  assumes "P3 ts c" "cstring s" "at_toks s i (ts @ rest)" "rest3 rest" "4 * (length s - i) + 2 \<le> n"
  obtains c' j K where "parseexec n s i = pthen (parseredirs s c' j) K" "at_toks s j rest"
    "map_cmd (span_text s) c' = c" "ends3 s K"
  using assms(1) [unfolded P3_def, rule_format, OF assms(2-5)] by blast

lemma P3_REDIR:
  assumes "P3 ts c" "valid_redir mode fd"
  shows "P3 (ts @ [redir_tok mode fd, Word f]) (REDIR c f mode fd)"
  unfolding P3_def
proof (intro allI impI)
  fix s n i rest
  assume s: "cstring s" and i: "at_toks s i ((ts @ [redir_tok mode fd, Word f]) @ rest)" and n: "4 * (length s - i) + 2 \<le> n"
  have r: "rest3 (redir_tok mode fd # Word f # rest)" by (auto simp: rest3_def redir_tok_def)
  have i': "at_toks s i (ts @ redir_tok mode fd # Word f # rest)" using i by simp
  obtain c' j K where j: "parseexec n s i = pthen (parseredirs s c' j) K"
    "at_toks s j (redir_tok mode fd # Word f # rest)" "map_cmd (span_text s) c' = c" "ends3 s K"
    using P3D [OF assms(1) s i' r n] by blast
  obtain qe k where "parseredirs s c' j = parseredirs s (REDIR c' qe mode fd) k" "at_toks s k rest" "span_text s qe = f"
    using redirs_step [OF s j(2) assms(2)] by blast
  then show "\<exists>c' j K. parseexec n s i = pthen (parseredirs s c' j) K \<and> at_toks s j rest \<and>
      map_cmd (span_text s) c' = REDIR c f mode fd \<and> ends3 s K"
    using j by (intro exI [of _ "REDIR c' qe mode fd"] exI [of _ k] exI [of _ K]) simp
qed

text \<open>At the end of a single command the parser has its syntax tree.\<close>

lemma P3_end:
  assumes "P3 ts c" "cstring s" "at_toks s i (ts @ rest)" "stop3 rest" "4 * (length s - i) + 2 \<le> n"
  obtains c' j where "parseexec n s i = Parsed c' j" "at_toks s j rest" "map_cmd (span_text s) c' = c"
proof -
  have "rest3 rest" using assms(4) by (simp add: rest3_def)
  then obtain c' j K where j: "parseexec n s i = pthen (parseredirs s c' j) K" "at_toks s j rest"
    "map_cmd (span_text s) c' = c" "ends3 s K"
    using P3D [OF assms(1-3) _ assms(5)] by blast
  obtain k where k: "parseredirs s c' j = Parsed c' k" "at_toks s k rest"
    using redirs_stop [OF assms(2) j(2) stop3_unlike [OF assms(4)]] by blast
  obtain k' where "K c' k = Parsed c' k'" "at_toks s k' rest"
    using j(4) k(2) assms(4) unfolding ends3_def by blast
  then show ?thesis using that j k by simp
qed

subsection \<open>Pipelines, background commands and lists\<close>

definition stop2 :: "tok list \<Rightarrow> bool" where
  "stop2 ts \<longleftrightarrow> ts = [] \<or> hd ts \<in> Sym ` set '')&;''"

definition P2 :: "tok list \<Rightarrow> string cmd \<Rightarrow> bool" where
  "P2 ts c \<longleftrightarrow> (\<forall>s n i rest. cstring s \<longrightarrow> at_toks s i (ts @ rest) \<longrightarrow> stop2 rest \<longrightarrow> 4 * (length s - i) + 3 \<le> n \<longrightarrow>
     (\<exists>c' j. parsepipe n s i = Parsed c' j \<and> at_toks s j rest \<and> map_cmd (span_text s) c' = c))"

definition amps :: "string \<Rightarrow> span cmd \<Rightarrow> nat \<Rightarrow> pres" where
  "amps s c i = (let (c, i) = parse_amps s c i in Parsed c i)"

definition P1 :: "tok list \<Rightarrow> string cmd \<Rightarrow> bool" where
  "P1 ts c \<longleftrightarrow> (\<forall>s n i rest. cstring s \<longrightarrow> at_toks s i (ts @ rest) \<longrightarrow> stop2 rest \<longrightarrow> 4 * (length s - i) + 3 \<le> n \<longrightarrow>
     (\<exists>c' j. pthen (parsepipe n s i) (amps s) = amps s c' j \<and> at_toks s j rest \<and> map_cmd (span_text s) c' = c))"

definition stop0 :: "tok list \<Rightarrow> bool" where
  "stop0 ts \<longleftrightarrow> ts = [] \<or> hd ts = Sym CHR '')''"

definition P0 :: "tok list \<Rightarrow> string cmd \<Rightarrow> bool" where
  "P0 ts c \<longleftrightarrow> (\<forall>s n i rest. cstring s \<longrightarrow> at_toks s i (ts @ rest) \<longrightarrow> stop0 rest \<longrightarrow> 4 * (length s - i) + 4 \<le> n \<longrightarrow>
     (\<exists>c' j. parseline n s i = Parsed c' j \<and> at_toks s j rest \<and> map_cmd (span_text s) c' = c))"

lemma parse_ge:
  assumes "i \<le> length s"
  shows "4 * (length s - i) + 2 \<le> n \<Longrightarrow> parseexec n s i = Parsed c j \<Longrightarrow> i \<le> j"
    "4 * (length s - i) + 3 \<le> n \<Longrightarrow> pthen (parsepipe n s i) (amps s) = Parsed c j \<Longrightarrow> i \<le> j"
proof -
  show "4 * (length s - i) + 2 \<le> n \<Longrightarrow> parseexec n s i = Parsed c j \<Longrightarrow> i \<le> j"
    using parse_good [OF assms, of n] by (auto simp: good_def)
  assume n: "4 * (length s - i) + 3 \<le> n" and p: "pthen (parsepipe n s i) (amps s) = Parsed c j"
  have good: "good s i (parsepipe n s i)" using parse_good [OF assms, of n] n by simp
  obtain d k where d: "parsepipe n s i = Parsed d k" "amps s d k = Parsed c j" using pthen_Parsed [OF p] by blast
  then have "i \<le> k" "k \<le> length s" "cmd_ok s d" using good by (auto simp: good_def)
  then show "i \<le> j" using parse_amps_good [of k s d c j] d(2) by (auto simp: amps_def split: prod.splits)
qed

lemma P3_P2:
  assumes "P3 ts c"
  shows "P2 ts c"
  unfolding P2_def
proof (intro allI impI)
  fix s n i rest
  assume s: "cstring s" and i: "at_toks s i (ts @ rest)" and rest: "stop2 rest" and n: "4 * (length s - i) + 3 \<le> n"
  obtain m where m: "n = Suc m" "4 * (length s - i) + 2 \<le> m" using n by (cases n) auto
  have "stop3 rest" using rest by (auto simp: stop2_def stop3_def)
  then obtain c' j where j: "parseexec m s i = Parsed c' j" "at_toks s j rest" "map_cmd (span_text s) c' = c"
    using P3_end [OF assms s i _ m(2)] by blast
  have "unlike rest ''|''" using rest by (auto simp: stop2_def unlike_def)
  then obtain k where "peek s j ''|'' = (False, k)" "at_toks s k rest" using peek_unlike [OF s j(2)] by blast
  then show "\<exists>c' j. parsepipe n s i = Parsed c' j \<and> at_toks s j rest \<and> map_cmd (span_text s) c' = c"
    using j m by simp
qed

lemma P2_PIPE:
  assumes "P3 ts l" "P2 us r"
  shows "P2 (ts @ Sym CHR ''|'' # us) (PIPE l r)"
  unfolding P2_def
proof (intro allI impI)
  fix s n i rest
  assume s: "cstring s" and i: "at_toks s i ((ts @ Sym CHR ''|'' # us) @ rest)" and rest: "stop2 rest"
    and n: "4 * (length s - i) + 3 \<le> n"
  obtain m where m: "n = Suc m" "4 * (length s - i) + 2 \<le> m" using n by (cases n) auto
  have i': "at_toks s i (ts @ Sym CHR ''|'' # us @ rest)" using i by simp
  have "stop3 (Sym CHR ''|'' # us @ rest)" by (simp add: stop3_def)
  then obtain c' j where j: "parseexec m s i = Parsed c' j" "at_toks s j (Sym CHR ''|'' # us @ rest)" "map_cmd (span_text s) c' = l"
    using P3_end [OF assms(1) s i' _ m(2)] by blast
  obtain k qe q where q: "peek s j ''|'' = (True, k)" "gettoken s k = (CHR ''|'', qe, q)" "at_toks s q (us @ rest)" "j < q"
    using eat_sym [OF s j(2)] by blast
  have "4 * (length s - q) + 3 \<le> m" using q(3,4) parse_ge(1) [OF _ m(2) j(1)] i m(2) by auto
  then obtain d p where "parsepipe m s q = Parsed d p" "at_toks s p rest" "map_cmd (span_text s) d = r"
    using assms(2) [unfolded P2_def, rule_format, OF s q(3) rest] by blast
  then show "\<exists>c' j. parsepipe n s i = Parsed c' j \<and> at_toks s j rest \<and> map_cmd (span_text s) c' = PIPE l r"
    using j q(1,2) m by simp
qed


lemma P2_P1:
  assumes "P2 ts c"
  shows "P1 ts c"
  unfolding P1_def
proof (intro allI impI)
  fix s n i rest
  assume s: "cstring s" "at_toks s i (ts @ rest)" "stop2 rest" "4 * (length s - i) + 3 \<le> n"
  obtain c' j where "parsepipe n s i = Parsed c' j" "at_toks s j rest" "map_cmd (span_text s) c' = c"
    using assms [unfolded P2_def, rule_format, OF s] by blast
  then show "\<exists>c' j. pthen (parsepipe n s i) (amps s) = amps s c' j \<and> at_toks s j rest \<and> map_cmd (span_text s) c' = c"
    by auto
qed

lemma P1_BACK:
  assumes "P1 ts c"
  shows "P1 (ts @ [Sym CHR ''&'']) (BACK c)"
  unfolding P1_def
proof (intro allI impI)
  fix s n i rest
  assume s: "cstring s" and i: "at_toks s i ((ts @ [Sym CHR ''&'']) @ rest)" and n: "4 * (length s - i) + 3 \<le> n"
  have i': "at_toks s i (ts @ Sym CHR ''&'' # rest)" using i by simp
  have r: "stop2 (Sym CHR ''&'' # rest)" by (simp add: stop2_def)
  obtain c' j where j: "pthen (parsepipe n s i) (amps s) = amps s c' j" "at_toks s j (Sym CHR ''&'' # rest)" "map_cmd (span_text s) c' = c"
    using assms [unfolded P1_def, rule_format, OF s i' r n] by blast
  obtain k qe q where q: "peek s j ''&'' = (True, k)" "gettoken s k = (CHR ''&'', qe, q)" "at_toks s q rest"
    using eat_sym [OF s j(2)] by blast
  have "amps s c' j = amps s (BACK c') q"
    using q(1,2) by (simp add: amps_def parse_amps.simps [of s c' j])
  then show "\<exists>c' j. pthen (parsepipe n s i) (amps s) = amps s c' j \<and> at_toks s j rest \<and> map_cmd (span_text s) c' = BACK c"
    using j q(3) by (intro exI [of _ "BACK c'"] exI [of _ q]) simp
qed

lemma parseline_amps:
  "parseline (Suc n) s i = pthen (pthen (parsepipe n s i) (amps s)) (\<lambda>cmd i.
     let (semi, i) = peek s i '';''
     in if semi then let (_, _, i) = gettoken s i in pthen (parseline n s i) (\<lambda>r i. Parsed (LIST cmd r) i)
        else Parsed cmd i)"
  by (cases "parsepipe n s i") (simp_all add: amps_def split: prod.splits)

lemma amps_end:
  assumes "cstring s" "at_toks s i ts" "unlike ts ''&''"
  obtains k where "amps s c i = Parsed c k" "at_toks s k ts"
proof -
  obtain k where "peek s i ''&'' = (False, k)" "at_toks s k ts" using peek_unlike [OF assms] by blast
  then show ?thesis using that [of k] by (simp add: amps_def parse_amps.simps [of s c i])
qed

lemma P1_P0:
  assumes "P1 ts c"
  shows "P0 ts c"
  unfolding P0_def
proof (intro allI impI)
  fix s n i rest
  assume s: "cstring s" and i: "at_toks s i (ts @ rest)" and rest: "stop0 rest" and n: "4 * (length s - i) + 4 \<le> n"
  obtain m where m: "n = Suc m" "4 * (length s - i) + 3 \<le> m" using n by (cases n) auto
  have "stop2 rest" and u: "unlike rest ''&''" "unlike rest '';''" using rest by (auto simp: stop2_def stop0_def unlike_def)
  then obtain c' j where j: "pthen (parsepipe m s i) (amps s) = amps s c' j" "at_toks s j rest" "map_cmd (span_text s) c' = c"
    using assms [unfolded P1_def, rule_format, OF s i _ m(2)] by blast
  obtain k where k: "amps s c' j = Parsed c' k" "at_toks s k rest" using amps_end [OF s j(2) u(1)] by blast
  obtain l where "peek s k '';'' = (False, l)" "at_toks s l rest" using peek_unlike [OF s k(2) u(2)] by blast
  then show "\<exists>c' j. parseline n s i = Parsed c' j \<and> at_toks s j rest \<and> map_cmd (span_text s) c' = c"
    unfolding m(1) parseline_amps using j k by simp
qed

lemma P0_LIST:
  assumes "P1 ts l" "P0 us r"
  shows "P0 (ts @ Sym CHR '';'' # us) (LIST l r)"
  unfolding P0_def
proof (intro allI impI)
  fix s n i rest
  assume s: "cstring s" and i: "at_toks s i ((ts @ Sym CHR '';'' # us) @ rest)" and rest: "stop0 rest"
    and n: "4 * (length s - i) + 4 \<le> n"
  obtain m where m: "n = Suc m" "4 * (length s - i) + 3 \<le> m" using n by (cases n) auto
  have i': "at_toks s i (ts @ Sym CHR '';'' # us @ rest)" using i by simp
  have r: "stop2 (Sym CHR '';'' # us @ rest)" "unlike (Sym CHR '';'' # us @ rest) ''&''" by (simp_all add: stop2_def unlike_def)
  obtain c' j where j: "pthen (parsepipe m s i) (amps s) = amps s c' j" "at_toks s j (Sym CHR '';'' # us @ rest)"
    "map_cmd (span_text s) c' = l"
    using assms(1) [unfolded P1_def, rule_format, OF s i' r(1) m(2)] by blast
  obtain k where k: "amps s c' j = Parsed c' k" "at_toks s k (Sym CHR '';'' # us @ rest)" using amps_end [OF s j(2) r(2)] by blast
  obtain x qe q where q: "peek s k '';'' = (True, x)" "gettoken s x = (CHR '';'', qe, q)" "at_toks s q (us @ rest)" "k < q"
    using eat_sym [OF s k(2)] by blast
  have "i \<le> k" using parse_ge(2) [OF _ m(2)] i j(1) k(1) by auto
  then have "4 * (length s - q) + 4 \<le> m" using q(3,4) m(2) by auto
  then obtain d p where "parseline m s q = Parsed d p" "at_toks s p rest" "map_cmd (span_text s) d = r"
    using assms(2) [unfolded P0_def, rule_format, OF s q(3) rest] by blast
  then show "\<exists>c' j. parseline n s i = Parsed c' j \<and> at_toks s j rest \<and> map_cmd (span_text s) c' = LIST l r"
    unfolding m(1) parseline_amps using j k q(1,2) by simp
qed

lemma P3_block:
  assumes "P0 ts c"
  shows "P3 (Sym CHR ''('' # ts @ [Sym CHR '')'']) c"
  unfolding P3_def
proof (intro allI impI)
  fix s n i rest
  assume s: "cstring s" and i: "at_toks s i ((Sym CHR ''('' # ts @ [Sym CHR '')'']) @ rest)"
    and n: "4 * (length s - i) + 2 \<le> n"
  have i': "at_toks s i (Sym CHR ''('' # ts @ Sym CHR '')'' # rest)" using i by simp
  obtain j where j: "peek s i ''('' = (True, j)" "at_toks s j (Sym CHR ''('' # ts @ Sym CHR '')'' # rest)"
    using peek_like [OF s i', of "''(''"] by (metis list.set_intros(1) tok_char.simps(1))
  obtain k qe q where q: "peek s j ''('' = (True, k)" "gettoken s k = (CHR ''('', qe, q)"
    "at_toks s q (ts @ Sym CHR '')'' # rest)" "j < q"
    using eat_sym [OF s j(2)] by blast
  have ij: "i \<le> j" "j < length s" using peek_less [OF j(1)] by auto
  then have "\<exists>m. n = Suc (Suc m) \<and> 4 * (length s - q) + 4 \<le> m" using n q(3,4)
    by (intro exI [of _ "n - 2"]) auto
  then obtain m where m: "n = Suc (Suc m)" "4 * (length s - q) + 4 \<le> m" by blast
  have "stop0 (Sym CHR '')'' # rest)" by (simp add: stop0_def)
  then obtain c' l where l: "parseline m s q = Parsed c' l" "at_toks s l (Sym CHR '')'' # rest)" "map_cmd (span_text s) c' = c"
    using assms [unfolded P0_def, rule_format, OF s q(3) _ m(2)] by blast
  obtain x qe2 p where p: "peek s l '')'' = (True, x)" "gettoken s x = (CHR '')'', qe2, p)" "at_toks s p rest"
    using eat_sym [OF s l(2)] by blast
  have "parseexec n s i = pthen (parseredirs s c' p) Parsed"
    using m j(1) q(1,2) l(1) p(1,2) by (cases "parseredirs s c' p") simp_all
  moreover have "ends3 s Parsed" by (auto simp: ends3_def)
  ultimately show "\<exists>c' j K. parseexec n s i = pthen (parseredirs s c' j) K \<and> at_toks s j rest \<and>
      map_cmd (span_text s) c' = c \<and> ends3 s K"
    using p(3) l(3) by blast
qed

definition parses :: "nat \<Rightarrow> tok list \<Rightarrow> string cmd \<Rightarrow> bool" where
  "parses k = (if k = 0 then P0 else if k = 1 then P1 else if k = 2 then P2 else P3)"

lemma parses_mono: "parses l ts c \<Longrightarrow> k \<le> l \<Longrightarrow> l \<le> 3 \<Longrightarrow> parses k ts c"
  by (auto simp: parses_def numeral_3_eq_3 numeral_2_eq_2 le_Suc_eq P3_P2 P2_P1 P1_P0 split: if_splits)

lemma level_le: "level c \<le> 3"
  by (cases c) auto

lemma parses_wrap:
  assumes "parses (level c) ts c" "k \<le> 3"
  shows "parses k (wrap k (level c) ts) c"
proof (cases "k \<le> level c")
  case True
  then show ?thesis using parses_mono [OF assms(1) True] level_le [of c] by (simp add: wrap_def)
next
  case False
  have "P0 ts c" using parses_mono [OF assms(1), of 0] level_le [of c] by (simp add: parses_def)
  then have "parses 3 (Sym CHR ''('' # ts @ [Sym CHR '')'']) c" using P3_block by (simp add: parses_def)
  then show ?thesis using parses_mono [of 3 _ c k] assms(2) False by (simp add: wrap_def)
qed

lemma cmd_parses: "valid_cmd c \<Longrightarrow> parses (level c) (cmd_tokens c) c"
proof (induction c)
  case (EXEC as)
  then show ?case using P3_EXEC by (simp add: parses_def)
next
  case (REDIR c f mode fd)
  then show ?case using P3_REDIR parses_wrap [of c _ 3] by (simp add: parses_def)
next
  case (PIPE l r)
  then show ?case using P2_PIPE parses_wrap [of l _ 3] parses_wrap [of r _ 2] by (simp add: parses_def)
next
  case (LIST l r)
  then show ?case using P0_LIST parses_wrap [of l _ 1] parses_wrap [of r _ 0] by (simp add: parses_def wrap_def)
next
  case (BACK c)
  then show ?case using P1_BACK parses_wrap [of c _ 1] by (simp add: parses_def)
qed

lemma parsecmd_tokens:
  assumes "cstring s" "valid_cmd c" "tokens s = cmd_tokens c"
  shows "\<exists>c' buf. parsecmd s = Command c' buf \<and> map_cmd (span_text s) c' = c"
proof -
  have "P0 (cmd_tokens c) c" using parses_mono [OF cmd_parses [OF assms(2)], of 0] level_le [of c] by (simp add: parses_def)
  moreover have "at_toks s 0 (cmd_tokens c @ [])" "stop0 []" "4 * (length s - 0) + 4 \<le> parse_fuel s"
    using assms(3) by (simp_all add: stop0_def parse_fuel_def)
  ultimately obtain c' j where c': "parseline (parse_fuel s) s 0 = Parsed c' j" "at_toks s j []" "map_cmd (span_text s) c' = c"
    using assms(1) unfolding P0_def by blast
  have "skip_space s j = length s" using toks_unfold [of j s, OF _ refl] c'(2) by (auto split: if_splits)
  then show ?thesis using c' by (simp add: parsecmd_def peek_def Let_def)
qed

text \<open>
  C25. The shell's parser inverts printing: for every command with valid words and redirections, every line
  with its tokens, whatever the white space between them and with parentheses where the grammar
  needs them, is parsed to exactly that command, and the strings which \<open>runcmd\<close> then
  reads from the zero-terminated line are its words.
\<close>

theorem shell_parse_print:
  assumes "cstring s" "valid_cmd c" "tokens s = cmd_tokens c"
  shows "\<exists>c' buf. parsecmd s = Command c' buf \<and> strings_of s buf c' = c"
proof -
  obtain c' buf where c': "parsecmd s = Command c' buf" "map_cmd (span_text s) c' = c" using parsecmd_tokens [OF assms] by blast
  then show ?thesis using parsecmd_strings [OF assms(1) c'(1)] by auto
qed


theorem shell_parse_print_witness:
  "\<exists>c' buf. parsecmd ''cat<f | wc -l; (a;b)&'' = Command c' buf \<and>
     strings_of ''cat<f | wc -l; (a;b)&'' buf c' =
       LIST (PIPE (REDIR (EXEC [''cat'']) ''f'' 0 0) (EXEC [''wc'', ''-l''])) (BACK (LIST (EXEC [''a'']) (EXEC [''b''])))"
proof (rule shell_parse_print)
  show "cstring ''cat<f | wc -l; (a;b)&''" by (simp add: NUL_def)
  show "valid_cmd (LIST (PIPE (REDIR (EXEC [''cat'']) ''f'' 0 0) (EXEC [''wc'', ''-l''])) (BACK (LIST (EXEC [''a'']) (EXEC [''b'']))))"
    by (auto simp: MAXARGS_def valid_word_def wordch_def whitespace_def symbols_def NUL_def valid_redir_def redir_mode_def O_RDONLY_def)
  show "tokens ''cat<f | wc -l; (a;b)&'' =
      cmd_tokens (LIST (PIPE (REDIR (EXEC [''cat'']) ''f'' 0 0) (EXEC [''wc'', ''-l''])) (BACK (LIST (EXEC [''a'']) (EXEC [''b'']))))"
    by code_simp
qed

end
