(* ===== verification/Sh_Run.thy ===== *)
theory Sh_Run
  imports Sh
begin

text \<open>
  What \<open>runcmd\<close> does with the descriptors of a process: pipes, redirections, and the three descriptors that the
  shell opens before it reads commands.
\<close>

section \<open>Descriptors\<close>

lemma lowest_is:
  assumes "T fd = None" "fd < NOFILE" "\<forall>d<fd. T d \<noteq> None"
  shows "lowest T = Some fd"
  using assms by (auto simp: lowest_def find_Some_iff intro!: exI [of _ fd])

lemma sh_open_Some:
  "sh_open x T = Some (fd, T') \<Longrightarrow> T' = T(fd \<mapsto> x) \<and> T fd = None \<and> fd < NOFILE \<and> (\<forall>d<fd. T d \<noteq> None)"
  using lowest_Some [of T fd] by (auto simp: sh_open_def)

lemma sh_pipe_Some:
  assumes "sh_pipe nm T = Some (p0, p1, T')"
  shows "T' = T(p0 \<mapsto> PipeRead nm, p1 \<mapsto> PipeWrite nm)" "T p0 = None" "T p1 = None" "p0 \<noteq> p1" "p0 < NOFILE" "p1 < NOFILE"
    "T d \<noteq> None \<Longrightarrow> d \<noteq> p0 \<and> d \<noteq> p1"
  using assms by (auto simp: sh_pipe_def split: option.splits dest!: sh_open_Some split: if_splits)

lemma sh_dup_lowest:
  "T fd = Some x \<Longrightarrow> T d = None \<Longrightarrow> d < NOFILE \<Longrightarrow> \<forall>e<d. T e \<noteq> None \<Longrightarrow> sh_dup fd T = T(d \<mapsto> x)"
  by (simp add: sh_dup_def sh_open_def lowest_is)



lemma redirection_wiring:
  assumes "T 0 \<noteq> None \<or> fd = 0" "fd = 0 \<or> fd = 1" "o_open w f mode"
  shows "runcmd w (REDIR c f mode (int fd)) nm T = runcmd w c nm (T(fd \<mapsto> Opened f mode))"
proof -
  have "lowest (T(fd := None)) = Some fd"
    using assms(1,2) by (intro lowest_is) (auto simp: NOFILE_def)
  then show ?thesis using assms(3) by (simp add: sh_close_def sh_open_def)
qed

text \<open>Before it reads commands, the shell has opened its three standard descriptors and no other.\<close>

lemma sh_console_opens:
  assumes "o_open w ''console'' O_RDWR" "T 3 = None"
  shows "(\<forall>d<3. sh_console w T d \<noteq> None) \<and> (\<forall>d. 3 \<le> d \<or> T d \<noteq> None \<longrightarrow> sh_console w T d = T d)"
  using assms
proof (induction w T rule: sh_console.induct)
  case (1 w T)
  let ?c = "Opened ''console'' O_RDWR"
  have "lowest T \<noteq> None"
    using "1.prems"(2) unfolding lowest_def find_None_iff not_not by (intro exI [of _ 3]) (simp add: NOFILE_def)
  then obtain fd where fd: "lowest T = Some fd" by blast
  then have o: "sh_open ?c T = Some (fd, T(fd \<mapsto> ?c))" by (simp add: sh_open_def)
  note low = lowest_Some [OF fd]
  have le: "fd \<le> 3" using low "1.prems"(2) by (meson not_le_imp_less)
  have eq: "sh_console w T = (if 3 \<le> fd then sh_close fd (T(fd \<mapsto> ?c)) else sh_console w (T(fd \<mapsto> ?c)))"
    using "1.prems"(1) o by (subst sh_console.simps) simp
  show ?case
  proof (cases "3 \<le> fd")
    case True
    then have "sh_console w T = T" using eq low by (auto simp: sh_close_def fun_eq_iff)
    then show ?thesis using low True by auto
  next
    case False
    define U where "U = T(fd \<mapsto> ?c)"
    have "U 3 = None" using "1.prems"(2) False by (simp add: U_def)
    then have "(\<forall>d<3. sh_console w U d \<noteq> None) \<and> (\<forall>d. 3 \<le> d \<or> U d \<noteq> None \<longrightarrow> sh_console w U d = U d)"
      by (intro "1.IH" [of "(fd, U)" fd U]) (use "1.prems"(1) o False in \<open>simp_all add: U_def [symmetric]\<close>)
    then show ?thesis using eq False low by (auto simp: U_def [symmetric]) (auto simp: U_def)
  qed
qed

end
