(* ===== verification/Spec2Isabelle.thy ===== *)
theory Spec2Isabelle
  imports Log_Txn Mkfs_Image Switching Boot Grep Umalloc Rhtest Sh_Print Sh_Run
begin

text \<open>
  A verification library for xv6-riscv with user threads: the kernel under \<^verbatim>\<open>src/xv6-riscv/kernel\<close>, the user
  programs and libraries under \<^verbatim>\<open>src/xv6-riscv/user\<close> and the image builder \<^verbatim>\<open>src/xv6-riscv/mkfs\<close>.

  \<^bold>\<open>The program and its parts.\<close> A hart starts in machine mode in \<^verbatim>\<open>entry.S\<close> and \<^verbatim>\<open>start.c\<close> and enters \<open>main\<close> in supervisor
  mode. The kernel gives out physical pages (\<^verbatim>\<open>kalloc.c\<close>), builds Sv39 page tables (\<^verbatim>\<open>vm.c\<close>), runs processes and threads
  (\<^verbatim>\<open>proc.c\<close>) that enter it through the trampoline and \<^verbatim>\<open>trap.c\<close>, and offers system calls (\<^verbatim>\<open>syscall.c\<close>, \<^verbatim>\<open>sysproc.c\<close>,
  \<^verbatim>\<open>sysfile.c\<close>, \<^verbatim>\<open>exec.c\<close>). Files are open file objects and pipes (\<^verbatim>\<open>file.c\<close>, \<^verbatim>\<open>pipe.c\<close>) over inodes and
  directories (\<^verbatim>\<open>fs.c\<close>), which change the disk in transactions (\<^verbatim>\<open>log.c\<close>) through a buffer cache (\<^verbatim>\<open>bio.c\<close>) and the
  virtio driver (\<^verbatim>\<open>virtio_disk.c\<close>). Mutual exclusion comes from spin locks and sleep locks. \<^verbatim>\<open>mkfs.c\<close> builds the first disk image on the host. User programs
  link \<^verbatim>\<open>ulib.c\<close>, \<^verbatim>\<open>printf.c\<close> and \<^verbatim>\<open>umalloc.c\<close>.

  \<^bold>\<open>Conventions of the model.\<close> Kernel functions take the state and return \<open>Ret value state\<close>, or \<open>Halt reason state\<close>
  when control does not come back: a panic, an access that the language leaves undefined (\<open>Fault\<close>), a hart spinning on a lock,
  a process that went to sleep or was switched out, or spent fuel (\<^verbatim>\<open>Prelude\<close>). The state is one record that grows from theory
  to theory: locks and memory, the free list, the process table, sleep locks, the disk and the cache, the log, inodes, the
  console, files and pipes, the disk driver, traps. Every operation is polymorphic in the rest of the record, so that what it cannot see it cannot change. Machine
  integers are words where they wrap; sizes and counters that the code keeps small are naturals. A function that sleeps is
  given as what it does until it sleeps and what it does when it is woken. Device registers and host files are inputs of the
  model, streams or lists.

  \<^bold>\<open>Theories, sources and what is shown.\<close>

  \<^item> \<^verbatim>\<open>Prelude\<close>, \<^verbatim>\<open>Riscv\<close>, \<^verbatim>\<open>CString\<close>, \<^verbatim>\<open>Pages\<close>: results, address arithmetic of \<^verbatim>\<open>riscv.h\<close> and
    \<^verbatim>\<open>memlayout.h\<close>, \<^verbatim>\<open>string.c\<close>, and byte memory seen as pages. \<open>memmove\<close> equals a simultaneous copy for overlapping
    ranges; \<open>safestrcpy\<close> and \<open>strncpy\<close> write exactly the bytes they should.
  \<^item> \<^verbatim>\<open>Machine\<close>, \<^verbatim>\<open>Assembly\<close>, \<^verbatim>\<open>Switching\<close>, \<^verbatim>\<open>Boot\<close>: a hart with its control registers and every accessor of
    \<^verbatim>\<open>riscv.h\<close>; \<^verbatim>\<open>entry.S\<close>, \<^verbatim>\<open>start.c\<close>, \<^verbatim>\<open>swtch.S\<close>, \<^verbatim>\<open>kernelvec.S\<close> and \<^verbatim>\<open>trampoline.S\<close> as instruction
    lists. A user program gets its registers back after a trap, a thread after a switch, kernel code after an interrupt and any code after a
    timer interrupt; a hart reaches \<open>main\<close> with everything that these need.
  \<^item> \<^verbatim>\<open>Spinlock\<close>: \<^verbatim>\<open>spinlock.c\<close> and the interrupt nesting, with an interleaving of harts as a step relation. At most one hart
    holds a lock, \<open>holding\<close> is exact, and interrupts come back on with the outermost \<open>pop_off\<close> only.
  \<^item> \<^verbatim>\<open>Kalloc\<close>: \<^verbatim>\<open>kalloc.c\<close> with the free list threaded through the pages. After \<open>kinit\<close> the list is all of RAM, and any
    number of allocations are different pages.
  \<^item> \<^verbatim>\<open>Vm\<close>, \<^verbatim>\<open>Vm_Tree\<close>, \<^verbatim>\<open>Vm_Map\<close>, \<^verbatim>\<open>Vm_Copy\<close>, \<^verbatim>\<open>Vm_User\<close>: \<^verbatim>\<open>vm.c\<close>. Page tables are trees whose pages are
    disjoint; \<open>mappages\<close>, \<open>uvmalloc\<close>, \<open>uvmdealloc\<close>, \<open>uvmcopy\<close> and \<open>copytable\<close> do to the address space what they should and
    to the free list as well, on failure too; what \<open>copyout\<close> writes \<open>copyin\<close> reads, and \<open>copyinstr\<close> reads strings.
  \<^item> \<^verbatim>\<open>Printf\<close>, \<^verbatim>\<open>Console\<close>: \<^verbatim>\<open>printf.c\<close> of kernel and user, \<^verbatim>\<open>uart.c\<close>, \<^verbatim>\<open>console.c\<close>.
  \<^item> \<^verbatim>\<open>Proc\<close>, \<^verbatim>\<open>Sleeplock\<close>, \<^verbatim>\<open>Life\<close>: \<^verbatim>\<open>proc.c\<close> and \<^verbatim>\<open>sleeplock.c\<close>: the process table, the scheduler, sleep and
    wakeup, fork, exit, wait and the threads.
  \<^item> \<^verbatim>\<open>Bio\<close>, \<^verbatim>\<open>Bio_List\<close>, \<^verbatim>\<open>Bio_Cache\<close>, \<^verbatim>\<open>Bio_View\<close>, \<^verbatim>\<open>Bio_Store\<close>, with \<^verbatim>\<open>Updates\<close>, \<^verbatim>\<open>Sleep_Laws\<close> and
    \<^verbatim>\<open>Start\<close>: \<^verbatim>\<open>bio.c\<close>. The LRU list keeps its shape; the cache refines a store of blocks; its interface to the log is the
    locale \<open>block_cache\<close>.
  \<^item> \<^verbatim>\<open>Log\<close>, \<^verbatim>\<open>Log_Laws\<close>, \<^verbatim>\<open>Log_Crash\<close>, \<^verbatim>\<open>Log_Txn\<close>: \<^verbatim>\<open>log.c\<close> over that interface. A transaction is all or
    nothing under a crash at any block write, also when recovery crashes again and again.
  \<^item> \<^verbatim>\<open>Fs\<close>, \<^verbatim>\<open>File\<close>, \<^verbatim>\<open>Virtio\<close>, \<^verbatim>\<open>Exec\<close>, \<^verbatim>\<open>Sysfile\<close>, \<^verbatim>\<open>Trap\<close>: \<^verbatim>\<open>fs.c\<close>, \<^verbatim>\<open>file.c\<close>, \<^verbatim>\<open>pipe.c\<close>,
    \<^verbatim>\<open>virtio_disk.c\<close>, \<^verbatim>\<open>exec.c\<close>, \<^verbatim>\<open>sysfile.c\<close>, \<^verbatim>\<open>syscall.c\<close>, \<^verbatim>\<open>sysproc.c\<close>, \<^verbatim>\<open>trap.c\<close>, \<^verbatim>\<open>plic.c\<close> and
    \<^verbatim>\<open>main.c\<close>.
  \<^item> \<^verbatim>\<open>Mkfs\<close>, \<^verbatim>\<open>Mkfs_Blocks\<close>, \<^verbatim>\<open>Mkfs_Append\<close>, \<^verbatim>\<open>Mkfs_Image\<close>: \<^verbatim>\<open>mkfs.c\<close> on the disk layout that the kernel
    reads. The image has the superblock, the root directory, the files and an exact bitmap.
  \<^item> \<^verbatim>\<open>Ulib\<close>, \<^verbatim>\<open>Grep\<close>, \<^verbatim>\<open>Ucmds\<close>, \<^verbatim>\<open>Rhtest\<close>, \<^verbatim>\<open>Umalloc\<close>: \<^verbatim>\<open>ulib.c\<close>, \<^verbatim>\<open>grep.c\<close>, the commands \<^verbatim>\<open>cat.c\<close>, \<^verbatim>\<open>echo.c\<close>,
    \<^verbatim>\<open>ls.c\<close>, \<^verbatim>\<open>find.c\<close>, \<^verbatim>\<open>wc.c\<close>, the test library \<^verbatim>\<open>rhtest.c\<close> and the exercises \<^verbatim>\<open>warmup.c\<close> and
    \<^verbatim>\<open>arraylist.c\<close>. The matcher decides the regular expressions it is documented to match, grep prints the matching lines, the
    buffers that grow refine lists (locale \<open>append_buffer\<close>, interpreted for both). The allocator \<^verbatim>\<open>umalloc.c\<close> answers every call, hands out disjoint blocks and loses no
    memory.
  \<^item> \<^verbatim>\<open>Sh\<close>, \<^verbatim>\<open>Sh_Parse\<close>, \<^verbatim>\<open>Sh_Print\<close>, \<^verbatim>\<open>Sh_Run\<close>: \<^verbatim>\<open>sh.c\<close>. The parser is total, reads back what is printed from a
    syntax tree, and a pipeline is wired as it is written.

  \<^bold>\<open>Bounds.\<close> Loops are functions with a termination proof. Where a loop may not end it is a partial function, and that it returns is part of
  what is shown. Fuel occurs in the shell parser, \<open>4 * length + 4\<close> for a line, which is shown to be enough; in the walks of the buffer list, where the number of
  buffers is enough because the list invariant holds; in the input loop of the serial port and the wait for the disk, which end when the device
  has no more input or has finished; and in \<open>freewalk\<close>, whose depth is that of a page table. The recursion of \<open>find\<close> ends because
  the path buffer is finite. Page tables cover addresses below \<open>MAXVA\<close>; the log holds
  \<open>LOGSIZE\<close> blocks. The bound on the files in the theorem on mkfs, four blocks for every buffer and name, is sufficient, not sharp.

  \<^bold>\<open>Not modelled.\<close> \<^verbatim>\<open>ramdisk.c\<close> is not part of the build and uses fields that no structure has. \<^verbatim>\<open>defs.h\<close>,
  \<^verbatim>\<open>user.h\<close> and \<^verbatim>\<open>types.h\<close> only declare. \<^verbatim>\<open>usertests.c\<close>, \<^verbatim>\<open>grind.c\<close>, \<^verbatim>\<open>forktest.c\<close>, \<^verbatim>\<open>stressfs.c\<close>,
  \<^verbatim>\<open>memtest.c\<close>, \<^verbatim>\<open>xv6test.c\<close>, \<^verbatim>\<open>zombie.c\<close>, \<^verbatim>\<open>init.c\<close>, \<^verbatim>\<open>kill.c\<close>, \<^verbatim>\<open>ln.c\<close>, \<^verbatim>\<open>mkdir.c\<close>,
  \<^verbatim>\<open>rm.c\<close> and \<^verbatim>\<open>sleep.c\<close> issue system calls and print what came back; they have no logic of their own, and what they
  exercise is the kernel. \<^verbatim>\<open>initcode.S\<close> is represented by the bytes in \<^verbatim>\<open>proc.c\<close> made from it. The memory model of the hardware
  below the locks, stale TLB entries, the timing of devices and host input and output errors are outside the model.
\<close>


end
